(* ===== verification/Prelude.thy ===== *)
theory Prelude
  imports Main "HOL-Library.Word"
begin

text \<open>
  The vocabulary shared by every component of the kernel model: machine integer types, the
  outcomes of kernel code, the combinators in which C statements are written, and the generic
  lemmas and theorem collections the component proofs rely on.

  A kernel function of result type \<open>'a\<close> over a state of type \<open>'s\<close> is a value of type
  \<open>('s, 'a) M\<close>. It is run on an \<^emph>\<open>environment\<close> and a state. The environment is a list of
  state transformers; each one stands for everything that devices and other threads do to the
  state between the moment the running thread gives up its CPU in \<open>swtch\<close> and the moment it is
  resumed. A run consumes one of them at every context switch, and it ends in \<open>Blocked\<close> when it
  gives up the CPU with none left. The other outcomes are a normal return (\<open>Ok\<close>), a call of
  \<open>panic\<close> with its message, a spin on a lock that another CPU holds (\<open>Spin\<close>) and an access the
  C language leaves undefined (\<open>Fault\<close>: a null pointer or an index outside its array).
\<close>

unbundle bit_operations_syntax

type_synonym u8 = "8 word"
type_synonym u16 = "16 word"
type_synonym u32 = "32 word"
type_synonym u64 = "64 word"

named_theorems kernel_defs "definitions that a symbolic run of kernel code unfolds"

subsection \<open>Outcomes and statements\<close>

datatype ('s, 'a) outcome =
    Ok 'a "('s \<Rightarrow> 's) list" 's
  | Panic string
  | Spin
  | Blocked 's
  | Fault string

type_synonym ('s, 'a) M = "('s \<Rightarrow> 's) list \<Rightarrow> 's \<Rightarrow> ('s, 'a) outcome"

definition return :: "'a \<Rightarrow> ('s, 'a) M" where
  "return v = (\<lambda>e s. Ok v e s)"

definition bnd :: "('s, 'a) M \<Rightarrow> ('a \<Rightarrow> ('s, 'b) M) \<Rightarrow> ('s, 'b) M" where
  "bnd m f = (\<lambda>e s. case m e s of Ok v e' s' \<Rightarrow> f v e' s' | Panic x \<Rightarrow> Panic x
     | Spin \<Rightarrow> Spin | Blocked s' \<Rightarrow> Blocked s' | Fault x \<Rightarrow> Fault x)"

definition seq :: "('s, 'a) M \<Rightarrow> ('s, 'b) M \<Rightarrow> ('s, 'b) M" where
  "seq m n = bnd m (\<lambda>_. n)"

definition gets :: "('s \<Rightarrow> 'a) \<Rightarrow> ('s, 'a) M" where
  "gets f = (\<lambda>e s. Ok (f s) e s)"

definition modify :: "('s \<Rightarrow> 's) \<Rightarrow> ('s, unit) M" where
  "modify f = (\<lambda>e s. Ok () e (f s))"

definition panic :: "string \<Rightarrow> ('s, 'a) M" where
  "panic x = (\<lambda>e s. Panic x)"

definition fault :: "string \<Rightarrow> ('s, 'a) M" where
  "fault x = (\<lambda>e s. Fault x)"

definition spin :: "('s, 'a) M" where
  "spin = (\<lambda>e s. Spin)"

definition skip :: "('s, unit) M" where
  "skip = return ()"

definition whenM :: "bool \<Rightarrow> ('s, unit) M \<Rightarrow> ('s, unit) M" where
  "whenM b m = (if b then m else skip)"

text \<open>A context switch: the thread stops here until the environment has resumed it.\<close>

definition switch :: "('s, unit) M" where
  "switch = (\<lambda>e s. case e of [] \<Rightarrow> Blocked s | f # e' \<Rightarrow> Ok () e' (f s))"

text \<open>The body of \<open>for(x in xs) body\<close>, and the same loop with an early \<open>return\<close>.\<close>

primrec for_each :: "'x list \<Rightarrow> ('x \<Rightarrow> ('s, unit) M) \<Rightarrow> ('s, unit) M" where
  "for_each [] b = skip"
| "for_each (x # xs) b = seq (b x) (for_each xs b)"

primrec for_until :: "'x list \<Rightarrow> ('x \<Rightarrow> ('s, 'a option) M) \<Rightarrow> ('s, 'a option) M" where
  "for_until [] b = return None"
| "for_until (x # xs) b =
     bnd (b x) (\<lambda>r. case r of None \<Rightarrow> for_until xs b | Some v \<Rightarrow> return (Some v))"

text \<open>
  A loop that may sleep in its body. One iteration returns \<open>None\<close> to go round again and
  \<open>Some v\<close> to leave the loop with \<open>v\<close>. Every further round follows a sleep, which consumes
  one environment step, so a fuel of one more than the number of environment steps is always
  enough: the run ends in \<open>Blocked\<close> before the fuel runs out.
\<close>

primrec rounds :: "nat \<Rightarrow> ('s, 'a option) M \<Rightarrow> ('s, 'a) M" where
  "rounds 0 b = fault ''fuel''"
| "rounds (Suc n) b = bnd (b) (\<lambda>r. case r of None \<Rightarrow> rounds n b | Some v \<Rightarrow> return v)"

definition sleep_loop :: "('s, 'a option) M \<Rightarrow> ('s, 'a) M" where
  "sleep_loop b = (\<lambda>e s. rounds (Suc (length e)) b e s)"

subsection \<open>Symbolic execution\<close>

lemma return_run [simp]: "return v e s = Ok v e s"
  by (simp add: return_def)

lemma gets_run [simp]: "gets f e s = Ok (f s) e s"
  by (simp add: gets_def)

lemma modify_run [simp]: "modify f e s = Ok () e (f s)"
  by (simp add: modify_def)

lemma panic_run [simp]: "panic x e s = Panic x"
  by (simp add: panic_def)

lemma fault_run [simp]: "fault x e s = Fault x"
  by (simp add: fault_def)

lemma spin_run [simp]: "spin e s = Spin"
  by (simp add: spin_def)

lemma skip_run [simp]: "skip e s = Ok () e s"
  by (simp add: skip_def)

lemma whenM_run [simp]: "whenM b m e s = (if b then m e s else Ok () e s)"
  by (simp add: whenM_def)

lemma switch_run [simp]:
  "switch [] s = Blocked s"
  "switch (f # e) s = Ok () e (f s)"
  by (simp_all add: switch_def)

lemma bnd_run [simp]:
  "bnd m f e s = (case m e s of Ok v e' s' \<Rightarrow> f v e' s' | Panic x \<Rightarrow> Panic x
     | Spin \<Rightarrow> Spin | Blocked s' \<Rightarrow> Blocked s' | Fault x \<Rightarrow> Fault x)"
  by (simp add: bnd_def)

lemma seq_run [simp]:
  "seq m n e s = (case m e s of Ok v e' s' \<Rightarrow> n e' s' | Panic x \<Rightarrow> Panic x
     | Spin \<Rightarrow> Spin | Blocked s' \<Rightarrow> Blocked s' | Fault x \<Rightarrow> Fault x)"
  by (simp add: seq_def)

lemma if_run: "(if b then m else n) e s = (if b then m e s else n e s)"
  by simp

lemma bnd_Ok_iff:
  "bnd m f e s = Ok v e2 s2 \<longleftrightarrow> (\<exists>u e1 s1. m e s = Ok u e1 s1 \<and> f u e1 s1 = Ok v e2 s2)"
  by (auto split: outcome.splits)

lemma seq_Ok_iff:
  "seq m n e s = Ok v e2 s2 \<longleftrightarrow> (\<exists>u e1 s1. m e s = Ok u e1 s1 \<and> n e1 s1 = Ok v e2 s2)"
  by (auto split: outcome.splits)

text \<open>A scan that only looks until it has found its element.\<close>

lemma for_until_find:
  assumes "\<And>x. x \<in> set xs \<Longrightarrow> b x e s = (if P x then found x else Ok None e s)"
    and "\<And>x. x \<in> set xs \<Longrightarrow> P x \<Longrightarrow> \<exists>v e' s'. found x = Ok (Some v) e' s'"
  shows "for_until xs b e s =
    (case List.find P xs of None \<Rightarrow> Ok None e s | Some x \<Rightarrow> found x)"
  using assms
proof (induction xs)
  case Nil
  then show ?case by simp
next
  case (Cons x xs)
  show ?case
  proof (cases "P x")
    case True
    with Cons.prems(2) obtain v e' s' where "found x = Ok (Some v) e' s'"
      by fastforce
    with True Cons.prems(1)[of x] show ?thesis by simp
  next
    case False
    with Cons.prems(1)[of x] have "b x e s = Ok None e s" by simp
    with False Cons.IH Cons.prems show ?thesis by simp
  qed
qed

text \<open>
  A scan whose hit ends the run in any way at all (a return, a panic): the variant used where the
  code after the hit is long.
\<close>

lemma for_until_skip:
  assumes "\<And>x. x \<in> set xs \<Longrightarrow> b x e s = Ok None e s"
  shows "for_until (xs @ ys) b e s = for_until ys b e s"
  using assms by (induction xs) auto

lemma for_each_skip:
  assumes "\<And>x. x \<in> set xs \<Longrightarrow> b x e s = Ok () e s"
  shows "for_each xs b e s = Ok () e s"
  using assms by (induction xs) auto

text \<open>A loop whose body is a pure update folds the update over the list.\<close>

lemma for_each_fold:
  assumes "\<And>x s. x \<in> set xs \<Longrightarrow> P s \<Longrightarrow> b x e s = Ok () e (f x s) \<and> P (f x s)"
    and "P s"
  shows "for_each xs b e s = Ok () e (fold f xs s) \<and> P (fold f xs s)"
  using assms by (induction xs arbitrary: s) auto

lemma for_each_append: "for_each (xs @ ys) b e s = seq (for_each xs b) (for_each ys b) e s"
  by (induction xs arbitrary: e s) (auto split: outcome.splits)

text \<open>A counting loop whose body takes the state \<open>S i\<close> to \<open>S (i + 1)\<close>.\<close>

lemma for_each_upt:
  assumes "\<And>i. i < n \<Longrightarrow> b i e (S i) = Ok () e (S (Suc i))"
  shows "for_each [0..<n] b e (S 0) = Ok () e (S n)"
  using assms by (induction n) (simp_all add: for_each_append)

subsection \<open>Preservation of a state predicate\<close>

text \<open>
  \<open>keeps I m\<close>: a run of \<open>m\<close> that returns normally keeps \<open>I\<close>, provided every environment step
  keeps it.
\<close>

definition rely :: "('s \<Rightarrow> bool) \<Rightarrow> ('s \<Rightarrow> 's) list \<Rightarrow> bool" where
  "rely I e \<longleftrightarrow> (\<forall>f \<in> set e. \<forall>s. I s \<longrightarrow> I (f s))"

definition keeps :: "('s \<Rightarrow> bool) \<Rightarrow> ('s, 'a) M \<Rightarrow> bool" where
  "keeps I m \<longleftrightarrow> (\<forall>e s v e' s'. rely I e \<longrightarrow> I s \<longrightarrow> m e s = Ok v e' s' \<longrightarrow> I s' \<and> rely I e')"

named_theorems keeps_intros "composition rules for preservation"

lemma keepsI:
  "(\<And>e s v e' s'. rely I e \<Longrightarrow> I s \<Longrightarrow> m e s = Ok v e' s' \<Longrightarrow> I s' \<and> rely I e') \<Longrightarrow> keeps I m"
  unfolding keeps_def by blast+

lemma keepsD:
  "keeps I m \<Longrightarrow> rely I e \<Longrightarrow> I s \<Longrightarrow> m e s = Ok v e' s' \<Longrightarrow> I s'"
  "keeps I m \<Longrightarrow> rely I e \<Longrightarrow> I s \<Longrightarrow> m e s = Ok v e' s' \<Longrightarrow> rely I e'"
  unfolding keeps_def by blast+

lemma keeps_return [keeps_intros]: "keeps I (return v)"
  by (auto simp: keeps_def)

lemma keeps_skip [keeps_intros]: "keeps I skip"
  by (auto simp: keeps_def)

lemma keeps_gets [keeps_intros]: "keeps I (gets f)"
  by (auto simp: keeps_def)

lemma keeps_panic [keeps_intros]: "keeps I (panic x)"
  by (auto simp: keeps_def)

lemma keeps_fault [keeps_intros]: "keeps I (fault x)"
  by (auto simp: keeps_def)

lemma keeps_spin [keeps_intros]: "keeps I spin"
  by (auto simp: keeps_def)

lemma keeps_modify: "(\<And>s. I s \<Longrightarrow> I (f s)) \<Longrightarrow> keeps I (modify f)"
  by (auto simp: keeps_def)

lemma keeps_switch [keeps_intros]: "keeps I switch"
  by (auto simp: keeps_def rely_def switch_def split: list.splits)

lemma keeps_bnd [keeps_intros]:
  assumes "keeps I m" and "\<And>v. keeps I (f v)"
  shows "keeps I (bnd m f)"
proof (rule keepsI)
  fix e s v e' s'
  assume r: "rely I e" "I s" and "bnd m f e s = Ok v e' s'"
  then obtain u e1 s1 where m: "m e s = Ok u e1 s1" and f: "f u e1 s1 = Ok v e' s'"
    unfolding bnd_Ok_iff by blast
  from keepsD [OF assms(1) r m] keepsD [OF assms(2) _ _ f]
  show "I s' \<and> rely I e'" by blast
qed

lemma keeps_seq [keeps_intros]:
  "keeps I m \<Longrightarrow> keeps I n \<Longrightarrow> keeps I (seq m n)"
  unfolding seq_def by (rule keeps_bnd)

lemma keeps_if [keeps_intros]:
  "(b \<Longrightarrow> keeps I m) \<Longrightarrow> (\<not> b \<Longrightarrow> keeps I n) \<Longrightarrow> keeps I (if b then m else n)"
  by simp

lemma keeps_whenM [keeps_intros]: "(b \<Longrightarrow> keeps I m) \<Longrightarrow> keeps I (whenM b m)"
  by (auto simp: whenM_def keeps_skip)

lemma keeps_case_option [keeps_intros]:
  "keeps I m \<Longrightarrow> (\<And>x. keeps I (f x)) \<Longrightarrow> keeps I (case r of None \<Rightarrow> m | Some x \<Rightarrow> f x)"
  by (simp split: option.splits)

lemma keeps_case_prod [keeps_intros]:
  "(\<And>x y. keeps I (f x y)) \<Longrightarrow> keeps I (case r of (x, y) \<Rightarrow> f x y)"
  by (simp split: prod.splits)

lemma keeps_let [keeps_intros]: "keeps I (f x) \<Longrightarrow> keeps I (let y = x in f y)"
  by simp

lemma keeps_for_each [keeps_intros]: "(\<And>x. keeps I (b x)) \<Longrightarrow> keeps I (for_each xs b)"
  by (induction xs) (auto intro: keeps_intros)

lemma keeps_for_until [keeps_intros]: "(\<And>x. keeps I (b x)) \<Longrightarrow> keeps I (for_until xs b)"
  by (induction xs) (auto intro!: keeps_intros)

lemma keeps_rounds: "keeps I b \<Longrightarrow> keeps I (rounds n b)"
  by (induction n) (auto intro!: keeps_intros)

lemma keeps_sleep_loop [keeps_intros]: "keeps I b \<Longrightarrow> keeps I (sleep_loop b)"
  using keepsD [OF keeps_rounds] by (auto intro!: keepsI simp: sleep_loop_def simp del: rounds.simps)

subsection \<open>Generic lemmas\<close>

lemma find_upt_SomeD:
  assumes "List.find P [0..<n] = Some i"
  shows "i < n" "P i" "j < i \<Longrightarrow> \<not> P j"
  using assms by (auto simp: find_Some_iff)

lemma find_upt_None_iff: "List.find P [0..<n] = None \<longleftrightarrow> (\<forall>i < n. \<not> P i)"
  by (auto simp: find_None_iff)

text \<open>Unsigned readings of 64-bit arithmetic.\<close>

lemma unat_lt64: "unat (x :: u64) < 2 ^ 64"
  using unsigned_less [of x] by simp

lemma unat_of_nat64: "n < 2 ^ 64 \<Longrightarrow> unat (of_nat n :: u64) = n"
  by (simp add: unat_of_nat)

lemma unat_neg64: "x \<noteq> 0 \<Longrightarrow> unat (- x :: u64) = 2 ^ 64 - unat x"
proof -
  assume "x \<noteq> 0"
  then have "0 < unat x" by (simp add: unat_gt_0)
  then show ?thesis using unat_sub_if_size [of 0 x] by (simp add: word_size)
qed

lemma unat_sub64:
  "unat (x - y :: u64) = (if unat y \<le> unat x then unat x - unat y else 2 ^ 64 + unat x - unat y)"
  using unat_sub_if_size [of x y] unat_lt64 [of y] by (auto simp: word_size word_le_nat_alt)

lemma unat_add64: "unat (x + y :: u64) = (unat x + unat y) mod 2 ^ 64"
  by (simp add: unat_word_ariths)

lemma take_bit64 [simp]: "take_bit 64 (x :: u64) = x"
  by (rule take_bit_word_eq_self) simp

lemma take_bit32 [simp]: "take_bit 32 (x :: u32) = x"
  by (rule take_bit_word_eq_self) simp

end
