(* ===== verification/Params.thy ===== *)
theory Params
  imports Prelude
begin

text \<open>
  The constants and address macros of \<open>kernel/param.h\<close>, \<open>kernel/memlayout.h\<close> and of the
  paging part of \<open>kernel/riscv.h\<close>. Table sizes are natural numbers, addresses and page table
  entries are 64-bit words, so that \<open>PGROUNDUP\<close> and friends wrap around as they do in C.
\<close>

subsection \<open>param.h\<close>

definition NPROC :: nat where "NPROC = 64"
definition NTHREAD :: nat where "NTHREAD = 8"
definition NCPU :: nat where "NCPU = 8"
definition NOFILE :: nat where "NOFILE = 16"
definition NFILE :: nat where "NFILE = 100"
definition NINODE :: nat where "NINODE = 50"
definition NDEV :: nat where "NDEV = 10"
definition ROOTDEV :: u32 where "ROOTDEV = 1"
definition MAXARG :: nat where "MAXARG = 32"
definition MAXOPBLOCKS :: nat where "MAXOPBLOCKS = 10"
definition LOGSIZE :: nat where "LOGSIZE = MAXOPBLOCKS * 3"
definition NBUF :: nat where "NBUF = MAXOPBLOCKS * 3"
definition FSSIZE :: nat where "FSSIZE = 1000"
definition MAXPATH :: nat where "MAXPATH = 128"
definition SIGNALS_SIZE :: nat where "SIGNALS_SIZE = 32"
definition MAX_STACK_SIZE :: u64 where "MAX_STACK_SIZE = 4000"

definition SIG_DFL :: u64 where "SIG_DFL = 0"
definition SIG_IGN :: u64 where "SIG_IGN = 1"
definition SIGKILL :: nat where "SIGKILL = 9"
definition SIGSTOP :: nat where "SIGSTOP = 17"
definition SIGCONT :: nat where "SIGCONT = 19"
definition MAX_BSEM :: nat where "MAX_BSEM = 128"

lemmas sig_defs = SIGNALS_SIZE_def SIGKILL_def SIGSTOP_def SIGCONT_def

subsection \<open>riscv.h: pages and page table entries\<close>

definition PGSIZE :: u64 where "PGSIZE = 4096"

definition PGROUNDUP :: "u64 \<Rightarrow> u64" where
  "PGROUNDUP sz = (sz + PGSIZE - 1) AND NOT (PGSIZE - 1)"

definition PGROUNDDOWN :: "u64 \<Rightarrow> u64" where
  "PGROUNDDOWN a = a AND NOT (PGSIZE - 1)"

definition PTE_V :: u64 where "PTE_V = 1"
definition PTE_R :: u64 where "PTE_R = 2"
definition PTE_W :: u64 where "PTE_W = 4"
definition PTE_X :: u64 where "PTE_X = 8"
definition PTE_U :: u64 where "PTE_U = 16"

lemmas pte_bits = PTE_V_def PTE_R_def PTE_W_def PTE_X_def PTE_U_def

definition PA2PTE :: "u64 \<Rightarrow> u64" where
  "PA2PTE pa = push_bit 10 (drop_bit 12 pa)"

definition PTE2PA :: "u64 \<Rightarrow> u64" where
  "PTE2PA pte = push_bit 12 (drop_bit 10 pte)"

definition PTE_FLAGS :: "u64 \<Rightarrow> u64" where
  "PTE_FLAGS pte = pte AND 0x3FF"

definition PXSHIFT :: "nat \<Rightarrow> nat" where
  "PXSHIFT level = 12 + 9 * level"

definition PX :: "nat \<Rightarrow> u64 \<Rightarrow> u64" where
  "PX level va = drop_bit (PXSHIFT level) va AND 0x1FF"

definition MAXVA :: u64 where "MAXVA = push_bit (9 + 9 + 9 + 12 - 1) 1"

definition MAKE_SATP :: "u64 \<Rightarrow> u64" where
  "MAKE_SATP pagetable = push_bit 60 8 OR drop_bit 12 pagetable"

subsection \<open>memlayout.h\<close>

definition KERNBASE :: u64 where "KERNBASE = 0x80000000"
definition PHYSTOP :: u64 where "PHYSTOP = KERNBASE + 128 * 1024 * 1024"
definition UART0 :: u64 where "UART0 = 0x10000000"
definition VIRTIO0 :: u64 where "VIRTIO0 = 0x10001000"
definition PLIC :: u64 where "PLIC = 0x0c000000"
definition TRAMPOLINE :: u64 where "TRAMPOLINE = MAXVA - PGSIZE"
definition TRAPFRAME :: u64 where "TRAPFRAME = TRAMPOLINE - PGSIZE"

definition KSTACK :: "nat \<Rightarrow> u64" where
  "KSTACK p = TRAMPOLINE - (of_nat p + 1) * 2 * PGSIZE"

lemma PHYSTOP_val: "PHYSTOP = 0x88000000"
  by (simp add: PHYSTOP_def KERNBASE_def)

lemma MAXVA_val: "MAXVA = 0x4000000000"
  by (simp add: MAXVA_def)

lemma TRAMPOLINE_val: "TRAMPOLINE = 0x3FFFFFF000"
  by (simp add: TRAMPOLINE_def MAXVA_val PGSIZE_def)

lemma TRAPFRAME_val: "TRAPFRAME = 0x3FFFFFE000"
  by (simp add: TRAPFRAME_def TRAMPOLINE_val PGSIZE_def)

subsection \<open>Page alignment\<close>

definition page_aligned :: "u64 \<Rightarrow> bool" where
  "page_aligned a \<longleftrightarrow> a mod PGSIZE = 0"

lemma pgmask_bits: "bit (NOT (PGSIZE - 1)) n \<longleftrightarrow> 12 \<le> n \<and> n < 64"
proof -
  have "PGSIZE - 1 = mask 12" by (simp add: PGSIZE_def mask_eq_exp_minus_1)
  then show ?thesis by (simp add: bit_not_iff bit_mask_iff) linarith
qed

lemma PGROUNDDOWN_bit: "bit (PGROUNDDOWN a) n \<longleftrightarrow> 12 \<le> n \<and> bit a n"
proof -
  have "bit a n \<Longrightarrow> n < 64" using bit_imp_le_length[of a n] by simp
  then show ?thesis by (auto simp: PGROUNDDOWN_def bit_and_iff pgmask_bits)
qed

lemma PGROUNDDOWN_push_drop: "PGROUNDDOWN a = push_bit 12 (drop_bit 12 a)"
proof (rule bit_word_eqI)
  fix n assume "n < LENGTH(64)"
  then show "bit (PGROUNDDOWN a) n = bit (push_bit 12 (drop_bit 12 a)) n"
    by (auto simp: PGROUNDDOWN_bit bit_push_bit_iff bit_drop_bit_eq)
qed

lemma page_aligned_take_bit: "page_aligned a \<longleftrightarrow> take_bit 12 a = 0"
  by (simp add: page_aligned_def PGSIZE_def take_bit_eq_mod)

lemma page_aligned_bit: "page_aligned a \<longleftrightarrow> (\<forall>n < 12. \<not> bit a n)"
  unfolding page_aligned_take_bit by (auto simp: bit_eq_iff bit_take_bit_iff)

lemma PGROUNDDOWN_aligned: "page_aligned (PGROUNDDOWN a)"
  by (simp add: page_aligned_bit PGROUNDDOWN_bit)

lemma PGROUNDDOWN_id: "page_aligned a \<Longrightarrow> PGROUNDDOWN a = a"
  by (rule bit_word_eqI) (metis PGROUNDDOWN_bit page_aligned_bit not_le)

lemma PGROUNDDOWN_le: "PGROUNDDOWN a \<le> a"
  unfolding PGROUNDDOWN_def by (rule word_and_le2)

lemma PGROUNDDOWN_offset: "a - PGROUNDDOWN a = take_bit 12 a"
proof -
  have "a = PGROUNDDOWN a + take_bit 12 a"
    unfolding PGROUNDDOWN_push_drop
    by (simp add: push_bit_eq_mult drop_bit_eq_div take_bit_eq_mod div_mult_mod_eq)
  then show ?thesis by (metis add_diff_cancel_left')
qed

lemma unat_page_offset: "unat (a - PGROUNDDOWN a) < 4096"
proof -
  show ?thesis unfolding PGROUNDDOWN_offset unsigned_take_bit_eq by (simp add: take_bit_eq_mod)
qed

lemma unat_PGROUNDDOWN: "unat (PGROUNDDOWN a) = unat a div 4096 * 4096"
proof -
  have "unat (a - PGROUNDDOWN a) = unat a mod 4096"
    unfolding PGROUNDDOWN_offset unsigned_take_bit_eq by (simp add: take_bit_eq_mod)
  moreover have "unat (a - PGROUNDDOWN a) = unat a - unat (PGROUNDDOWN a)"
    by (rule unat_sub [OF PGROUNDDOWN_le])
  moreover have "unat (PGROUNDDOWN a) \<le> unat a"
    using PGROUNDDOWN_le by (simp add: word_le_nat_alt)
  ultimately show ?thesis by (metis add_diff_cancel_right' add_diff_inverse_nat
    div_mult_mod_eq le_antisym not_less)
qed

text \<open>The two shifts of a page table entry are inverse on page addresses of the Sv39 range.\<close>

lemma PTE2PA_PA2PTE:
  assumes "page_aligned pa" and "pa < 2 ^ 56"
  shows "PTE2PA (PA2PTE pa OR (f AND 0x3FF)) = pa"
proof (rule bit_word_eqI)
  fix n assume n: "n < LENGTH(64)"
  have f: "\<not> bit (f AND 0x3FF) (n - 2)" if "12 \<le> n"
  proof -
    have "(0x3FF :: u64) = mask 10" by (simp add: mask_eq_exp_minus_1)
    then show ?thesis using that by (auto simp only: bit_and_iff bit_mask_iff)
  qed
  have hi: "\<not> bit pa n" if "56 \<le> n"
  proof -
    have "take_bit 56 pa = pa"
      using less_mask_eq [OF assms(2)] by (simp add: take_bit_eq_mask)
    then show ?thesis using that by (metis bit_take_bit_iff not_le)
  qed
  from assms(1) have lo: "\<not> bit pa n" if "n < 12"
    using that by (simp add: page_aligned_bit)
  show "bit (PTE2PA (PA2PTE pa OR (f AND 0x3FF))) n = bit pa n"
    using n f hi lo
    by (cases "12 \<le> n")
      (auto simp: PTE2PA_def PA2PTE_def bit_push_bit_iff bit_drop_bit_eq bit_or_iff)
qed

end
