(* ===== verification/Memory.thy ===== *)
theory Memory
  imports Params
begin

text \<open>
  Physical memory as a byte store, little-endian loads and stores of the C integer types, and the
  routines of \<open>kernel/string.c\<close>. \<open>memset\<close> and \<open>memmove\<close> work on the store, with the loops and
  the overlap test of the source; the string routines read their operands as arrays of bytes and
  the writing ones return the array they have written.
\<close>

type_synonym mem = "u64 \<Rightarrow> u8"

subsection \<open>Little-endian access\<close>

primrec load_le :: "nat \<Rightarrow> mem \<Rightarrow> u64 \<Rightarrow> 'a::len word" where
  "load_le 0 m p = 0"
| "load_le (Suc n) m p = ucast (m p) OR push_bit 8 (load_le n m (p + 1))"

primrec store_le :: "nat \<Rightarrow> 'a::len word \<Rightarrow> mem \<Rightarrow> u64 \<Rightarrow> mem" where
  "store_le 0 v m p = m"
| "store_le (Suc n) v m p = store_le n (drop_bit 8 v) (m(p := ucast v)) (p + 1)"

definition load64 :: "mem \<Rightarrow> u64 \<Rightarrow> u64" where
  "load64 = load_le 8"

definition store64 :: "u64 \<Rightarrow> u64 \<Rightarrow> mem \<Rightarrow> mem" where
  "store64 p v m = store_le 8 v m p"

definition load32 :: "mem \<Rightarrow> u64 \<Rightarrow> u32" where
  "load32 = load_le 4"

definition store32 :: "u64 \<Rightarrow> u32 \<Rightarrow> mem \<Rightarrow> mem" where
  "store32 p v m = store_le 4 v m p"

text \<open>\<open>in_range a p n\<close>: byte \<open>a\<close> is one of the \<open>n\<close> bytes from \<open>p\<close> on, modulo wrap-around.\<close>

definition in_range :: "u64 \<Rightarrow> u64 \<Rightarrow> nat \<Rightarrow> bool" where
  "in_range a p n \<longleftrightarrow> unat (a - p) < n"

lemma unat_pred:
  fixes x :: u64
  assumes "x \<noteq> 0"
  shows "unat (x - 1) = unat x - 1"
  using assms unat_minus_one by simp

lemma in_range_step:
  "a \<noteq> p \<Longrightarrow> in_range a p (Suc n) \<longleftrightarrow> in_range a (p + 1) n"
proof -
  assume "a \<noteq> p"
  then have nz: "a - p \<noteq> 0" by simp
  have "a - (p + 1) = a - p - 1" by simp
  moreover have "0 < unat (a - p)" using nz by (simp add: unat_gt_0)
  ultimately show ?thesis
    unfolding in_range_def using unat_pred [OF nz] by (metis Suc_less_eq Suc_pred One_nat_def)
qed

lemma in_range_self: "in_range p p (Suc n)"
  by (simp add: in_range_def)

lemma not_in_range_next: "n < 2 ^ 64 \<Longrightarrow> \<not> in_range p (p + 1) n"
proof -
  have "p - (p + 1) = (-1 :: u64)" by simp
  moreover have "unat (-1 :: u64) = 2 ^ 64 - 1" using unat_neg64 [of 1] by simp
  ultimately show "n < 2 ^ 64 \<Longrightarrow> ?thesis" by (simp add: in_range_def)
qed

lemma store_le_frame: "\<not> in_range a p n \<Longrightarrow> store_le n v m p a = m a"
proof (induction n arbitrary: v m p)
  case 0
  then show ?case by simp
next
  case (Suc n)
  then have ap: "a \<noteq> p" using in_range_self by metis
  with Suc.prems have "\<not> in_range a (p + 1) n" by (simp add: in_range_step)
  from Suc.IH [OF this] ap show ?case by simp
qed

lemma load_le_cong:
  fixes p :: u64
  shows "(\<And>a. in_range a p n \<Longrightarrow> m a = m' a) \<Longrightarrow> load_le n m p = (load_le n m' p :: 'b::len word)"
proof (induction n arbitrary: p)
  case 0
  then show ?case by simp
next
  case (Suc n)
  have "m p = m' p" by (rule Suc.prems [OF in_range_self])
  moreover have "m a = m' a" if "in_range a (p + 1) n" for a
    using that Suc.prems \<open>m p = m' p\<close> by (cases "a = p") (auto simp: in_range_step)
  then have "load_le n m (p + 1) = (load_le n m' (p + 1) :: 'b word)" by (rule Suc.IH)
  ultimately show ?case by simp
qed

lemma load_store_le:
  assumes "n < 2 ^ 64"
  shows "load_le n (store_le n v m p) p = take_bit (8 * n) v"
  using assms
proof (induction n arbitrary: v m p)
  case 0
  then show ?case by simp
next
  case (Suc n)
  have "store_le n (drop_bit 8 v) (m(p := ucast v)) (p + 1) p = ucast v"
    using Suc.prems by (simp add: store_le_frame not_in_range_next)
  moreover have "load_le n (store_le n (drop_bit 8 v) (m(p := ucast v)) (p + 1)) (p + 1)
      = take_bit (8 * n) (drop_bit 8 v)"
    using Suc by simp
  moreover have "ucast (ucast v :: u8) OR push_bit 8 (take_bit (8 * n) (drop_bit 8 v))
      = take_bit (8 + 8 * n) v"
    by (rule bit_word_eqI)
      (auto simp: bit_or_iff bit_push_bit_iff bit_take_bit_iff bit_drop_bit_eq bit_ucast_iff)
  ultimately show ?case by simp
qed

definition disjoint_range :: "u64 \<Rightarrow> nat \<Rightarrow> u64 \<Rightarrow> nat \<Rightarrow> bool" where
  "disjoint_range p n q k \<longleftrightarrow> n \<le> unat (q - p) \<and> k \<le> unat (p - q)"

lemma disjoint_rangeD:
  assumes "disjoint_range p n q k" and "in_range a p n"
  shows "\<not> in_range a q k"
proof
  assume "in_range a q k"
  define x where "x = a - p"
  define d where "d = q - p"
  have *: "unat x < n" "n \<le> unat d" "k \<le> unat (- d)" "unat (x - d) < k"
    using assms \<open>in_range a q k\<close>
    by (simp_all add: in_range_def disjoint_range_def x_def d_def algebra_simps)
  then have "x < d" by (simp add: word_less_nat_alt)
  then have "unat (x - d) = 2 ^ 64 + unat x - unat d"
    by (simp add: unat_sub64 word_less_nat_alt)
  moreover have "unat (- d) = 2 ^ 64 - unat d"
    using \<open>x < d\<close> unat_neg64 [of d] by force
  ultimately show False using * unat_lt64 [of d] by simp
qed

lemma disjoint_range_sym: "disjoint_range p n q k \<longleftrightarrow> disjoint_range q k p n"
  by (auto simp: disjoint_range_def)

lemma load_store_le_other:
  "disjoint_range p n q k \<Longrightarrow> load_le n (store_le k v m q) p = load_le n m p"
  by (rule load_le_cong) (simp add: store_le_frame disjoint_rangeD)

lemma load64_store64_same [simp]: "load64 (store64 p v m) p = v"
proof -
  have "load_le 8 (store_le 8 v m p) p = take_bit (8 * 8) v"
    by (rule load_store_le) simp
  then show ?thesis unfolding load64_def store64_def by simp
qed

lemma load64_store64_other:
  "disjoint_range p 8 q 8 \<Longrightarrow> load64 (store64 q v m) p = load64 m p"
  unfolding load64_def store64_def by (rule load_store_le_other)

lemma load32_store32_same [simp]: "load32 (store32 p v m) p = v"
proof -
  have "load_le 4 (store_le 4 v m p) p = take_bit (8 * 4) v"
    by (rule load_store_le) simp
  then show ?thesis unfolding load32_def store32_def by simp
qed

lemma store64_frame: "\<not> in_range a p 8 \<Longrightarrow> store64 p v m a = m a"
  unfolding store64_def by (rule store_le_frame)

lemma load64_cong: "(\<And>a. in_range a p 8 \<Longrightarrow> m a = m' a) \<Longrightarrow> load64 m p = load64 m' p"
  unfolding load64_def by (rule load_le_cong)

subsection \<open>memset and memmove\<close>

primrec memset :: "u64 \<Rightarrow> u8 \<Rightarrow> nat \<Rightarrow> mem \<Rightarrow> mem" where
  "memset dst c 0 m = m"
| "memset dst c (Suc n) m = (memset dst c n m)(dst + of_nat n := c)"

primrec copy_up :: "nat \<Rightarrow> u64 \<Rightarrow> u64 \<Rightarrow> mem \<Rightarrow> mem" where
  "copy_up 0 d s m = m"
| "copy_up (Suc n) d s m = copy_up n (d + 1) (s + 1) (m(d := m s))"

primrec copy_down :: "nat \<Rightarrow> u64 \<Rightarrow> u64 \<Rightarrow> mem \<Rightarrow> mem" where
  "copy_down 0 d s m = m"
| "copy_down (Suc n) d s m = copy_down n d s (m(d + of_nat n := m (s + of_nat n)))"

definition memmove :: "u64 \<Rightarrow> u64 \<Rightarrow> nat \<Rightarrow> mem \<Rightarrow> mem" where
  "memmove dst src n m =
     (if src < dst \<and> src + of_nat n > dst then copy_down n dst src m
      else copy_up n dst src m)"

lemma in_range_top:
  assumes "n < 2 ^ 64"
  shows "in_range a p (Suc n) \<longleftrightarrow> in_range a p n \<or> a = p + of_nat n"
proof -
  have "a = p + of_nat n \<longleftrightarrow> unat (a - p) = n"
  proof
    assume "a = p + of_nat n"
    then show "unat (a - p) = n" using assms by (simp add: unat_of_nat64)
  next
    assume "unat (a - p) = n"
    then have "of_nat n = a - p" by (metis unat_of_nat64 unat_lt64 word_unat_eq_iff)
    then show "a = p + of_nat n" by simp
  qed
  then show ?thesis by (auto simp: in_range_def)
qed

lemma memset_apply:
  "n < 2 ^ 64 \<Longrightarrow> memset dst c n m a = (if in_range a dst n then c else m a)"
proof (induction n)
  case 0
  then show ?case by (simp add: in_range_def)
next
  case (Suc n)
  then show ?case by (auto simp: in_range_top)
qed

lemma load_le_zero:
  "(\<And>a. in_range a p n \<Longrightarrow> m a = 0) \<Longrightarrow> load_le n m p = 0"
proof -
  assume "\<And>a. in_range a p n \<Longrightarrow> m a = 0"
  then have "load_le n m p = (load_le n (\<lambda>_. 0) p :: 'a word)" by (intro load_le_cong) simp
  also have "\<dots> = 0" by (induction n arbitrary: p) simp_all
  finally show ?thesis .
qed

lemma in_range_Suc:
  "in_range a p (Suc n) \<longleftrightarrow> a = p \<or> in_range a (p + 1) n" if "n < 2 ^ 64"
  using in_range_step [of a p n] in_range_self [of p n] by (cases "a = p") auto

lemma copy_up_apply:
  assumes "n < 2 ^ 64" and "d = s \<or> n \<le> unat (d - s)"
  shows "copy_up n d s m a = (if in_range a d n then m (s + (a - d)) else m a)"
  using assms
proof (induction n arbitrary: d s m)
  case 0
  then show ?case by (simp add: in_range_def)
next
  case (Suc n)
  have IH: "copy_up n (d + 1) (s + 1) (m(d := m s)) a =
     (if in_range a (d + 1) n then (m(d := m s)) (s + (a - d)) else (m(d := m s)) a)"
    using Suc.prems by (subst Suc.IH) auto
  show ?case
  proof (cases "in_range a (d + 1) n")
    case True
    have "(m(d := m s)) (s + (a - d)) = m (s + (a - d))"
    proof (cases "s + (a - d) = d")
      case eq: True
      then have ds: "a - d = d - s" by (simp add: algebra_simps)
      from True Suc.prems have "in_range a d (Suc n)" by (simp add: in_range_Suc)
      with ds Suc.prems(2) have "d = s" by (auto simp: in_range_def)
      with eq show ?thesis by simp
    qed simp
    with IH True Suc.prems show ?thesis by (simp add: in_range_Suc)
  next
    case False
    with IH Suc.prems show ?thesis by (auto simp: in_range_Suc)
  qed
qed

lemma copy_down_apply:
  assumes "n < 2 ^ 64" and "d = s \<or> n \<le> unat (s - d)"
  shows "copy_down n d s m a = (if in_range a d n then m (s + (a - d)) else m a)"
  using assms
proof (induction n arbitrary: m)
  case 0
  then show ?case by (simp add: in_range_def)
next
  case (Suc n)
  let ?m = "m(d + of_nat n := m (s + of_nat n))"
  have IH: "copy_down n d s ?m a = (if in_range a d n then ?m (s + (a - d)) else ?m a)"
    using Suc.prems by (subst Suc.IH) auto
  show ?case
  proof (cases "in_range a d n")
    case True
    have "?m (s + (a - d)) = m (s + (a - d))"
    proof (cases "s + (a - d) = d + of_nat n")
      case eq: True
      then have "s - d = of_nat n - (a - d)" by (simp add: algebra_simps)
      moreover have "unat (of_nat n - (a - d)) = n - unat (a - d)"
        using True Suc.prems(1) by (simp add: unat_sub64 unat_of_nat64 in_range_def)
      ultimately have "unat (s - d) \<le> n" by (metis diff_le_self)
      with Suc.prems(2) have "d = s" by auto
      with eq show ?thesis by simp
    qed simp
    with IH True Suc.prems show ?thesis by (simp add: in_range_top)
  next
    case False
    with IH Suc.prems show ?thesis by (auto simp: in_range_top)
  qed
qed

lemma memmove_frame:
  assumes "n < 2 ^ 64" and "\<not> in_range a dst n"
  shows "memmove dst src n m a = m a"
proof -
  have "copy_up n d s m a = m a" if "\<not> in_range a d n" for d s m
    using assms(1) that by (induction n arbitrary: d s m) (auto simp: in_range_Suc)
  moreover have "copy_down n dst src m a = m a"
    using assms by (induction n arbitrary: m) (auto simp: in_range_top)
  ultimately show ?thesis using assms(2) by (simp add: memmove_def)
qed

lemma memmove_apply:
  assumes "unat src + n < 2 ^ 64" and "unat dst + n \<le> 2 ^ 64"
  shows "memmove dst src n m a = (if in_range a dst n then m (src + (a - dst)) else m a)"
proof -
  have n: "n < 2 ^ 64" using assms by linarith
  have top: "unat (src + of_nat n) = unat src + n"
    using assms n by (simp add: unat_add64 unat_of_nat64)
  show ?thesis
  proof (cases "src < dst \<and> src + of_nat n > dst")
    case True
    then have "n \<le> unat (src - dst)"
      using assms by (simp add: word_less_nat_alt unat_sub64)
    with True n show ?thesis by (simp add: memmove_def copy_down_apply)
  next
    case False
    have "dst = src \<or> n \<le> unat (dst - src)"
    proof (cases "src < dst")
      case True
      with False have "unat src + n \<le> unat dst"
        by (simp add: word_less_nat_alt top)
      then have "n \<le> unat (dst - src)" by (simp add: unat_sub64)
      then show ?thesis ..
    next
      case False
      then have "dst = src \<or> unat dst < unat src"
        by (simp add: word_less_nat_alt word_unat_eq_iff not_less) linarith
      then show ?thesis using assms by (auto simp: unat_sub64)
    qed
    with n have "copy_up n dst src m a = (if in_range a dst n then m (src + (a - dst)) else m a)"
      by (rule copy_up_apply)
    with False show ?thesis unfolding memmove_def by (simp only: if_False)
  qed
qed

subsection \<open>C strings\<close>

type_synonym bytes = "nat \<Rightarrow> u8"

text \<open>Advancing a pointer by one (\<open>p++\<close>), and the array whose first byte is \<open>c\<close>.\<close>

abbreviation advance :: "bytes \<Rightarrow> bytes" where
  "advance p \<equiv> (\<lambda>k. p (Suc k))"

definition put_first :: "u8 \<Rightarrow> bytes \<Rightarrow> bytes" where
  "put_first c p = (\<lambda>k. case k of 0 \<Rightarrow> c | Suc j \<Rightarrow> p j)"

fun memcmp :: "bytes \<Rightarrow> bytes \<Rightarrow> nat \<Rightarrow> int" where
  "memcmp s1 s2 0 = 0"
| "memcmp s1 s2 (Suc n) =
     (if s1 0 \<noteq> s2 0 then uint (s1 0) - uint (s2 0) else memcmp (advance s1) (advance s2) n)"

fun strncmp :: "bytes \<Rightarrow> bytes \<Rightarrow> nat \<Rightarrow> int" where
  "strncmp p q 0 = 0"
| "strncmp p q (Suc n) =
     (if p 0 \<noteq> 0 \<and> p 0 = q 0 then strncmp (advance p) (advance q) n
      else uint (p 0) - uint (q 0))"

text \<open>
  The writing routines: each step stores through \<open>*s++\<close>, so its result is the byte written in
  front of what the remaining steps make of the rest of the array.
\<close>

fun zero_fill :: "bytes \<Rightarrow> nat \<Rightarrow> bytes" where
  "zero_fill s 0 = s"
| "zero_fill s (Suc n) = put_first 0 (zero_fill (advance s) n)"

fun strncpy :: "bytes \<Rightarrow> bytes \<Rightarrow> nat \<Rightarrow> bytes" where
  "strncpy s t 0 = s"
| "strncpy s t (Suc n) = put_first (t 0)
     (if t 0 \<noteq> 0 then strncpy (advance s) (advance t) n else zero_fill (advance s) n)"

text \<open>The count of \<open>safestrcpy\<close> is the value of \<open>n\<close> before the \<open>--n\<close> of the loop head.\<close>

fun safestrcpy :: "bytes \<Rightarrow> bytes \<Rightarrow> nat \<Rightarrow> bytes" where
  "safestrcpy s t 0 = s"
| "safestrcpy s t (Suc n) =
     (if 0 < n then put_first (t 0)
        (if t 0 \<noteq> 0 then safestrcpy (advance s) (advance t) n else put_first 0 (advance (advance s)))
      else put_first 0 (advance s))"

partial_function (option) strlen_from :: "bytes \<Rightarrow> nat \<Rightarrow> nat option" where
  "strlen_from s n = (if s n = 0 then Some n else strlen_from s (Suc n))"

definition strlen :: "bytes \<Rightarrow> nat option" where
  "strlen s = strlen_from s 0"

text \<open>Two arrays hold the same string as far as the first \<open>n\<close> bytes tell.\<close>

definition same_string :: "nat \<Rightarrow> bytes \<Rightarrow> bytes \<Rightarrow> bool" where
  "same_string n p q \<longleftrightarrow> (\<forall>i < n. (\<forall>j < i. p j \<noteq> 0) \<longrightarrow> p i = q i)"

lemma same_string_Suc:
  "same_string (Suc n) p q \<longleftrightarrow>
     p 0 = q 0 \<and> (p 0 \<noteq> 0 \<longrightarrow> same_string n (advance p) (advance q))"
  unfolding same_string_def All_less_Suc2 by auto

lemma strncmp_eq_zero_iff: "strncmp p q n = 0 \<longleftrightarrow> same_string n p q"
proof (induction p q n rule: strncmp.induct)
  case (1 p q)
  then show ?case by (simp add: same_string_def)
next
  case (2 p q n)
  then show ?case by (auto simp: same_string_Suc word_uint_eq_iff)
qed

lemma put_first_simps [simp]:
  "put_first c p 0 = c" "put_first c p (Suc k) = p k"
  by (simp_all add: put_first_def)

lemma zero_fill_apply: "zero_fill s n k = (if k < n then 0 else s k)"
  by (induction s n arbitrary: k rule: zero_fill.induct) (auto split: nat.splits simp: put_first_def)

lemma strncpy_apply:
  "strncpy s t n k = (if k < n then (if \<forall>j < k. t j \<noteq> 0 then t k else 0) else s k)"
proof (induction s t n arbitrary: k rule: strncpy.induct)
  case (1 s t)
  then show ?case by simp
next
  case (2 s t n)
  then show ?case
    by (cases k) (auto simp: zero_fill_apply All_less_Suc2)
qed

lemma strncpy_same_string: "same_string n t (strncpy s t n)"
  by (auto simp: same_string_def strncpy_apply)

text \<open>\<open>safestrcpy\<close> writes below \<open>n\<close> only, and what it leaves there is a terminated prefix.\<close>

lemma safestrcpy_frame: "n \<le> k \<Longrightarrow> safestrcpy s t n k = s k"
proof (induction s t n arbitrary: k rule: safestrcpy.induct)
  case (1 s t)
  then show ?case by simp
next
  case (2 s t n)
  then obtain j where "k = Suc j" "n \<le> j" by (cases k) auto
  with 2 show ?case by (cases j) auto
qed

lemma safestrcpy_prefix:
  "Suc k < n \<Longrightarrow> \<forall>j < k. t j \<noteq> 0 \<Longrightarrow> safestrcpy s t n k = t k"
proof (induction s t n arbitrary: k rule: safestrcpy.induct)
  case (1 s t)
  then show ?case by simp
next
  case (2 s t n)
  then show ?case by (cases k) (auto simp: All_less_Suc2)
qed

lemma safestrcpy_terminated: "0 < n \<Longrightarrow> \<exists>k < n. safestrcpy s t n k = 0"
proof (induction s t n rule: safestrcpy.induct)
  case (1 s t)
  then show ?case by simp
next
  case (2 s t n)
  then show ?case by (cases "0 < n \<and> t 0 \<noteq> 0") (auto simp: Ex_less_Suc2)
qed

lemma strlen_from_first:
  assumes "s (n + k) = 0" and "\<forall>j < k. s (n + j) \<noteq> 0"
  shows "strlen_from s n = Some (n + k)"
  using assms
proof (induction k arbitrary: n)
  case 0
  then show ?case by (simp add: strlen_from.simps)
next
  case (Suc k)
  then show ?case
    by (subst strlen_from.simps) (auto simp: All_less_Suc2)
qed

lemma strlen_first: "s k = 0 \<Longrightarrow> \<forall>j < k. s j \<noteq> 0 \<Longrightarrow> strlen s = Some k"
  unfolding strlen_def using strlen_from_first [of s 0 k] by simp

end
