(* ===== verification/Spinlock.thy ===== *)
theory Spinlock
  imports Memory
begin

text \<open>
  The CPUs and spinlocks of the kernel: \<open>kernel/spinlock.h\<close>, \<open>kernel/spinlock.c\<close>, the
  \<open>struct cpu\<close> of \<open>kernel/proc.h\<close> and the interrupt-enable bit of \<open>kernel/riscv.h\<close>.

  The record \<open>machine\<close> is the root of the kernel state; every later component extends it. Its
  field \<open>lk\<close> holds what locking reads and writes, so that a critical section leaves the other
  fields to its body. A function runs on one hart, the one whose number the \<open>tp\<close> register of
  the running code holds. \<open>acquire\<close> spins when another hart holds the lock; in the model of one
  hart's run that is the outcome \<open>Spin\<close>. The interleaving of several harts inside
  \<open>acquire\<close> and \<open>release\<close> is the step relation \<open>spin_step\<close> at the end.
\<close>

subsection \<open>Data\<close>

record context_t =
  ctx_ra :: u64
  ctx_sp :: u64
  ctx_s :: "nat \<Rightarrow> u64" \<comment> \<open>s0 to s11\<close>

text \<open>A \<open>struct proc *\<close> is a slot of the process table, a \<open>struct thread *\<close> a pair of slots.\<close>

type_synonym pslot = nat
type_synonym tslot = "nat \<times> nat"

record cpu =
  cpu_proc :: "pslot option"
  cpu_thread :: "tslot option"
  cpu_context :: context_t
  noff :: int
  intena :: bool

record spinlock =
  locked :: bool
  lcpu :: "nat option"

text \<open>The spinlocks of the kernel, by the object they are part of.\<close>

datatype lockid =
    KmemLock | PidLock | TidLock | WaitLock | JoinLock | ProcLock nat | TicksLock
  | ConsLock | UartLock | PrLock | BcacheLock | BufLock nat | LogLock | ItableLock
  | InodeLock nat | FtableLock | PipeLock u64 | VdiskLock

record lockst =
  hart :: nat
  sstatus :: "nat \<Rightarrow> u64"
  cpus :: "nat \<Rightarrow> cpu"
  locks :: "lockid \<Rightarrow> spinlock"

text \<open>Addresses that the linker script and the assembly files define.\<close>

record image =
  kend :: u64
  etext :: u64
  trampoline :: u64
  uservec :: u64
  userret :: u64
  kernelvec :: u64
  usertrap_pc :: u64
  forkret_pc :: u64
  start_ret :: u64
  end_ret :: u64

record machine =
  mem :: mem
  lk :: lockst
  img :: image

definition SSTATUS_SIE :: u64 where "SSTATUS_SIE = 2"

subsection \<open>Interrupt enable, push\_off and pop\_off\<close>

definition r_sstatus :: "('z machine_scheme, u64) M" where
  "r_sstatus = gets (\<lambda>s. sstatus (lk s) (hart (lk s)))"

definition w_sstatus :: "u64 \<Rightarrow> ('z machine_scheme, unit) M" where
  "w_sstatus x = modify (\<lambda>s. s\<lparr>lk := (lk s)\<lparr>sstatus := (sstatus (lk s))(hart (lk s) := x)\<rparr>\<rparr>)"

definition intr_on :: "('z machine_scheme, unit) M" where
  "intr_on = bnd r_sstatus (\<lambda>x. w_sstatus (x OR SSTATUS_SIE))"

definition intr_off :: "('z machine_scheme, unit) M" where
  "intr_off = bnd r_sstatus (\<lambda>x. w_sstatus (x AND NOT SSTATUS_SIE))"

definition intr_get :: "('z machine_scheme, bool) M" where
  "intr_get = bnd r_sstatus (\<lambda>x. return (x AND SSTATUS_SIE \<noteq> 0))"

definition cpuid :: "('z machine_scheme, nat) M" where
  "cpuid = gets (\<lambda>s. hart (lk s))"

definition mycpu :: "('z machine_scheme, cpu) M" where
  "mycpu = bnd cpuid (\<lambda>id. gets (\<lambda>s. cpus (lk s) id))"

definition set_mycpu :: "(cpu \<Rightarrow> cpu) \<Rightarrow> ('z machine_scheme, unit) M" where
  "set_mycpu f = modify (\<lambda>s. s\<lparr>lk := (lk s)\<lparr>cpus :=
     (cpus (lk s))(hart (lk s) := f (cpus (lk s) (hart (lk s))))\<rparr>\<rparr>)"

definition push_off :: "('z machine_scheme, unit) M" where
  "push_off =
     bnd intr_get (\<lambda>old.
     seq intr_off (
     bnd mycpu (\<lambda>c.
     seq (whenM (noff c = 0) (set_mycpu (\<lambda>c. c\<lparr>intena := old\<rparr>))) (
     set_mycpu (\<lambda>c. c\<lparr>noff := noff c + 1\<rparr>)))))"

definition pop_off :: "('z machine_scheme, unit) M" where
  "pop_off =
     bnd intr_get (\<lambda>on.
     if on then panic ''pop_off - interruptible'' else
     bnd mycpu (\<lambda>c.
     if noff c < 1 then panic ''pop_off'' else
     seq (set_mycpu (\<lambda>c. c\<lparr>noff := noff c - 1\<rparr>)) (
     bnd mycpu (\<lambda>c.
     whenM (noff c = 0 \<and> intena c) intr_on))))"

subsection \<open>initlock, acquire, release, holding\<close>

definition set_lock :: "lockid \<Rightarrow> (spinlock \<Rightarrow> spinlock) \<Rightarrow> ('z machine_scheme, unit) M" where
  "set_lock l f = modify (\<lambda>s. s\<lparr>lk := (lk s)\<lparr>locks := (locks (lk s))(l := f (locks (lk s) l))\<rparr>\<rparr>)"

definition initlock :: "lockid \<Rightarrow> ('z machine_scheme, unit) M" where
  "initlock l = set_lock l (\<lambda>_. \<lparr>locked = False, lcpu = None\<rparr>)"

definition holding :: "lockid \<Rightarrow> ('z machine_scheme, bool) M" where
  "holding l = gets (\<lambda>s. locked (locks (lk s) l) \<and> lcpu (locks (lk s) l) = Some (hart (lk s)))"

definition acquire :: "lockid \<Rightarrow> ('z machine_scheme, unit) M" where
  "acquire l =
     seq push_off (
     bnd (holding l) (\<lambda>h.
     if h then panic ''acquire'' else
     bnd (gets (\<lambda>s. locked (locks (lk s) l))) (\<lambda>old.
     if old then spin else
     seq (set_lock l (\<lambda>x. x\<lparr>locked := True\<rparr>)) (
     bnd cpuid (\<lambda>id.
     set_lock l (\<lambda>x. x\<lparr>lcpu := Some id\<rparr>))))))"

definition release :: "lockid \<Rightarrow> ('z machine_scheme, unit) M" where
  "release l =
     bnd (holding l) (\<lambda>h.
     if \<not> h then panic ''release'' else
     seq (set_lock l (\<lambda>x. x\<lparr>lcpu := None\<rparr>)) (
     seq (set_lock l (\<lambda>x. x\<lparr>locked := False\<rparr>))
     pop_off))"

text \<open>\<open>myproc\<close> and \<open>mythread\<close> of \<open>kernel/proc.c\<close>: null is \<open>None\<close>.\<close>

definition myproc :: "('z machine_scheme, pslot option) M" where
  "myproc = seq push_off (bnd mycpu (\<lambda>c. seq pop_off (return (cpu_proc c))))"

definition mythread :: "('z machine_scheme, tslot option) M" where
  "mythread = seq push_off (bnd mycpu (\<lambda>c. seq pop_off (return (cpu_thread c))))"

lemmas lock_prims = r_sstatus_def w_sstatus_def intr_on_def intr_off_def intr_get_def
  cpuid_def mycpu_def set_mycpu_def set_lock_def holding_def

subsection \<open>The effect of locking\<close>

text \<open>
  The CPU running the code; whether its interrupts are on; the discipline that \<open>push_off\<close> and
  \<open>pop_off\<close> rely on (with a nonzero depth interrupts are off, at depth zero \<open>intena\<close> agrees
  with the hardware); a lock nobody holds.
\<close>

definition this_cpu :: "lockst \<Rightarrow> cpu" where
  "this_cpu k = cpus k (hart k)"

definition sie :: "lockst \<Rightarrow> bool" where
  "sie k \<longleftrightarrow> bit (sstatus k (hart k)) 1"

definition lk_ok :: "lockst \<Rightarrow> bool" where
  "lk_ok k \<longleftrightarrow> 0 \<le> noff (this_cpu k) \<and> (noff (this_cpu k) = 0 \<longrightarrow> intena (this_cpu k) = sie k)
     \<and> (0 < noff (this_cpu k) \<longrightarrow> \<not> sie k)"

definition lock_free :: "lockid \<Rightarrow> lockst \<Rightarrow> bool" where
  "lock_free l k \<longleftrightarrow> locks k l = \<lparr>locked = False, lcpu = None\<rparr>"

definition holds :: "lockid \<Rightarrow> lockst \<Rightarrow> bool" where
  "holds l k \<longleftrightarrow> locks k l = \<lparr>locked = True, lcpu = Some (hart k)\<rparr>"

definition lk_push :: "lockst \<Rightarrow> lockst" where
  "lk_push k = k\<lparr>sstatus := (sstatus k)(hart k := sstatus k (hart k) AND NOT SSTATUS_SIE),
     cpus := (cpus k)(hart k := (this_cpu k)\<lparr>
       intena := (if noff (this_cpu k) = 0 then sie k else intena (this_cpu k)),
       noff := noff (this_cpu k) + 1\<rparr>)\<rparr>"

definition lk_pop :: "lockst \<Rightarrow> lockst" where
  "lk_pop k = k\<lparr>cpus := (cpus k)(hart k := (this_cpu k)\<lparr>noff := noff (this_cpu k) - 1\<rparr>),
     sstatus := (sstatus k)(hart k :=
        (if noff (this_cpu k) = 1 \<and> intena (this_cpu k) then sstatus k (hart k) OR SSTATUS_SIE
         else sstatus k (hart k)))\<rparr>"

definition lk_acq :: "lockid \<Rightarrow> lockst \<Rightarrow> lockst" where
  "lk_acq l k = (lk_push k)\<lparr>locks := (locks k)(l := \<lparr>locked = True, lcpu = Some (hart k)\<rparr>)\<rparr>"

definition lk_rel :: "lockid \<Rightarrow> lockst \<Rightarrow> lockst" where
  "lk_rel l k = (lk_pop k)\<lparr>locks := (locks k)(l := \<lparr>locked = False, lcpu = None\<rparr>)\<rparr>"

lemma bit_SIE: "bit SSTATUS_SIE n \<longleftrightarrow> n = 1"
proof -
  have *: "SSTATUS_SIE = 2 ^ 1" by (simp add: SSTATUS_SIE_def)
  show ?thesis unfolding * by (simp only: bit_exp_iff possible_bit_word) auto
qed

lemma and_SIE_iff: "(x AND SSTATUS_SIE = 0) \<longleftrightarrow> \<not> bit x 1"
proof
  assume "x AND SSTATUS_SIE = 0"
  then have "\<not> bit (x AND SSTATUS_SIE) 1" by simp
  then show "\<not> bit x 1" by (simp add: bit_and_iff bit_SIE)
next
  assume "\<not> bit x 1"
  then show "x AND SSTATUS_SIE = 0" by (intro bit_word_eqI) (auto simp: bit_and_iff bit_SIE)
qed

lemma restore_SIE: "bit x 1 \<Longrightarrow> (x AND NOT SSTATUS_SIE) OR SSTATUS_SIE = x"
  by (rule bit_word_eqI) (auto simp: bit_and_iff bit_or_iff bit_not_iff bit_SIE)

lemma clear_SIE: "\<not> bit x 1 \<Longrightarrow> x AND NOT SSTATUS_SIE = x"
  by (rule bit_word_eqI) (auto simp: bit_and_iff bit_not_iff bit_SIE)

lemma push_off_run: "push_off e s = Ok () e (s\<lparr>lk := lk_push (lk s)\<rparr>)"
  by (simp add: push_off_def lock_prims lk_push_def this_cpu_def sie_def and_SIE_iff)

lemma pop_off_run:
  "pop_off e s = (if sie (lk s) then Panic ''pop_off - interruptible''
     else if noff (this_cpu (lk s)) < 1 then Panic ''pop_off''
     else Ok () e (s\<lparr>lk := lk_pop (lk s)\<rparr>))"
  by (simp add: pop_off_def lock_prims lk_pop_def this_cpu_def sie_def and_SIE_iff)

lemma spinlock_collapse [simp]:
  "(x :: spinlock)\<lparr>locked := a, lcpu := b\<rparr> = \<lparr>locked = a, lcpu = b\<rparr>"
  "(x :: spinlock)\<lparr>lcpu := b, locked := a\<rparr> = \<lparr>locked = a, lcpu = b\<rparr>"
  by (cases x; simp)+

lemma acquire_run:
  "acquire l e s =
     (if locked (locks (lk s) l) then
        (if lcpu (locks (lk s) l) = Some (hart (lk s)) then Panic ''acquire'' else Spin)
      else Ok () e (s\<lparr>lk := lk_acq l (lk s)\<rparr>))"
  by (simp add: acquire_def push_off_run holding_def set_lock_def cpuid_def lk_acq_def
      lk_push_def)

lemma release_run:
  assumes "holds l (lk s)"
  shows "release l e s =
     (if sie (lk s) then Panic ''pop_off - interruptible''
     else if noff (this_cpu (lk s)) < 1 then Panic ''pop_off''
     else Ok () e (s\<lparr>lk := lk_rel l (lk s)\<rparr>))"
  using assms
  by (simp add: release_def holding_def set_lock_def holds_def pop_off_run lk_rel_def lk_pop_def
      sie_def this_cpu_def)

lemma release_not_held: "\<not> (locked (locks (lk s) l) \<and> lcpu (locks (lk s) l) = Some (hart (lk s))) \<Longrightarrow>
    release l e s = Panic ''release''"
  by (auto simp: release_def holding_def)


lemma hart_lk_simps [simp]:
  "hart (lk_push k) = hart k" "hart (lk_pop k) = hart k"
  "hart (lk_acq l k) = hart k" "hart (lk_rel l k) = hart k"
  by (simp_all add: lk_push_def lk_pop_def lk_acq_def lk_rel_def)

lemma locks_lk_simps [simp]:
  "locks (lk_push k) = locks k" "locks (lk_pop k) = locks k"
  "locks (lk_acq l k) = (locks k)(l := \<lparr>locked = True, lcpu = Some (hart k)\<rparr>)"
  "locks (lk_rel l k) = (locks k)(l := \<lparr>locked = False, lcpu = None\<rparr>)"
  by (simp_all add: lk_push_def lk_pop_def lk_acq_def lk_rel_def)

lemma cpu_lk_simps [simp]:
  "cpu_proc (this_cpu (lk_push k)) = cpu_proc (this_cpu k)"
  "cpu_thread (this_cpu (lk_push k)) = cpu_thread (this_cpu k)"
  "cpu_proc (this_cpu (lk_acq l k)) = cpu_proc (this_cpu k)"
  "cpu_thread (this_cpu (lk_acq l k)) = cpu_thread (this_cpu k)"
  "cpu_proc (this_cpu (lk_pop k)) = cpu_proc (this_cpu k)"
  "cpu_thread (this_cpu (lk_pop k)) = cpu_thread (this_cpu k)"
  "noff (this_cpu (lk_push k)) = noff (this_cpu k) + 1"
  "noff (this_cpu (lk_acq l k)) = noff (this_cpu k) + 1"
  "intena (this_cpu (lk_acq l k)) = (if noff (this_cpu k) = 0 then sie k else intena (this_cpu k))"
  by (simp_all add: lk_push_def lk_pop_def lk_acq_def this_cpu_def)

lemma sie_lk_push [simp]: "\<not> sie (lk_push k)" "\<not> sie (lk_acq l k)"
  by (simp_all add: sie_def lk_push_def lk_acq_def bit_and_iff bit_not_iff bit_SIE)

lemma lk_ok_push [simp]: "lk_ok k \<Longrightarrow> lk_ok (lk_push k)" "lk_ok k \<Longrightarrow> lk_ok (lk_acq l k)"
  by (simp_all add: lk_ok_def)

lemma cpu_update_idem:
  "intena c = b \<Longrightarrow> c\<lparr>intena := b\<rparr> = c" "noff c = n \<Longrightarrow> c\<lparr>noff := n\<rparr> = c"
  by (cases c; simp)+

lemma lk_pop_push: "lk_ok k \<Longrightarrow> lk_pop (lk_push k) = k"
proof (cases "sie k")
  case True
  assume "lk_ok k"
  with True have "noff (this_cpu k) = 0" "intena (this_cpu k)" by (auto simp: lk_ok_def)
  moreover from this have "(this_cpu k)\<lparr>intena := True, noff := 0\<rparr> = this_cpu k"
    by (cases "this_cpu k") simp
  ultimately show ?thesis using True
    by (simp add: lk_pop_def lk_push_def this_cpu_def restore_SIE sie_def fun_upd_idem)
next
  case False
  assume "lk_ok k"
  with False have "noff (this_cpu k) = 0 \<longrightarrow> \<not> intena (this_cpu k)" by (auto simp: lk_ok_def)
  with False show ?thesis
    by (auto simp add: lk_pop_def lk_push_def this_cpu_def clear_SIE sie_def cpu_update_idem)
qed

lemma lk_rel_acq: "lk_ok k \<Longrightarrow> lock_free l k \<Longrightarrow> lk_rel l (lk_acq l k) = k"
proof -
  assume ok: "lk_ok k" and fr: "lock_free l k"
  have "lk_rel l (lk_acq l k) = (lk_pop (lk_push k))\<lparr>locks := (locks k)(l := \<lparr>locked = False, lcpu = None\<rparr>)\<rparr>"
    by (simp add: lk_rel_def lk_acq_def lk_pop_def lk_push_def this_cpu_def)
  also have "\<dots> = k" using fr ok by (simp add: lk_pop_push lock_free_def fun_upd_idem)
  finally show ?thesis .
qed


lemma lk_acq_commute: "l \<noteq> m \<Longrightarrow> lk_acq l (lk_acq m k) = lk_acq m (lk_acq l k)"
proof -
  assume "l \<noteq> m"
  have "lk_acq a (lk_acq b k) = (lk_push (lk_push k))\<lparr>locks := (locks k)
      (b := \<lparr>locked = True, lcpu = Some (hart k)\<rparr>, a := \<lparr>locked = True, lcpu = Some (hart k)\<rparr>)\<rparr>" for a b
    by (simp add: lk_acq_def lk_push_def this_cpu_def sie_def)
  with \<open>l \<noteq> m\<close> show ?thesis by (simp add: fun_upd_twist)
qed

lemma lock_free_acq [simp]: "lock_free l (lk_acq m k) \<longleftrightarrow> l \<noteq> m \<and> lock_free l k"
  by (auto simp: lock_free_def)

lemma holds_acq [simp]: "holds l (lk_acq m k) \<longleftrightarrow> l = m \<or> holds l k"
  by (auto simp: holds_def)

text \<open>Symbolic execution of a critical section, also one whose releases are not nested.\<close>

named_theorems lock_run "the effect of locking on a state whose lock component is known"

lemma acquire_free [lock_run]:
  "lock_free l (lk s) \<Longrightarrow> acquire l e s = Ok () e (s\<lparr>lk := lk_acq l (lk s)\<rparr>)"
  by (simp add: acquire_run lock_free_def)

lemma acquire_again: "holds l (lk s) \<Longrightarrow> acquire l e s = Panic ''acquire''"
  by (simp add: acquire_run holds_def)

lemma acquire_other:
  "locks (lk s) l = \<lparr>locked = True, lcpu = c\<rparr> \<Longrightarrow> c \<noteq> Some (hart (lk s)) \<Longrightarrow> acquire l e s = Spin"
  by (simp add: acquire_run)

lemma release_acq [lock_run]:
  assumes "lk s = lk_acq l k" and "lk_ok k" and "lock_free l k"
  shows "release l e s = Ok () e (s\<lparr>lk := k\<rparr>)"
proof -
  have "noff (this_cpu k) \<ge> 0" using assms(2) by (simp add: lk_ok_def)
  then show ?thesis using assms by (simp add: release_run lk_rel_acq)
qed

lemma release_acq2 [lock_run]:
  assumes "lk s = lk_acq m (lk_acq l k)" and "l \<noteq> m" and "lk_ok k" and "lock_free l k"
  shows "release l e s = Ok () e (s\<lparr>lk := lk_acq m k\<rparr>)"
  using assms by (intro release_acq) (simp_all add: lk_acq_commute)

lemma release_free: "lock_free l (lk s) \<Longrightarrow> release l e s = Panic ''release''"
  by (simp add: release_not_held lock_free_def)

lemma holding_run [simp]:
  "holding l e s = Ok (locked (locks (lk s) l) \<and> lcpu (locks (lk s) l) = Some (hart (lk s))) e s"
  by (simp add: holding_def)

lemma mycpu_run [simp]: "mycpu e s = Ok (this_cpu (lk s)) e s"
  by (simp add: mycpu_def cpuid_def this_cpu_def)

lemma myproc_run [lock_run]: "lk_ok (lk s) \<Longrightarrow> myproc e s = Ok (cpu_proc (this_cpu (lk s))) e s"
  by (auto simp: myproc_def push_off_run pop_off_run lk_pop_push lk_ok_def)

lemma mythread_run [lock_run]: "lk_ok (lk s) \<Longrightarrow> mythread e s = Ok (cpu_thread (this_cpu (lk s))) e s"
  by (auto simp: mythread_def push_off_run pop_off_run lk_pop_push lk_ok_def)

text \<open>
  A concrete machine for evaluations: hart 0 with interrupts off and no lock held, running
  thread 0 of process 0, and a kernel image that ends at \<open>0x80100000\<close>.
\<close>

definition sample_cpu :: cpu where
  "sample_cpu = \<lparr>cpu_proc = Some 0, cpu_thread = Some (0, 0),
     cpu_context = \<lparr>ctx_ra = 0, ctx_sp = 0, ctx_s = (\<lambda>_. 0)\<rparr>, noff = 0, intena = False\<rparr>"

definition sample_lk :: lockst where
  "sample_lk = \<lparr>hart = 0, sstatus = (\<lambda>_. 0), cpus = (\<lambda>_. sample_cpu),
     locks = (\<lambda>_. \<lparr>locked = False, lcpu = None\<rparr>)\<rparr>"

definition sample_img :: image where
  "sample_img = \<lparr>kend = 0x80100000, etext = 0x80008000, trampoline = 0x80007000,
     uservec = 0x80007000, userret = 0x80007090, kernelvec = 0x80005000,
     usertrap_pc = 0x80002000, forkret_pc = 0x80001900,
     start_ret = 0x80006000, end_ret = 0x80006008\<rparr>"

lemma sample_lk_simps [simp]:
  "lk_ok sample_lk" "lock_free l sample_lk" "hart sample_lk = 0"
  "this_cpu sample_lk = sample_cpu" "\<not> sie sample_lk"
  by (simp_all add: sample_lk_def lk_ok_def this_cpu_def sie_def lock_free_def sample_cpu_def)

lemma sample_img_simps [simp]: "kend sample_img = 0x80100000"
  by (simp add: sample_img_def)

subsection \<open>Several harts inside acquire and release\<close>

text \<open>
  One lock and any number of harts. The program counter of a hart names the instruction it is
  about to execute: \<open>Outside\<close> (before the \<open>holding\<close> check of \<open>acquire\<close>), \<open>AtSwap\<close> (in the
  \<open>__sync_lock_test_and_set\<close> loop), \<open>AtRecord\<close> (before \<open>lk->cpu = mycpu()\<close>), \<open>Critical\<close>
  (returned from \<open>acquire\<close>), \<open>AtUnlock\<close> (in \<open>release\<close>, after \<open>lk->cpu = 0\<close>).
\<close>

datatype spin_pc = Outside | AtSwap | AtRecord | Critical | AtUnlock

record spin_sys =
  spin_lock :: spinlock
  spin_pcs :: "nat \<Rightarrow> spin_pc"

definition spin_init :: spin_sys where
  "spin_init = \<lparr>spin_lock = \<lparr>locked = False, lcpu = None\<rparr>, spin_pcs = (\<lambda>_. Outside)\<rparr>"

definition holding_by :: "nat \<Rightarrow> spinlock \<Rightarrow> bool" where
  "holding_by h l \<longleftrightarrow> locked l \<and> lcpu l = Some h"

inductive spin_step :: "spin_sys \<Rightarrow> spin_sys \<Rightarrow> bool" where
  enter: "spin_pcs s h = Outside \<Longrightarrow> \<not> holding_by h (spin_lock s) \<Longrightarrow>
    spin_step s (s\<lparr>spin_pcs := (spin_pcs s)(h := AtSwap)\<rparr>)"
| lose: "spin_pcs s h = AtSwap \<Longrightarrow> locked (spin_lock s) \<Longrightarrow>
    spin_step s (s\<lparr>spin_lock := (spin_lock s)\<lparr>locked := True\<rparr>\<rparr>)"
| win: "spin_pcs s h = AtSwap \<Longrightarrow> \<not> locked (spin_lock s) \<Longrightarrow>
    spin_step s (s\<lparr>spin_lock := (spin_lock s)\<lparr>locked := True\<rparr>,
                   spin_pcs := (spin_pcs s)(h := AtRecord)\<rparr>)"
| record_cpu: "spin_pcs s h = AtRecord \<Longrightarrow>
    spin_step s (s\<lparr>spin_lock := (spin_lock s)\<lparr>lcpu := Some h\<rparr>,
                   spin_pcs := (spin_pcs s)(h := Critical)\<rparr>)"
| clear_cpu: "spin_pcs s h = Critical \<Longrightarrow> holding_by h (spin_lock s) \<Longrightarrow>
    spin_step s (s\<lparr>spin_lock := (spin_lock s)\<lparr>lcpu := None\<rparr>,
                   spin_pcs := (spin_pcs s)(h := AtUnlock)\<rparr>)"
| unlock: "spin_pcs s h = AtUnlock \<Longrightarrow>
    spin_step s (s\<lparr>spin_lock := (spin_lock s)\<lparr>locked := False\<rparr>,
                   spin_pcs := (spin_pcs s)(h := Outside)\<rparr>)"

inductive spin_reachable :: "spin_sys \<Rightarrow> bool" where
  start: "spin_reachable spin_init"
| step: "spin_reachable s \<Longrightarrow> spin_step s t \<Longrightarrow> spin_reachable t"

definition spin_owner :: "spin_sys \<Rightarrow> nat \<Rightarrow> bool" where
  "spin_owner s h \<longleftrightarrow> spin_pcs s h \<in> {AtRecord, Critical, AtUnlock}"

definition spin_owned :: "nat option \<Rightarrow> spin_sys \<Rightarrow> bool" where
  "spin_owned w s \<longleftrightarrow>
     (\<forall>h. spin_owner s h \<longleftrightarrow> w = Some h) \<and> (locked (spin_lock s) \<longleftrightarrow> w \<noteq> None) \<and>
     (\<forall>h. lcpu (spin_lock s) = Some h \<longleftrightarrow> spin_pcs s h = Critical)"

definition spin_inv :: "spin_sys \<Rightarrow> bool" where
  "spin_inv s \<longleftrightarrow> (\<exists>w. spin_owned w s)"

lemma spin_inv_init: "spin_inv spin_init"
  unfolding spin_inv_def
  by (rule exI [of _ None]) (simp add: spin_owned_def spin_init_def spin_owner_def)

lemma spin_ownedD:
  assumes "spin_owned w s"
  shows "spin_pcs s h \<in> {AtRecord, Critical, AtUnlock} \<longleftrightarrow> w = Some h"
    and "locked (spin_lock s) \<longleftrightarrow> w \<noteq> None"
    and "lcpu (spin_lock s) = Some h \<longleftrightarrow> spin_pcs s h = Critical"
  using assms unfolding spin_owned_def spin_owner_def by blast+

lemma spin_ownedI:
  assumes "\<And>h. spin_pcs s h \<in> {AtRecord, Critical, AtUnlock} \<longleftrightarrow> w = Some h"
    and "locked (spin_lock s) \<longleftrightarrow> w \<noteq> None"
    and "\<And>h. lcpu (spin_lock s) = Some h \<longleftrightarrow> spin_pcs s h = Critical"
  shows "spin_inv s"
  using assms unfolding spin_inv_def spin_owned_def spin_owner_def by blast

lemma spin_others:
  assumes "spin_owned (Some h) s" and "h' \<noteq> h"
  shows "spin_pcs s h' \<notin> {AtRecord, Critical, AtUnlock}"
  using assms spin_ownedD(1) [OF assms(1), of h'] by simp

lemma spin_owner_move:
  assumes "spin_owned (Some h) s" and "pc \<in> {AtRecord, Critical, AtUnlock}"
    and "locked l" and "lcpu l = (if pc = Critical then Some h else None)"
  shows "spin_inv (s\<lparr>spin_lock := l, spin_pcs := (spin_pcs s)(h := pc)\<rparr>)"
proof (rule spin_ownedI [of _ "Some h"])
  fix h'
  show "spin_pcs (s\<lparr>spin_lock := l, spin_pcs := (spin_pcs s)(h := pc)\<rparr>) h'
      \<in> {AtRecord, Critical, AtUnlock} \<longleftrightarrow> Some h = Some h'"
    using assms(2) spin_others [OF assms(1), of h'] by (cases "h' = h") auto
  show "lcpu (spin_lock (s\<lparr>spin_lock := l, spin_pcs := (spin_pcs s)(h := pc)\<rparr>)) = Some h' \<longleftrightarrow>
      spin_pcs (s\<lparr>spin_lock := l, spin_pcs := (spin_pcs s)(h := pc)\<rparr>) h' = Critical"
    using assms(4) spin_others [OF assms(1), of h'] by (cases "h' = h") auto
qed (use assms in simp)

lemma spin_step_inv: "spin_step s t \<Longrightarrow> spin_inv s \<Longrightarrow> spin_inv t"
proof (induction rule: spin_step.induct)
  case (enter s h)
  then obtain w where w: "spin_owned w s" by (auto simp: spin_inv_def)
  with enter have "w \<noteq> Some h" using spin_ownedD(1) [OF w, of h] by simp
  then show ?case
    by (intro spin_ownedI [of _ w]) (use spin_ownedD [OF w] enter in \<open>auto split: if_splits\<close>)
next
  case (lose s h)
  then obtain w where w: "spin_owned w s" by (auto simp: spin_inv_def)
  show ?case by (rule spin_ownedI [of _ w]) (use spin_ownedD [OF w] lose in auto)
next
  case (win s h)
  then obtain w where w: "spin_owned w s" by (auto simp: spin_inv_def)
  with win(2) have "w = None" using spin_ownedD(2) by auto
  with w show ?case
    by (intro spin_ownedI [of _ "Some h"]) (use spin_ownedD [OF w] in auto)
next
  case (record_cpu s h)
  then obtain w where w: "spin_owned w s" by (auto simp: spin_inv_def)
  with record_cpu have "w = Some h" using spin_ownedD(1) [OF w, of h] by simp
  with w show ?case using spin_ownedD(2) [OF w] by (intro spin_owner_move) simp_all
next
  case (clear_cpu s h)
  then obtain w where w: "spin_owned w s" by (auto simp: spin_inv_def)
  with clear_cpu have "w = Some h" using spin_ownedD(1) [OF w, of h] by simp
  with w show ?case using spin_ownedD(2) [OF w] by (intro spin_owner_move) simp_all
next
  case (unlock s h)
  then obtain w where w: "spin_owned w s" by (auto simp: spin_inv_def)
  with unlock have "w = Some h" using spin_ownedD(1) [OF w, of h] by simp
  with w have oth: "spin_pcs s h' \<notin> {AtRecord, Critical, AtUnlock}" if "h' \<noteq> h" for h'
    using that spin_others by blast
  let ?t = "s\<lparr>spin_lock := (spin_lock s)\<lparr>locked := False\<rparr>, spin_pcs := (spin_pcs s)(h := Outside)\<rparr>"
  show ?case
  proof (rule spin_ownedI [of _ None])
    fix h'
    show "spin_pcs ?t h' \<in> {AtRecord, Critical, AtUnlock} \<longleftrightarrow> None = Some h'"
      using oth [of h'] by (cases "h' = h") auto
    show "lcpu (spin_lock ?t) = Some h' \<longleftrightarrow> spin_pcs ?t h' = Critical"
      using unlock spin_ownedD(3) [OF w, of h'] by (cases "h' = h") auto
  qed simp
qed

lemma spin_reachable_inv: "spin_reachable s \<Longrightarrow> spin_inv s"
  by (induction rule: spin_reachable.induct) (auto intro: spin_inv_init spin_step_inv)

text \<open>
  C1. Mutual exclusion of \<open>acquire\<close>/\<open>release\<close> at the granularity of single instructions: in every
  reachable state at most one hart is past the atomic swap of \<open>acquire\<close> and before the store that
  unlocks, and \<open>holding\<close>, which reads \<open>locked\<close> and \<open>cpu\<close> without any lock, is true on a hart
  exactly while that hart is in its critical section.
\<close>

theorem spin_mutual_exclusion:
  assumes "spin_reachable s"
  shows "(spin_owner s h \<and> spin_owner s h' \<longrightarrow> h = h') \<and>
    (holding_by h (spin_lock s) \<longleftrightarrow> spin_pcs s h = Critical)"
proof -
  obtain w where w: "spin_owned w s"
    using spin_reachable_inv [OF assms] by (auto simp: spin_inv_def)
  then have "spin_owner s h \<and> spin_owner s h' \<longrightarrow> h = h'" by (auto simp: spin_owned_def)
  moreover have "holding_by h (spin_lock s) \<longleftrightarrow> spin_pcs s h = Critical"
    using spin_ownedD [OF w] unfolding holding_by_def by auto
  ultimately show ?thesis ..
qed

theorem spin_mutual_exclusion_witness:
  "\<exists>s. spin_reachable s \<and> spin_pcs s 0 = Critical \<and> spin_pcs s 1 = AtSwap \<and>
     spin_owner s 0 \<and> \<not> spin_owner s 1 \<and> holding_by 0 (spin_lock s)"
proof -
  let ?s1 = "spin_init\<lparr>spin_pcs := (spin_pcs spin_init)(0 := AtSwap)\<rparr>"
  let ?s2 = "?s1\<lparr>spin_pcs := (spin_pcs ?s1)(1 := AtSwap)\<rparr>"
  let ?s3 = "?s2\<lparr>spin_lock := (spin_lock ?s2)\<lparr>locked := True\<rparr>, spin_pcs := (spin_pcs ?s2)(0 := AtRecord)\<rparr>"
  let ?s4 = "?s3\<lparr>spin_lock := (spin_lock ?s3)\<lparr>lcpu := Some 0\<rparr>, spin_pcs := (spin_pcs ?s3)(0 := Critical)\<rparr>"
  have "spin_reachable ?s1"
    by (rule spin_reachable.step [OF spin_reachable.start], rule spin_step.enter)
      (simp_all add: spin_init_def holding_by_def)
  then have "spin_reachable ?s2"
    by (rule spin_reachable.step, intro spin_step.enter) (simp_all add: spin_init_def holding_by_def)
  then have "spin_reachable ?s3"
    by (rule spin_reachable.step, intro spin_step.win) (simp_all add: spin_init_def)
  then have r: "spin_reachable ?s4"
    by (rule spin_reachable.step, intro spin_step.record_cpu) simp
  have o: "spin_owner ?s4 0" by (simp add: spin_owner_def)
  then show ?thesis using r spin_mutual_exclusion [OF r, of 0 1] by (intro exI [of _ ?s4]) auto
qed

end
