(* ===== verification/Kalloc.thy ===== *)
theory Kalloc
  imports Spinlock
begin

text \<open>
  The physical page allocator \<open>kernel/kalloc.c\<close>. The free list lives in the free pages
  themselves: \<open>freelist\<close> is the address of the first free page and the first eight bytes of a
  free page hold the address of the next one, in the raw memory of the machine.
\<close>

record kmem_state = machine +
  freelist :: u64

definition kfree :: "u64 \<Rightarrow> ('z kmem_state_scheme, unit) M" where
  "kfree pa =
     bnd (gets (\<lambda>s. kend (img s))) (\<lambda>kernel_end.
     if pa mod PGSIZE \<noteq> 0 \<or> pa < kernel_end \<or> pa \<ge> PHYSTOP then panic ''kfree'' else
     seq (modify (\<lambda>s. s\<lparr>mem := memset pa 1 4096 (mem s)\<rparr>)) (
     seq (acquire KmemLock) (
     seq (modify (\<lambda>s. s\<lparr>mem := store64 pa (freelist s) (mem s)\<rparr>)) (
     seq (modify (\<lambda>s. s\<lparr>freelist := pa\<rparr>))
     (release KmemLock)))))"

definition kalloc :: "('z kmem_state_scheme, u64) M" where
  "kalloc =
     seq (acquire KmemLock) (
     bnd (gets freelist) (\<lambda>r.
     seq (whenM (r \<noteq> 0) (modify (\<lambda>s. s\<lparr>freelist := load64 (mem s) r\<rparr>))) (
     seq (release KmemLock) (
     seq (whenM (r \<noteq> 0) (modify (\<lambda>s. s\<lparr>mem := memset r 5 4096 (mem s)\<rparr>)))
     (return r)))))"

text \<open>
  The loop of \<open>freerange\<close>. Its fuel, one more than the number of page frames below \<open>pa_end\<close>, is
  enough: \<open>freerange_loop_all\<close> below shows that the loop ends by its own test.
\<close>

primrec freerange_loop :: "nat \<Rightarrow> u64 \<Rightarrow> u64 \<Rightarrow> ('z kmem_state_scheme, unit) M" where
  "freerange_loop 0 p pa_end = fault ''fuel''"
| "freerange_loop (Suc n) p pa_end =
     (if p + PGSIZE \<le> pa_end then seq (kfree p) (freerange_loop n (p + PGSIZE) pa_end) else skip)"

definition freerange :: "u64 \<Rightarrow> u64 \<Rightarrow> ('z kmem_state_scheme, unit) M" where
  "freerange pa_start pa_end =
     freerange_loop (Suc (unat pa_end div 4096)) (PGROUNDUP pa_start) pa_end"

definition kinit :: "('z kmem_state_scheme, unit) M" where
  "kinit = seq (initlock KmemLock)
     (bnd (gets (\<lambda>s. kend (img s))) (\<lambda>kernel_end. freerange kernel_end PHYSTOP))"

subsection \<open>Pages\<close>

definition in_page :: "u64 \<Rightarrow> u64 \<Rightarrow> bool" where
  "in_page a p \<longleftrightarrow> in_range a p 4096"

lemma unat_aligned: "page_aligned p \<longleftrightarrow> unat p mod 4096 = 0"
  by (simp add: page_aligned_def PGSIZE_def word_unat_eq_iff unat_mod_distrib)

lemma in_page_iff: "page_aligned p \<Longrightarrow> in_page a p \<longleftrightarrow> PGROUNDDOWN a = p"
proof
  assume al: "page_aligned p" and "in_page a p"
  then have x: "unat (a - p) < 4096" by (simp add: in_page_def in_range_def)
  from al have "unat p mod 4096 = 0" by (simp add: unat_aligned)
  then have d: "unat p = unat p div 4096 * 4096" by (metis add.right_neutral div_mult_mod_eq)
  moreover have "unat p div 4096 < 2 ^ 52" using unat_lt64 [of p] by (simp add: div_less_iff_less_mult)
  ultimately have "unat p \<le> (2 ^ 52 - 1) * 4096"
    by (metis One_nat_def Suc_leI Suc_pred mult_le_mono1 not_less_eq_eq zero_less_numeral zero_less_power)
  then have "unat a = unat p + unat (a - p)"
    using x unat_add64 [of p "a - p"] by simp
  then have "unat a div 4096 * 4096 = unat p"
    using x d by (metis div_less div_mult_self3 add.commute add.right_neutral numeral_eq_Suc zero_neq_numeral)
  then show "PGROUNDDOWN a = p" by (simp add: word_unat_eq_iff unat_PGROUNDDOWN)
next
  assume "PGROUNDDOWN a = p"
  then show "in_page a p" using unat_page_offset [of a] by (auto simp: in_page_def in_range_def)
qed

lemma in_page_unique: "page_aligned p \<Longrightarrow> page_aligned q \<Longrightarrow> in_page a p \<Longrightarrow> in_page a q \<Longrightarrow> p = q"
  by (simp add: in_page_iff)

lemma in_range_in_page: "in_range a p n \<Longrightarrow> n \<le> 4096 \<Longrightarrow> in_page a p"
  by (simp add: in_page_def in_range_def)

definition valid_page :: "u64 \<Rightarrow> u64 \<Rightarrow> bool" where
  "valid_page kernel_end p \<longleftrightarrow> page_aligned p \<and> kernel_end \<le> p \<and> p < PHYSTOP"

lemma valid_page_kfree_test:
  "valid_page kernel_end p \<longleftrightarrow> \<not> (p mod PGSIZE \<noteq> 0 \<or> p < kernel_end \<or> p \<ge> PHYSTOP)"
  by (auto simp: valid_page_def page_aligned_def not_less not_le)

subsection \<open>The free list\<close>

fun free_chain :: "mem \<Rightarrow> u64 \<Rightarrow> u64 list \<Rightarrow> bool" where
  "free_chain m p [] \<longleftrightarrow> p = 0"
| "free_chain m p (q # qs) \<longleftrightarrow> p = q \<and> q \<noteq> 0 \<and> free_chain m (load64 m q) qs"

lemma free_chain_cong:
  "(\<And>q. q \<in> set qs \<Longrightarrow> load64 m q = load64 m' q) \<Longrightarrow> free_chain m p qs = free_chain m' p qs"
  by (induction qs arbitrary: p) auto

text \<open>\<open>kmem_inv s ps\<close>: the free pages of \<open>s\<close> are \<open>ps\<close>, in the order of the list.\<close>

definition kmem_inv :: "'z kmem_state_scheme \<Rightarrow> u64 list \<Rightarrow> bool" where
  "kmem_inv s ps \<longleftrightarrow> free_chain (mem s) (freelist s) ps \<and> distinct ps \<and>
     (\<forall>p \<in> set ps. valid_page (kend (img s)) p)"

definition idle :: "'z machine_scheme \<Rightarrow> bool" where
  "idle s \<longleftrightarrow> lk_ok (lk s) \<and> 0 < kend (img s)"

lemma load64_in_page:
  assumes "page_aligned q" and "\<And>a. in_page a q \<Longrightarrow> m a = m' a"
  shows "load64 m q = load64 m' q"
  by (rule load64_cong) (erule assms(2) [OF in_range_in_page], simp)

text \<open>Writes that stay outside the free pages do not disturb the list.\<close>

lemma kmem_inv_frame:
  assumes "kmem_inv s ps" and "freelist s' = freelist s" and "img s' = img s"
    and "\<And>a p. p \<in> set ps \<Longrightarrow> in_page a p \<Longrightarrow> mem s' a = mem s a"
  shows "kmem_inv s' ps"
proof -
  have "load64 (mem s) q = load64 (mem s') q" if "q \<in> set ps" for q
    using that assms by (intro load64_in_page) (auto simp: kmem_inv_def valid_page_def)
  then have "free_chain (mem s) (freelist s) ps = free_chain (mem s') (freelist s) ps"
    by (rule free_chain_cong)
  with assms show ?thesis by (auto simp: kmem_inv_def)
qed

lemma kfree_run:
  assumes "idle s" and "lock_free KmemLock (lk s)"
  shows "kfree pa e s = (if valid_page (kend (img s)) pa then
      Ok () e (s\<lparr>mem := store64 pa (freelist s) (memset pa 1 4096 (mem s)), freelist := pa\<rparr>)
     else Panic ''kfree'')"
proof (cases "valid_page (kend (img s)) pa")
  case True
  then have "\<not> (pa mod PGSIZE \<noteq> 0 \<or> pa < kend (img s) \<or> pa \<ge> PHYSTOP)"
    using valid_page_kfree_test by blast
  with True assms show ?thesis by (simp add: kfree_def lock_run idle_def)
next
  case False
  then show ?thesis by (auto simp: kfree_def valid_page_kfree_test)
qed

lemma kalloc_run:
  assumes "idle s" and "lock_free KmemLock (lk s)"
  shows "kalloc e s = (if freelist s = 0 then Ok 0 e s else
      Ok (freelist s) e (s\<lparr>mem := memset (freelist s) 5 4096 (mem s),
        freelist := load64 (mem s) (freelist s)\<rparr>))"
  using assms by (simp add: kalloc_def lock_run idle_def)

lemma kalloc_empty:
  assumes "idle s" and "lock_free KmemLock (lk s)" and "kmem_inv s []"
  shows "kalloc e s = Ok 0 e s"
  using assms by (simp add: kalloc_run kmem_inv_def)

lemma kalloc_Cons:
  assumes "idle s" and "lock_free KmemLock (lk s)" and inv: "kmem_inv s (q # qs)"
  defines "s' \<equiv> s\<lparr>mem := memset q 5 4096 (mem s), freelist := load64 (mem s) q\<rparr>"
  shows "kalloc e s = Ok q e s'" and "kmem_inv s' qs"
proof -
  from inv have q: "freelist s = q" "q \<noteq> 0" "free_chain (mem s) (load64 (mem s) q) qs"
    and d: "distinct (q # qs)" and v: "\<forall>p \<in> set (q # qs). valid_page (kend (img s)) p"
    by (auto simp: kmem_inv_def)
  from q assms(1,2) show "kalloc e s = Ok q e s'" by (simp add: kalloc_run s'_def)
  have "kmem_inv (s\<lparr>freelist := load64 (mem s) q\<rparr>) qs"
    using q d v by (simp add: kmem_inv_def)
  then show "kmem_inv s' qs"
  proof (rule kmem_inv_frame)
    fix a p assume "p \<in> set qs" "in_page a p"
    with d v have "\<not> in_page a q" by (auto simp: valid_page_def dest: in_page_unique)
    then show "mem s' a = mem (s\<lparr>freelist := load64 (mem s) q\<rparr>) a"
      by (simp add: s'_def memset_apply in_page_def)
  qed (simp_all add: s'_def)
qed

lemma kfree_inv:
  assumes "0 < kend (img s)" and inv: "kmem_inv s ps"
    and v: "valid_page (kend (img s)) pa" and "pa \<notin> set ps"
  shows "kmem_inv (s\<lparr>mem := store64 pa (freelist s) (memset pa 1 4096 (mem s)), freelist := pa\<rparr>)
     (pa # ps)" (is "kmem_inv ?s' _")
proof -
  let ?m = "store64 pa (freelist s) (memset pa 1 4096 (mem s))"
  have "pa \<noteq> 0" using assms(1) v by (auto simp: valid_page_def)
  have "?m a = mem s a" if "p \<in> set ps" "in_page a p" for a p
  proof -
    have "page_aligned p" using that inv by (auto simp: kmem_inv_def valid_page_def)
    moreover have "p \<noteq> pa" using that assms(4) by auto
    ultimately have "\<not> in_page a pa" using v that in_page_unique by (auto simp: valid_page_def)
    then show ?thesis
      by (simp add: store64_frame memset_apply in_page_def in_range_def)
  qed
  then have "load64 (mem s) q = load64 ?m q" if "q \<in> set ps" for q
    using that inv by (intro load64_in_page) (auto simp: kmem_inv_def valid_page_def)
  then have "free_chain ?m (freelist s) ps"
    using inv free_chain_cong [of ps "mem s" ?m] by (simp add: kmem_inv_def)
  with \<open>pa \<noteq> 0\<close> assms show ?thesis by (simp add: kmem_inv_def)
qed


subsection \<open>Booting the allocator\<close>

lemma freerange_loop_all:
  assumes "idle s" and "lock_free KmemLock (lk s)" and "kmem_inv s ps"
    and "page_aligned p" and "kend (img s) \<le> p" and "unat p + k * 4096 \<le> unat PHYSTOP"
    and "unat PHYSTOP < unat p + Suc k * 4096"
    and "\<And>q. q \<in> set ps \<Longrightarrow> q < p" and "k < n"
  shows "\<exists>s'. freerange_loop n p PHYSTOP e s = Ok () e s' \<and> lk s' = lk s \<and> img s' = img s \<and>
     kmem_inv s' (rev (map (\<lambda>i. p + of_nat i * PGSIZE) [0..<k]) @ ps)"
  using assms
proof (induction n arbitrary: s p k ps)
  case 0
  then show ?case by simp
next
  case (Suc n)
  have stop: "unat PHYSTOP < 2 ^ 32" by (simp add: PHYSTOP_val)
  show ?case
  proof (cases k)
    case 0
    with Suc.prems have "unat PHYSTOP < unat (p + PGSIZE)"
      using stop by (simp add: unat_add64 PGSIZE_def)
    then have "\<not> p + PGSIZE \<le> PHYSTOP" by (simp add: word_le_nat_alt)
    with 0 Suc.prems show ?thesis by simp
  next
    case (Suc k')
    have up: "unat (p + PGSIZE) = unat p + 4096"
      using Suc Suc.prems(6) stop by (simp add: unat_add64 PGSIZE_def)
    have le: "p + PGSIZE \<le> PHYSTOP" using Suc Suc.prems(6) up by (simp add: word_le_nat_alt)
    have v: "valid_page (kend (img s)) p"
      using Suc.prems Suc by (simp add: valid_page_def word_less_nat_alt)
    have pn: "p \<notin> set ps" using Suc.prems(8) by auto
    let ?s = "s\<lparr>mem := store64 p (freelist s) (memset p 1 4096 (mem s)), freelist := p\<rparr>"
    have run: "kfree p e s = Ok () e ?s" using Suc.prems v by (simp add: kfree_run)
    have "\<exists>s'. freerange_loop n (p + PGSIZE) PHYSTOP e ?s = Ok () e s' \<and> lk s' = lk ?s \<and>
      img s' = img ?s \<and>
      kmem_inv s' (rev (map (\<lambda>i. p + PGSIZE + of_nat i * PGSIZE) [0..<k']) @ (p # ps))"
    proof (rule Suc.IH)
      show "kmem_inv ?s (p # ps)" using Suc.prems v pn by (intro kfree_inv) (auto simp: idle_def)
      show "page_aligned (p + PGSIZE)"
        using Suc.prems(4) by (simp add: unat_aligned up)
      show "kend (img ?s) \<le> p + PGSIZE"
        using Suc.prems(5) up by (simp add: word_le_nat_alt)
      show "q < p + PGSIZE" if "q \<in> set (p # ps)" for q
        using that Suc.prems(8) [of q] up by (auto simp: word_less_nat_alt)
    qed (use Suc Suc.prems up in \<open>auto simp: idle_def\<close>)
    moreover have "rev (map (\<lambda>i. p + of_nat i * PGSIZE) [0..<k]) =
        rev (map (\<lambda>i. p + PGSIZE + of_nat i * PGSIZE) [0..<k']) @ [p]"
      unfolding Suc by (simp add: upt_conv_Cons map_Suc_upt [symmetric] algebra_simps
          del: upt_Suc map_Suc_upt)
    ultimately show ?thesis using le run by auto
  qed
qed

text \<open>The page frames from \<open>PGROUNDUP(kernel_end)\<close> up to \<open>PHYSTOP\<close>, highest address first.\<close>

definition boot_pages :: "u64 \<Rightarrow> u64 list" where
  "boot_pages kernel_end = rev (map (\<lambda>i. PGROUNDUP kernel_end + of_nat i * PGSIZE)
     [0..<(unat PHYSTOP - unat (PGROUNDUP kernel_end)) div 4096])"

lemma PGROUNDUP_props:
  assumes "kernel_end \<le> PHYSTOP"
  shows "page_aligned (PGROUNDUP kernel_end)" and "kernel_end \<le> PGROUNDUP kernel_end"
    and "unat (PGROUNDUP kernel_end) \<le> unat PHYSTOP"
proof -
  have eq: "PGROUNDUP kernel_end = PGROUNDDOWN (kernel_end + 4095)"
    by (simp add: PGROUNDUP_def PGROUNDDOWN_def PGSIZE_def add.commute)
  have ph: "unat PHYSTOP = 557056 * 4096" by (simp add: PHYSTOP_val)
  have "unat kernel_end \<le> unat PHYSTOP" using assms by (simp add: word_le_nat_alt)
  then have u: "unat (kernel_end + 4095) = unat kernel_end + 4095" using ph by (simp add: unat_add64)
  have r: "unat (PGROUNDUP kernel_end) = (unat kernel_end + 4095) div 4096 * 4096"
    unfolding eq unat_PGROUNDDOWN u ..
  show "page_aligned (PGROUNDUP kernel_end)" unfolding eq by (rule PGROUNDDOWN_aligned)
  have "unat kernel_end \<le> (unat kernel_end + 4095) div 4096 * 4096" by linarith
  then show "kernel_end \<le> PGROUNDUP kernel_end" by (simp add: word_le_nat_alt r)
  have "(unat kernel_end + 4095) div 4096 \<le> 557056"
    using \<open>unat kernel_end \<le> unat PHYSTOP\<close> ph by linarith
  then show "unat (PGROUNDUP kernel_end) \<le> unat PHYSTOP" by (simp add: r ph)
qed

lemma kinit_run:
  fixes s :: "'z kmem_state_scheme"
  assumes "lk_ok (lk s)" and "0 < kend (img s)" and "kend (img s) \<le> PHYSTOP"
    and "freelist s = 0"
  shows "\<exists>s'. kinit e s = Ok () e s' \<and> kmem_inv s' (boot_pages (kend (img s))) \<and>
     idle s' \<and> lock_free KmemLock (lk s') \<and> img s' = img s"
proof -
  let ?kernel_end = "kend (img s)"
  let ?s = "s\<lparr>lk := (lk s)\<lparr>locks := (locks (lk s))(KmemLock := \<lparr>locked = False, lcpu = None\<rparr>)\<rparr>\<rparr>"
  let ?k = "(unat PHYSTOP - unat (PGROUNDUP ?kernel_end)) div 4096"
  note pg = PGROUNDUP_props [OF assms(3)]
  have init: "initlock KmemLock e s = Ok () e ?s" by (simp add: initlock_def set_lock_def)
  have idle: "idle ?s" using assms by (simp add: idle_def lk_ok_def this_cpu_def sie_def)
  have "\<exists>s'. freerange_loop (Suc (unat PHYSTOP div 4096)) (PGROUNDUP ?kernel_end) PHYSTOP e ?s = Ok () e s' \<and>
      lk s' = lk ?s \<and> img s' = img ?s \<and>
      kmem_inv s' (rev (map (\<lambda>i. PGROUNDUP ?kernel_end + of_nat i * PGSIZE) [0..<?k]) @ [])"
  proof (rule freerange_loop_all)
    show "kmem_inv ?s []" using assms by (simp add: kmem_inv_def)
    show "unat (PGROUNDUP ?kernel_end) + ?k * 4096 \<le> unat PHYSTOP" using pg(3) by linarith
    show "unat PHYSTOP < unat (PGROUNDUP ?kernel_end) + Suc ?k * 4096" using pg(3) by simp
    show "?k < Suc (unat PHYSTOP div 4096)" by (simp add: div_le_mono le_imp_less_Suc)
  qed (use pg idle in \<open>simp_all add: lock_free_def\<close>)
  then obtain s' where "freerange_loop (Suc (unat PHYSTOP div 4096)) (PGROUNDUP ?kernel_end) PHYSTOP e ?s
      = Ok () e s'" "lk s' = lk ?s" "img s' = img ?s" "kmem_inv s' (boot_pages ?kernel_end)"
    by (auto simp: boot_pages_def)
  then show ?thesis
    using init idle by (intro exI [of _ s']) (simp add: kinit_def freerange_def idle_def lock_free_def)
qed

text \<open>
  C2. Booting the allocator terminates and leaves a well-formed free list that holds exactly the
  page frames between the end of the kernel image and \<open>PHYSTOP\<close>, each of them once.
\<close>

theorem kinit_frees_all:
  assumes "lk_ok (lk s)" and "0 < kend (img s)" and "kend (img s) \<le> PHYSTOP"
    and "freelist s = 0"
  shows "\<exists>s'. kinit e s = Ok () e s' \<and> kmem_inv s' (boot_pages (kend (img s)))"
  using kinit_run [OF assms] by blast

theorem kinit_frees_all_witness:
  "\<exists>s'. kinit [] \<lparr>mem = (\<lambda>_. 7), lk = sample_lk, img = sample_img, freelist = 0\<rparr> = Ok () [] s' \<and>
     kmem_inv s' (boot_pages 0x80100000) \<and> length (boot_pages 0x80100000) = 32512"
proof -
  let ?s = "\<lparr>mem = (\<lambda>_. 7), lk = sample_lk, img = sample_img, freelist = 0\<rparr>"
  have "length (boot_pages 0x80100000) = 32512"
    by (simp add: boot_pages_def PHYSTOP_val PGROUNDUP_def PGSIZE_def)
  then show ?thesis using kinit_frees_all [of ?s "[]"] by (simp add: PHYSTOP_val)
qed

subsection \<open>Clients of the allocator\<close>

text \<open>
  The allocator and its clients: a client allocates a page, frees a page it owns, or writes the
  bytes of pages it owns in any way it likes.
\<close>

inductive kmem_step :: "kmem_state \<times> u64 set \<Rightarrow> kmem_state \<times> u64 set \<Rightarrow> bool" where
  alloc: "kalloc [] s = Ok p [] s' \<Longrightarrow> p \<noteq> 0 \<Longrightarrow> kmem_step (s, A) (s', insert p A)"
| free: "p \<in> A \<Longrightarrow> kfree p [] s = Ok () [] s' \<Longrightarrow> kmem_step (s, A) (s', A - {p})"
| use: "(\<And>a. mem s' a \<noteq> mem s a \<Longrightarrow> \<exists>p \<in> A. in_page a p) \<Longrightarrow> lk s' = lk s \<Longrightarrow> img s' = img s \<Longrightarrow>
    freelist s' = freelist s \<Longrightarrow> kmem_step (s, A) (s', A)"

definition kmem_good :: "kmem_state \<times> u64 set \<Rightarrow> bool" where
  "kmem_good = (\<lambda>(s, A). idle s \<and> lock_free KmemLock (lk s) \<and>
     (\<exists>ps. kmem_inv s ps \<and> A \<inter> set ps = {} \<and> (\<forall>p \<in> A. valid_page (kend (img s)) p)))"

inductive kmem_run :: "kmem_state \<Rightarrow> kmem_state \<times> u64 set \<Rightarrow> bool" for s0 where
  boot: "kinit [] s0 = Ok () [] s \<Longrightarrow> kmem_run s0 (s, {})"
| run: "kmem_run s0 c \<Longrightarrow> kmem_step c c' \<Longrightarrow> kmem_run s0 c'"

inductive_cases kmem_stepE: "kmem_step (s, A) c"

lemma kmem_step_good:
  assumes "kmem_step c c'" and "kmem_good c"
  shows "kmem_good c'"
  using assms
proof (cases rule: kmem_step.cases)
  case (alloc s p s' A)
  with assms(2) obtain ps where g: "idle s" "lock_free KmemLock (lk s)" "kmem_inv s ps"
    "A \<inter> set ps = {}" "\<forall>p \<in> A. valid_page (kend (img s)) p"
    by (auto simp: kmem_good_def)
  show ?thesis
  proof (cases ps)
    case Nil
    with g alloc kalloc_empty [of s "[]"] show ?thesis by simp
  next
    case (Cons q qs)
    note k = kalloc_Cons [OF g(1,2) g(3) [unfolded Cons]]
    have "valid_page (kend (img s)) q" "q \<notin> set qs" using g(3) Cons by (auto simp: kmem_inv_def)
    with k(1) [of "[]"] k(2) g alloc Cons show ?thesis
      by (auto simp: kmem_good_def idle_def intro!: exI [of _ qs])
  qed
next
  case (free p A s s')
  with assms(2) obtain ps where g: "idle s" "lock_free KmemLock (lk s)" "kmem_inv s ps"
    "A \<inter> set ps = {}" "\<forall>p \<in> A. valid_page (kend (img s)) p"
    by (auto simp: kmem_good_def)
  with free have v: "valid_page (kend (img s)) p" "p \<notin> set ps" by auto
  with g have "kmem_inv (s\<lparr>mem := store64 p (freelist s) (memset p 1 4096 (mem s)), freelist := p\<rparr>) (p # ps)"
    by (intro kfree_inv) (auto simp: idle_def)
  with g v free show ?thesis
    by (auto simp: kmem_good_def idle_def kfree_run intro!: exI [of _ "p # ps"])
next
  case (use s' s A)
  with assms(2) obtain ps where g: "idle s" "lock_free KmemLock (lk s)" "kmem_inv s ps"
    "A \<inter> set ps = {}" "\<forall>p \<in> A. valid_page (kend (img s)) p"
    by (auto simp: kmem_good_def)
  have "kmem_inv s' ps"
  proof (rule kmem_inv_frame [OF g(3)])
    fix a q assume q: "q \<in> set ps" "in_page a q"
    show "mem s' a = mem s a"
    proof (rule ccontr)
      assume "mem s' a \<noteq> mem s a"
      then obtain p where p: "p \<in> A" "in_page a p" using use by blast
      have "page_aligned p" "page_aligned q"
        using p q g by (auto simp: kmem_inv_def valid_page_def)
      then have "p = q" using p q in_page_unique by blast
      with p q g show False by auto
    qed
  qed (use use in auto)
  with g use show ?thesis by (auto simp: kmem_good_def idle_def intro!: exI [of _ ps])
qed

lemma kmem_run_good:
  assumes "kmem_run s0 c" and "lk_ok (lk s0)" and "0 < kend (img s0)" and "kend (img s0) \<le> PHYSTOP"
    and "freelist s0 = 0"
  shows "kmem_good c"
  using assms
proof (induction rule: kmem_run.induct)
  case (boot s)
  then have "\<forall>p \<in> set (boot_pages (kend (img s0))). valid_page (kend (img s)) p"
    using kinit_run [of s0 "[]"] by (auto simp: kmem_inv_def)
  with boot kinit_run [of s0 "[]"] show ?case by (auto simp: kmem_good_def)
next
  case (run c c')
  then show ?case using kmem_step_good by blast
qed


text \<open>
  C3. Exclusive ownership: whatever clients do with the pages they own, \<open>kalloc\<close> never hands out
  a page that is owned by somebody, what it hands out is an aligned page frame of the RAM behind
  the kernel image, and freeing an owned page never panics.
\<close>

theorem kalloc_exclusive:
  assumes "kmem_run s0 (s, A)" and "lk_ok (lk s0)" and "0 < kend (img s0)"
    and "kend (img s0) \<le> PHYSTOP" and "freelist s0 = 0"
  shows "(\<exists>p s'. kalloc [] s = Ok p [] s' \<and> (p \<noteq> 0 \<longrightarrow> p \<notin> A \<and> valid_page (kend (img s)) p)) \<and>
    (\<forall>p \<in> A. \<exists>s'. kfree p [] s = Ok () [] s')"
proof -
  from kmem_run_good [OF assms] obtain ps where g: "idle s" "lock_free KmemLock (lk s)" "kmem_inv s ps"
    "A \<inter> set ps = {}" "\<forall>p \<in> A. valid_page (kend (img s)) p"
    by (auto simp: kmem_good_def)
  have "\<exists>p s'. kalloc [] s = Ok p [] s' \<and> (p \<noteq> 0 \<longrightarrow> p \<notin> A \<and> valid_page (kend (img s)) p)"
  proof (cases ps)
    case Nil
    with g kalloc_empty [of s "[]"] show ?thesis by auto
  next
    case (Cons q qs)
    with g kalloc_Cons(1) [of s q qs "[]"] show ?thesis by (auto simp: kmem_inv_def)
  qed
  moreover have "\<forall>p \<in> A. \<exists>s'. kfree p [] s = Ok () [] s'" using g by (auto simp: kfree_run)
  ultimately show ?thesis ..
qed

lemma boot_pages_two: "\<exists>q r qs. boot_pages 0x80100000 = q # r # qs"
proof -
  have "length (boot_pages 0x80100000) = 32512"
    by (simp add: boot_pages_def PHYSTOP_val PGROUNDUP_def PGSIZE_def)
  then obtain q xs where "boot_pages 0x80100000 = q # xs" "length xs = 32511"
    by (cases "boot_pages 0x80100000") auto
  then show ?thesis by (cases xs) auto
qed

theorem kalloc_exclusive_witness:
  "\<exists>s p q s'. kmem_run \<lparr>mem = (\<lambda>_. 7), lk = sample_lk, img = sample_img, freelist = 0\<rparr> (s, {p}) \<and>
     kalloc [] s = Ok q [] s' \<and> q \<noteq> p \<and> valid_page 0x80100000 q"
proof -
  let ?s = "\<lparr>mem = (\<lambda>_. 7), lk = sample_lk, img = sample_img, freelist = 0\<rparr>"
  obtain q r qs where bp: "boot_pages 0x80100000 = q # r # qs" using boot_pages_two by blast
  obtain s where s: "kinit [] ?s = Ok () [] s" "kmem_inv s (q # r # qs)" "idle s"
      "lock_free KmemLock (lk s)" "img s = sample_img"
    using kinit_run [of ?s "[]"] bp by (auto simp: PHYSTOP_val)
  let ?t = "s\<lparr>mem := memset q 5 4096 (mem s), freelist := load64 (mem s) q\<rparr>"
  note k = kalloc_Cons [OF s(3,4,2)]
  have "q \<noteq> 0" using s by (auto simp: kmem_inv_def)
  with k(1) [of "[]"] have "kmem_step (s, {}) (?t, insert q {})" by (rule kmem_step.alloc)
  with kmem_run.boot [OF s(1)] have run: "kmem_run ?s (?t, {q})" by (auto intro: kmem_run.run)
  have t: "idle ?t" "lock_free KmemLock (lk ?t)" using s by (simp_all add: idle_def)
  have "kalloc [] ?t = Ok r [] (?t\<lparr>mem := memset r 5 4096 (mem ?t), freelist := load64 (mem ?t) r\<rparr>)"
    by (rule kalloc_Cons(1) [OF t k(2)])
  moreover have "r \<noteq> 0" using k(2) by (simp add: kmem_inv_def)
  ultimately have "r \<noteq> q \<and> valid_page 0x80100000 r"
    using kalloc_exclusive [OF run] s(5) by (auto simp: PHYSTOP_val)
  with run \<open>kalloc [] ?t = _\<close> show ?thesis by blast
qed

end
