(* ===== verification/Vm.thy ===== *)
theory Vm
  imports Kalloc
begin

text \<open>
  Virtual memory: \<open>kernel/vm.c\<close> (and \<open>proc_mapstacks\<close> of \<open>kernel/proc.c\<close>, which
  \<open>kvmmake\<close> calls). Page tables are pages of the raw memory; a page table is named by the
  physical address of its root page, and address 0 is the null pointer.

  Loops that walk an address range carry a fuel argument computed from the range. It is enough
  whenever the loop of the source ends; a run that exhausts it would be one in which the source
  wraps around the address space.
\<close>

record vm_state = kmem_state +
  kernel_pagetable :: u64
  satp :: "nat \<Rightarrow> u64"

definition rd64 :: "u64 \<Rightarrow> ('z machine_scheme, u64) M" where
  "rd64 p = gets (\<lambda>s. load64 (mem s) p)"

definition wr64 :: "u64 \<Rightarrow> u64 \<Rightarrow> ('z machine_scheme, unit) M" where
  "wr64 p v = modify (\<lambda>s. s\<lparr>mem := store64 p v (mem s)\<rparr>)"

definition zero_page :: "u64 \<Rightarrow> ('z machine_scheme, unit) M" where
  "zero_page p = (if p = 0 then fault ''null pointer''
     else modify (\<lambda>s. s\<lparr>mem := memset p 0 4096 (mem s)\<rparr>))"

lemma rd64_run [simp]: "rd64 p e s = Ok (load64 (mem s) p) e s"
  by (simp add: rd64_def)

lemma wr64_run [simp]: "wr64 p v e s = Ok () e (s\<lparr>mem := store64 p v (mem s)\<rparr>)"
  by (simp add: wr64_def)

lemma zero_page_run [simp]: "p \<noteq> 0 \<Longrightarrow> zero_page p e s = Ok () e (s\<lparr>mem := memset p 0 4096 (mem s)\<rparr>)"
  by (simp add: zero_page_def)

subsection \<open>walk and walkaddr\<close>

definition pte_addr :: "nat \<Rightarrow> u64 \<Rightarrow> u64 \<Rightarrow> u64" where
  "pte_addr level pagetable va = pagetable + 8 * PX level va"

text \<open>One iteration of the loop of \<open>walk\<close>: the next table, or \<open>None\<close> for the early \<open>return 0\<close>.\<close>

definition walk_level :: "nat \<Rightarrow> u64 \<Rightarrow> u64 \<Rightarrow> bool \<Rightarrow> ('z kmem_state_scheme, u64 option) M" where
  "walk_level level pagetable va alloc =
     bnd (rd64 (pte_addr level pagetable va)) (\<lambda>pte.
     if pte AND PTE_V \<noteq> 0 then return (Some (PTE2PA pte))
     else if \<not> alloc then return None else
     bnd kalloc (\<lambda>pt.
     if pt = 0 then return None else
     seq (zero_page pt) (
     seq (wr64 (pte_addr level pagetable va) (PA2PTE pt OR PTE_V))
     (return (Some pt)))))"

definition walk :: "u64 \<Rightarrow> u64 \<Rightarrow> bool \<Rightarrow> ('z kmem_state_scheme, u64) M" where
  "walk pagetable va alloc =
     (if va \<ge> MAXVA then panic ''walk'' else
     bnd (walk_level 2 pagetable va alloc) (\<lambda>r2. case r2 of None \<Rightarrow> return 0 | Some pt1 \<Rightarrow>
     bnd (walk_level 1 pt1 va alloc) (\<lambda>r1. case r1 of None \<Rightarrow> return 0 | Some pt0 \<Rightarrow>
     return (pte_addr 0 pt0 va))))"

definition walkaddr :: "u64 \<Rightarrow> u64 \<Rightarrow> ('z kmem_state_scheme, u64) M" where
  "walkaddr pagetable va =
     (if va \<ge> MAXVA then return 0 else
     bnd (walk pagetable va False) (\<lambda>pte.
     if pte = 0 then return 0 else
     bnd (rd64 pte) (\<lambda>v.
     if v AND PTE_V = 0 then return 0
     else if v AND PTE_U = 0 then return 0
     else return (PTE2PA v))))"

subsection \<open>Adding mappings\<close>

text \<open>The result is the \<open>int\<close> the C function returns.\<close>

primrec mappages_loop :: "nat \<Rightarrow> u64 \<Rightarrow> u64 \<Rightarrow> u64 \<Rightarrow> u64 \<Rightarrow> u64 \<Rightarrow> ('z kmem_state_scheme, int) M" where
  "mappages_loop 0 pagetable a last' pa perm = fault ''fuel''"
| "mappages_loop (Suc n) pagetable a last' pa perm =
     bnd (walk pagetable a True) (\<lambda>pte.
     if pte = 0 then return (-1) else
     bnd (rd64 pte) (\<lambda>v.
     if v AND PTE_V \<noteq> 0 then panic ''remap'' else
     seq (wr64 pte (PA2PTE pa OR perm OR PTE_V)) (
     if a = last' then return 0
     else mappages_loop n pagetable (a + PGSIZE) last' (pa + PGSIZE) perm)))"

definition mappages :: "u64 \<Rightarrow> u64 \<Rightarrow> u64 \<Rightarrow> u64 \<Rightarrow> u64 \<Rightarrow> ('z kmem_state_scheme, int) M" where
  "mappages pagetable va sz pa perm =
     (let a = PGROUNDDOWN va; last' = PGROUNDDOWN (va + sz - 1)
      in mappages_loop (Suc (unat (last' - a) div 4096)) pagetable a last' pa perm)"

definition kvmmap :: "u64 \<Rightarrow> u64 \<Rightarrow> u64 \<Rightarrow> u64 \<Rightarrow> u64 \<Rightarrow> ('z kmem_state_scheme, unit) M" where
  "kvmmap kpgtbl va pa sz perm =
     bnd (mappages kpgtbl va sz pa perm) (\<lambda>r. if r \<noteq> 0 then panic ''kvmmap'' else skip)"

definition proc_mapstacks :: "u64 \<Rightarrow> ('z kmem_state_scheme, unit) M" where
  "proc_mapstacks kpgtbl =
     for_each [0..<NPROC] (\<lambda>p.
       bnd kalloc (\<lambda>pa.
       if pa = 0 then panic ''kalloc'' else
       kvmmap kpgtbl (KSTACK p) pa PGSIZE (PTE_R OR PTE_W)))"

definition kvmmake :: "('z kmem_state_scheme, u64) M" where
  "kvmmake =
     bnd (gets (\<lambda>s. etext (img s))) (\<lambda>etext.
     bnd (gets (\<lambda>s. trampoline (img s))) (\<lambda>trampoline.
     bnd kalloc (\<lambda>kpgtbl.
     seq (zero_page kpgtbl) (
     seq (kvmmap kpgtbl UART0 UART0 PGSIZE (PTE_R OR PTE_W)) (
     seq (kvmmap kpgtbl VIRTIO0 VIRTIO0 PGSIZE (PTE_R OR PTE_W)) (
     seq (kvmmap kpgtbl PLIC PLIC 0x400000 (PTE_R OR PTE_W)) (
     seq (kvmmap kpgtbl KERNBASE KERNBASE (etext - KERNBASE) (PTE_R OR PTE_X)) (
     seq (kvmmap kpgtbl etext etext (PHYSTOP - etext) (PTE_R OR PTE_W)) (
     seq (kvmmap kpgtbl TRAMPOLINE trampoline PGSIZE (PTE_R OR PTE_X)) (
     seq (proc_mapstacks kpgtbl)
     (return kpgtbl)))))))))))"

definition kvminit :: "('z vm_state_scheme, unit) M" where
  "kvminit = bnd kvmmake (\<lambda>pt. modify (\<lambda>s. s\<lparr>kernel_pagetable := pt\<rparr>))"

definition w_satp :: "u64 \<Rightarrow> ('z vm_state_scheme, unit) M" where
  "w_satp x = modify (\<lambda>s. s\<lparr>satp := (satp s)(hart (lk s) := x)\<rparr>)"

definition kvminithart :: "('z vm_state_scheme, unit) M" where
  "kvminithart = bnd (gets kernel_pagetable) (\<lambda>pt. w_satp (MAKE_SATP pt))"

subsection \<open>Removing mappings\<close>

primrec uvmunmap_loop :: "nat \<Rightarrow> u64 \<Rightarrow> u64 \<Rightarrow> u64 \<Rightarrow> bool \<Rightarrow> ('z kmem_state_scheme, unit) M" where
  "uvmunmap_loop 0 pagetable a stop do_free = fault ''fuel''"
| "uvmunmap_loop (Suc n) pagetable a stop do_free =
     (if a < stop then
        bnd (walk pagetable a False) (\<lambda>pte.
        if pte = 0 then panic ''uvmunmap: walk'' else
        bnd (rd64 pte) (\<lambda>v.
        if v AND PTE_V = 0 then panic ''uvmunmap: not mapped''
        else if PTE_FLAGS v = PTE_V then panic ''uvmunmap: not a leaf'' else
        seq (whenM do_free (kfree (PTE2PA v))) (
        seq (wr64 pte 0)
        (uvmunmap_loop n pagetable (a + PGSIZE) stop do_free))))
      else skip)"

definition uvmunmap :: "u64 \<Rightarrow> u64 \<Rightarrow> u64 \<Rightarrow> bool \<Rightarrow> ('z kmem_state_scheme, unit) M" where
  "uvmunmap pagetable va npages do_free =
     (if va mod PGSIZE \<noteq> 0 then panic ''uvmunmap: not aligned''
      else uvmunmap_loop (Suc (unat npages)) pagetable va (va + npages * PGSIZE) do_free)"

definition uvmcreate :: "('z kmem_state_scheme, u64) M" where
  "uvmcreate =
     bnd kalloc (\<lambda>pt. if pt = 0 then return 0 else seq (zero_page pt) (return pt))"

text \<open>Bytes of a kernel object that is not part of the raw memory, written at an address.\<close>

definition write_bytes :: "u64 \<Rightarrow> bytes \<Rightarrow> nat \<Rightarrow> mem \<Rightarrow> mem" where
  "write_bytes p src n m = (\<lambda>a. if in_range a p n then src (unat (a - p)) else m a)"

definition uvminit :: "u64 \<Rightarrow> bytes \<Rightarrow> nat \<Rightarrow> ('z kmem_state_scheme, unit) M" where
  "uvminit pagetable src sz =
     (if sz \<ge> 4096 then panic ''inituvm: more than a page'' else
     bnd kalloc (\<lambda>mem'.
     seq (zero_page mem') (
     bnd (mappages pagetable 0 PGSIZE mem' (PTE_W OR PTE_R OR PTE_X OR PTE_U)) (\<lambda>_.
     modify (\<lambda>s. s\<lparr>mem := write_bytes mem' src sz (mem s)\<rparr>)))))"

definition uvmdealloc :: "u64 \<Rightarrow> u64 \<Rightarrow> u64 \<Rightarrow> ('z kmem_state_scheme, u64) M" where
  "uvmdealloc pagetable oldsz newsz =
     (if newsz \<ge> oldsz then return oldsz else
     seq (whenM (PGROUNDUP newsz < PGROUNDUP oldsz)
       (let npages = (ucast ((PGROUNDUP oldsz - PGROUNDUP newsz) div PGSIZE) :: u32)
        in uvmunmap pagetable (PGROUNDUP newsz) (scast npages) True))
     (return newsz))"

primrec uvmalloc_loop :: "nat \<Rightarrow> u64 \<Rightarrow> u64 \<Rightarrow> u64 \<Rightarrow> u64 \<Rightarrow> ('z kmem_state_scheme, u64) M" where
  "uvmalloc_loop 0 pagetable a oldsz newsz = fault ''fuel''"
| "uvmalloc_loop (Suc n) pagetable a oldsz newsz =
     (if a < newsz then
        bnd kalloc (\<lambda>mem'.
        if mem' = 0 then seq (uvmdealloc pagetable a oldsz) (return 0) else
        seq (zero_page mem') (
        bnd (mappages pagetable a PGSIZE mem' (PTE_W OR PTE_X OR PTE_R OR PTE_U)) (\<lambda>r.
        if r \<noteq> 0 then
          seq (kfree mem') (seq (uvmdealloc pagetable a oldsz) (return 0))
        else uvmalloc_loop n pagetable (a + PGSIZE) oldsz newsz)))
      else return newsz)"

definition uvmalloc :: "u64 \<Rightarrow> u64 \<Rightarrow> u64 \<Rightarrow> ('z kmem_state_scheme, u64) M" where
  "uvmalloc pagetable oldsz newsz =
     (if newsz < oldsz then return oldsz else
      let oldsz' = PGROUNDUP oldsz
      in uvmalloc_loop (Suc (unat newsz div 4096 + 1)) pagetable oldsz' oldsz' newsz)"

text \<open>
  \<open>freewalk\<close> recurses once per level of the table; the argument bounds the depth. A user table
  has three levels, and below them a valid entry with no permission bit does not occur.
\<close>

primrec freewalk :: "nat \<Rightarrow> u64 \<Rightarrow> ('z kmem_state_scheme, unit) M" where
  "freewalk 0 pagetable = fault ''fuel''"
| "freewalk (Suc depth) pagetable =
     seq (for_each [0..<512] (\<lambda>i.
       bnd (rd64 (pagetable + 8 * of_nat i)) (\<lambda>pte.
       if pte AND PTE_V \<noteq> 0 \<and> pte AND (PTE_R OR PTE_W OR PTE_X) = 0 then
         seq (freewalk depth (PTE2PA pte)) (wr64 (pagetable + 8 * of_nat i) 0)
       else if pte AND PTE_V \<noteq> 0 then panic ''freewalk: leaf'' else skip)))
     (kfree pagetable)"

definition uvmfree :: "u64 \<Rightarrow> u64 \<Rightarrow> ('z kmem_state_scheme, unit) M" where
  "uvmfree pagetable sz =
     seq (whenM (sz > 0) (uvmunmap pagetable 0 (PGROUNDUP sz div PGSIZE) True))
     (freewalk 3 pagetable)"

primrec uvmcopy_loop :: "nat \<Rightarrow> u64 \<Rightarrow> u64 \<Rightarrow> u64 \<Rightarrow> u64 \<Rightarrow> ('z kmem_state_scheme, int) M" where
  "uvmcopy_loop 0 old new i sz = fault ''fuel''"
| "uvmcopy_loop (Suc n) old new i sz =
     (if i < sz then
        bnd (walk old i False) (\<lambda>pte.
        if pte = 0 then panic ''uvmcopy: pte should exist'' else
        bnd (rd64 pte) (\<lambda>v.
        if v AND PTE_V = 0 then panic ''uvmcopy: page not present'' else
        bnd kalloc (\<lambda>mem'.
        if mem' = 0 then seq (uvmunmap new 0 (i div PGSIZE) True) (return (-1)) else
        seq (modify (\<lambda>s. s\<lparr>mem := memmove mem' (PTE2PA v) 4096 (mem s)\<rparr>)) (
        bnd (mappages new i PGSIZE mem' (PTE_FLAGS v)) (\<lambda>r.
        if r \<noteq> 0 then
          seq (kfree mem') (seq (uvmunmap new 0 (i div PGSIZE) True) (return (-1)))
        else uvmcopy_loop n old new (i + PGSIZE) sz)))))
      else return 0)"

definition uvmcopy :: "u64 \<Rightarrow> u64 \<Rightarrow> u64 \<Rightarrow> ('z kmem_state_scheme, int) M" where
  "uvmcopy old new sz = uvmcopy_loop (Suc (unat sz div 4096 + 1)) old new 0 sz"

definition uvmclear :: "u64 \<Rightarrow> u64 \<Rightarrow> ('z kmem_state_scheme, unit) M" where
  "uvmclear pagetable va =
     bnd (walk pagetable va False) (\<lambda>pte.
     if pte = 0 then panic ''uvmclear'' else
     bnd (rd64 pte) (\<lambda>v. wr64 pte (v AND NOT PTE_U)))"

subsection \<open>Copying between kernel and user space\<close>

text \<open>
  The kernel side of a copy is an array of bytes: \<open>copyout\<close> writes the first \<open>len\<close> bytes of
  \<open>src\<close>, \<open>copyin\<close> and \<open>copyinstr\<close> return the array they have filled. \<open>k\<close> is the number of
  bytes copied before the current iteration (the increments of \<open>src\<close> and \<open>dst\<close>).
\<close>

primrec copyout_loop :: "nat \<Rightarrow> u64 \<Rightarrow> u64 \<Rightarrow> bytes \<Rightarrow> u64 \<Rightarrow> ('z kmem_state_scheme, int) M" where
  "copyout_loop 0 pagetable dstva src len = fault ''fuel''"
| "copyout_loop (Suc fuel) pagetable dstva src len =
     (if len > 0 then
        let va0 = PGROUNDDOWN dstva in
        bnd (walkaddr pagetable va0) (\<lambda>pa0.
        if pa0 = 0 then return (-1) else
        let n = min (PGSIZE - (dstva - va0)) len in
        seq (modify (\<lambda>s. s\<lparr>mem := write_bytes (pa0 + (dstva - va0)) src (unat n) (mem s)\<rparr>))
        (copyout_loop fuel pagetable (va0 + PGSIZE) (\<lambda>i. src (unat n + i)) (len - n)))
      else return 0)"

definition copyout :: "u64 \<Rightarrow> u64 \<Rightarrow> bytes \<Rightarrow> u64 \<Rightarrow> ('z kmem_state_scheme, int) M" where
  "copyout pagetable dstva src len = copyout_loop (Suc (unat len)) pagetable dstva src len"

primrec copyin_loop :: "nat \<Rightarrow> u64 \<Rightarrow> bytes \<Rightarrow> nat \<Rightarrow> u64 \<Rightarrow> u64 \<Rightarrow> ('z kmem_state_scheme, int \<times> bytes) M" where
  "copyin_loop 0 pagetable dst k srcva len = fault ''fuel''"
| "copyin_loop (Suc fuel) pagetable dst k srcva len =
     (if len > 0 then
        let va0 = PGROUNDDOWN srcva in
        bnd (walkaddr pagetable va0) (\<lambda>pa0.
        if pa0 = 0 then return (-1, dst) else
        let n = min (PGSIZE - (srcva - va0)) len in
        bnd (gets mem) (\<lambda>m.
        copyin_loop fuel pagetable
          (\<lambda>i. if k \<le> i \<and> i < k + unat n then m (pa0 + (srcva - va0) + of_nat (i - k)) else dst i)
          (k + unat n) (va0 + PGSIZE) (len - n)))
      else return (0, dst))"

definition copyin :: "u64 \<Rightarrow> bytes \<Rightarrow> u64 \<Rightarrow> u64 \<Rightarrow> ('z kmem_state_scheme, int \<times> bytes) M" where
  "copyin pagetable dst srcva len = copyin_loop (Suc (unat len)) pagetable dst 0 srcva len"

text \<open>
  The inner loop of \<open>copyinstr\<close> over one page: the array, the number of bytes written and whether
  the terminating null was seen.
\<close>

primrec copystr_page :: "mem \<Rightarrow> u64 \<Rightarrow> nat \<Rightarrow> bytes \<Rightarrow> nat \<Rightarrow> bool \<times> bytes \<times> nat" where
  "copystr_page m p 0 dst k = (False, dst, k)"
| "copystr_page m p (Suc n) dst k =
     (if m p = 0 then (True, dst(k := 0), k) else copystr_page m (p + 1) n (dst(k := m p)) (Suc k))"

primrec copyinstr_loop :: "nat \<Rightarrow> u64 \<Rightarrow> bytes \<Rightarrow> nat \<Rightarrow> u64 \<Rightarrow> u64 \<Rightarrow> ('z kmem_state_scheme, int \<times> bytes) M" where
  "copyinstr_loop 0 pagetable dst k srcva max' = fault ''fuel''"
| "copyinstr_loop (Suc fuel) pagetable dst k srcva max' =
     (if max' > 0 then
        let va0 = PGROUNDDOWN srcva in
        bnd (walkaddr pagetable va0) (\<lambda>pa0.
        if pa0 = 0 then return (-1, dst) else
        let n = min (PGSIZE - (srcva - va0)) max' in
        bnd (gets mem) (\<lambda>m.
        case copystr_page m (pa0 + (srcva - va0)) (unat n) dst k of (got_null, dst', k') \<Rightarrow>
          if got_null then return (0, dst')
          else copyinstr_loop fuel pagetable dst' k' (va0 + PGSIZE) (max' - n)))
      else return (-1, dst))"

definition copyinstr :: "u64 \<Rightarrow> bytes \<Rightarrow> u64 \<Rightarrow> u64 \<Rightarrow> ('z kmem_state_scheme, int \<times> bytes) M" where
  "copyinstr pagetable dst srcva max' = copyinstr_loop (Suc (unat max')) pagetable dst 0 srcva max'"

end
