(* ===== verification/Vm_Table.thy ===== *)
theory Vm_Table
  imports Vm
begin

text \<open>
  What a page table means, and what \<open>walk\<close>, \<open>mappages\<close> and \<open>uvmunmap\<close> do to it. A page table is
  read as a partial function from virtual pages to entries (\<open>lookup\<close>). The invariant \<open>pt_wf\<close> says
  that its table pages form a tree: every page frame is the table of one level and one address
  prefix only. Under it a store to one entry changes the meaning of one virtual page only.
\<close>

subsection \<open>Address prefixes\<close>

text \<open>\<open>key d va\<close>: the index bits that select the table reached after \<open>d\<close> steps.\<close>

definition key :: "nat \<Rightarrow> u64 \<Rightarrow> u64" where
  "key d va = drop_bit (39 - 9 * d) va"

definition sv39 :: "u64 \<Rightarrow> bool" where
  "sv39 va \<longleftrightarrow> unat va < 2 ^ 39"

lemma bit_1FF: "bit (0x1FF :: u64) n \<longleftrightarrow> n < 9"
proof -
  have *: "(0x1FF :: u64) = mask 9" by (simp add: mask_eq_exp_minus_1)
  show ?thesis unfolding * by (auto simp: bit_mask_iff)
qed

lemma PX_bit: "bit (PX level va) n \<longleftrightarrow> n < 9 \<and> bit va (12 + 9 * level + n)"
  by (simp only: PX_def PXSHIFT_def bit_and_iff bit_1FF bit_drop_bit_eq comp_def) auto

lemma PX_lt: "unat (PX level va) < 512"
proof -
  have "PX level va = take_bit 9 (PX level va)"
    by (rule bit_word_eqI) (auto simp: PX_bit bit_take_bit_iff)
  then have "unat (PX level va) = take_bit 9 (unat (PX level va))"
    by (metis unsigned_take_bit_eq)
  then show ?thesis using take_bit_nat_less_exp [of 9 "unat (PX level va)"] by simp
qed

lemma key_Suc:
  assumes "d \<le> 2"
  shows "key (Suc d) va = key (Suc d) va' \<longleftrightarrow> key d va = key d va' \<and> PX (2 - d) va = PX (2 - d) va'"
proof -
  have k: "bit (key d v) n \<longleftrightarrow> bit v (39 - 9 * d + n)" for v d n
    by (simp add: key_def bit_drop_bit_eq)
  have sh: "12 + 9 * (2 - d) = 39 - 9 * Suc d" using assms by simp
  show ?thesis
  proof
    assume *: "key (Suc d) va = key (Suc d) va'"
    have b: "bit va (39 - 9 * Suc d + n) = bit va' (39 - 9 * Suc d + n)" for n
      using * k by metis
    have "39 - 9 * d + n = 39 - 9 * Suc d + (9 + n)" for n using assms by simp
    then have "key d va = key d va'" by (metis b bit_eqI k)
    moreover have "PX (2 - d) va = PX (2 - d) va'"
      by (rule bit_eqI) (simp only: PX_bit sh b)
    ultimately show "key d va = key d va' \<and> PX (2 - d) va = PX (2 - d) va'" ..
  next
    assume *: "key d va = key d va' \<and> PX (2 - d) va = PX (2 - d) va'"
    show "key (Suc d) va = key (Suc d) va'"
    proof (rule bit_eqI)
      fix n
      show "bit (key (Suc d) va) n = bit (key (Suc d) va') n"
      proof (cases "n < 9")
        case True
        from * have "bit (PX (2 - d) va) n = bit (PX (2 - d) va') n" by simp
        with True show ?thesis by (simp only: PX_bit k sh simp_thms)
      next
        case False
        then have "39 - 9 * Suc d + n = 39 - 9 * d + (n - 9)" using assms by simp
        with * show ?thesis by (metis k)
      qed
    qed
  qed
qed

lemma key_0: "sv39 va \<Longrightarrow> key 0 va = 0"
proof -
  assume "sv39 va"
  then have "unat va div 2 ^ 39 = 0" by (simp add: sv39_def)
  then show ?thesis by (simp add: key_def drop_bit_eq_div word_unat_eq_iff unat_div_distrib)
qed

lemma key_3: "key 3 va = key 3 va' \<longleftrightarrow> PGROUNDDOWN va = PGROUNDDOWN va'"
proof -
  have "key 3 v = drop_bit 12 (PGROUNDDOWN v)" for v
    by (rule bit_word_eqI) (simp add: key_def bit_drop_bit_eq PGROUNDDOWN_bit)
  moreover have "PGROUNDDOWN v = push_bit 12 (key 3 v)" for v
    by (simp add: key_def PGROUNDDOWN_push_drop)
  ultimately show ?thesis by metis
qed

subsection \<open>Entries of a table page\<close>

lemma aligned_mult: "page_aligned p \<Longrightarrow> \<exists>k. unat p = 4096 * k"
  unfolding unat_aligned by auto

lemma aligned_gap:
  assumes "page_aligned p" "page_aligned q" "unat p < unat q"
  shows "unat p + 4096 \<le> unat q"
proof -
  obtain a b where "unat p = 4096 * a" "unat q = 4096 * b" using assms aligned_mult by metis
  moreover from this assms(3) have "Suc a \<le> b" by simp
  ultimately show ?thesis by linarith
qed

lemma aligned_top:
  assumes "page_aligned p"
  shows "unat p + 4096 \<le> 2 ^ 64"
proof -
  obtain a where "unat p = 4096 * a" using assms aligned_mult by metis
  with unat_lt64 [of p] show ?thesis by simp
qed

lemma unat_pte_addr:
  assumes "page_aligned p"
  shows "unat (pte_addr level p va) = unat p + 8 * unat (PX level va)"
proof -
  have i: "unat (PX level va) < 512" by (rule PX_lt)
  have "unat p + 4096 \<le> 2 ^ 64" using assms by (rule aligned_top)
  moreover have "unat (8 * PX level va) = 8 * unat (PX level va)"
    using i by (simp add: unat_word_ariths)
  ultimately show ?thesis using i unfolding pte_addr_def unat_add64 by simp
qed

lemma in_page_pte:
  assumes "page_aligned p" and "in_range a (pte_addr level p va) 8"
  shows "in_page a p"
proof -
  have i: "unat (PX level va) < 512" by (rule PX_lt)
  have "unat (8 * PX level va) = 8 * unat (PX level va)"
    using i by (simp add: unat_word_ariths)
  moreover have "a - p = (a - pte_addr level p va) + 8 * PX level va"
    by (simp add: pte_addr_def)
  ultimately have "unat (a - p) = unat (a - pte_addr level p va) + 8 * unat (PX level va)"
    using i assms(2) by (simp only: unat_add64 in_range_def) simp
  then show ?thesis using i assms(2) by (simp add: in_page_def in_range_def)
qed

lemma pte_page: "page_aligned p \<Longrightarrow> PGROUNDDOWN (pte_addr level p va) = p"
  using in_page_pte [of p "pte_addr level p va" level va] in_page_iff by (auto simp: in_range_def)

lemma pte_disjoint:
  assumes "page_aligned p" "page_aligned q" and "p \<noteq> q \<or> PX l va \<noteq> PX k va'"
  shows "disjoint_range (pte_addr l p va) 8 (pte_addr k q va') 8"
proof -
  have i: "unat (PX l va) < 512" "unat (PX k va') < 512" by (rule PX_lt)+
  have "unat p \<noteq> unat q \<or> unat (PX l va) \<noteq> unat (PX k va')"
    using assms(3) by (simp add: word_unat_eq_iff)
  moreover have "unat p \<noteq> unat q \<Longrightarrow> unat p + 4096 \<le> unat q \<or> unat q + 4096 \<le> unat p"
    using assms aligned_gap by (metis linorder_neqE_nat)
  ultimately have d: "unat (pte_addr l p va) + 8 \<le> unat (pte_addr k q va') \<or>
      unat (pte_addr k q va') + 8 \<le> unat (pte_addr l p va)"
    using i unfolding unat_pte_addr [OF assms(1)] unat_pte_addr [OF assms(2)] by linarith
  have u: "unat p + 4096 \<le> 2 ^ 64" "unat q + 4096 \<le> 2 ^ 64"
    using assms by (simp_all only: aligned_top)
  have "unat (pte_addr l p va) + 8 \<le> 2 ^ 64" "unat (pte_addr k q va') + 8 \<le> 2 ^ 64"
    using u i unfolding unat_pte_addr [OF assms(1)] unat_pte_addr [OF assms(2)] by linarith+
  then show ?thesis using d unfolding disjoint_range_def unat_sub64 by auto
qed

subsection \<open>The meaning of a page table\<close>

text \<open>The table page reached for \<open>va\<close> after \<open>d\<close> steps from the root, and the entry it holds.\<close>

primrec tbl :: "mem \<Rightarrow> u64 \<Rightarrow> u64 \<Rightarrow> nat \<Rightarrow> u64 option" where
  "tbl m root va 0 = Some root"
| "tbl m root va (Suc d) = (case tbl m root va d of None \<Rightarrow> None | Some p \<Rightarrow>
     let v = load64 m (pte_addr (2 - d) p va)
     in if v AND PTE_V \<noteq> 0 then Some (PTE2PA v) else None)"

definition entry :: "mem \<Rightarrow> u64 \<Rightarrow> u64 \<Rightarrow> nat \<Rightarrow> u64" where
  "entry m root va d =
     (case tbl m root va d of None \<Rightarrow> 0 | Some p \<Rightarrow> load64 m (pte_addr (2 - d) p va))"

definition lookup :: "mem \<Rightarrow> u64 \<Rightarrow> u64 \<Rightarrow> u64 option" where
  "lookup m root va =
     (let v = entry m root va 2 in if v AND PTE_V \<noteq> 0 then Some v else None)"

definition tables :: "mem \<Rightarrow> u64 \<Rightarrow> u64 set" where
  "tables m root = {p. \<exists>va d. sv39 va \<and> d \<le> 2 \<and> tbl m root va d = Some p}"

definition pt_wf :: "u64 \<Rightarrow> mem \<Rightarrow> u64 \<Rightarrow> bool" where
  "pt_wf K m root \<longleftrightarrow>
     (\<forall>p \<in> tables m root. valid_page K p) \<and>
     (\<forall>va va' d d' p. sv39 va \<longrightarrow> sv39 va' \<longrightarrow> d \<le> 2 \<longrightarrow> d' \<le> 2 \<longrightarrow>
        tbl m root va d = Some p \<longrightarrow> tbl m root va' d' = Some p \<longrightarrow> d = d' \<and> key d va = key d va') \<and>
     (\<forall>va d. sv39 va \<longrightarrow> d < 2 \<longrightarrow> entry m root va d AND (PTE_R OR PTE_W OR PTE_X) = 0)"

lemma tbl_Suc_entry:
  "tbl m root va (Suc d) =
     (if entry m root va d AND PTE_V \<noteq> 0 then Some (PTE2PA (entry m root va d)) else None)"
  by (simp add: entry_def Let_def split: option.splits)

lemma tbl_key: "key d va = key d va' \<Longrightarrow> d \<le> 3 \<Longrightarrow> tbl m root va d = tbl m root va' d"
proof (induction d)
  case (Suc d)
  then have "key d va = key d va'" "PX (2 - d) va = PX (2 - d) va'" using key_Suc [of d va va'] by auto
  moreover from this(2) have "pte_addr (2 - d) p va = pte_addr (2 - d) p va'" for p
    by (simp add: pte_addr_def)
  ultimately show ?case using Suc by (simp split: option.split)
qed simp

lemma tablesI: "tbl m root va d = Some p \<Longrightarrow> sv39 va \<Longrightarrow> d \<le> 2 \<Longrightarrow> p \<in> tables m root"
  by (auto simp: tables_def)

lemma root_in_tables: "root \<in> tables m root"
  by (rule tablesI [of _ _ 0 0]) (simp_all add: sv39_def)

lemma pt_wf_valid: "pt_wf K m root \<Longrightarrow> p \<in> tables m root \<Longrightarrow> valid_page K p"
  by (simp add: pt_wf_def)

lemma pt_wf_aligned: "pt_wf K m root \<Longrightarrow> p \<in> tables m root \<Longrightarrow> page_aligned p"
  by (simp add: pt_wf_def valid_page_def)

lemma pt_wf_inj:
  assumes "pt_wf K m root" "tbl m root va d = Some p" "tbl m root va' d' = Some p"
    and "sv39 va" "sv39 va'" "d \<le> 2" "d' \<le> 2"
  shows "d = d'" "key d va = key d va'"
  using assms unfolding pt_wf_def by blast+

text \<open>Memory outside the table pages does not matter.\<close>

definition same_on :: "u64 set \<Rightarrow> mem \<Rightarrow> mem \<Rightarrow> bool" where
  "same_on S m' m \<longleftrightarrow> (\<forall>p \<in> S. \<forall>a. in_page a p \<longrightarrow> m' a = m a)"

definition zero_on :: "u64 \<Rightarrow> mem \<Rightarrow> bool" where
  "zero_on p m \<longleftrightarrow> (\<forall>a. in_page a p \<longrightarrow> m a = 0)"

lemma same_onD: "same_on S m' m \<Longrightarrow> p \<in> S \<Longrightarrow> in_page a p \<Longrightarrow> m' a = m a"
  by (simp add: same_on_def)

lemma same_on_refl [simp]: "same_on S m m"
  by (simp add: same_on_def)

lemma load_entry_frame:
  assumes "page_aligned p" and "\<And>a. in_page a p \<Longrightarrow> m' a = m a"
  shows "load64 m' (pte_addr l p va) = load64 m (pte_addr l p va)"
  by (rule load64_cong) (rule assms(2) [OF in_page_pte [OF assms(1)]])

lemma tbl_frame:
  assumes wf: "pt_wf K m root" and "sv39 va" and "d \<le> 2"
    and fr: "same_on (tables m root) m' m"
  shows "tbl m' root va d = tbl m root va d \<and> entry m' root va d = entry m root va d"
  using \<open>d \<le> 2\<close>
proof (induction d)
  case 0
  have "load64 m' (pte_addr l root va) = load64 m (pte_addr l root va)" for l
    using pt_wf_aligned [OF wf root_in_tables] same_onD [OF fr root_in_tables] by (rule load_entry_frame)
  then show ?case by (simp add: entry_def)
next
  case (Suc d)
  then have t: "tbl m' root va (Suc d) = tbl m root va (Suc d)" by (simp add: tbl_Suc_entry del: tbl.simps)
  show ?case
  proof (cases "tbl m root va (Suc d)")
    case None
    then show ?thesis using t by (simp add: entry_def del: tbl.simps)
  next
    case (Some p)
    then have p: "p \<in> tables m root" using assms(2) Suc.prems by (rule tablesI)
    have "load64 m' (pte_addr l p va) = load64 m (pte_addr l p va)" for l
      using pt_wf_aligned [OF wf p] same_onD [OF fr p] by (rule load_entry_frame)
    with Some show ?thesis using t by (simp add: entry_def del: tbl.simps)
  qed
qed

lemma pt_wf_cong:
  assumes "pt_wf K m root"
    and eq: "\<And>va d. sv39 va \<Longrightarrow> d \<le> 2 \<Longrightarrow> tbl m' root va d = tbl m root va d"
    and fl: "\<And>va d. sv39 va \<Longrightarrow> d < 2 \<Longrightarrow> entry m' root va d AND (PTE_R OR PTE_W OR PTE_X) = 0"
  shows "pt_wf K m' root" "tables m' root = tables m root"
proof -
  show t: "tables m' root = tables m root" by (intro set_eqI) (simp add: tables_def, metis eq)
  show "pt_wf K m' root"
    using assms(1) unfolding pt_wf_def t by (auto simp: eq fl)
qed

lemma pt_wf_frame:
  assumes wf: "pt_wf K m root"
    and fr: "same_on (tables m root) m' m"
  shows "pt_wf K m' root" "tables m' root = tables m root"
    "sv39 va \<Longrightarrow> lookup m' root va = lookup m root va"
proof -
  have f: "tbl m' root va d = tbl m root va d" "entry m' root va d = entry m root va d"
    if "sv39 va" "d \<le> 2" for va d
    using tbl_frame [OF wf that fr] by auto
  have "entry m' root va d AND (PTE_R OR PTE_W OR PTE_X) = 0" if "sv39 va" "d < 2" for va d
    using wf f that by (simp add: pt_wf_def)
  note pt_wf_cong [OF wf f(1) this]
  then show "pt_wf K m' root" "tables m' root = tables m root" by blast+
  show "sv39 va \<Longrightarrow> lookup m' root va = lookup m root va" by (simp add: lookup_def f)
qed

subsection \<open>Stores to an entry\<close>

text \<open>
  A store to the entry for \<open>va\<close> at depth \<open>d\<close>, on a memory \<open>m0\<close> that agrees with \<open>m\<close> on the
  table pages, is seen by the addresses that share \<open>d + 1\<close> indexes with \<open>va\<close> and by no other.
\<close>

lemma load_entry_store:
  assumes wf: "pt_wf K m root" and t: "tbl m root va d = Some p" "sv39 va" "d \<le> 2"
    and t': "tbl m root va' d' = Some p'" "sv39 va'" "d' \<le> 2"
    and fr: "same_on (tables m root) m0 m"
  shows "load64 (store64 (pte_addr (2 - d) p va) v m0) (pte_addr (2 - d') p' va') =
     (if d' = d \<and> key (Suc d) va' = key (Suc d) va then v else load64 m (pte_addr (2 - d') p' va'))"
proof -
  note tabs = tablesI [OF t] tablesI [OF t']
  note al = tabs [THEN pt_wf_aligned [OF wf]]
  note fr' = same_onD [OF fr tabs(2)]
  show ?thesis
  proof (cases "d' = d \<and> key (Suc d) va' = key (Suc d) va")
    case True
    then have px: "PX (2 - d) va' = PX (2 - d) va" and k: "key d va' = key d va"
      using key_Suc [OF t(3)] by auto
    have "tbl m root va' d = tbl m root va d" using k t(3) by (intro tbl_key) simp_all
    with True t t' have "p' = p" by simp
    with True px show ?thesis by (simp add: pte_addr_def)
  next
    case False
    have "p \<noteq> p' \<or> PX (2 - d) va \<noteq> PX (2 - d') va'"
    proof (rule ccontr)
      assume "\<not> ?thesis"
      with pt_wf_inj [OF wf t(1) _ t(2) _ t(3)] t' False key_Suc [OF t(3), of va' va]
      show False by auto
    qed
    then have "disjoint_range (pte_addr (2 - d') p' va') 8 (pte_addr (2 - d) p va) 8"
      using al pte_disjoint disjoint_range_sym by metis
    then have "load64 (store64 (pte_addr (2 - d) p va) v m0) (pte_addr (2 - d') p' va') =
        load64 m0 (pte_addr (2 - d') p' va')" by (rule load64_store64_other)
    also have "\<dots> = load64 m (pte_addr (2 - d') p' va')"
      using al(2) fr' by (rule load_entry_frame)
    finally show ?thesis using False by argo
  qed
qed

lemma entry_store:
  assumes wf: "pt_wf K m root" and t: "tbl m root va d = Some p" "sv39 va" "d \<le> 2"
    and t': "tbl m' root va' d' = tbl m root va' d'" "sv39 va'" "d' \<le> 2"
    and m': "m' = store64 (pte_addr (2 - d) p va) v m0"
    and fr: "same_on (tables m root) m0 m"
  shows "entry m' root va' d' =
     (if d' = d \<and> key (Suc d) va' = key (Suc d) va then v else entry m root va' d')"
proof (cases "tbl m root va' d'")
  case None
  moreover have "d' = d \<Longrightarrow> key (Suc d) va' \<noteq> key (Suc d) va"
    using None t tbl_key [of d va va' m root] key_Suc [OF t(3), of va' va] by auto
  ultimately show ?thesis using t'(1) by (auto simp: entry_def)
next
  case (Some p')
  from load_entry_store [OF wf t Some t'(2,3) fr] show ?thesis
    using t'(1) Some by (simp add: entry_def m')
qed

lemma leaf_store:
  assumes wf: "pt_wf K m root" and t: "tbl m root va 2 = Some p" "sv39 va"
    and m': "m' = store64 (pte_addr 0 p va) v m"
  shows "pt_wf K m' root" and "tables m' root = tables m root"
    and "sv39 va' \<Longrightarrow> tbl m' root va' 2 = tbl m root va' 2"
    and "sv39 va' \<Longrightarrow> entry m' root va' 2 =
       (if PGROUNDDOWN va' = PGROUNDDOWN va then v else entry m root va' 2)"
proof -
  have m2: "m' = store64 (pte_addr (2 - 2) p va) v m" using m' by simp
  note es = entry_store [OF wf t order_refl _ _ _ m2 same_on_refl]
  have tb: "tbl m' root va' d' = tbl m root va' d'" if "sv39 va'" "d' \<le> 2" for va' d'
    using that(2)
  proof (induction d')
    case (Suc n)
    then have "entry m' root va' n = entry m root va' n" using es [of va' n] that(1) by simp
    then show ?case by (simp add: tbl_Suc_entry del: tbl.simps)
  qed simp
  have "entry m' root va' n = entry m root va' n" if "sv39 va'" "n < 2" for va' n
    using es [of va' n] tb [of va' n] that by simp
  then have fl: "entry m' root va' n AND (PTE_R OR PTE_W OR PTE_X) = 0" if "sv39 va'" "n < 2" for va' n
    using that wf by (simp add: pt_wf_def)
  from pt_wf_cong [OF wf tb fl] show "pt_wf K m' root" "tables m' root = tables m root" by blast+
  show "sv39 va' \<Longrightarrow> tbl m' root va' 2 = tbl m root va' 2" by (simp add: tb)
  show "sv39 va' \<Longrightarrow> entry m' root va' 2 =
       (if PGROUNDDOWN va' = PGROUNDDOWN va then v else entry m root va' 2)"
    using es [of va' 2] tb [of va' 2] key_3 [of va' va] by (simp add: numeral_3_eq_3)
qed

lemma entry_key: "key (Suc d) va = key (Suc d) va' \<Longrightarrow> d \<le> 2 \<Longrightarrow> entry m root va d = entry m root va' d"
  using key_Suc [of d va va'] tbl_key [of d va va' m root]
  by (simp add: entry_def pte_addr_def split: option.split)

lemma and_one_iff: "(x AND 1 = (0 :: u64)) \<longleftrightarrow> \<not> bit x 0"
  by (simp add: and_one_eq odd_iff_mod_2_eq_one bit_0)

lemma PA2PTE_bit: "n < 10 \<Longrightarrow> \<not> bit (PA2PTE pa) n"
  by (simp add: PA2PTE_def bit_push_bit_iff)

lemma bit_3FF: "bit (0x3FF :: u64) n \<longleftrightarrow> n < 10"
proof -
  have *: "(0x3FF :: u64) = mask 10" by (simp add: mask_eq_exp_minus_1)
  show ?thesis unfolding * by (auto simp: bit_mask_iff)
qed

lemma PTE_FLAGS_PA2PTE: "PTE_FLAGS (PA2PTE pa OR f) = f AND 0x3FF"
proof (rule bit_word_eqI)
  fix n show "bit (PTE_FLAGS (PA2PTE pa OR f)) n = bit (f AND 0x3FF) n"
    unfolding PTE_FLAGS_def bit_and_iff bit_or_iff bit_3FF using PA2PTE_bit by blast
qed

lemma flags_and:
  assumes "c = c AND 0x3FF"
  shows "(PA2PTE pa OR f) AND c = f AND c"
proof -
  have "(PA2PTE pa OR f) AND c = PTE_FLAGS (PA2PTE pa OR f) AND c"
    unfolding PTE_FLAGS_def by (metis assms and.assoc and.commute)
  also have "\<dots> = f AND c" unfolding PTE_FLAGS_PA2PTE by (metis assms and.assoc and.commute)
  finally show ?thesis .
qed

lemma dir_pte:
  assumes "valid_page K q"
  shows "PTE2PA (PA2PTE q OR PTE_V) = q" "(PA2PTE q OR PTE_V) AND PTE_V \<noteq> 0"
    "(PA2PTE q OR PTE_V) AND (PTE_R OR PTE_W OR PTE_X) = 0"
proof -
  have "PHYSTOP < 2 ^ 56" by (simp add: PHYSTOP_val)
  with assms have "page_aligned q" "q < 2 ^ 56" by (auto simp: valid_page_def)
  from PTE2PA_PA2PTE [OF this, of PTE_V] show "PTE2PA (PA2PTE q OR PTE_V) = q"
    by (simp add: PTE_V_def)
  show "(PA2PTE q OR PTE_V) AND PTE_V \<noteq> 0" by (subst flags_and) (simp_all add: PTE_V_def)
  show "(PA2PTE q OR PTE_V) AND (PTE_R OR PTE_W OR PTE_X) = 0"
    by (subst flags_and) (simp_all add: pte_bits)
qed

lemma dir_store:
  assumes wf: "pt_wf K m root" and t: "tbl m root va d = Some p" "sv39 va" "d < 2"
    and inv: "entry m root va d AND PTE_V = 0"
    and q: "valid_page K q" "q \<notin> tables m root"
    and m': "m' = store64 (pte_addr (2 - d) p va) (PA2PTE q OR PTE_V) m0"
    and fr: "same_on (tables m root) m0 m"
    and z: "zero_on q m0"
  defines "new d' va' \<equiv> d' = Suc d \<and> key (Suc d) va' = key (Suc d) va"
  assumes va': "sv39 va'" "d' \<le> 2"
  shows "tbl m' root va' d' = (if new d' va' then Some q else tbl m root va' d') \<and>
     entry m' root va' d' = (if d' = d \<and> key (Suc d) va' = key (Suc d) va
       then PA2PTE q OR PTE_V else entry m root va' d')" (is "?T d' \<and> ?E d'")
proof -
  have d2: "d \<le> 2" using t by simp
  have al: "page_aligned p" "page_aligned q"
    using pt_wf_aligned [OF wf tablesI [OF t(1,2) d2]] q by (simp_all add: valid_page_def)
  have pq: "p \<noteq> q" using tablesI [OF t(1,2) d2] q by auto
  have mq: "m' a = 0" if "in_page a q" for a
  proof -
    have "\<not> in_range a (pte_addr (2 - d) p va) 8"
      using that in_page_pte [OF al(1)] in_page_unique [OF al] pq by blast
    then show ?thesis using z that by (simp add: m' store64_frame zero_on_def)
  qed
  have lq: "load64 m' (pte_addr l q x) = 0" for l x
    unfolding load64_def by (rule load_le_zero) (rule mq [OF in_page_pte [OF al(2)]])
  have none: "tbl m root x (Suc d) = None" if "key (Suc d) x = key (Suc d) va" for x
    using entry_key [OF that d2, of m root] inv by (simp add: tbl_Suc_entry del: tbl.simps)
  have E: "?E n" if "?T n" "n \<le> 2" for n
  proof (cases "new n va'")
    case True
    then have "tbl m' root va' n = Some q" "tbl m root va' n = None" "n \<noteq> d"
      using that none [of va'] by (auto simp: new_def)
    then show ?thesis by (simp add: entry_def lq)
  next
    case False
    then show ?thesis using entry_store [OF wf t(1,2) d2 _ va'(1) that(2) m' fr] that by simp
  qed
  have "?T n" if "n \<le> 2" for n
    using that
  proof (induction n)
    case 0
    then show ?case by (simp add: new_def)
  next
    case (Suc n)
    then have "?E n" using E [of n] by simp
    then show ?case
      using dir_pte [OF q(1)] none [of va']
      by (auto simp: tbl_Suc_entry new_def simp del: tbl.simps)
  qed
  then show ?thesis using E va'(2) by blast
qed

lemma dir_store_wf:
  assumes wf: "pt_wf K m root" and t: "tbl m root va d = Some p" "sv39 va" "d < 2"
    and inv: "entry m root va d AND PTE_V = 0"
    and q: "valid_page K q" "q \<notin> tables m root"
    and m': "m' = store64 (pte_addr (2 - d) p va) (PA2PTE q OR PTE_V) m0"
    and fr: "same_on (tables m root) m0 m"
    and z: "zero_on q m0"
  shows "pt_wf K m' root" and "tables m' root = insert q (tables m root)"
    and "tbl m' root va (Suc d) = Some q"
    and "sv39 va' \<Longrightarrow> entry m' root va' 2 = entry m root va' 2"
proof -
  note ds = dir_store [OF wf t inv q m' fr z]
  have none: "tbl m root x (Suc d) = None" if "key (Suc d) x = key (Suc d) va" for x
    using entry_key [OF that, of m root] t inv by (simp add: tbl_Suc_entry del: tbl.simps)
  have T: "tbl m' root x n = Some y \<longleftrightarrow>
      (if y = q then n = Suc d \<and> key (Suc d) x = key (Suc d) va else tbl m root x n = Some y)"
    if "sv39 x" "n \<le> 2" for x n y
  proof -
    have "tbl m root x n \<noteq> Some q" using q(2) tablesI that by blast
    with ds [OF that] none [of x] show ?thesis by auto
  qed
  show va: "tbl m' root va (Suc d) = Some q" using T [of va "Suc d" q] t by simp
  show tab: "tables m' root = insert q (tables m root)"
  proof (intro set_eqI iffI)
    fix y assume "y \<in> tables m' root"
    then show "y \<in> insert q (tables m root)"
      using T by (auto simp: tables_def split: if_splits)
  next
    fix y assume "y \<in> insert q (tables m root)"
    then show "y \<in> tables m' root"
    proof (cases "y = q")
      case True
      then show ?thesis using va t by (auto intro!: tablesI [of _ _ va "Suc d"])
    next
      case False
      with \<open>y \<in> _\<close> obtain x n where "sv39 x" "n \<le> 2" "tbl m root x n = Some y" by (auto simp: tables_def)
      with False T [of x n y] show ?thesis by (auto intro!: tablesI [of _ _ x n])
    qed
  qed
  show "sv39 va' \<Longrightarrow> entry m' root va' 2 = entry m root va' 2" using ds [of va' 2] t(3) by simp
  show "pt_wf K m' root"
    unfolding pt_wf_def tab
  proof (intro conjI allI impI ballI)
    fix y assume "y \<in> insert q (tables m root)"
    then show "valid_page K y" using q pt_wf_valid [OF wf] by auto
  next
    fix x x' n n' y
    assume "sv39 x" "sv39 x'" "n \<le> 2" "n' \<le> 2" "tbl m' root x n = Some y" "tbl m' root x' n' = Some y"
    then show "n = n'" "key n x = key n x'"
      using T [of x n y] T [of x' n' y] pt_wf_inj [OF wf, of x n y x' n'] by (auto split: if_splits)
  next
    fix x n assume x: "sv39 x" "n < (2 :: nat)"
    then have "entry m root x n AND (PTE_R OR PTE_W OR PTE_X) = 0" using wf by (simp add: pt_wf_def)
    with x ds [of x n] dir_pte(3) [OF q(1)]
    show "entry m' root x n AND (PTE_R OR PTE_W OR PTE_X) = 0" by simp
  qed
qed

subsection \<open>walk\<close>

text \<open>
  The page table \<open>root\<close> and the free list \<open>ps\<close> live in disjoint pages; and what an operation that
  may add table pages leaves behind: the same meaning for every address, table pages taken from
  the free list, and no byte written outside the table pages.
\<close>

definition vm_inv :: "'z kmem_state_scheme \<Rightarrow> u64 \<Rightarrow> u64 list \<Rightarrow> bool" where
  "vm_inv s root ps \<longleftrightarrow> idle s \<and> lock_free KmemLock (lk s) \<and> kmem_inv s ps \<and>
     pt_wf (kend (img s)) (mem s) root \<and> tables (mem s) root \<inter> set ps = {}"

definition changes_in :: "u64 set \<Rightarrow> mem \<Rightarrow> mem \<Rightarrow> bool" where
  "changes_in S m m' \<longleftrightarrow> (\<forall>a. m' a \<noteq> m a \<longrightarrow> (\<exists>p \<in> S. in_page a p))"

definition only_mem :: "'z kmem_state_scheme \<Rightarrow> 'z kmem_state_scheme \<Rightarrow> bool" where
  "only_mem s s' \<longleftrightarrow> (\<exists>m f. s' = s\<lparr>mem := m, freelist := f\<rparr>)"

definition pages_of :: "'z kmem_state_scheme \<Rightarrow> u64 \<Rightarrow> u64 list \<Rightarrow> u64 set" where
  "pages_of s root ps = set ps \<union> tables (mem s) root"

definition grown :: "u64 \<Rightarrow> 'z kmem_state_scheme \<Rightarrow> u64 list \<Rightarrow> 'z kmem_state_scheme \<Rightarrow> u64 list \<Rightarrow> bool" where
  "grown root s ps s' ps' \<longleftrightarrow> vm_inv s' root ps' \<and> only_mem s s' \<and>
     pages_of s' root ps' = pages_of s root ps \<and> set ps' \<subseteq> set ps \<and>
     changes_in (tables (mem s') root) (mem s) (mem s')"

definition same_entries :: "u64 \<Rightarrow> 'z kmem_state_scheme \<Rightarrow> 'z kmem_state_scheme \<Rightarrow> bool" where
  "same_entries root s s' \<longleftrightarrow> (\<forall>va. sv39 va \<longrightarrow> entry (mem s') root va 2 = entry (mem s) root va 2)"

lemma only_mem_refl [simp]: "only_mem s s"
  unfolding only_mem_def by (rule exI [of _ "mem s"], rule exI [of _ "freelist s"]) simp

lemma only_mem_upd [simp]: "only_mem s (s\<lparr>mem := m, freelist := f\<rparr>)" "only_mem s (s\<lparr>mem := m\<rparr>)"
  unfolding only_mem_def by blast (rule exI [of _ m], rule exI [of _ "freelist s"], simp)

lemma only_mem_trans: "only_mem s t \<Longrightarrow> only_mem t u \<Longrightarrow> only_mem s u"
  by (auto simp: only_mem_def) blast

lemma only_mem_fields: "only_mem s t \<Longrightarrow> lk t = lk s" "only_mem s t \<Longrightarrow> img t = img s"
  by (auto simp: only_mem_def)

lemma changes_in_refl [simp]: "changes_in S m m"
  by (simp add: changes_in_def)

lemma changes_in_trans: "changes_in S m m' \<Longrightarrow> changes_in S m' m'' \<Longrightarrow> changes_in S m m''"
  by (auto simp: changes_in_def) metis

lemma changes_in_mono: "changes_in S m m' \<Longrightarrow> S \<subseteq> T \<Longrightarrow> changes_in T m m'"
  by (auto simp: changes_in_def)

lemma grown_refl: "vm_inv s root ps \<Longrightarrow> grown root s ps s ps"
  by (simp add: grown_def)

lemma grown_tables: "grown root s ps t qs \<Longrightarrow> vm_inv s root ps \<Longrightarrow> tables (mem s) root \<subseteq> tables (mem t) root"
  by (auto simp: grown_def vm_inv_def pages_of_def)

lemma grown_trans:
  assumes "grown root s ps t qs" and "grown root t qs u rs"
  shows "grown root s ps u rs"
proof -
  have "tables (mem t) root \<subseteq> tables (mem u) root"
    using assms grown_tables [OF assms(2)] by (simp add: grown_def)
  then have "changes_in (tables (mem u) root) (mem s) (mem t)"
    using assms(1) changes_in_mono unfolding grown_def by blast
  with assms show ?thesis unfolding grown_def
    using only_mem_trans changes_in_trans by blast
qed

lemma same_entries_trans: "same_entries root s t \<Longrightarrow> same_entries root t u \<Longrightarrow> same_entries root s u"
  by (simp add: same_entries_def)

lemma walk_level_found:
  assumes "tbl (mem s) root va d = Some p" and "entry (mem s) root va d AND PTE_V \<noteq> 0"
  shows "walk_level (2 - d) p va alloc e s = Ok (tbl (mem s) root va (Suc d)) e s"
  using assms by (simp add: walk_level_def entry_def)

lemma walk_level_stop:
  assumes "tbl (mem s) root va d = Some p" and "entry (mem s) root va d AND PTE_V = 0"
  shows "walk_level (2 - d) p va False e s = Ok (tbl (mem s) root va (Suc d)) e s"
  using assms by (simp add: walk_level_def entry_def)

lemma walk_level_look:
  assumes "tbl (mem s) root va d = Some p"
  shows "walk_level (2 - d) p va False e s = Ok (tbl (mem s) root va (Suc d)) e s"
  using assms walk_level_stop walk_level_found by metis

lemma walk_look:
  assumes "va < MAXVA"
  shows "walk root va False e s =
     Ok (case tbl (mem s) root va 2 of None \<Rightarrow> 0 | Some p \<Rightarrow> pte_addr 0 p va) e s"
proof -
  have l2: "walk_level 2 root va False e s = Ok (tbl (mem s) root va 1) e s"
    using walk_level_look [of s root va 0 root e] by simp
  have nv: "\<not> MAXVA \<le> va" using assms by simp
  show ?thesis
  proof (cases "tbl (mem s) root va 1")
    case None
    with l2 nv show ?thesis by (simp add: walk_def numeral_2_eq_2)
  next
    case (Some p)
    with walk_level_look [of s root va 1 p e]
    have "walk_level 1 p va False e s = Ok (tbl (mem s) root va 2) e s" by (simp add: numeral_2_eq_2)
    with l2 nv Some show ?thesis by (simp add: walk_def split: option.split)
  qed
qed

lemma sv39_MAXVA: "va < MAXVA \<Longrightarrow> sv39 va"
  by (simp add: sv39_def MAXVA_val word_less_nat_alt)

lemma vm_inv_facts:
  assumes "vm_inv s root ps"
  shows "idle s" "lock_free KmemLock (lk s)" "kmem_inv s ps" "pt_wf (kend (img s)) (mem s) root"
    "tables (mem s) root \<inter> set ps = {}" "0 < kend (img s)"
  using assms by (simp_all add: vm_inv_def idle_def)

text \<open>A page taken from the free list and cleared becomes the table behind an empty entry.\<close>

lemma walk_level_alloc:
  assumes inv: "vm_inv s root ps" and t: "tbl (mem s) root va d = Some p" "sv39 va" "d < 2"
    and e0: "entry (mem s) root va d AND PTE_V = 0" and ps: "ps = q # qs"
  shows "\<exists>s'. walk_level (2 - d) p va True e s = Ok (Some q) e s' \<and> grown root s ps s' qs \<and>
     same_entries root s s' \<and> tbl (mem s') root va (Suc d) = Some q"
proof -
  note i = vm_inv_facts [OF inv]
  let ?m1 = "memset q 5 4096 (mem s)"
  let ?m0 = "memset q 0 4096 ?m1"
  let ?m' = "store64 (pte_addr (2 - d) p va) (PA2PTE q OR PTE_V) ?m0"
  let ?s' = "s\<lparr>mem := ?m', freelist := load64 (mem s) q\<rparr>"
  note ka = kalloc_Cons [OF i(1,2) i(3) [unfolded ps]]
  have q: "valid_page (kend (img s)) q" "q \<noteq> 0" "q \<notin> set qs" "q \<notin> tables (mem s) root"
    using i ps by (auto simp: kmem_inv_def)
  have pt: "p \<in> tables (mem s) root" using t by (auto intro: tablesI)
  have al: "page_aligned p" "page_aligned q" "\<And>x. x \<in> tables (mem s) root \<Longrightarrow> page_aligned x"
    using pt_wf_aligned [OF i(4)] pt q by (auto simp: valid_page_def)
  have m0: "?m0 a = (if in_page a q then 0 else mem s a)" for a
    by (simp add: memset_apply in_page_def)
  have z: "zero_on q ?m0" by (simp add: zero_on_def m0)
  have fr: "same_on (tables (mem s) root) ?m0 (mem s)"
    unfolding same_on_def m0 using in_page_unique al q by auto
  note ds = dir_store_wf [OF i(4) t e0 q(1,4) refl fr z]
  have run: "walk_level (2 - d) p va True e s = Ok (Some q) e ?s'"
    using ka(1) [of e] e0 t(1) q(2) by (simp add: walk_level_def entry_def)
  have ch: "changes_in (tables ?m' root) (mem s) ?m'"
    unfolding changes_in_def
  proof (intro allI impI)
    fix a assume a: "?m' a \<noteq> mem s a"
    show "\<exists>x \<in> tables ?m' root. in_page a x"
    proof (cases "in_range a (pte_addr (2 - d) p va) 8")
      case True
      then show ?thesis using in_page_pte [OF al(1)] pt ds(2) by blast
    next
      case False
      with a m0 have "in_page a q" by (simp add: store64_frame split: if_splits)
      then show ?thesis using ds(2) by blast
    qed
  qed
  have "kmem_inv ?s' qs"
  proof (rule kmem_inv_frame [OF ka(2)])
    fix a x assume x: "x \<in> set qs" "in_page a x"
    then have "page_aligned x" using i(3) ps by (auto simp: kmem_inv_def valid_page_def)
    moreover have "x \<noteq> q" "x \<noteq> p" using x q pt i(5) ps by auto
    ultimately have "\<not> in_page a q" "\<not> in_page a p" using x al in_page_unique by blast+
    moreover from this have "\<not> in_range a (pte_addr (2 - d) p va) 8"
      using in_page_pte [OF al(1)] by blast
    ultimately have "?m' a = mem s a" by (simp add: store64_frame m0)
    then show "mem ?s' a = mem (s\<lparr>mem := ?m1, freelist := load64 (mem s) q\<rparr>) a"
      using \<open>\<not> in_page a q\<close> by (simp add: memset_apply in_page_def)
  qed simp_all
  then have "vm_inv ?s' root qs"
    using i ds(1,2) ps q(3) by (auto simp: vm_inv_def idle_def)
  then have "grown root s ps ?s' qs"
    using ch ds(2) ps by (auto simp: grown_def pages_of_def)
  moreover have "same_entries root s ?s'" using ds(4) by (simp add: same_entries_def)
  ultimately show ?thesis using run ds(3) by (intro exI [of _ ?s']) simp
qed

lemma walk_level_ok:
  assumes inv: "vm_inv s root ps" and t: "tbl (mem s) root va d = Some p" "sv39 va" "d < 2"
  shows "\<exists>r s' ps'. walk_level (2 - d) p va True e s = Ok r e s' \<and> grown root s ps s' ps' \<and>
     same_entries root s s' \<and> length ps \<le> length ps' + 1 \<and>
     (case r of None \<Rightarrow> ps' = [] | Some p' \<Rightarrow> tbl (mem s') root va (Suc d) = Some p')"
proof (cases "entry (mem s) root va d AND PTE_V = 0")
  case False
  then have "tbl (mem s) root va (Suc d) = Some (PTE2PA (entry (mem s) root va d))"
    by (simp add: tbl_Suc_entry del: tbl.simps)
  then show ?thesis
    using walk_level_found [OF t(1) False] grown_refl [OF inv]
    by (auto simp: same_entries_def simp del: tbl.simps)
next
  case True
  show ?thesis
  proof (cases ps)
    case Nil
    note i = vm_inv_facts [OF inv]
    have "walk_level (2 - d) p va True e s = Ok None e s"
      using kalloc_empty [OF i(1,2) i(3) [unfolded Nil], of e] t(1) True
      by (simp add: walk_level_def entry_def)
    then show ?thesis using grown_refl [OF inv] Nil by (auto simp: same_entries_def)
  next
    case (Cons q qs)
    from walk_level_alloc [OF inv t True Cons, of e] Cons show ?thesis by fastforce
  qed
qed

lemma pte_addr_nonnull:
  assumes "pt_wf K m root" "0 < K" "p \<in> tables m root"
  shows "pte_addr l p va \<noteq> 0"
proof -
  have "valid_page K p" using assms pt_wf_valid by blast
  then have "p \<noteq> 0" "page_aligned p" using assms(2) by (auto simp: valid_page_def)
  then show ?thesis using pte_page [of p l va] by (auto simp: PGROUNDDOWN_def)
qed

lemma walk_alloc:
  assumes inv: "vm_inv s root ps" and va: "va < MAXVA"
  shows "\<exists>r s' ps'. walk root va True e s = Ok r e s' \<and> grown root s ps s' ps' \<and>
     same_entries root s s' \<and> length ps \<le> length ps' + 2 \<and> (if r = 0 then ps' = []
       else \<exists>p. tbl (mem s') root va 2 = Some p \<and> r = pte_addr 0 p va)"
proof -
  note sv = sv39_MAXVA [OF va]
  have nv: "\<not> MAXVA \<le> va" using va by simp
  have two: "Suc 1 = (2 :: nat)" "2 - 1 = (1 :: nat)" by simp_all
  from walk_level_ok [OF inv _ sv, of 0 root e] obtain r1 s1 ps1 where
    w1: "walk_level 2 root va True e s = Ok r1 e s1" "grown root s ps s1 ps1" "same_entries root s s1"
      "length ps \<le> length ps1 + 1"
      "case r1 of None \<Rightarrow> ps1 = [] | Some p \<Rightarrow> tbl (mem s1) root va 1 = Some p"
    unfolding One_nat_def by (auto simp del: tbl.simps(2))
  show ?thesis
  proof (cases r1)
    case None
    with w1 nv show ?thesis by (auto simp: walk_def)
  next
    case (Some p1)
    then have t1: "tbl (mem s1) root va 1 = Some p1" using w1 by simp
    have inv1: "vm_inv s1 root ps1" using w1 by (simp add: grown_def)
    from walk_level_ok [OF inv1 t1 sv, of e] obtain r0 s0 ps0 where
      w0: "walk_level 1 p1 va True e s1 = Ok r0 e s0" "grown root s1 ps1 s0 ps0" "same_entries root s1 s0"
        "length ps1 \<le> length ps0 + 1"
        "case r0 of None \<Rightarrow> ps0 = [] | Some p \<Rightarrow> tbl (mem s0) root va 2 = Some p"
      unfolding two by (auto simp del: tbl.simps(2) One_nat_def)
    note g = grown_trans [OF w1(2) w0(2)] same_entries_trans [OF w1(3) w0(3)]
    show ?thesis
    proof (cases r0)
      case None
      with w1 w0 g Some nv show ?thesis by (auto simp: walk_def)
    next
      case (Some p0)
      then have t0: "tbl (mem s0) root va 2 = Some p0" using w0 by simp
      have "vm_inv s0 root ps0" using w0 by (simp add: grown_def)
      from vm_inv_facts(4,6) [OF this] have "pte_addr 0 p0 va \<noteq> 0"
        using tablesI [OF t0 sv] by (intro pte_addr_nonnull) auto
      with w1 w0 g Some \<open>r1 = Some p1\<close> nv t0 show ?thesis by (auto simp: walk_def)
    qed
  qed
qed

subsection \<open>mappages\<close>

lemma set_leaf:
  assumes inv: "vm_inv s root ps" and t: "tbl (mem s) root va 2 = Some p" "sv39 va"
    and s'_def: "s' = s\<lparr>mem := store64 (pte_addr 0 p va) v (mem s)\<rparr>"
  shows "grown root s ps s' ps" and "tables (mem s') root = tables (mem s) root"
    and "sv39 va' \<Longrightarrow> tbl (mem s') root va' 2 = tbl (mem s) root va' 2"
    and "sv39 va' \<Longrightarrow> entry (mem s') root va' 2 =
       (if PGROUNDDOWN va' = PGROUNDDOWN va then v else entry (mem s) root va' 2)"
proof -
  note i = vm_inv_facts [OF inv]
  note ls = leaf_store [OF i(4) t refl [of "store64 (pte_addr 0 p va) v (mem s)"]]
  have pt: "p \<in> tables (mem s) root" using t by (auto intro: tablesI)
  then have al: "page_aligned p" using pt_wf_aligned [OF i(4)] by blast
  have out: "mem s' a = mem s a" if "\<not> in_page a p" for a
    using that in_page_pte [OF al] store64_frame [of a "pte_addr 0 p va" v "mem s"]
    unfolding s'_def by auto
  show tab: "tables (mem s') root = tables (mem s) root" using ls(2) by (simp add: s'_def)
  have "kmem_inv s' ps"
  proof (rule kmem_inv_frame [OF i(3)])
    fix a x assume x: "x \<in> set ps" "in_page a x"
    then have "page_aligned x" "x \<noteq> p" using i(3,5) pt by (auto simp: kmem_inv_def valid_page_def)
    then show "mem s' a = mem s a" using x al in_page_unique by (intro out) blast
  qed (simp_all add: s'_def)
  then have "vm_inv s' root ps"
    using i ls(1) tab by (simp add: vm_inv_def idle_def) (simp add: s'_def)
  moreover have "changes_in (tables (mem s') root) (mem s) (mem s')"
    unfolding changes_in_def tab using out pt by blast
  ultimately show "grown root s ps s' ps"
    using tab by (auto simp: grown_def pages_of_def) (simp add: s'_def)
  show "sv39 va' \<Longrightarrow> tbl (mem s') root va' 2 = tbl (mem s) root va' 2"
    "sv39 va' \<Longrightarrow> entry (mem s') root va' 2 =
       (if PGROUNDDOWN va' = PGROUNDDOWN va then v else entry (mem s) root va' 2)"
    using ls(3,4) by (simp_all add: s'_def)
qed

text \<open>The entries after \<open>k\<close> pages from \<open>a\<close> have been mapped to the frames from \<open>pa\<close>.\<close>

definition with_range :: "u64 \<Rightarrow> nat \<Rightarrow> u64 \<Rightarrow> u64 \<Rightarrow> (u64 \<Rightarrow> u64) \<Rightarrow> u64 \<Rightarrow> u64" where
  "with_range a k pa perm f va =
     (if unat a \<le> unat (PGROUNDDOWN va) \<and> unat (PGROUNDDOWN va) < unat a + 4096 * k
      then PA2PTE (pa + (PGROUNDDOWN va - a)) OR perm OR PTE_V else f va)"

lemma with_range_0 [simp]: "with_range a 0 pa perm f = f"
  by (auto simp: with_range_def fun_eq_iff)

lemma with_range_Suc:
  assumes "page_aligned a" and "unat (a + PGSIZE) = unat a + 4096"
    and g: "\<And>va. sv39 va \<Longrightarrow> g va = (if PGROUNDDOWN va = a then PA2PTE pa OR perm OR PTE_V else f va)"
    and "sv39 va"
  shows "with_range (a + PGSIZE) k (pa + PGSIZE) perm g va = with_range a (Suc k) pa perm f va"
proof -
  have "PGROUNDDOWN va = a \<longleftrightarrow> unat a \<le> unat (PGROUNDDOWN va) \<and> unat (PGROUNDDOWN va) < unat a + 4096"
    using aligned_gap [OF assms(1) PGROUNDDOWN_aligned [of va]] word_unat_eq_iff [of "PGROUNDDOWN va" a]
    by fastforce
  moreover have "pa + PGSIZE + (PGROUNDDOWN va - (a + PGSIZE)) = pa + (PGROUNDDOWN va - a)" by simp
  ultimately show ?thesis using assms by (auto simp: with_range_def)
qed

lemma unat_page_index:
  assumes "unat a + 4096 * i < 2 ^ 64"
  shows "unat (a + of_nat i * PGSIZE) = unat a + 4096 * i"
proof -
  have "unat (of_nat i * PGSIZE) = 4096 * i"
    using assms by (simp add: PGSIZE_def unat_word_ariths unat_of_nat)
  then show ?thesis using assms by (simp add: unat_add64)
qed

lemma map_one:
  assumes inv: "vm_inv s root ps" and a: "a < MAXVA" and free: "entry (mem s) root a 2 AND PTE_V = 0"
  shows "\<exists>pte s1 ps1. walk root a True e s = Ok pte e s1 \<and> length ps \<le> length ps1 + 2 \<and>
     (if pte = 0 then ps1 = [] \<and> grown root s ps s1 ps1 \<and> same_entries root s s1
      else load64 (mem s1) pte AND PTE_V = 0 \<and>
        (let s2 = s1\<lparr>mem := store64 pte v (mem s1)\<rparr> in grown root s ps s2 ps1 \<and>
          (\<forall>va. sv39 va \<longrightarrow> entry (mem s2) root va 2 =
             (if PGROUNDDOWN va = PGROUNDDOWN a then v else entry (mem s) root va 2))))"
proof -
  note sv = sv39_MAXVA [OF a]
  from walk_alloc [OF inv a, of e] obtain pte s1 ps1 where
    w: "walk root a True e s = Ok pte e s1" "grown root s ps s1 ps1" "same_entries root s s1"
      "length ps \<le> length ps1 + 2"
      "if pte = 0 then ps1 = [] else \<exists>p. tbl (mem s1) root a 2 = Some p \<and> pte = pte_addr 0 p a"
    by blast
  show ?thesis
  proof (cases "pte = 0")
    case True
    with w show ?thesis by auto
  next
    case False
    then obtain p where p: "tbl (mem s1) root a 2 = Some p" "pte = pte_addr 0 p a" using w by auto
    have inv1: "vm_inv s1 root ps1" using w by (simp add: grown_def)
    have e1: "entry (mem s1) root va 2 = entry (mem s) root va 2" if "sv39 va" for va
      using w(3) that by (simp add: same_entries_def)
    have "load64 (mem s1) pte = entry (mem s) root a 2"
      using e1 [OF sv] p by (simp add: entry_def)
    moreover note sl = set_leaf [OF inv1 p(1) sv refl [of "s1\<lparr>mem := store64 (pte_addr 0 p a) v (mem s1)\<rparr>"]]
    moreover note grown_trans [OF w(2) sl(1)]
    ultimately show ?thesis using w(1,4) False free p(2) e1 by (auto simp: Let_def)
  qed
qed

lemma mappages_step:
  assumes inv: "vm_inv s root ps" and a: "a < MAXVA" "page_aligned a"
    and free: "entry (mem s) root a 2 AND PTE_V = 0"
  shows "(\<exists>s1. mappages_loop (Suc n) root a last' pa perm e s = Ok (-1) e s1 \<and>
       grown root s ps s1 [] \<and> same_entries root s s1 \<and> length ps \<le> 2) \<or>
     (\<exists>s2 ps2. grown root s ps s2 ps2 \<and> length ps \<le> length ps2 + 2 \<and>
       (\<forall>va. sv39 va \<longrightarrow> entry (mem s2) root va 2 =
          (if PGROUNDDOWN va = a then PA2PTE pa OR perm OR PTE_V else entry (mem s) root va 2)) \<and>
       mappages_loop (Suc n) root a last' pa perm e s = (if a = last' then Ok 0 e s2
         else mappages_loop n root (a + PGSIZE) last' (pa + PGSIZE) perm e s2))"
proof -
  from map_one [OF inv a(1) free, of e "PA2PTE pa OR perm OR PTE_V"] obtain pte s1 ps1 where
    w: "walk root a True e s = Ok pte e s1" "length ps \<le> length ps1 + 2"
      "if pte = 0 then ps1 = [] \<and> grown root s ps s1 ps1 \<and> same_entries root s s1
      else load64 (mem s1) pte AND PTE_V = 0 \<and>
        (let s2 = s1\<lparr>mem := store64 pte (PA2PTE pa OR perm OR PTE_V) (mem s1)\<rparr> in grown root s ps s2 ps1 \<and>
          (\<forall>va. sv39 va \<longrightarrow> entry (mem s2) root va 2 =
             (if PGROUNDDOWN va = a then PA2PTE pa OR perm OR PTE_V else entry (mem s) root va 2)))"
    unfolding PGROUNDDOWN_id [OF a(2)] by blast
  show ?thesis
  proof (cases "pte = 0")
    case True
    then have "mappages_loop (Suc n) root a last' pa perm e s = Ok (-1) e s1" using w(1) by simp
    then show ?thesis using w(2,3) True by auto
  next
    case False
    then have "mappages_loop (Suc n) root a last' pa perm e s = (if a = last'
        then Ok 0 e (s1\<lparr>mem := store64 pte (PA2PTE pa OR perm OR PTE_V) (mem s1)\<rparr>)
        else mappages_loop n root (a + PGSIZE) last' (pa + PGSIZE) perm e
          (s1\<lparr>mem := store64 pte (PA2PTE pa OR perm OR PTE_V) (mem s1)\<rparr>))"
      using w by simp
    then show ?thesis using w(2,3) False unfolding Let_def
      by (intro disjI2 exI [of _ "s1\<lparr>mem := store64 pte (PA2PTE pa OR perm OR PTE_V) (mem s1)\<rparr>"]
          exI [of _ ps1]) argo
  qed
qed

lemma mappages_loop_ok:
  assumes "vm_inv s root ps" and "page_aligned a" and "unat a + 4096 * n < 2 ^ 38"
    and "last' = a + of_nat n * PGSIZE"
    and "\<And>i. i \<le> n \<Longrightarrow> entry (mem s) root (a + of_nat i * PGSIZE) 2 AND PTE_V = 0"
  shows "\<exists>r s' ps' k. mappages_loop (Suc n) root a last' pa perm e s = Ok r e s' \<and>
     grown root s ps s' ps' \<and> k \<le> Suc n \<and> length ps \<le> length ps' + 2 * Suc n \<and>
     (\<forall>va. sv39 va \<longrightarrow> entry (mem s') root va 2 =
        with_range a k pa perm (\<lambda>va. entry (mem s) root va 2) va) \<and>
     (if r = 0 then k = Suc n else r = -1 \<and> k < Suc n \<and> ps' = [])"
  using assms
proof (induction n arbitrary: s ps a pa)
  case (0 s ps a pa)
  have up: "unat (a + PGSIZE) = unat a + 4096" using 0(3) by (simp add: unat_add64 PGSIZE_def)
  from mappages_step [OF 0(1) _ 0(2), of 0 last' pa perm e] 0(3,4) 0(5) [of 0]
  consider (fail) s1 where "mappages_loop (Suc 0) root a last' pa perm e s = Ok (-1) e s1"
      "grown root s ps s1 []" "same_entries root s s1" "length ps \<le> 2"
    | (ok) s2 ps2 where "mappages_loop (Suc 0) root a last' pa perm e s = Ok 0 e s2" "grown root s ps s2 ps2"
      "length ps \<le> length ps2 + 2"
      "\<And>va. sv39 va \<Longrightarrow> entry (mem s2) root va 2 =
          (if PGROUNDDOWN va = a then PA2PTE pa OR perm OR PTE_V else entry (mem s) root va 2)"
    by (auto simp: MAXVA_val word_less_nat_alt simp del: mappages_loop.simps)
  then show ?case
  proof cases
    case fail
    then show ?thesis by (intro exI [of _ "-1"] exI [of _ s1] exI [of _ "[]"] exI [of _ 0])
        (simp add: same_entries_def del: mappages_loop.simps)
  next
    case ok
    then show ?thesis
      using with_range_Suc [OF 0(2) up ok(4), of _ 0]
      by (intro exI [of _ 0] exI [of _ s2] exI [of _ ps2] exI [of _ "Suc 0"])
        (simp del: mappages_loop.simps)
  qed
next
  case (Suc n s ps a pa)
  have up: "unat (a + PGSIZE) = unat a + 4096" using Suc(4) by (simp add: unat_add64 PGSIZE_def)
  have al: "page_aligned (a + PGSIZE)" using Suc(3) by (simp add: unat_aligned up)
  have un: "unat (a + of_nat i * PGSIZE) = unat a + 4096 * i" if "i \<le> Suc n" for i
    using that Suc(4) by (intro unat_page_index) simp
  then have "a \<noteq> last'" using Suc(5) un [of "Suc n"] by auto
  with mappages_step [OF Suc(2) _ Suc(3), of "Suc n" last' pa perm e] Suc(4) Suc(6) [of 0]
  consider (fail) s1 where "mappages_loop (Suc (Suc n)) root a last' pa perm e s = Ok (-1) e s1"
      "grown root s ps s1 []" "same_entries root s s1" "length ps \<le> 2"
    | (ok) s2 ps2 where "mappages_loop (Suc (Suc n)) root a last' pa perm e s =
        mappages_loop (Suc n) root (a + PGSIZE) last' (pa + PGSIZE) perm e s2" "grown root s ps s2 ps2"
      "length ps \<le> length ps2 + 2"
      "\<And>va. sv39 va \<Longrightarrow> entry (mem s2) root va 2 =
          (if PGROUNDDOWN va = a then PA2PTE pa OR perm OR PTE_V else entry (mem s) root va 2)"
    by (auto simp: MAXVA_val word_less_nat_alt simp del: mappages_loop.simps)
  then show ?case
  proof cases
    case fail
    then show ?thesis by (intro exI [of _ "-1"] exI [of _ s1] exI [of _ "[]"] exI [of _ 0])
        (simp add: same_entries_def del: mappages_loop.simps)
  next
    case ok
    have "\<exists>r s' ps' k. mappages_loop (Suc n) root (a + PGSIZE) last' (pa + PGSIZE) perm e s2 = Ok r e s' \<and>
     grown root s2 ps2 s' ps' \<and> k \<le> Suc n \<and> length ps2 \<le> length ps' + 2 * Suc n \<and>
     (\<forall>va. sv39 va \<longrightarrow> entry (mem s') root va 2 =
        with_range (a + PGSIZE) k (pa + PGSIZE) perm (\<lambda>va. entry (mem s2) root va 2) va) \<and>
     (if r = 0 then k = Suc n else r = -1 \<and> k < Suc n \<and> ps' = [])"
    proof (rule Suc.IH [OF _ al])
      show "vm_inv s2 root ps2" using ok by (simp add: grown_def)
      show "unat (a + PGSIZE) + 4096 * n < 2 ^ 38" using Suc(4) up by simp
      show "last' = a + PGSIZE + of_nat n * PGSIZE" using Suc(5) by (simp add: algebra_simps)
      fix i assume i: "i \<le> n"
      have *: "a + PGSIZE + of_nat i * PGSIZE = a + of_nat (Suc i) * PGSIZE" by (simp add: algebra_simps)
      have u: "unat (a + of_nat (Suc i) * PGSIZE) = unat a + 4096 * Suc i" using i by (intro un) simp
      have al': "page_aligned (a + of_nat (Suc i) * PGSIZE)"
        using Suc(3) unfolding unat_aligned u mod_mult_self2 .
      have sv: "sv39 (a + of_nat (Suc i) * PGSIZE)" using u i Suc(4) by (simp add: sv39_def)
      have "PGROUNDDOWN (a + of_nat (Suc i) * PGSIZE) \<noteq> a"
        unfolding PGROUNDDOWN_id [OF al'] using u by auto
      then show "entry (mem s2) root (a + PGSIZE + of_nat i * PGSIZE) 2 AND PTE_V = 0"
        unfolding * using ok(4) [OF sv] Suc(6) [of "Suc i"] i by simp
    qed
    then obtain r s' ps' k where ih: "mappages_loop (Suc n) root (a + PGSIZE) last' (pa + PGSIZE) perm e s2 = Ok r e s'"
      "grown root s2 ps2 s' ps'" "k \<le> Suc n" "length ps2 \<le> length ps' + 2 * Suc n"
      "\<forall>va. sv39 va \<longrightarrow> entry (mem s') root va 2 =
        with_range (a + PGSIZE) k (pa + PGSIZE) perm (\<lambda>va. entry (mem s2) root va 2) va"
      "if r = 0 then k = Suc n else r = -1 \<and> k < Suc n \<and> ps' = []"
      by blast
    note g = grown_trans [OF ok(2) ih(2)]
    show ?thesis
      using ih g ok(1,3) with_range_Suc [OF Suc(3) up ok(4), of _ k]
      by (intro exI [of _ r] exI [of _ s'] exI [of _ ps'] exI [of _ "Suc k"])
        (simp del: mappages_loop.simps)
  qed
qed

text \<open>The number of pages that the byte range of \<open>mappages\<close> touches, after the first.\<close>

lemma mappages_extent:
  assumes "0 < unat sz" and "unat va + unat sz \<le> 2 ^ 38"
  defines "a \<equiv> PGROUNDDOWN va" and "n \<equiv> (unat va + unat sz - 1) div 4096 - unat va div 4096"
  shows "PGROUNDDOWN (va + sz - 1) = a + of_nat n * PGSIZE"
    and "unat (PGROUNDDOWN (va + sz - 1) - a) div 4096 = n"
    and "unat a + 4096 * n < 2 ^ 38" and "unat a + 4096 * n \<le> unat va + unat sz - 1"
    and "unat va + unat sz \<le> unat a + 4096 * Suc n"
proof -
  let ?e = "unat va + unat sz - 1"
  have pred: "unat (sz - 1) = unat sz - 1" using assms(1) by (intro unat_pred) auto
  have "unat (va + (sz - 1)) = ?e" unfolding unat_add64 pred using assms(1,2) by simp
  then have e: "unat (va + sz - 1) = ?e" by (simp only: add_diff_eq)
  have ua: "unat a = unat va div 4096 * 4096" by (simp add: a_def unat_PGROUNDDOWN)
  have le: "unat va div 4096 \<le> ?e div 4096" using assms(1) by (intro div_le_mono) simp
  have an: "unat a + 4096 * n = ?e div 4096 * 4096" using le by (simp add: ua n_def algebra_simps)
  have down: "?e div 4096 * 4096 \<le> ?e" "?e < ?e div 4096 * 4096 + 4096" by simp_all
  show lt: "unat a + 4096 * n < 2 ^ 38" and "unat a + 4096 * n \<le> ?e"
    using an down assms(1,2) by linarith+
  show "unat va + unat sz \<le> unat a + 4096 * Suc n" using an down assms(1) by simp
  have "unat (PGROUNDDOWN (va + sz - 1)) = unat (a + of_nat n * PGSIZE)"
    using lt an by (subst unat_page_index) (simp_all add: unat_PGROUNDDOWN e)
  then show l: "PGROUNDDOWN (va + sz - 1) = a + of_nat n * PGSIZE" by (simp only: word_unat_eq_iff)
  have "PGROUNDDOWN (va + sz - 1) - a = of_nat n * PGSIZE" by (simp add: l)
  then show "unat (PGROUNDDOWN (va + sz - 1) - a) div 4096 = n"
    using unat_page_index [of 0 n] lt by simp
qed

lemma mappages_ok:
  assumes inv: "vm_inv s root ps" and sz: "0 < unat sz" "unat va + unat sz \<le> 2 ^ 38"
    and free: "\<And>x. unat (PGROUNDDOWN va) \<le> unat x \<Longrightarrow> unat x < unat va + unat sz \<Longrightarrow>
       entry (mem s) root x 2 AND PTE_V = 0"
  defines "a \<equiv> PGROUNDDOWN va" and "n \<equiv> (unat va + unat sz - 1) div 4096 - unat va div 4096"
  shows "\<exists>r s' ps' k. mappages root va sz pa perm e s = Ok r e s' \<and>
     grown root s ps s' ps' \<and> k \<le> Suc n \<and> length ps \<le> length ps' + 2 * Suc n \<and>
     (\<forall>va. sv39 va \<longrightarrow> entry (mem s') root va 2 =
        with_range a k pa perm (\<lambda>va. entry (mem s) root va 2) va) \<and>
     (if r = 0 then k = Suc n else r = -1 \<and> k < Suc n \<and> ps' = [])"
proof -
  note x = mappages_extent [OF sz, folded a_def n_def]
  have "entry (mem s) root (a + of_nat i * PGSIZE) 2 AND PTE_V = 0" if "i \<le> n" for i
  proof (rule free)
    have "unat (a + of_nat i * PGSIZE) = unat a + 4096 * i" using that x(3) by (intro unat_page_index) simp
    then show "unat (PGROUNDDOWN va) \<le> unat (a + of_nat i * PGSIZE)"
      "unat (a + of_nat i * PGSIZE) < unat va + unat sz"
      using that x(4) sz(1) by (simp_all flip: a_def)
  qed
  from mappages_loop_ok [OF inv _ x(3) x(1) this, of pa perm e] show ?thesis
    using PGROUNDDOWN_aligned [of va] x(2)
    by (simp add: mappages_def a_def del: mappages_loop.simps)
qed

lemma PTE_V_or: "(x OR PTE_V) AND PTE_V \<noteq> 0"
proof -
  have "bit (x OR PTE_V) 0" by (simp add: PTE_V_def bit_or_iff)
  then show ?thesis unfolding PTE_V_def and_one_iff by blast
qed

subsection \<open>uvmcreate\<close>

lemma zero_table:
  assumes "zero_on q m" "page_aligned q"
  shows "entry m q va 0 = 0" "tbl m q va (Suc d) = None" "entry m q va (Suc d) = 0" "tables m q = {q}"
proof -
  have l: "load64 m (pte_addr k q va) = 0" for k va
    unfolding load64_def using assms in_page_pte by (intro load_le_zero) (auto simp: zero_on_def)
  show "entry m q va 0 = 0" by (simp add: entry_def l)
  have n: "tbl m q va (Suc d) = None" for va d by (induction d) (simp_all add: l)
  then show "tbl m q va (Suc d) = None" .
  show "entry m q va (Suc d) = 0" unfolding entry_def n by simp
  have "tbl m q va n = Some p \<Longrightarrow> p = q" for va n p using n by (cases n) simp_all
  then show "tables m q = {q}" using root_in_tables by (auto simp: tables_def)
qed

lemma uvmcreate_ok:
  assumes "idle s" and "lock_free KmemLock (lk s)" and inv: "kmem_inv s (q # qs)"
  shows "\<exists>s'. uvmcreate e s = Ok q e s' \<and> vm_inv s' q qs \<and> only_mem s s' \<and> tables (mem s') q = {q} \<and>
     changes_in {q} (mem s) (mem s') \<and> (\<forall>va. entry (mem s') q va 2 = 0)"
proof -
  let ?s1 = "s\<lparr>mem := memset q 5 4096 (mem s), freelist := load64 (mem s) q\<rparr>"
  let ?s = "?s1\<lparr>mem := memset q 0 4096 (mem ?s1)\<rparr>"
  note ka = kalloc_Cons [OF assms]
  have q: "valid_page (kend (img s)) q" "q \<noteq> 0" "q \<notin> set qs" "page_aligned q"
    using inv by (auto simp: kmem_inv_def valid_page_def)
  have m: "mem ?s a = (if in_page a q then 0 else mem s a)" for a
    by (simp add: memset_apply in_page_def)
  then have z: "zero_on q (mem ?s)" by (simp add: zero_on_def)
  note zt = zero_table [OF z q(4)]
  have run: "uvmcreate e s = Ok q e ?s" using ka(1) [of e] q(2) by (simp add: uvmcreate_def)
  have "kmem_inv ?s qs"
  proof (rule kmem_inv_frame [OF ka(2)])
    fix a x assume x: "x \<in> set qs" "in_page a x"
    then have "page_aligned x" "x \<noteq> q" using inv by (auto simp: kmem_inv_def valid_page_def)
    then have "\<not> in_page a q" using x q(4) in_page_unique by blast
    then show "mem ?s a = mem ?s1 a" by (simp add: memset_apply in_page_def)
  qed simp_all
  moreover have "pt_wf (kend (img s)) (mem ?s) q"
    unfolding pt_wf_def zt(4)
  proof (intro conjI allI impI ballI)
    fix va va' d d' p assume "tbl (mem ?s) q va d = Some p" "tbl (mem ?s) q va' d' = Some p" "sv39 va" "sv39 va'"
    then show "d = d'" "key d va = key d va'"
      using zt(2) key_0 by (cases d; cases d'; simp del: tbl.simps(2))+
  next
    fix va d show "entry (mem ?s) q va d AND (PTE_R OR PTE_W OR PTE_X) = 0"
      using zt(1,3) by (cases d) simp_all
  qed (use q in simp)
  ultimately have "vm_inv ?s q qs" using assms q(3) zt(4) by (simp add: vm_inv_def idle_def)
  moreover have "changes_in {q} (mem s) (mem ?s)" unfolding changes_in_def m by simp
  moreover have "only_mem s ?s"
    unfolding only_mem_def by (intro exI [of _ "mem ?s"] exI [of _ "freelist ?s"]) simp
  ultimately show ?thesis using run zt(3) [of _ 1] zt(4)
    by (intro exI [of _ ?s]) (simp add: numeral_2_eq_2)
qed

text \<open>
  C4. \<open>mappages\<close> on an unmapped range: it terminates without a panic; when it returns 0, every
  page that the byte range touches is mapped to its frame with the requested permissions and the
  translation of every other address is what it was; it fails with -1 only when the free list, of
  fewer than three pages per page to map, has been used up; the page table stays a tree whose pages are disjoint from the free list, and no
  byte outside the table pages is written.
\<close>

theorem mappages_maps:
  assumes "vm_inv s root ps" and "0 < unat sz" and "unat va + unat sz \<le> 2 ^ 38"
    and "\<And>x. unat (PGROUNDDOWN va) \<le> unat x \<Longrightarrow> unat x < unat va + unat sz \<Longrightarrow>
       lookup (mem s) root x = None"
  shows "\<exists>r s' ps'. mappages root va sz pa perm e s = Ok r e s' \<and> vm_inv s' root ps' \<and>
     changes_in (tables (mem s') root) (mem s) (mem s') \<and>
     (r = 0 \<and> (\<forall>x. sv39 x \<longrightarrow> lookup (mem s') root x =
        (if PGROUNDDOWN va \<le> PGROUNDDOWN x \<and> PGROUNDDOWN x \<le> PGROUNDDOWN (va + sz - 1)
         then Some (PA2PTE (pa + (PGROUNDDOWN x - PGROUNDDOWN va)) OR perm OR PTE_V)
         else lookup (mem s) root x)) \<or>
      r = -1 \<and> ps' = [] \<and> length ps \<le> 2 * Suc ((unat va + unat sz - 1) div 4096 - unat va div 4096))"
proof -
  let ?n = "(unat va + unat sz - 1) div 4096 - unat va div 4096"
  have "entry (mem s) root x 2 AND PTE_V = 0"
    if "unat (PGROUNDDOWN va) \<le> unat x" "unat x < unat va + unat sz" for x
    using assms(4) [OF that] by (simp add: lookup_def Let_def split: if_splits)
  from mappages_ok [OF assms(1-3) this, of pa perm e] obtain r s' ps' k where
    m: "mappages root va sz pa perm e s = Ok r e s'" "grown root s ps s' ps'"
      "length ps \<le> length ps' + 2 * Suc ?n"
      "\<And>x. sv39 x \<Longrightarrow> entry (mem s') root x 2 =
        with_range (PGROUNDDOWN va) k pa perm (\<lambda>va. entry (mem s) root va 2) x"
      "if r = 0 then k = Suc ?n else r = -1 \<and> k < Suc ?n \<and> ps' = []"
    by blast
  note x = mappages_extent [OF assms(2,3)]
  have range: "PGROUNDDOWN x \<le> PGROUNDDOWN (va + sz - 1) \<longleftrightarrow>
      unat (PGROUNDDOWN x) < unat (PGROUNDDOWN va) + 4096 * Suc ?n" for x
  proof -
    have "unat (PGROUNDDOWN (va + sz - 1)) = unat (PGROUNDDOWN va) + 4096 * ?n"
      unfolding x(1) using x(3) by (intro unat_page_index) simp
    moreover have "unat (PGROUNDDOWN (va + sz - 1)) < unat (PGROUNDDOWN x) \<Longrightarrow>
        unat (PGROUNDDOWN (va + sz - 1)) + 4096 \<le> unat (PGROUNDDOWN x)"
      by (intro aligned_gap PGROUNDDOWN_aligned)
    ultimately show ?thesis
      by (cases "unat (PGROUNDDOWN (va + sz - 1)) < unat (PGROUNDDOWN x)") (simp_all add: word_le_nat_alt)
  qed
  have "lookup (mem s') root x = (if PGROUNDDOWN va \<le> PGROUNDDOWN x \<and> PGROUNDDOWN x \<le> PGROUNDDOWN (va + sz - 1)
         then Some (PA2PTE (pa + (PGROUNDDOWN x - PGROUNDDOWN va)) OR perm OR PTE_V)
         else lookup (mem s) root x)" if "sv39 x" "r = 0" for x
    using m(4) [OF that(1)] m(5) that(2) range [of x] PTE_V_or
    by (simp add: lookup_def with_range_def word_le_nat_alt or.assoc [symmetric])
  then show ?thesis using m(1-3,5) by (auto simp: grown_def split: if_splits)
qed

text \<open>A machine that has just booted its allocator and made an empty page table.\<close>

lemma boot_pages_length: "length (boot_pages 0x80100000) = 32512"
  by (simp add: boot_pages_def PHYSTOP_val PGROUNDUP_def PGSIZE_def)

lemma booted_table:
  fixes z :: "'z"
  shows "\<exists>s0 s root ps. kinit [] \<lparr>mem = (\<lambda>_. 7), lk = sample_lk, img = sample_img, freelist = 0, \<dots> = z\<rparr> = Ok () [] s0 \<and>
     uvmcreate [] s0 = Ok root [] s \<and> vm_inv s root ps \<and> (\<forall>va. entry (mem s) root va 2 = 0) \<and>
     tables (mem s) root = {root} \<and> length ps = 32511 \<and> img s = sample_img"
proof -
  let ?s = "\<lparr>mem = (\<lambda>_. 7), lk = sample_lk, img = sample_img, freelist = 0, \<dots> = z\<rparr>"
  obtain q qs where bp: "boot_pages 0x80100000 = q # qs" "length qs = 32511"
    using boot_pages_length by (cases "boot_pages 0x80100000") auto
  obtain s0 where s0: "kinit [] ?s = Ok () [] s0" "kmem_inv s0 (q # qs)" "idle s0"
      "lock_free KmemLock (lk s0)" "img s0 = sample_img"
    using kinit_run [of ?s "[]"] bp by (auto simp: PHYSTOP_val)
  from uvmcreate_ok [OF s0(3,4,2), of "[]"] obtain s where
    s: "uvmcreate [] s0 = Ok q [] s" "vm_inv s q qs" "only_mem s0 s" "tables (mem s) q = {q}"
      "\<forall>va. entry (mem s) q va 2 = 0" by blast
  then have "img s = sample_img" using s0(5) by (auto simp: only_mem_def)
  with s s0(1) bp(2) show ?thesis by blast
qed

theorem mappages_maps_witness:
  "\<exists>s0 s root s'. kinit [] \<lparr>mem = (\<lambda>_. 7), lk = sample_lk, img = sample_img, freelist = 0\<rparr> = Ok () [] s0 \<and>
     uvmcreate [] s0 = Ok root [] s \<and> mappages root 0x1800 0x1000 0x81000000 6 [] s = Ok 0 [] s' \<and>
     lookup (mem s') root 0x2000 = Some (PA2PTE 0x81001000 OR 6 OR PTE_V) \<and>
     lookup (mem s') root 0x3000 = None"
proof -
  from booted_table [of "()"] obtain s0 s root ps where
    b: "kinit [] \<lparr>mem = (\<lambda>_. 7), lk = sample_lk, img = sample_img, freelist = 0\<rparr> = Ok () [] s0"
      "uvmcreate [] s0 = Ok root [] s" "vm_inv s root ps" "\<And>va. entry (mem s) root va 2 = 0"
      "length ps = 32511" by auto
  have sv: "sv39 0x2000" "sv39 0x3000" by (simp_all add: sv39_def)
  have pg: "PGROUNDDOWN 0x1800 = 0x1000" "PGROUNDDOWN 0x2000 = 0x2000" "PGROUNDDOWN 0x3000 = 0x3000"
    "PGROUNDDOWN 0x27FF = 0x2000" by (simp_all add: PGROUNDDOWN_def PGSIZE_def)
  from mappages_maps [OF b(3), where sz = "0x1000" and va = "0x1800" and pa = "0x81000000" and perm = 6 and e = "[]"] b(4,5)
  obtain s' where "mappages root 0x1800 0x1000 0x81000000 6 [] s = Ok 0 [] s'"
    "\<And>x. sv39 x \<Longrightarrow> lookup (mem s') root x =
        (if PGROUNDDOWN 0x1800 \<le> PGROUNDDOWN x \<and> PGROUNDDOWN x \<le> PGROUNDDOWN 0x27FF
         then Some (PA2PTE (0x81000000 + (PGROUNDDOWN x - PGROUNDDOWN 0x1800)) OR 6 OR PTE_V)
         else lookup (mem s) root x)"
    by (auto simp: lookup_def)
  with b sv pg show ?thesis
    by (intro exI [of _ s0] exI [of _ s] exI [of _ root] exI [of _ s']) (simp add: lookup_def)
qed

end
