(* ===== verification/Uvm.thy ===== *)
theory Uvm
  imports Vm_Table
begin

text \<open>
  User address spaces. \<open>aspace s root ps M\<close> says that the user pages of the table \<open>root\<close> are those
  with a number in \<open>M\<close>, each backed by a page frame of its own, and that these frames, the table
  pages and the free list \<open>ps\<close> are disjoint. Their union, the footprint, is constant: pages move
  between the three but none is lost or shared.
\<close>

definition upage :: "nat \<Rightarrow> u64" where
  "upage i = of_nat i * PGSIZE"

definition pent :: "mem \<Rightarrow> u64 \<Rightarrow> nat \<Rightarrow> u64" where
  "pent m root i = entry m root (upage i) 2"

definition frame :: "mem \<Rightarrow> u64 \<Rightarrow> nat \<Rightarrow> u64" where
  "frame m root i = PTE2PA (pent m root i)"

definition user_page :: "nat \<Rightarrow> bool" where
  "user_page i \<longleftrightarrow> i * 4096 < unat TRAPFRAME"

definition footprint :: "'z kmem_state_scheme \<Rightarrow> u64 \<Rightarrow> u64 list \<Rightarrow> nat set \<Rightarrow> u64 set" where
  "footprint s root ps M = pages_of s root ps \<union> frame (mem s) root ` M"

definition aspace :: "'z kmem_state_scheme \<Rightarrow> u64 \<Rightarrow> u64 list \<Rightarrow> nat set \<Rightarrow> bool" where
  "aspace s root ps M \<longleftrightarrow> vm_inv s root ps \<and> inj_on (frame (mem s) root) M \<and>
     (\<forall>i \<in> M. user_page i \<and> pent (mem s) root i AND PTE_V \<noteq> 0 \<and>
        PTE_FLAGS (pent (mem s) root i) \<noteq> PTE_V \<and> valid_page (kend (img s)) (frame (mem s) root i) \<and>
        frame (mem s) root i \<notin> pages_of s root ps) \<and>
     (\<forall>i. i \<notin> M \<longrightarrow> user_page i \<longrightarrow> pent (mem s) root i AND PTE_V = 0)"

text \<open>
  The pages \<open>M\<close> keep their entries and their contents, and the trap frame and trampoline pages at
  the top of the address space their entries.
\<close>

definition same_top :: "u64 \<Rightarrow> mem \<Rightarrow> mem \<Rightarrow> bool" where
  "same_top root m m' \<longleftrightarrow>
     (\<forall>va. TRAPFRAME \<le> va \<longrightarrow> va < MAXVA \<longrightarrow> entry m' root va 2 = entry m root va 2)"

definition kept :: "u64 \<Rightarrow> nat set \<Rightarrow> 'z kmem_state_scheme \<Rightarrow> 'z kmem_state_scheme \<Rightarrow> bool" where
  "kept root M s s' \<longleftrightarrow> same_top root (mem s) (mem s') \<and> (\<forall>i \<in> M. pent (mem s') root i = pent (mem s) root i \<and>
     (\<forall>a. in_page a (frame (mem s) root i) \<longrightarrow> mem s' a = mem s a))"

lemma kept_refl [simp]: "kept root M s s"
  by (simp add: kept_def same_top_def)

lemma kept_trans: "kept root M s t \<Longrightarrow> kept root M t u \<Longrightarrow> kept root M s u"
  by (auto simp: kept_def frame_def same_top_def)

lemma kept_mono: "kept root M s t \<Longrightarrow> N \<subseteq> M \<Longrightarrow> kept root N s t"
  by (auto simp: kept_def)

lemma user_page_bounds:
  assumes "user_page i"
  shows "unat (upage i) = 4096 * i" "upage i < MAXVA" "sv39 (upage i)" "page_aligned (upage i)"
    "i < 2 ^ 26"
proof -
  have b: "4096 * i < 2 ^ 38" using assms by (simp add: user_page_def TRAPFRAME_val)
  show u: "unat (upage i) = 4096 * i"
    using unat_page_index [of 0 i] b by (simp add: upage_def)
  show "upage i < MAXVA" using u b by (simp add: MAXVA_val word_less_nat_alt)
  then show "sv39 (upage i)" by (rule sv39_MAXVA)
  show "page_aligned (upage i)" unfolding unat_aligned u by simp
  show "i < 2 ^ 26" using b by simp
qed

lemma top_page:
  assumes "TRAPFRAME \<le> va" and "user_page i"
  shows "PGROUNDDOWN va \<noteq> upage i" and "unat (upage i) + 4096 \<le> unat (PGROUNDDOWN va)"
proof -
  have "unat TRAPFRAME \<le> unat va" using assms(1) by (simp add: word_le_nat_alt)
  moreover have "unat TRAPFRAME = 67108862 * 4096" by (simp add: TRAPFRAME_val)
  ultimately have "67108862 \<le> unat va div 4096" by (simp add: less_eq_div_iff_mult_less_eq)
  then have "unat TRAPFRAME \<le> unat (PGROUNDDOWN va)"
    unfolding unat_PGROUNDDOWN \<open>unat TRAPFRAME = _\<close> by (rule mult_le_mono1)
  then show "unat (upage i) + 4096 \<le> unat (PGROUNDDOWN va)"
    using assms(2) user_page_bounds(1) [OF assms(2)] unfolding user_page_def
    by (intro aligned_gap user_page_bounds(4) [OF assms(2)] PGROUNDDOWN_aligned) linarith
  then show "PGROUNDDOWN va \<noteq> upage i" by auto
qed

lemma upage_Suc: "upage i + PGSIZE = upage (Suc i)"
  by (simp add: upage_def algebra_simps)

lemma upage_inj: "user_page i \<Longrightarrow> user_page j \<Longrightarrow> upage i = upage j \<Longrightarrow> i = j"
proof -
  assume "user_page i" "user_page j" "upage i = upage j"
  then have "4096 * i = 4096 * j" using user_page_bounds(1) by metis
  then show "i = j" by simp
qed

lemma aspaceD:
  assumes "aspace s root ps M"
  shows "vm_inv s root ps" "inj_on (frame (mem s) root) M"
    "i \<in> M \<Longrightarrow> user_page i" "i \<in> M \<Longrightarrow> pent (mem s) root i AND PTE_V \<noteq> 0"
    "i \<in> M \<Longrightarrow> PTE_FLAGS (pent (mem s) root i) \<noteq> PTE_V"
    "i \<in> M \<Longrightarrow> valid_page (kend (img s)) (frame (mem s) root i)"
    "i \<in> M \<Longrightarrow> frame (mem s) root i \<notin> pages_of s root ps"
    "i \<notin> M \<Longrightarrow> user_page i \<Longrightarrow> pent (mem s) root i AND PTE_V = 0"
  using assms unfolding aspace_def by blast+

lemma mapped_tbl:
  assumes "pent m root i AND PTE_V \<noteq> 0"
  obtains p where "tbl m root (upage i) 2 = Some p" "pent m root i = load64 m (pte_addr 0 p (upage i))"
  using assms by (cases "tbl m root (upage i) 2") (simp_all add: pent_def entry_def)

subsection \<open>uvmunmap\<close>

lemma free_outside:
  assumes inv: "vm_inv s root ps" and f: "valid_page (kend (img s)) f" "f \<notin> pages_of s root ps"
  defines "s' \<equiv> s\<lparr>mem := store64 f (freelist s) (memset f 1 4096 (mem s)), freelist := f\<rparr>"
  shows "kfree f e s = Ok () e s'" and "vm_inv s' root (f # ps)" and "only_mem s s'"
    and "tables (mem s') root = tables (mem s) root" and "changes_in {f} (mem s) (mem s')"
    and "sv39 va \<Longrightarrow> entry (mem s') root va 2 = entry (mem s) root va 2"
    and "sv39 va \<Longrightarrow> tbl (mem s') root va 2 = tbl (mem s) root va 2"
proof -
  note i = vm_inv_facts [OF inv]
  show "kfree f e s = Ok () e s'" using i f by (simp add: kfree_run s'_def)
  have al: "page_aligned f" using f by (simp add: valid_page_def)
  have out: "mem s' a = mem s a" if "\<not> in_page a f" for a
    using that by (simp add: s'_def store64_frame memset_apply in_page_def in_range_def)
  then show "changes_in {f} (mem s) (mem s')" by (auto simp: changes_in_def)
  have fr: "same_on (tables (mem s) root) (mem s') (mem s)"
    unfolding same_on_def
  proof (intro ballI allI impI)
    fix p a assume p: "p \<in> tables (mem s) root" "in_page a p"
    then have "page_aligned p" "p \<noteq> f" using pt_wf_aligned [OF i(4)] f(2) by (auto simp: pages_of_def)
    then show "mem s' a = mem s a" using p al in_page_unique by (intro out) blast
  qed
  note w = pt_wf_frame [OF i(4) fr]
  show t: "tables (mem s') root = tables (mem s) root" by (rule w(2))
  show "sv39 va \<Longrightarrow> entry (mem s') root va 2 = entry (mem s) root va 2"
    "sv39 va \<Longrightarrow> tbl (mem s') root va 2 = tbl (mem s) root va 2"
    using tbl_frame [OF i(4) _ order_refl fr] by auto
  have "kmem_inv s' (f # ps)" unfolding s'_def
    using i f by (intro kfree_inv) (auto simp: pages_of_def)
  then show "vm_inv s' root (f # ps)"
    using i w(1) t f(2) by (simp add: vm_inv_def idle_def pages_of_def) (simp add: s'_def)
  show "only_mem s s'" by (simp add: s'_def)
qed

lemma frame_aligned: "page_aligned (frame m root i)"
  by (simp add: frame_def PTE2PA_def page_aligned_bit bit_push_bit_iff)

lemma footprint_changes:
  assumes "changes_in S (mem s) (mem s')" and "aspace s root ps M" and "i \<in> M"
    and "frame (mem s) root i \<notin> S" and "\<And>p. p \<in> S \<Longrightarrow> page_aligned p"
  shows "in_page a (frame (mem s) root i) \<Longrightarrow> mem s' a = mem s a"
  using assms frame_aligned in_page_unique unfolding changes_in_def by metis

lemma unmap_one:
  assumes sp: "aspace s root ps M" and i: "i \<in> M"
  defines "f \<equiv> frame (mem s) root i"
  obtains pte s1 where "walk root (upage i) False e s = Ok pte e s" "pte \<noteq> 0"
    "load64 (mem s) pte = pent (mem s) root i" "kfree f e s = Ok () e s1"
    "aspace (s1\<lparr>mem := store64 pte 0 (mem s1)\<rparr>) root (f # ps) (M - {i})"
    "only_mem s (s1\<lparr>mem := store64 pte 0 (mem s1)\<rparr>)"
    "kept root (M - {i}) s (s1\<lparr>mem := store64 pte 0 (mem s1)\<rparr>)"
    "footprint (s1\<lparr>mem := store64 pte 0 (mem s1)\<rparr>) root (f # ps) (M - {i}) = footprint s root ps M"
    "changes_in (footprint s root ps M) (mem s) (store64 pte 0 (mem s1))"
proof -
  note d = aspaceD [OF sp]
  note ub = user_page_bounds [OF d(3) [OF i]]
  obtain p where p: "tbl (mem s) root (upage i) 2 = Some p"
    "pent (mem s) root i = load64 (mem s) (pte_addr 0 p (upage i))"
    using mapped_tbl [OF d(4) [OF i]] .
  let ?pte = "pte_addr 0 p (upage i)"
  have pt: "p \<in> tables (mem s) root" using p(1) ub(3) by (auto intro: tablesI)
  have v: "valid_page (kend (img s)) f" "f \<notin> pages_of s root ps" using d(6,7) i by (simp_all add: f_def)
  let ?s1 = "s\<lparr>mem := store64 f (freelist s) (memset f 1 4096 (mem s)), freelist := f\<rparr>"
  let ?s2 = "?s1\<lparr>mem := store64 ?pte 0 (mem ?s1)\<rparr>"
  note fo = free_outside [OF d(1) v]
  have p1: "tbl (mem ?s1) root (upage i) 2 = Some p" using fo(7) [OF ub(3)] p(1) by simp
  note sl = set_leaf [OF fo(2) p1 ub(3) refl [of ?s2]]
  have tab: "tables (mem ?s2) root = tables (mem s) root" using sl(2) fo(4) by simp
  have ent: "pent (mem ?s2) root j = (if j = i then 0 else pent (mem s) root j)" if "user_page j" for j
    using sl(4) [of "upage j"] fo(6) [of "upage j"] user_page_bounds [OF that] ub upage_inj [OF that d(3) [OF i]]
    by (auto simp: pent_def PGROUNDDOWN_id)
  then have fr: "frame (mem ?s2) root j = frame (mem s) root j" if "j \<in> M - {i}" for j
    using that d(3) by (simp add: frame_def)
  have ch: "changes_in (insert f (tables (mem s) root)) (mem s) (mem ?s2)"
  proof (rule changes_in_trans)
    show "changes_in (insert f (tables (mem s) root)) (mem s) (mem ?s1)"
      using fo(5) by (rule changes_in_mono) simp
    have "changes_in (tables (mem s) root) (mem ?s1) (mem ?s2)"
      using sl(1) tab by (simp add: grown_def)
    then show "changes_in (insert f (tables (mem s) root)) (mem ?s1) (mem ?s2)"
      by (rule changes_in_mono) blast
  qed
  have inj: "frame (mem s) root j \<noteq> f" if "j \<in> M - {i}" for j
    using that d(2) i by (auto simp: f_def inj_on_def)
  have kp: "kept root (M - {i}) s ?s2"
    unfolding kept_def
  proof (intro ballI conjI allI impI)
    show "same_top root (mem s) (mem ?s2)"
      unfolding same_top_def
    proof (intro allI impI)
      fix va assume va: "TRAPFRAME \<le> va" "va < MAXVA"
      show "entry (mem ?s2) root va 2 = entry (mem s) root va 2"
        using sl(4) [OF sv39_MAXVA [OF va(2)]] fo(6) [OF sv39_MAXVA [OF va(2)]] top_page(1) [OF va(1) d(3) [OF i]] ub(4)
        by (simp add: PGROUNDDOWN_id)
    qed
  next
    fix j a assume j: "j \<in> M - {i}"
    then show "pent (mem ?s2) root j = pent (mem s) root j" using ent d(3) by simp
    assume "in_page a (frame (mem s) root j)"
    then show "mem ?s2 a = mem s a"
    proof (rule footprint_changes [OF ch sp, rotated 3])
      show "frame (mem s) root j \<notin> insert f (tables (mem s) root)"
        using j inj d(7) [of j] by (auto simp: pages_of_def)
      show "page_aligned x" if "x \<in> insert f (tables (mem s) root)" for x
        using that pt_wf_aligned [OF vm_inv_facts(4) [OF d(1)]] frame_aligned by (auto simp: f_def)
    qed (use j in simp)
  qed
  have fp: "frame (mem ?s2) root ` (M - {i}) = frame (mem s) root ` (M - {i})"
    using fr by (intro image_cong) auto
  show thesis
  proof (rule that [of ?pte ?s1])
    show "walk root (upage i) False e s = Ok ?pte e s" using walk_look [OF ub(2), of root e s] p(1) by simp
    show "?pte \<noteq> 0"
      using pte_addr_nonnull vm_inv_facts(4,6) [OF d(1)] pt by blast
    show "aspace ?s2 root (f # ps) (M - {i})"
      unfolding aspace_def
    proof (intro conjI ballI allI impI)
      show "vm_inv ?s2 root (f # ps)" using sl(1) by (simp add: grown_def)
      show "inj_on (frame (mem ?s2) root) (M - {i})"
        using d(2) fr by (auto simp: inj_on_def)
    next
      fix j assume j: "j \<in> M - {i}"
      then show "user_page j" "pent (mem ?s2) root j AND PTE_V \<noteq> 0"
        "PTE_FLAGS (pent (mem ?s2) root j) \<noteq> PTE_V" "valid_page (kend (img ?s2)) (frame (mem ?s2) root j)"
        using d(3-6) [of j] ent [of j] fr [of j] by auto
      show "frame (mem ?s2) root j \<notin> pages_of ?s2 root (f # ps)"
        using j d(7) [of j] fr [of j] inj [of j] tab by (auto simp: pages_of_def)
    next
      fix j assume "j \<notin> M - {i}" "user_page j"
      then show "pent (mem ?s2) root j AND PTE_V = 0" using ent [of j] d(8) [of j] by auto
    qed
    show "footprint ?s2 root (f # ps) (M - {i}) = footprint s root ps M"
      using tab fp i unfolding footprint_def pages_of_def f_def by auto
    have "insert f (tables (mem s) root) \<subseteq> footprint s root ps M"
      using i by (auto simp: footprint_def pages_of_def f_def)
    from changes_in_mono [OF ch this]
    show "changes_in (footprint s root ps M) (mem s) (store64 ?pte 0 (mem ?s1))" by simp
    show "only_mem s ?s2" using fo(3) sl(1) only_mem_trans unfolding grown_def by blast
  qed (use fo(1) p kp in simp_all)
qed

lemma unat_upage: "i \<le> 2 ^ 26 \<Longrightarrow> unat (upage i) = 4096 * i"
  using unat_page_index [of 0 i] by (simp add: upage_def)

text \<open>
  The state after an operation on the address space: the invariant with a new free list and a new
  set of pages, the same footprint, and no byte changed outside it or in the pages of \<open>keep\<close>.
\<close>

definition moved :: "u64 \<Rightarrow> nat set \<Rightarrow> 'z kmem_state_scheme \<Rightarrow> u64 list \<Rightarrow> nat set \<Rightarrow>
    'z kmem_state_scheme \<Rightarrow> u64 list \<Rightarrow> nat set \<Rightarrow> bool" where
  "moved root keep s ps M s' ps' M' \<longleftrightarrow> aspace s' root ps' M' \<and> only_mem s s' \<and> kept root keep s s' \<and>
     footprint s' root ps' M' = footprint s root ps M \<and>
     changes_in (footprint s root ps M) (mem s) (mem s')"

lemma moved_refl: "aspace s root ps M \<Longrightarrow> moved root keep s ps M s ps M"
  by (simp add: moved_def)

lemma moved_trans:
  assumes "moved root A s ps M t qs N" and "moved root B t qs N u rs P" and "C \<subseteq> A" "C \<subseteq> B"
  shows "moved root C s ps M u rs P"
proof -
  have "kept root C s u"
    using assms kept_mono kept_trans unfolding moved_def by metis
  moreover have "changes_in (footprint s root ps M) (mem s) (mem u)"
    using assms changes_in_trans unfolding moved_def by metis
  ultimately show ?thesis using assms only_mem_trans unfolding moved_def by metis
qed

lemma uvmunmap_loop_ok:
  assumes "aspace s root ps M" and "{i..<i + k} \<subseteq> M" and "i + k \<le> 2 ^ 26"
  shows "\<exists>s'. uvmunmap_loop (Suc k) root (upage i) (upage (i + k)) True e s = Ok () e s' \<and>
     moved root (M - {i..<i + k}) s ps M s' (rev (map (frame (mem s) root) [i..<i + k]) @ ps)
       (M - {i..<i + k})"
  using assms
proof (induction k arbitrary: s ps M i)
  case 0
  then show ?case by (simp add: moved_refl)
next
  case (Suc k)
  then have iM: "i \<in> M" by auto
  obtain pte s1 where u: "walk root (upage i) False e s = Ok pte e s" "pte \<noteq> 0"
    "load64 (mem s) pte = pent (mem s) root i" "kfree (frame (mem s) root i) e s = Ok () e s1"
    "aspace (s1\<lparr>mem := store64 pte 0 (mem s1)\<rparr>) root (frame (mem s) root i # ps) (M - {i})"
    "only_mem s (s1\<lparr>mem := store64 pte 0 (mem s1)\<rparr>)"
    "kept root (M - {i}) s (s1\<lparr>mem := store64 pte 0 (mem s1)\<rparr>)"
    "footprint (s1\<lparr>mem := store64 pte 0 (mem s1)\<rparr>) root (frame (mem s) root i # ps) (M - {i}) = footprint s root ps M"
    "changes_in (footprint s root ps M) (mem s) (store64 pte 0 (mem s1))"
    using unmap_one [OF Suc.prems(1) iM] .
  let ?s2 = "s1\<lparr>mem := store64 pte 0 (mem s1)\<rparr>"
  have mv: "moved root (M - {i}) s ps M ?s2 (frame (mem s) root i # ps) (M - {i})"
    using u by (simp add: moved_def)
  have sub: "{Suc i..<Suc i + k} \<subseteq> M - {i}" using Suc.prems(2) by auto
  from Suc.IH [OF u(5) sub] Suc.prems(3) obtain s' where
    ih: "uvmunmap_loop (Suc k) root (upage (Suc i)) (upage (Suc i + k)) True e ?s2 = Ok () e s'"
    "moved root (M - {i} - {Suc i..<Suc i + k}) ?s2 (frame (mem s) root i # ps) (M - {i}) s'
       (rev (map (frame (mem ?s2) root) [Suc i..<Suc i + k]) @ frame (mem s) root i # ps)
       (M - {i} - {Suc i..<Suc i + k})"
    by auto
  have M: "M - {i} - {Suc i..<Suc i + k} = M - {i..<i + Suc k}" by auto
  have fr: "frame (mem ?s2) root j = frame (mem s) root j" if "j \<in> set [Suc i..<Suc i + k]" for j
  proof -
    have "j \<in> M - {i}" using that sub by (metis atLeastLessThan_upt subsetD)
    with u(7) show ?thesis by (simp add: kept_def frame_def)
  qed
  have l: "rev (map (frame (mem ?s2) root) [Suc i..<Suc i + k]) @ frame (mem s) root i # ps =
      rev (map (frame (mem s) root) [i..<i + Suc k]) @ ps"
  proof -
    have "map (frame (mem ?s2) root) [Suc i..<Suc i + k] = map (frame (mem s) root) [Suc i..<Suc i + k]"
      using fr by (intro map_cong refl)
    then show ?thesis by (simp add: upt_conv_Cons del: upt_Suc map_eq_conv)
  qed
  have lt: "upage i < upage (i + Suc k)"
    using Suc.prems(3) unat_upage [of i] unat_upage [of "i + Suc k"] by (simp add: word_less_nat_alt)
  have step: "uvmunmap_loop (Suc (Suc k)) root (upage i) (upage (i + Suc k)) True e s =
      uvmunmap_loop (Suc k) root (upage (Suc i)) (upage (Suc i + k)) True e ?s2"
    using u(1-4) lt aspaceD(4,5) [OF Suc.prems(1) iM]
    by (subst uvmunmap_loop.simps) (simp add: upage_Suc frame_def del: uvmunmap_loop.simps)
  have "moved root (M - {i..<i + Suc k}) s ps M s' (rev (map (frame (mem s) root) [i..<i + Suc k]) @ ps)
      (M - {i..<i + Suc k})"
    by (rule moved_trans [OF mv ih(2) [unfolded M l]]) auto
  then show ?case using step ih(1) by metis
qed

lemma uvmunmap_ok:
  assumes "aspace s root ps M" and "{i..<i + k} \<subseteq> M" and "i + k \<le> 2 ^ 26"
  shows "\<exists>s'. uvmunmap root (upage i) (of_nat k) True e s = Ok () e s' \<and>
     moved root (M - {i..<i + k}) s ps M s' (rev (map (frame (mem s) root) [i..<i + k]) @ ps)
       (M - {i..<i + k})"
proof -
  have "unat (upage i) = 4096 * i" using assms(3) by (intro unat_upage) simp
  then have "page_aligned (upage i)" by (simp add: unat_aligned)
  moreover have "unat (of_nat k :: u64) = k" using assms(3) by (intro unat_of_nat64) simp
  moreover have "upage i + of_nat k * PGSIZE = upage (i + k)" by (simp add: upage_def algebra_simps)
  ultimately show ?thesis
    using uvmunmap_loop_ok [OF assms, of e]
    by (simp add: uvmunmap_def page_aligned_def del: uvmunmap_loop.simps)
qed

subsection \<open>uvmdealloc\<close>

definition npages :: "u64 \<Rightarrow> nat" where
  "npages sz = (unat sz + 4095) div 4096"

lemma PGROUNDUP_upage:
  assumes "unat sz \<le> 2 ^ 38"
  shows "PGROUNDUP sz = upage (npages sz)" and "npages sz \<le> 2 ^ 26"
proof -
  show le: "npages sz \<le> 2 ^ 26" using assms by (simp add: npages_def)
  have "PGROUNDUP sz = PGROUNDDOWN (sz + 4095)"
    by (simp add: PGROUNDUP_def PGROUNDDOWN_def PGSIZE_def add.commute)
  moreover have "unat (sz + 4095) = unat sz + 4095" using assms by (simp add: unat_add64)
  ultimately have "unat (PGROUNDUP sz) = unat (upage (npages sz))"
    using unat_upage [OF le] by (simp add: unat_PGROUNDDOWN npages_def)
  then show "PGROUNDUP sz = upage (npages sz)" by (simp only: word_unat_eq_iff)
qed

text \<open>Widths: a small count survives the conversion to \<open>int\<close> and back.\<close>

lemma int_roundtrip:
  assumes "k < 2 ^ 31"
  shows "(scast (ucast (of_nat k :: u64) :: u32) :: u64) = of_nat k"
proof -
  have "(ucast (of_nat k :: u64) :: u32) = of_nat k"
    using assms by (simp add: word_unat_eq_iff unat_of_nat unsigned_ucast_eq take_bit_eq_mod)
  moreover have "sint (of_nat k :: u32) = int k"
    using assms by (simp add: signed_of_nat signed_take_bit_int_eq_self)
  ultimately show ?thesis by (simp add: scast_eq)
qed

lemma page_count:
  assumes "i \<le> j" "j \<le> 2 ^ 26"
  shows "(scast (ucast ((upage j - upage i) div PGSIZE) :: u32) :: u64) = of_nat (j - i)"
proof -
  have "unat (upage j - upage i) = 4096 * (j - i)"
    using assms unat_upage [of i] unat_upage [of j] by (simp add: unat_sub64 diff_mult_distrib2)
  then have "unat ((upage j - upage i) div PGSIZE) = j - i"
    by (simp add: unat_div_distrib PGSIZE_def)
  then have "(upage j - upage i) div PGSIZE = of_nat (j - i)"
    using assms by (simp add: word_unat_eq_iff unat_of_nat del: of_nat_diff)
  then show ?thesis using assms int_roundtrip [of "j - i"] by (simp del: of_nat_diff)
qed

lemma npages_mono: "unat a \<le> unat b \<Longrightarrow> npages a \<le> npages b"
  by (simp add: npages_def div_le_mono)

lemma uvmdealloc_ok:
  assumes sp: "aspace s root ps {..<npages oldsz}" and old: "unat oldsz \<le> 2 ^ 38"
  shows "\<exists>s' ps'. uvmdealloc root oldsz newsz e s = Ok (min oldsz newsz) e s' \<and>
     moved root {..<npages (min oldsz newsz)} s ps {..<npages oldsz} s' ps' {..<npages (min oldsz newsz)}"
proof (cases "newsz < oldsz")
  case False
  then have "min oldsz newsz = oldsz" "oldsz \<le> newsz" by simp_all
  then show ?thesis using moved_refl [OF sp] by (auto simp: uvmdealloc_def)
next
  case True
  let ?i = "npages newsz" let ?j = "npages oldsz"
  have mn: "min oldsz newsz = newsz" "\<not> oldsz \<le> newsz" using True by simp_all
  have lt: "unat newsz < unat oldsz" using True by (simp add: word_less_nat_alt)
  note po = PGROUNDUP_upage [OF old]
  have pn: "PGROUNDUP newsz = upage ?i" "?i \<le> 2 ^ 26" using PGROUNDUP_upage [of newsz] lt old by simp_all
  have le: "?i \<le> ?j" using lt by (intro npages_mono) simp
  show ?thesis
  proof (cases "?i = ?j")
    case eq: True
    then show ?thesis using moved_refl [OF sp] mn by (auto simp: uvmdealloc_def pn po)
  next
    case False
    then have u: "upage ?i < upage ?j"
      using le unat_upage po pn by (simp add: word_less_nat_alt)
    have "{?i..<?i + (?j - ?i)} \<subseteq> {..<?j}" "?i + (?j - ?i) \<le> 2 ^ 26" using le po by auto
    from uvmunmap_ok [OF sp this, of e] obtain s' where
      "uvmunmap root (upage ?i) (of_nat (?j - ?i)) True e s = Ok () e s'"
      "moved root ({..<?j} - {?i..<?i + (?j - ?i)}) s ps {..<?j} s'
        (rev (map (frame (mem s) root) [?i..<?i + (?j - ?i)]) @ ps) ({..<?j} - {?i..<?i + (?j - ?i)})"
      by blast
    moreover have "{..<?j} - {?i..<?i + (?j - ?i)} = {..<?i}" using le by auto
    ultimately show ?thesis
      using mn u page_count [OF le po(2)] by (auto simp: uvmdealloc_def pn po Let_def)
  qed
qed

subsection \<open>uvmalloc\<close>

text \<open>A page taken from the free list and written by its new owner.\<close>

lemma take_page:
  assumes sp: "aspace s root (q # qs) M" and ch: "changes_in {q} (mem s) m"
  defines "s' \<equiv> s\<lparr>mem := m, freelist := load64 (mem s) q\<rparr>"
  shows "aspace s' root qs M" and "kept root M s s'"
    and "valid_page (kend (img s)) q" and "q \<noteq> 0" and "q \<notin> footprint s' root qs M"
    and "footprint s root (q # qs) M = insert q (footprint s' root qs M)"
proof -
  note d = aspaceD [OF sp]
  note i = vm_inv_facts [OF d(1)]
  show q: "valid_page (kend (img s)) q" "q \<noteq> 0" using i(3) by (auto simp: kmem_inv_def)
  have qn: "q \<notin> set qs" "q \<notin> tables (mem s) root" using i(3,5) by (auto simp: kmem_inv_def)
  have al: "page_aligned q" using q by (simp add: valid_page_def)
  have out: "m a = mem s a" if "page_aligned p" "p \<noteq> q" "in_page a p" for a p
    using ch that al in_page_unique unfolding changes_in_def by blast
  have fr: "same_on (tables (mem s) root) (mem s') (mem s)"
    using out pt_wf_aligned [OF i(4)] qn unfolding same_on_def s'_def by fastforce
  note w = pt_wf_frame [OF i(4) fr]
  have ent: "pent (mem s') root j = pent (mem s) root j" if "user_page j" for j
    using tbl_frame [OF i(4) user_page_bounds(3) [OF that] order_refl fr] by (simp add: pent_def)
  have f: "frame (mem s') root j = frame (mem s) root j" if "j \<in> M" for j
    using ent d(3) [OF that] by (simp add: frame_def)
  have "kmem_inv s' qs"
  proof -
    have v: "\<forall>p \<in> set qs. valid_page (kend (img s)) p" using i(3) by (simp add: kmem_inv_def)
    have "kmem_inv (s\<lparr>freelist := load64 (mem s) q\<rparr>) qs" using i(3) by (simp add: kmem_inv_def)
    then show ?thesis
      by (rule kmem_inv_frame) (use out v qn in \<open>auto simp: s'_def valid_page_def\<close>)
  qed
  then have inv: "vm_inv s' root qs"
    using i w(1,2) by (simp add: vm_inv_def idle_def) (simp add: s'_def)
  have ne: "frame (mem s) root j \<noteq> q" if "j \<in> M" for j
    using d(7) [OF that] by (auto simp: pages_of_def)
  show kp: "kept root M s s'"
    unfolding kept_def
  proof (intro ballI conjI allI impI)
    show "same_top root (mem s) (mem s')"
      unfolding same_top_def using tbl_frame [OF i(4) sv39_MAXVA order_refl fr] by blast
  next
    fix j a assume j: "j \<in> M"
    then show "pent (mem s') root j = pent (mem s) root j" using ent d(3) by blast
    assume "in_page a (frame (mem s) root j)"
    then show "mem s' a = mem s a" using out [OF frame_aligned ne [OF j]] by (simp add: s'_def)
  qed
  show "aspace s' root qs M"
    unfolding aspace_def
  proof (intro conjI ballI allI impI inv)
    show "inj_on (frame (mem s') root) M" using d(2) f by (simp add: inj_on_def)
  next
    fix j assume j: "j \<in> M"
    then show "user_page j" "pent (mem s') root j AND PTE_V \<noteq> 0" "PTE_FLAGS (pent (mem s') root j) \<noteq> PTE_V"
      "valid_page (kend (img s')) (frame (mem s') root j)"
      using d(3-6) [OF j] ent [OF d(3) [OF j]] f [OF j] by (simp_all add: s'_def)
    show "frame (mem s') root j \<notin> pages_of s' root qs"
      using d(7) [OF j] f [OF j] w(2) by (simp add: pages_of_def)
  next
    fix j assume "j \<notin> M" "user_page j"
    then show "pent (mem s') root j AND PTE_V = 0" using d(8) ent by simp
  qed
  have im: "frame (mem s') root ` M = frame (mem s) root ` M" using f by (rule image_cong [OF refl])
  show "q \<notin> footprint s' root qs M"
    using qn ne unfolding footprint_def pages_of_def im w(2) by auto
  show "footprint s root (q # qs) M = insert q (footprint s' root qs M)"
    unfolding footprint_def pages_of_def im w(2) by auto
qed

lemma PA2PTE_roundtrip:
  assumes "valid_page K q" "perm AND 0x3FF = perm"
  shows "PTE2PA (PA2PTE q OR perm OR PTE_V) = q"
proof -
  have "PHYSTOP < 2 ^ 56" by (simp add: PHYSTOP_val)
  with assms have "page_aligned q" "q < 2 ^ 56" by (auto simp: valid_page_def)
  moreover have "(perm OR PTE_V) AND 0x3FF = perm OR PTE_V"
    unfolding bit.conj_disj_distrib2 assms(2) by (simp add: PTE_V_def)
  ultimately show ?thesis using PTE2PA_PA2PTE [of q "perm OR PTE_V"] by (simp add: or.assoc)
qed

definition leaf_perm :: "u64 \<Rightarrow> bool" where
  "leaf_perm perm \<longleftrightarrow> perm AND 0x3FF = perm \<and> perm AND NOT PTE_V \<noteq> 0"

lemma leaf_perm_flags:
  assumes "leaf_perm perm"
  shows "PTE_FLAGS (PA2PTE q OR perm OR PTE_V) \<noteq> PTE_V"
proof
  assume "PTE_FLAGS (PA2PTE q OR perm OR PTE_V) = PTE_V"
  then have *: "(perm OR PTE_V) AND 0x3FF = PTE_V" by (simp add: or.assoc PTE_FLAGS_PA2PTE)
  have "perm AND NOT PTE_V = ((perm OR PTE_V) AND 0x3FF) AND NOT PTE_V"
    using assms unfolding leaf_perm_def
    by (metis (no_types, lifting) and.assoc and.commute bit.conj_cancel_right bit.conj_disj_distrib2 bit.disj_zero_right)
  with * assms show False by (simp add: leaf_perm_def)
qed

lemma map_page:
  assumes sp: "aspace s root ps M" and i: "i \<notin> M" "user_page i"
    and q: "valid_page (kend (img s)) q" "q \<notin> footprint s root ps M" and perm: "leaf_perm perm"
  shows "\<exists>r s' ps'. mappages root (upage i) PGSIZE q perm e s = Ok r e s' \<and> only_mem s s' \<and>
     kept root M s s' \<and> changes_in (pages_of s root ps) (mem s) (mem s') \<and> length ps \<le> length ps' + 2 \<and>
     (if r = 0 then aspace s' root ps' (insert i M) \<and> pent (mem s') root i = PA2PTE q OR perm OR PTE_V \<and>
        frame (mem s') root i = q \<and> footprint s' root ps' (insert i M) = insert q (footprint s root ps M)
      else r = -1 \<and> ps' = [] \<and> aspace s' root ps' M \<and> footprint s' root ps' M = footprint s root ps M)"
proof -
  note d = aspaceD [OF sp]
  note ub = user_page_bounds [OF i(2)]
  let ?v = "PA2PTE q OR perm OR PTE_V"
  have sz: "0 < unat PGSIZE" "unat (upage i) + unat PGSIZE \<le> 2 ^ 38"
    using ub(5) by (simp_all add: PGSIZE_def ub(1))
  have free: "entry (mem s) root x 2 AND PTE_V = 0"
    if "unat (PGROUNDDOWN (upage i)) \<le> unat x" "unat x < unat (upage i) + unat PGSIZE" for x
  proof -
    have "in_page x (upage i)"
      using that ub by (simp add: in_page_def in_range_def PGROUNDDOWN_id unat_sub64 PGSIZE_def)
    then have "PGROUNDDOWN x = PGROUNDDOWN (upage i)" using ub(4) by (simp add: in_page_iff PGROUNDDOWN_id)
    then have "key (Suc 2) x = key (Suc 2) (upage i)" using key_3 [of x "upage i"] by (simp add: numeral_3_eq_3 numeral_2_eq_2)
    then show ?thesis using entry_key [of 2 x "upage i" "mem s" root] d(8) [OF i] by (simp add: pent_def)
  qed
  have n0: "(unat (upage i) + unat PGSIZE - 1) div 4096 - unat (upage i) div 4096 = 0"
    by (simp add: ub(1) PGSIZE_def)
  from mappages_ok [OF d(1) sz free, of q perm e, unfolded n0 PGROUNDDOWN_id [OF ub(4)]]
  obtain r s' ps' k where
    m: "mappages root (upage i) PGSIZE q perm e s = Ok r e s'" "grown root s ps s' ps'"
      "length ps \<le> length ps' + 2 * Suc 0"
      "\<And>x. sv39 x \<Longrightarrow> entry (mem s') root x 2 =
        with_range (upage i) k q perm (\<lambda>va. entry (mem s) root va 2) x"
      "if r = 0 then k = Suc 0 else r = -1 \<and> k < Suc 0 \<and> ps' = []"
    by blast
  have inv: "vm_inv s' root ps'" and pg: "pages_of s' root ps' = pages_of s root ps" and om: "only_mem s s'"
    using m(2) by (auto simp: grown_def)
  have ch: "changes_in (pages_of s root ps) (mem s) (mem s')"
    using m(2) pg changes_in_mono unfolding grown_def pages_of_def by (metis sup_ge2)
  have ent: "pent (mem s') root j = (if j = i \<and> r = 0 then ?v else pent (mem s) root j)" if "user_page j" for j
    using m(4) [OF user_page_bounds(3) [OF that]] m(5) user_page_bounds [OF that] ub
    by (auto simp: pent_def with_range_def PGROUNDDOWN_id split: if_splits)
  have al: "page_aligned p" if "p \<in> pages_of s root ps" for p
    using that vm_inv_facts(3,4) [OF d(1)] pt_wf_aligned by (auto simp: pages_of_def kmem_inv_def valid_page_def)
  have f: "frame (mem s') root j = frame (mem s) root j" if "j \<in> M" for j
    using ent [OF d(3) [OF that]] i(1) that by (auto simp: frame_def)
  have kp: "kept root M s s'"
    unfolding kept_def
  proof (intro ballI conjI allI impI)
    show "same_top root (mem s) (mem s')"
      unfolding same_top_def
    proof (intro allI impI)
      fix va assume va: "TRAPFRAME \<le> va" "va < MAXVA"
      show "entry (mem s') root va 2 = entry (mem s) root va 2"
        using m(4) [OF sv39_MAXVA [OF va(2)]] m(5) top_page(2) [OF va(1) i(2)]
        by (auto simp: with_range_def split: if_splits)
    qed
  next
    fix j a assume j: "j \<in> M"
    then show "pent (mem s') root j = pent (mem s) root j" using ent [OF d(3) [OF j]] i(1) by auto
    assume "in_page a (frame (mem s) root j)"
    then show "mem s' a = mem s a" using footprint_changes [OF ch sp j d(7) [OF j] al] by blast
  qed
  have im: "frame (mem s') root ` M = frame (mem s) root ` M" using f by (rule image_cong [OF refl])
  have K: "kend (img s') = kend (img s)" using only_mem_fields(2) [OF om] by simp
  have ok: "user_page j \<and> pent (mem s') root j AND PTE_V \<noteq> 0 \<and> PTE_FLAGS (pent (mem s') root j) \<noteq> PTE_V \<and>
      valid_page (kend (img s')) (frame (mem s') root j) \<and> frame (mem s') root j \<notin> pages_of s' root ps'"
    if "j \<in> M" for j
    using d(3-7) [OF that] f [OF that] ent [OF d(3) [OF that]] that i(1) pg K by auto
  have inj: "inj_on (frame (mem s') root) M" using d(2) f by (simp add: inj_on_def)
  show ?thesis
  proof (cases "r = 0")
    case True
    have fi: "frame (mem s') root i = q"
      using ent [OF i(2)] True PA2PTE_roundtrip [OF q(1)] perm by (simp add: frame_def leaf_perm_def)
    have "aspace s' root ps' (insert i M)"
      unfolding aspace_def
    proof (intro conjI ballI allI impI inv)
      have "q \<notin> frame (mem s') root ` M" using q(2) im by (simp add: footprint_def)
      then show "inj_on (frame (mem s') root) (insert i M)" using inj fi i(1) by simp
    next
      have "user_page i \<and> pent (mem s') root i AND PTE_V \<noteq> 0 \<and> PTE_FLAGS (pent (mem s') root i) \<noteq> PTE_V \<and>
          valid_page (kend (img s')) (frame (mem s') root i) \<and> frame (mem s') root i \<notin> pages_of s' root ps'"
        using ent [OF i(2)] True i(2) q fi pg K PTE_V_or [of "PA2PTE q OR perm"] leaf_perm_flags [OF perm, of q]
        by (simp add: footprint_def or.assoc)
      with ok show "user_page j" "pent (mem s') root j AND PTE_V \<noteq> 0" "PTE_FLAGS (pent (mem s') root j) \<noteq> PTE_V"
        "valid_page (kend (img s')) (frame (mem s') root j)" "frame (mem s') root j \<notin> pages_of s' root ps'"
        if "j \<in> insert i M" for j
        using that by blast+
    next
      show "pent (mem s') root j AND PTE_V = 0" if "j \<notin> insert i M" "user_page j" for j
        using ent [OF that(2)] d(8) [of j] that by simp
    qed
    moreover have "footprint s' root ps' (insert i M) = insert q (footprint s root ps M)"
      using fi pg im by (auto simp: footprint_def)
    ultimately show ?thesis using m(1,3) om kp ch ent [OF i(2)] True fi by auto
  next
    case False
    have "aspace s' root ps' M"
      unfolding aspace_def
    proof (intro conjI ballI allI impI inv)
      show "pent (mem s') root j AND PTE_V = 0" if "j \<notin> M" "user_page j" for j
        using ent [OF that(2)] d(8) [OF that] False by simp
    qed (use ok inj in auto)
    moreover have "footprint s' root ps' M = footprint s root ps M"
      using pg im by (simp add: footprint_def)
    ultimately show ?thesis using m(1,3,5) om kp ch False by auto
  qed
qed

lemma give_page:
  assumes sp: "aspace s root ps M" and q: "valid_page (kend (img s)) q" "q \<notin> footprint s root ps M"
  shows "\<exists>s'. kfree q e s = Ok () e s' \<and> aspace s' root (q # ps) M \<and> only_mem s s' \<and> kept root M s s' \<and>
     footprint s' root (q # ps) M = insert q (footprint s root ps M) \<and> changes_in {q} (mem s) (mem s')"
proof -
  note d = aspaceD [OF sp]
  let ?s = "s\<lparr>mem := store64 q (freelist s) (memset q 1 4096 (mem s)), freelist := q\<rparr>"
  have "q \<notin> pages_of s root ps" using q by (simp add: footprint_def)
  note fo = free_outside [OF d(1) q(1) this]
  have ent: "pent (mem ?s) root j = pent (mem s) root j" if "user_page j" for j
    using fo(6) user_page_bounds(3) [OF that] by (simp add: pent_def)
  have f: "frame (mem ?s) root j = frame (mem s) root j" if "j \<in> M" for j
    using ent d(3) [OF that] by (simp add: frame_def)
  have im: "frame (mem ?s) root ` M = frame (mem s) root ` M" using f by (rule image_cong [OF refl])
  have ne: "frame (mem s) root j \<noteq> q" if "j \<in> M" for j using q(2) that by (auto simp: footprint_def)
  have "kept root M s ?s"
    unfolding kept_def
  proof (intro ballI conjI allI impI)
    show "same_top root (mem s) (mem ?s)"
      unfolding same_top_def using fo(6) sv39_MAXVA by blast
  next
    fix j a assume j: "j \<in> M"
    then show "pent (mem ?s) root j = pent (mem s) root j" using ent d(3) by blast
    assume "in_page a (frame (mem s) root j)"
    then show "mem ?s a = mem s a"
      using footprint_changes [OF fo(5) sp j] ne [OF j] q(1) by (simp add: valid_page_def)
  qed
  moreover have "aspace ?s root (q # ps) M"
    unfolding aspace_def
  proof (intro conjI ballI allI impI fo(2))
    show "inj_on (frame (mem ?s) root) M" using d(2) f unfolding inj_on_def by metis
    show "user_page j" "pent (mem ?s) root j AND PTE_V \<noteq> 0" "PTE_FLAGS (pent (mem ?s) root j) \<noteq> PTE_V"
      "valid_page (kend (img ?s)) (frame (mem ?s) root j)" "frame (mem ?s) root j \<notin> pages_of ?s root (q # ps)"
      if j: "j \<in> M" for j
      using d(3-7) [OF j] ent [OF d(3) [OF j]] f [OF j] ne [OF j] fo(4) by (auto simp: pages_of_def)
    show "pent (mem ?s) root j AND PTE_V = 0" if "j \<notin> M" "user_page j" for j
      using d(8) [OF that] ent [OF that(2)] by simp
  qed
  moreover have "footprint ?s root (q # ps) M = insert q (footprint s root ps M)"
    using im fo(4) by (simp add: footprint_def pages_of_def)
  ultimately show ?thesis using fo(1,3,5) by blast
qed

lemma npages_upage: "j \<le> 2 ^ 26 \<Longrightarrow> npages (upage j) = j"
  by (simp add: npages_def unat_upage)

lemma upage_less_iff:
  assumes "j \<le> 2 ^ 26"
  shows "upage j < sz \<longleftrightarrow> j < npages sz"
  using assms by (simp add: word_less_nat_alt unat_upage npages_def) linarith

definition fresh_pages :: "u64 \<Rightarrow> nat set \<Rightarrow> mem \<Rightarrow> bool" where
  "fresh_pages root N m \<longleftrightarrow> (\<forall>i \<in> N. zero_on (frame m root i) m \<and>
     PTE_FLAGS (pent m root i) = PTE_V OR PTE_R OR PTE_W OR PTE_X OR PTE_U)"

lemma fresh_pages_kept: "kept root N s s' \<Longrightarrow> fresh_pages root N (mem s) \<Longrightarrow> fresh_pages root N (mem s')"
  by (simp add: fresh_pages_def kept_def zero_on_def frame_def)

lemma uvmalloc_step:
  assumes sp: "aspace s root (q # qs) {..<j}" and j: "user_page j"
  shows "\<exists>s2. kalloc e s = Ok q e (s\<lparr>mem := memset q 5 4096 (mem s), freelist := load64 (mem s) q\<rparr>) \<and>
     zero_page q e (s\<lparr>mem := memset q 5 4096 (mem s), freelist := load64 (mem s) q\<rparr>) = Ok () e s2 \<and>
     (\<exists>r s3 ps3. mappages root (upage j) PGSIZE q (PTE_W OR PTE_X OR PTE_R OR PTE_U) e s2 = Ok r e s3 \<and>
      (if r = 0 then moved root {..<j} s (q # qs) {..<j} s3 ps3 {..<Suc j} \<and> fresh_pages root {j} (mem s3) \<and>
        length qs \<le> length ps3 + 2
       else length qs \<le> 2 \<and> (\<exists>s4. kfree q e s3 = Ok () e s4 \<and> moved root {..<j} s (q # qs) {..<j} s4 [q] {..<j})))"
proof -
  note d = aspaceD [OF sp]
  note i = vm_inv_facts [OF d(1)]
  let ?m = "memset q 0 4096 (memset q 5 4096 (mem s))"
  let ?s2 = "s\<lparr>mem := ?m, freelist := load64 (mem s) q\<rparr>"
  let ?p = "PTE_W OR PTE_X OR PTE_R OR PTE_U"
  have m: "?m a = (if in_page a q then 0 else mem s a)" for a by (simp add: memset_apply in_page_def)
  have ch: "changes_in {q} (mem s) ?m" unfolding changes_in_def m by simp
  note tp = take_page [OF sp ch]
  have perm: "leaf_perm ?p" by (simp add: leaf_perm_def pte_bits)
  have j': "j \<notin> {..<j}" by simp
  from map_page [OF tp(1) j' j _ tp(5) perm, of e] tp(3) obtain r s3 ps3 where
    mp: "mappages root (upage j) PGSIZE q ?p e ?s2 = Ok r e s3" "only_mem ?s2 s3" "kept root {..<j} ?s2 s3"
      "changes_in (pages_of ?s2 root qs) (mem ?s2) (mem s3)" "length qs \<le> length ps3 + 2"
      "if r = 0 then aspace s3 root ps3 (insert j {..<j}) \<and> pent (mem s3) root j = PA2PTE q OR ?p OR PTE_V \<and>
        frame (mem s3) root j = q \<and> footprint s3 root ps3 (insert j {..<j}) = insert q (footprint ?s2 root qs {..<j})
      else r = -1 \<and> ps3 = [] \<and> aspace s3 root ps3 {..<j} \<and> footprint s3 root ps3 {..<j} = footprint ?s2 root qs {..<j}"
    by auto
  have om: "only_mem s s3" using mp(2) only_mem_trans only_mem_upd(1) by blast
  have kp: "kept root {..<j} s s3" using tp(2) mp(3) by (rule kept_trans)
  have ch3: "changes_in (footprint s root (q # qs) {..<j}) (mem s) (mem s3)"
  proof (rule changes_in_trans)
    show "changes_in (footprint s root (q # qs) {..<j}) (mem s) (mem ?s2)"
      using changes_in_mono [OF ch] tp(6) by simp
    show "changes_in (footprint s root (q # qs) {..<j}) (mem ?s2) (mem s3)"
      using mp(4) by (rule changes_in_mono) (unfold tp(6), auto simp: footprint_def)
  qed
  have "r = 0 \<Longrightarrow> fresh_pages root {j} (mem s3)"
  proof -
    assume r: "r = 0"
    have al: "page_aligned p" if "p \<in> pages_of ?s2 root qs" for p
      using that vm_inv_facts(3,4) [OF aspaceD(1) [OF tp(1)]] pt_wf_aligned
      by (auto simp: pages_of_def kmem_inv_def valid_page_def)
    have "mem s3 a = 0" if "in_page a q" for a
    proof -
      have "mem s3 a = mem ?s2 a"
        using mp(4) that al tp(3,5) in_page_unique
        unfolding changes_in_def footprint_def valid_page_def by (metis UnCI)
      then show ?thesis using that m by simp
    qed
    moreover have "PTE_FLAGS (PA2PTE q OR ?p OR PTE_V) = PTE_V OR PTE_R OR PTE_W OR PTE_X OR PTE_U"
      unfolding or.assoc PTE_FLAGS_PA2PTE by (simp add: pte_bits)
    ultimately show ?thesis using r mp(6) by (simp add: fresh_pages_def zero_on_def)
  qed
  moreover have "r \<noteq> 0 \<Longrightarrow> \<exists>s4. kfree q e s3 = Ok () e s4 \<and> moved root {..<j} s (q # qs) {..<j} s4 [q] {..<j}"
  proof -
    assume r: "r \<noteq> 0"
    have K: "img s3 = img s" using only_mem_fields(2) [OF om] .
    have "q \<notin> footprint s3 root ps3 {..<j}" "valid_page (kend (img s3)) q" using r mp(6) tp(3,5) K by auto
    from give_page [OF _ this(2,1), of e] r mp(6) obtain s4 where
      g: "kfree q e s3 = Ok () e s4" "aspace s4 root [q] {..<j}" "only_mem s3 s4" "kept root {..<j} s3 s4"
        "footprint s4 root [q] {..<j} = footprint s root (q # qs) {..<j}" "changes_in {q} (mem s3) (mem s4)"
      using tp(6) by auto
    have "changes_in (footprint s root (q # qs) {..<j}) (mem s3) (mem s4)"
      using changes_in_mono [OF g(6)] tp(6) by simp
    then show ?thesis
      using g only_mem_trans [OF om g(3)] kept_trans [OF kp g(4)] changes_in_trans [OF ch3]
      by (auto simp: moved_def)
  qed
  moreover have "r = 0 \<Longrightarrow> moved root {..<j} s (q # qs) {..<j} s3 ps3 {..<Suc j}"
    using mp(6) om kp ch3 tp(6) by (simp add: moved_def lessThan_Suc)
  ultimately show ?thesis
    using kalloc_Cons(1) [OF i(1-3), of e] mp(1,5,6) tp(4)
    by (intro exI [of _ ?s2]) (auto intro!: exI [of _ r] exI [of _ s3] exI [of _ ps3])
qed

lemma undo_alloc:
  assumes "aspace s root ps {..<j}" and "n0 \<le> j" and "j \<le> 2 ^ 26"
  shows "\<exists>s' ps'. uvmdealloc root (upage j) (upage n0) e s = Ok (upage n0) e s' \<and>
     moved root {..<n0} s ps {..<j} s' ps' {..<n0}"
proof -
  have "min (upage j) (upage n0) = upage n0"
    using assms(2,3) by (simp add: word_le_nat_alt unat_upage)
  with uvmdealloc_ok [of s root ps "upage j" "upage n0" e] assms npages_upage [of j] npages_upage [of n0]
  show ?thesis by (auto simp: unat_upage)
qed

lemma uvmalloc_loop_ok:
  assumes "aspace s root ps {..<j}" and "n0 \<le> j" and "j \<le> npages newsz"
    and "unat newsz \<le> unat TRAPFRAME" and "npages newsz - j < fuel"
  shows "\<exists>r s' ps'. uvmalloc_loop fuel root (upage j) (upage n0) newsz e s = Ok r e s' \<and>
     (r = newsz \<and> moved root {..<j} s ps {..<j} s' ps' {..<npages newsz} \<and>
        fresh_pages root {j..<npages newsz} (mem s') \<or>
      r = 0 \<and> moved root {..<n0} s ps {..<j} s' ps' {..<n0} \<and> length ps \<le> 3 * (npages newsz - j))"
  using assms
proof (induction fuel arbitrary: s ps j)
  case (Suc fuel s ps j)
  have N: "npages newsz \<le> 2 ^ 26" using Suc.prems(4) by (simp add: npages_def TRAPFRAME_val)
  then have j26: "j \<le> 2 ^ 26" using Suc.prems(3) by simp
  show ?case
  proof (cases "j < npages newsz")
    case False
    then show ?thesis
      using Suc.prems moved_refl [OF Suc.prems(1)] upage_less_iff [OF j26]
      by (auto simp: fresh_pages_def)
  next
    case True
    then have lt: "upage j < newsz" using upage_less_iff [OF j26] by simp
    have up: "user_page j" using True Suc.prems(4) by (simp add: user_page_def npages_def)
    show ?thesis
    proof (cases ps)
      case Nil
      note i = vm_inv_facts [OF aspaceD(1) [OF Suc.prems(1)]]
      have "kalloc e s = Ok 0 e s" using kalloc_empty [OF i(1,2)] i(3) Nil by simp
      with undo_alloc [OF Suc.prems(1,2) j26, of e] lt Nil show ?thesis by auto
    next
      case (Cons q qs)
      note sp = Suc.prems(1) [unfolded Cons]
      have q0: "q \<noteq> 0" using vm_inv_facts(3) [OF aspaceD(1) [OF sp]] by (auto simp: kmem_inv_def)
      from uvmalloc_step [OF sp up, of e] obtain s2 r s3 ps3 where
        a: "kalloc e s = Ok q e (s\<lparr>mem := memset q 5 4096 (mem s), freelist := load64 (mem s) q\<rparr>)"
          "zero_page q e (s\<lparr>mem := memset q 5 4096 (mem s), freelist := load64 (mem s) q\<rparr>) = Ok () e s2"
          "mappages root (upage j) PGSIZE q (PTE_W OR PTE_X OR PTE_R OR PTE_U) e s2 = Ok r e s3"
          "if r = 0 then moved root {..<j} s (q # qs) {..<j} s3 ps3 {..<Suc j} \<and> fresh_pages root {j} (mem s3) \<and>
             length qs \<le> length ps3 + 2
           else length qs \<le> 2 \<and> (\<exists>s4. kfree q e s3 = Ok () e s4 \<and> moved root {..<j} s (q # qs) {..<j} s4 [q] {..<j})"
        by blast
      show ?thesis
      proof (cases "r = 0")
        case False
        with a(4) obtain s4 where f: "kfree q e s3 = Ok () e s4" "moved root {..<j} s (q # qs) {..<j} s4 [q] {..<j}" by auto
        then have "aspace s4 root [q] {..<j}" by (simp add: moved_def)
        from undo_alloc [OF this Suc.prems(2) j26, of e] obtain s' ps' where
          u: "uvmdealloc root (upage j) (upage n0) e s4 = Ok (upage n0) e s'"
            "moved root {..<n0} s4 [q] {..<j} s' ps' {..<n0}" by blast
        have "moved root {..<n0} s ps {..<j} s' ps' {..<n0}"
          using moved_trans [OF f(2) u(2), of "{..<n0}"] Suc.prems(2) Cons by auto
        moreover have "uvmalloc_loop (Suc fuel) root (upage j) (upage n0) newsz e s = Ok 0 e s'"
          using a(1,3) a(2) f(1) u(1) False lt q0 by simp
        moreover have "length ps \<le> 3 * (npages newsz - j)" using a(4) False Cons \<open>j < npages newsz\<close> by auto
        ultimately show ?thesis by blast
      next
        case True
        with a(4) have mv: "moved root {..<j} s (q # qs) {..<j} s3 ps3 {..<Suc j}"
          and z: "fresh_pages root {j} (mem s3)" "length qs \<le> length ps3 + 2" by auto
        have run: "uvmalloc_loop (Suc fuel) root (upage j) (upage n0) newsz e s =
            uvmalloc_loop fuel root (upage (Suc j)) (upage n0) newsz e s3"
          using a(1,3) a(2) True lt q0 by (simp add: upage_Suc)
        have "aspace s3 root ps3 {..<Suc j}" using mv by (simp add: moved_def)
        moreover have "npages newsz - Suc j < fuel" "n0 \<le> Suc j" "Suc j \<le> npages newsz"
          using Suc.prems(2,5) \<open>j < npages newsz\<close> by auto
        ultimately obtain r' s' ps' where
          ih: "uvmalloc_loop fuel root (upage (Suc j)) (upage n0) newsz e s3 = Ok r' e s'"
            "r' = newsz \<and> moved root {..<Suc j} s3 ps3 {..<Suc j} s' ps' {..<npages newsz} \<and>
               fresh_pages root {Suc j..<npages newsz} (mem s') \<or>
             r' = 0 \<and> moved root {..<n0} s3 ps3 {..<Suc j} s' ps' {..<n0} \<and> length ps3 \<le> 3 * (npages newsz - Suc j)"
          using Suc.IH [of s3 ps3 "Suc j"] Suc.prems(4) by blast
        from ih(2) show ?thesis
        proof
          assume ok: "r' = newsz \<and> moved root {..<Suc j} s3 ps3 {..<Suc j} s' ps' {..<npages newsz} \<and>
               fresh_pages root {Suc j..<npages newsz} (mem s')"
          then have "kept root {..<Suc j} s3 s'" by (simp add: moved_def)
          then have "kept root {j} s3 s'" by (rule kept_mono) simp
          then have "fresh_pages root {j} (mem s')" using z(1) by (rule fresh_pages_kept)
          moreover have "{j..<npages newsz} = insert j {Suc j..<npages newsz}" using \<open>j < npages newsz\<close> by auto
          ultimately have "fresh_pages root {j..<npages newsz} (mem s')" using ok by (simp add: fresh_pages_def)
          moreover have "moved root {..<j} s ps {..<j} s' ps' {..<npages newsz}"
            using moved_trans [OF mv, of "{..<Suc j}"] ok Cons by auto
          ultimately show ?thesis using run ih(1) ok by auto
        next
          assume f: "r' = 0 \<and> moved root {..<n0} s3 ps3 {..<Suc j} s' ps' {..<n0} \<and> length ps3 \<le> 3 * (npages newsz - Suc j)"
          then have "length ps \<le> 3 * (npages newsz - j)" using z(2) Cons \<open>j < npages newsz\<close> by auto
          moreover from f have "moved root {..<n0} s ps {..<j} s' ps' {..<n0}"
            using moved_trans [OF mv, of "{..<n0}"] Suc.prems(2) Cons by auto
          ultimately show ?thesis using run ih(1) f by auto
        qed
      qed
    qed
  qed
qed simp

lemma uvmalloc_ok:
  assumes "aspace s root ps {..<npages oldsz}" and "oldsz \<le> newsz" and "newsz \<le> TRAPFRAME"
  shows "\<exists>r s' ps'. uvmalloc root oldsz newsz e s = Ok r e s' \<and>
     (r = newsz \<and> moved root {..<npages oldsz} s ps {..<npages oldsz} s' ps' {..<npages newsz} \<and>
        fresh_pages root {npages oldsz..<npages newsz} (mem s') \<or>
      r = 0 \<and> moved root {..<npages oldsz} s ps {..<npages oldsz} s' ps' {..<npages oldsz} \<and>
        length ps \<le> 3 * (npages newsz - npages oldsz))"
proof -
  have le: "unat oldsz \<le> unat newsz" "unat newsz \<le> unat TRAPFRAME"
    using assms by (simp_all add: word_le_nat_alt)
  then have "PGROUNDUP oldsz = upage (npages oldsz)"
    by (intro PGROUNDUP_upage) (simp add: TRAPFRAME_val)
  moreover have "npages newsz - npages oldsz < Suc (unat newsz div 4096 + 1)"
    unfolding npages_def by linarith
  ultimately show ?thesis
    using uvmalloc_loop_ok [OF assms(1) order_refl npages_mono [OF le(1)] le(2), of "Suc (unat newsz div 4096 + 1)" e]
      leD [OF assms(2)]
    by (simp add: uvmalloc_def Let_def del: uvmalloc_loop.simps)
qed

lemma empty_aspace:
  assumes "vm_inv s root ps" and "\<And>va. entry (mem s) root va 2 = 0"
  shows "aspace s root ps {}"
  using assms by (simp add: aspace_def pent_def)

lemma booted_space:
  "\<exists>s0 s root ps. kinit [] \<lparr>mem = (\<lambda>_. 7), lk = sample_lk, img = sample_img, freelist = 0\<rparr> = Ok () [] s0 \<and>
     uvmcreate [] s0 = Ok root [] s \<and> aspace s root ps {..<npages 0} \<and> length ps = 32511 \<and>
     (\<forall>va. entry (mem s) root va 2 = 0) \<and> img s = sample_img"
proof -
  have "npages 0 = 0" by (simp add: npages_def)
  with booted_table [of "()"] empty_aspace show ?thesis by fastforce
qed

lemma booted_user:
  "\<exists>s0 s root s' ps'. kinit [] \<lparr>mem = (\<lambda>_. 7), lk = sample_lk, img = sample_img, freelist = 0\<rparr> = Ok () [] s0 \<and>
     uvmcreate [] s0 = Ok root [] s \<and> uvmalloc root 0 0x2345 [] s = Ok 0x2345 [] s' \<and>
     aspace s' root ps' {..<3} \<and> fresh_pages root {..<3} (mem s') \<and>
     (\<forall>va. TRAPFRAME \<le> va \<longrightarrow> va < MAXVA \<longrightarrow> entry (mem s') root va 2 = 0) \<and> img s' = sample_img"
proof -
  obtain s0 s root ps where
    b: "kinit [] \<lparr>mem = (\<lambda>_. 7), lk = sample_lk, img = sample_img, freelist = 0\<rparr> = Ok () [] s0"
      "uvmcreate [] s0 = Ok root [] s" "aspace s root ps {..<npages 0}" "length ps = 32511"
      "\<And>va. entry (mem s) root va 2 = 0" "img s = sample_img"
    using booted_space by blast
  have n: "npages 0 = 0" "npages 0x2345 = 3" by (simp_all add: npages_def)
  obtain s' ps' where u: "uvmalloc root 0 0x2345 [] s = Ok 0x2345 [] s'" "aspace s' root ps' {..<3}"
    "fresh_pages root {..<3} (mem s')" "only_mem s s'" "same_top root (mem s) (mem s')"
    using uvmalloc_ok [OF b(3), of "0x2345" "[]"] b(4) n
    by (auto simp: TRAPFRAME_val moved_def lessThan_atLeast0 kept_def)
  then have "img s' = sample_img" using b(6) by (auto simp: only_mem_def)
  with b(1,2,5) u show ?thesis by (simp add: same_top_def) blast
qed

text \<open>
  C5. Growing a process is all or nothing: \<open>uvmalloc\<close> terminates and either returns the new size,
  with every old page unchanged in mapping and contents and every new page mapped to a zero-filled
  frame of its own, or returns 0 with the address space of before, which happens only when fewer
  than three free pages per new page (and one) were left; in both cases no page frame is
  lost or shared, and nothing outside the footprint of the address space is written.
\<close>

theorem uvmalloc_all_or_nothing:
  assumes "aspace s root ps {..<npages oldsz}" and "oldsz \<le> newsz" and "newsz \<le> TRAPFRAME"
  shows "\<exists>r s' ps'. uvmalloc root oldsz newsz e s = Ok r e s' \<and>
     (r = newsz \<and> moved root {..<npages oldsz} s ps {..<npages oldsz} s' ps' {..<npages newsz} \<and>
        fresh_pages root {npages oldsz..<npages newsz} (mem s') \<or>
      r = 0 \<and> moved root {..<npages oldsz} s ps {..<npages oldsz} s' ps' {..<npages oldsz} \<and>
        length ps \<le> 3 * (npages newsz - npages oldsz))"
  using assms by (rule uvmalloc_ok)

theorem uvmalloc_all_or_nothing_witness:
  "\<exists>s0 s root s' ps'. kinit [] \<lparr>mem = (\<lambda>_. 7), lk = sample_lk, img = sample_img, freelist = 0\<rparr> = Ok () [] s0 \<and>
     uvmcreate [] s0 = Ok root [] s \<and> uvmalloc root 0 0x2345 [] s = Ok 0x2345 [] s' \<and>
     aspace s' root ps' {..<3} \<and> fresh_pages root {0..<3} (mem s')"
proof -
  obtain s0 s root ps where
    b: "kinit [] \<lparr>mem = (\<lambda>_. 7), lk = sample_lk, img = sample_img, freelist = 0\<rparr> = Ok () [] s0"
      "uvmcreate [] s0 = Ok root [] s" "aspace s root ps {..<npages 0}" "length ps = 32511"
    using booted_space by blast
  have n: "npages 0 = 0" "npages 0x2345 = 3" by (simp_all add: npages_def)
  from uvmalloc_all_or_nothing [OF b(3), of "0x2345" "[]"] b(1,2,4) n show ?thesis
    by (simp add: TRAPFRAME_val moved_def) blast
qed

end
