(* ===== verification/Ucopy.thy ===== *)
theory Ucopy
  imports Uvm
begin

text \<open>
  Copying between kernel and user space through a page table, on top of \<open>aspace\<close>: a user byte at
  virtual address \<open>va\<close> is the byte at \<open>uaddr m root va\<close> of the physical memory.
\<close>

definition pageno :: "u64 \<Rightarrow> nat" where
  "pageno va = unat va div 4096"

definition uaddr :: "mem \<Rightarrow> u64 \<Rightarrow> u64 \<Rightarrow> u64" where
  "uaddr m root va = frame m root (pageno va) + (va - PGROUNDDOWN va)"

text \<open>The bytes of a range lie in user-accessible pages of \<open>M\<close>.\<close>

definition urange :: "mem \<Rightarrow> u64 \<Rightarrow> nat set \<Rightarrow> u64 \<Rightarrow> nat \<Rightarrow> bool" where
  "urange m root M va len \<longleftrightarrow> (\<forall>i < len. pageno (va + of_nat i) \<in> M \<and>
     pent m root (pageno (va + of_nat i)) AND PTE_U \<noteq> 0)"

lemma upage_pageno: "upage (pageno va) = PGROUNDDOWN va"
proof -
  have "4096 * pageno va < 2 ^ 64" using unat_lt64 [of va] by (simp add: pageno_def)
  then have "unat (upage (pageno va)) = 4096 * pageno va"
    using unat_page_index [of 0 "pageno va"] by (simp add: upage_def)
  then show ?thesis by (simp add: word_unat_eq_iff unat_PGROUNDDOWN pageno_def)
qed

lemma pageno_down [simp]: "pageno (PGROUNDDOWN va) = pageno va"
  by (simp add: pageno_def unat_PGROUNDDOWN)

lemma pageno_eq_iff: "pageno va = pageno va' \<longleftrightarrow> PGROUNDDOWN va = PGROUNDDOWN va'"
  by (metis upage_pageno pageno_down)

lemma walkaddr_user:
  assumes sp: "aspace s root ps M" and i: "pageno va \<in> M" "pent (mem s) root (pageno va) AND PTE_U \<noteq> 0"
  shows "walkaddr root (PGROUNDDOWN va) e s = Ok (frame (mem s) root (pageno va)) e s"
    and "frame (mem s) root (pageno va) \<noteq> 0"
proof -
  note d = aspaceD [OF sp]
  note ub = user_page_bounds [OF d(3) [OF i(1)], unfolded upage_pageno]
  obtain p where p: "tbl (mem s) root (PGROUNDDOWN va) 2 = Some p"
    "pent (mem s) root (pageno va) = load64 (mem s) (pte_addr 0 p (PGROUNDDOWN va))"
    using mapped_tbl [OF d(4) [OF i(1)]] unfolding upage_pageno .
  have "p \<in> tables (mem s) root" using p(1) ub(3) by (auto intro: tablesI)
  then have "pte_addr 0 p (PGROUNDDOWN va) \<noteq> 0"
    using pte_addr_nonnull vm_inv_facts(4,6) [OF d(1)] by blast
  then show "walkaddr root (PGROUNDDOWN va) e s = Ok (frame (mem s) root (pageno va)) e s"
    using walk_look [OF ub(2), of root e s] p d(4) [OF i(1)] i(2) linorder_not_le [THEN iffD2, OF ub(2)]
    by (simp add: walkaddr_def frame_def)
  show "frame (mem s) root (pageno va) \<noteq> 0"
    using d(6) [OF i(1)] vm_inv_facts(6) [OF d(1)] by (auto simp: valid_page_def)
qed

text \<open>Writing outside the free pages and the page tables does not change the mappings.\<close>

lemma write_outside:
  assumes sp: "aspace s root ps M" and ch: "changes_in S (mem s) m"
    and S: "\<And>p. p \<in> S \<Longrightarrow> page_aligned p \<and> p \<notin> pages_of s root ps"
  shows "aspace (s\<lparr>mem := m\<rparr>) root ps M" and "sv39 va \<Longrightarrow> entry m root va 2 = entry (mem s) root va 2"
    and "pages_of (s\<lparr>mem := m\<rparr>) root ps = pages_of s root ps"
proof -
  note d = aspaceD [OF sp]
  note i = vm_inv_facts [OF d(1)]
  have out: "m a = mem s a" if "page_aligned p" "p \<in> pages_of s root ps" "in_page a p" for a p
    using ch S that in_page_unique by (force simp: changes_in_def)
  have fr: "same_on (tables (mem s) root) m (mem s)"
    unfolding same_on_def using out pt_wf_aligned [OF i(4)] by (auto simp: pages_of_def)
  note w = pt_wf_frame [OF i(4) fr]
  show e: "entry m root va 2 = entry (mem s) root va 2" if "sv39 va" for va
    using tbl_frame [OF i(4) that order_refl fr] by blast
  have ent: "pent m root j = pent (mem s) root j" if "user_page j" for j
    using e [OF user_page_bounds(3) [OF that]] by (simp add: pent_def)
  have f: "frame m root j = frame (mem s) root j" if "j \<in> M" for j
    using ent d(3) [OF that] by (simp add: frame_def)
  have "kmem_inv (s\<lparr>mem := m\<rparr>) ps"
    using i(3) by (rule kmem_inv_frame) (use i(3) out in \<open>auto simp: pages_of_def kmem_inv_def valid_page_def\<close>)
  then have "vm_inv (s\<lparr>mem := m\<rparr>) root ps" using i w(1,2) by (simp add: vm_inv_def idle_def)
  then show "aspace (s\<lparr>mem := m\<rparr>) root ps M"
    using d ent f w(2) unfolding aspace_def pages_of_def inj_on_def by simp
  show "pages_of (s\<lparr>mem := m\<rparr>) root ps = pages_of s root ps" using w(2) by (simp add: pages_of_def)
qed

text \<open>In particular writing the frames of an address space.\<close>

lemma write_frames:
  assumes sp: "aspace s root ps M" and ch: "changes_in (frame (mem s) root ` M) (mem s) m"
  shows "aspace (s\<lparr>mem := m\<rparr>) root ps M" and "user_page j \<Longrightarrow> pent m root j = pent (mem s) root j"
    and "sv39 va \<Longrightarrow> entry m root va 2 = entry (mem s) root va 2"
proof -
  note w = write_outside [OF sp ch]
  have "page_aligned p \<and> p \<notin> pages_of s root ps" if "p \<in> frame (mem s) root ` M" for p
    using that aspaceD(7) [OF sp] frame_aligned by blast
  with w show "aspace (s\<lparr>mem := m\<rparr>) root ps M" "sv39 va \<Longrightarrow> entry m root va 2 = entry (mem s) root va 2"
    "user_page j \<Longrightarrow> pent m root j = pent (mem s) root j"
    using user_page_bounds(3) [of j] by (simp_all add: pent_def)
qed

lemma write_bytes_apply: "write_bytes p src n m a = (if unat (a - p) < n then src (unat (a - p)) else m a)"
  by (simp add: write_bytes_def in_range_def)

lemma same_page_offset:
  assumes "i < 4096 - unat (va - PGROUNDDOWN va)"
  shows "PGROUNDDOWN (va + of_nat i) = PGROUNDDOWN va"
proof -
  have "unat (va - PGROUNDDOWN va) < 4096" by (rule unat_page_offset)
  moreover have "va + of_nat i - PGROUNDDOWN va = (va - PGROUNDDOWN va) + of_nat i" by simp
  ultimately have "unat (va + of_nat i - PGROUNDDOWN va) < 4096"
    using assms by (simp only: unat_add64) (simp add: unat_of_nat)
  then have "in_page (va + of_nat i) (PGROUNDDOWN va)" by (simp add: in_page_def in_range_def)
  then show ?thesis using in_page_iff [OF PGROUNDDOWN_aligned] by blast
qed

lemma uaddr_same_page:
  assumes "i < 4096 - unat (va - PGROUNDDOWN va)"
  shows "pageno (va + of_nat i) = pageno va"
    and "uaddr m root (va + of_nat i) = frame m root (pageno va) + (va - PGROUNDDOWN va) + of_nat i"
proof -
  note sp = same_page_offset [OF assms]
  then show "pageno (va + of_nat i) = pageno va" by (simp add: pageno_eq_iff)
  then show "uaddr m root (va + of_nat i) = frame m root (pageno va) + (va - PGROUNDDOWN va) + of_nat i"
    by (simp add: uaddr_def sp)
qed

lemma uaddr_in_page: "in_page (uaddr m root va) (frame m root (pageno va))"
  using unat_page_offset [of va] by (simp add: uaddr_def in_page_def in_range_def)

lemma uaddr_inj:
  assumes sp: "aspace s root ps M" and "pageno va \<in> M" "pageno va' \<in> M"
    and eq: "uaddr (mem s) root va = uaddr (mem s) root va'"
  shows "va = va'"
proof -
  have "frame (mem s) root (pageno va) = frame (mem s) root (pageno va')"
    using uaddr_in_page [of "mem s" root va] uaddr_in_page [of "mem s" root va'] eq
      in_page_unique [OF frame_aligned frame_aligned] by metis
  then have p: "pageno va = pageno va'" using aspaceD(2) [OF sp] assms(2,3) by (simp add: inj_on_def)
  then have "PGROUNDDOWN va = PGROUNDDOWN va'" by (simp add: pageno_eq_iff)
  with eq p show ?thesis by (simp add: uaddr_def)
qed

subsection \<open>copyout\<close>

text \<open>One iteration: the part of the range that lies in the first page.\<close>

definition chunk :: "u64 \<Rightarrow> u64 \<Rightarrow> u64" where
  "chunk va len = min (PGSIZE - (va - PGROUNDDOWN va)) len"

lemma chunk_props:
  assumes "0 < len"
  shows "unat (chunk va len) = min (4096 - unat (va - PGROUNDDOWN va)) (unat len)"
    and "0 < unat (chunk va len)" and "unat (len - chunk va len) = unat len - unat (chunk va len)"
    and "i < unat (len - chunk va len) \<Longrightarrow>
       PGROUNDDOWN va + PGSIZE + of_nat i = va + of_nat (unat (chunk va len) + i)"
proof -
  have o: "unat (va - PGROUNDDOWN va) < 4096" by (rule unat_page_offset)
  have u: "unat (PGSIZE - (va - PGROUNDDOWN va)) = 4096 - unat (va - PGROUNDDOWN va)"
    unfolding unat_sub64 [of PGSIZE] using o by (simp add: PGSIZE_def)
  have l: "0 < unat len" using assms by (simp add: unat_gt_0 word_neq_0_conv)
  show c: "unat (chunk va len) = min (4096 - unat (va - PGROUNDDOWN va)) (unat len)"
    using u by (simp add: chunk_def min_def word_le_nat_alt)
  show "0 < unat (chunk va len)" using c o l by simp
  show d: "unat (len - chunk va len) = unat len - unat (chunk va len)"
    using c by (simp add: unat_sub64)
  assume "i < unat (len - chunk va len)"
  then have "unat (chunk va len) < unat len" using d by simp
  then have "unat (chunk va len) = 4096 - unat (va - PGROUNDDOWN va)" using c by simp
  then have "chunk va len = PGSIZE - (va - PGROUNDDOWN va)" using u by (simp add: word_unat_eq_iff)
  then show "PGROUNDDOWN va + PGSIZE + of_nat i = va + of_nat (unat (chunk va len) + i)"
    by (simp add: algebra_simps)
qed

lemma urange_shift:
  assumes "urange m root M va (unat len)" and "0 < len"
    and "\<And>j. j \<in> M \<Longrightarrow> pent m' root j = pent m root j"
  shows "urange m' root M (PGROUNDDOWN va + PGSIZE) (unat (len - chunk va len))"
  unfolding urange_def
proof (intro allI impI)
  fix i assume i: "i < unat (len - chunk va len)"
  then have "unat (chunk va len) + i < unat len" using chunk_props(3) [OF assms(2)] by simp
  then show "pageno (PGROUNDDOWN va + PGSIZE + of_nat i) \<in> M \<and>
      pent m' root (pageno (PGROUNDDOWN va + PGSIZE + of_nat i)) AND PTE_U \<noteq> 0"
    using assms(1,3) unfolding chunk_props(4) [OF assms(2) i] urange_def by metis
qed

lemma urange_first:
  assumes "urange m root M va (unat len)" and "0 < len"
  shows "pageno va \<in> M" and "pent m root (pageno va) AND PTE_U \<noteq> 0"
proof -
  have "0 < unat len" using assms(2) by (simp add: unat_gt_0 word_neq_0_conv)
  then show "pageno va \<in> M" "pent m root (pageno va) AND PTE_U \<noteq> 0"
    using assms(1) unfolding urange_def by force+
qed

lemma chunk_at:
  assumes "i < unat (chunk va len)" and "0 < len"
  shows "uaddr m root (va + of_nat i) = frame m root (pageno va) + (va - PGROUNDDOWN va) + of_nat i"
  using assms(1) chunk_props(1) [OF assms(2)] by (intro uaddr_same_page(2)) simp

lemma chunk_write:
  assumes "0 < len"
  shows "changes_in {frame m root (pageno va)} m
     (write_bytes (frame m root (pageno va) + (va - PGROUNDDOWN va)) src (unat (chunk va len)) m)"
  unfolding changes_in_def write_bytes_apply
proof (intro allI impI)
  let ?pa = "frame m root (pageno va) + (va - PGROUNDDOWN va)"
  fix a assume "(if unat (a - ?pa) < unat (chunk va len) then src (unat (a - ?pa)) else m a) \<noteq> m a"
  then have "unat (a - ?pa) < unat (chunk va len)" by (auto split: if_splits)
  then have lt: "unat (a - ?pa) + unat (va - PGROUNDDOWN va) < 4096"
    using chunk_props(1) [OF assms, where va = va] by linarith
  have "a - frame m root (pageno va) = (a - ?pa) + (va - PGROUNDDOWN va)" by simp
  then have "unat (a - frame m root (pageno va)) < 4096"
    using lt by (simp only: unat_add64) simp
  then show "\<exists>p \<in> {frame m root (pageno va)}. in_page a p" by (simp add: in_page_def in_range_def)
qed

text \<open>What a copy of \<open>len\<close> bytes to user addresses has to leave behind.\<close>

definition copied :: "u64 \<Rightarrow> u64 \<Rightarrow> nat \<Rightarrow> bytes \<Rightarrow> mem \<Rightarrow> mem \<Rightarrow> bool" where
  "copied root va len src m m' \<longleftrightarrow>
     (\<forall>i < len. m' (uaddr m root (va + of_nat i)) = src i) \<and>
     (\<forall>a. (\<forall>i < len. a \<noteq> uaddr m root (va + of_nat i)) \<longrightarrow> m' a = m a)"

lemma copied_chunk:
  assumes "0 < len"
  shows "copied root va (unat (chunk va len)) src m
     (write_bytes (frame m root (pageno va) + (va - PGROUNDDOWN va)) src (unat (chunk va len)) m)"
proof -
  let ?pa = "frame m root (pageno va) + (va - PGROUNDDOWN va)" and ?n = "unat (chunk va len)"
  have at: "uaddr m root (va + of_nat i) = ?pa + of_nat i" if "i < ?n" for i
    using chunk_at [OF that assms] .
  have "unat (?pa + of_nat i - ?pa) = i" if "i < ?n" for i
    using that unat_lt64 [of "chunk va len"] by (simp add: unat_of_nat64)
  moreover have "\<exists>i < ?n. a = ?pa + of_nat i" if "unat (a - ?pa) < ?n" for a
    using that by (intro exI [of _ "unat (a - ?pa)"]) simp
  ultimately show ?thesis unfolding copied_def write_bytes_apply using at by auto
qed

lemma copied_append:
  assumes sp: "aspace s root ps M" and r: "\<And>i. i < n + k \<Longrightarrow> pageno (va + of_nat i) \<in> M" and "n + k < 2 ^ 64"
    and c1: "copied root va n src (mem s) m1" and c2: "copied root va' k (\<lambda>i. src (n + i)) m1 m2"
    and u: "\<And>i. i < k \<Longrightarrow> uaddr m1 root (va' + of_nat i) = uaddr (mem s) root (va + of_nat (n + i))"
  shows "copied root va (n + k) src (mem s) m2"
  unfolding copied_def
proof (intro conjI allI impI)
  fix i assume i: "i < n + k"
  show "m2 (uaddr (mem s) root (va + of_nat i)) = src i"
  proof (cases "i < n")
    case True
    have "uaddr (mem s) root (va + of_nat i) \<noteq> uaddr m1 root (va' + of_nat j)" if j: "j < k" for j
    proof
      assume "uaddr (mem s) root (va + of_nat i) = uaddr m1 root (va' + of_nat j)"
      then have "va + of_nat i = va + of_nat (n + j)"
        unfolding u [OF j] using uaddr_inj [OF sp r [OF i] r [of "n + j"]] j by simp
      then have "unat (of_nat i :: u64) = unat (of_nat (n + j) :: u64)" by simp
      then show False using True i j assms(3) by (simp add: unat_of_nat64 del: of_nat_add)
    qed
    then have "m2 (uaddr (mem s) root (va + of_nat i)) = m1 (uaddr (mem s) root (va + of_nat i))"
      using c2 unfolding copied_def by blast
    then show ?thesis using c1 True by (simp add: copied_def)
  next
    case False
    then have "i - n < k" "n + (i - n) = i" using i by simp_all
    with c2 u [of "i - n"] show ?thesis unfolding copied_def by metis
  qed
next
  fix a assume a: "\<forall>i < n + k. a \<noteq> uaddr (mem s) root (va + of_nat i)"
  then have "m2 a = m1 a" using c2 u unfolding copied_def by (metis nat_add_left_cancel_less)
  also have "\<dots> = mem s a" using c1 a unfolding copied_def by simp
  finally show "m2 a = mem s a" .
qed

lemma copyout_loop_ok:
  assumes "aspace s root ps M" and "urange (mem s) root M dstva (unat len)" and "unat len < fuel"
  shows "\<exists>m. copyout_loop fuel root dstva src len e s = Ok 0 e (s\<lparr>mem := m\<rparr>) \<and>
     changes_in (frame (mem s) root ` M) (mem s) m \<and> copied root dstva (unat len) src (mem s) m"
  using assms
proof (induction fuel arbitrary: s dstva src len)
  case (Suc fuel s dstva src len)
  show ?case
  proof (cases "len = 0")
    case True
    then show ?thesis by (intro exI [of _ "mem s"]) (simp add: copied_def)
  next
    case False
    then have len: "0 < len" by (simp add: word_neq_0_conv)
    note d = aspaceD [OF Suc.prems(1)]
    note pg = urange_first [OF Suc.prems(2) len]
    note wa = walkaddr_user [OF Suc.prems(1) pg]
    let ?n = "chunk dstva len" and ?va0 = "PGROUNDDOWN dstva"
    let ?m1 = "write_bytes (frame (mem s) root (pageno dstva) + (dstva - ?va0)) src (unat ?n) (mem s)"
    have chM: "changes_in (frame (mem s) root ` M) (mem s) ?m1"
      using chunk_write [OF len] by (rule changes_in_mono) (use pg(1) in simp)
    note wf = write_frames [OF Suc.prems(1) chM]
    have ent: "pent ?m1 root j = pent (mem s) root j" if "j \<in> M" for j using wf(2) d(3) [OF that] by blast
    have ur: "urange ?m1 root M (?va0 + PGSIZE) (unat (len - ?n))"
      using Suc.prems(2) len ent by (rule urange_shift)
    have split: "unat len = unat ?n + unat (len - ?n)" "unat (len - ?n) < fuel"
      using Suc.prems(3) chunk_props(1-3) [OF len, of dstva] by linarith+
    from Suc.IH [of "s\<lparr>mem := ?m1\<rparr>" "?va0 + PGSIZE" "len - ?n" "\<lambda>i. src (unat ?n + i)"] wf(1) ur split(2)
    obtain m where m: "copyout_loop fuel root (?va0 + PGSIZE) (\<lambda>i. src (unat ?n + i)) (len - ?n) e (s\<lparr>mem := ?m1\<rparr>) =
        Ok 0 e (s\<lparr>mem := m\<rparr>)" "changes_in (frame ?m1 root ` M) ?m1 m"
      "copied root (?va0 + PGSIZE) (unat (len - ?n)) (\<lambda>i. src (unat ?n + i)) ?m1 m"
      by auto
    have inM: "pageno (dstva + of_nat i) \<in> M" if "i < unat len" for i
      using Suc.prems(2) that by (simp add: urange_def)
    have "copied root dstva (unat len) src (mem s) m"
      unfolding split(1)
    proof (rule copied_append [OF Suc.prems(1) _ _ copied_chunk [OF len] m(3)])
      show "unat ?n + unat (len - ?n) < 2 ^ 64" using split(1) unat_lt64 [of len] by simp
      fix i assume i: "i < unat (len - ?n)"
      have "pageno (dstva + of_nat (unat ?n + i)) \<in> M" using split(1) i by (intro inM) simp
      then show "uaddr ?m1 root (?va0 + PGSIZE + of_nat i) = uaddr (mem s) root (dstva + of_nat (unat ?n + i))"
        unfolding chunk_props(4) [OF len i] using ent by (simp add: uaddr_def frame_def)
    qed (use inM split(1) in simp)
    moreover have "frame ?m1 root ` M = frame (mem s) root ` M"
      using ent by (intro image_cong refl) (simp add: frame_def)
    moreover have "copyout_loop (Suc fuel) root dstva src len e s = Ok 0 e (s\<lparr>mem := m\<rparr>)"
      using len wa m(1) by (simp add: Let_def chunk_def)
    ultimately show ?thesis using changes_in_trans [OF chM] m(2) by metis
  qed
qed simp

subsection \<open>copyin\<close>

lemma copyin_loop_ok:
  assumes "aspace s root ps M" and "urange (mem s) root M srcva (unat len)" and "unat len < fuel"
  shows "copyin_loop fuel root dst k srcva len e s = Ok (0, \<lambda>i. if k \<le> i \<and> i < k + unat len
     then mem s (uaddr (mem s) root (srcva + of_nat (i - k))) else dst i) e s"
  using assms
proof (induction fuel arbitrary: dst k srcva len)
  case (Suc fuel dst k srcva len)
  show ?case
  proof (cases "len = 0")
    case True
    then show ?thesis by (auto simp: fun_eq_iff)
  next
    case False
    then have len: "0 < len" by (simp add: word_neq_0_conv)
    note wa = walkaddr_user [OF Suc.prems(1) urange_first [OF Suc.prems(2) len]]
    let ?n = "chunk srcva len" and ?va0 = "PGROUNDDOWN srcva"
    let ?pa = "frame (mem s) root (pageno srcva) + (srcva - ?va0)"
    let ?d = "\<lambda>i. if k \<le> i \<and> i < k + unat ?n then mem s (?pa + of_nat (i - k)) else dst i"
    have ur: "urange (mem s) root M (?va0 + PGSIZE) (unat (len - ?n))"
      using Suc.prems(2) len by (rule urange_shift) simp
    have split: "unat len = unat ?n + unat (len - ?n)" "unat (len - ?n) < fuel"
      using Suc.prems(3) chunk_props(1-3) [OF len, of srcva] by linarith+
    let ?d' = "\<lambda>i. if k + unat ?n \<le> i \<and> i < k + unat ?n + unat (len - ?n)
        then mem s (uaddr (mem s) root (?va0 + PGSIZE + of_nat (i - (k + unat ?n)))) else ?d i"
    have ih: "copyin_loop fuel root ?d (k + unat ?n) (?va0 + PGSIZE) (len - ?n) e s = Ok (0, ?d') e s"
      using Suc.prems(1) ur split(2) by (rule Suc.IH)
    have "?d' i = (if k \<le> i \<and> i < k + unat len
        then mem s (uaddr (mem s) root (srcva + of_nat (i - k))) else dst i)" for i
    proof (cases "k + unat ?n \<le> i \<and> i < k + unat len")
      case True
      then have j: "i - (k + unat ?n) < unat (len - ?n)" and "unat ?n + (i - (k + unat ?n)) = i - k"
        using split(1) by linarith+
      then have *: "?va0 + PGSIZE + of_nat (i - (k + unat ?n)) = srcva + of_nat (i - k)"
        using chunk_props(4) [OF len j] by (simp only:)
      have "?d' i = mem s (uaddr (mem s) root (?va0 + PGSIZE + of_nat (i - (k + unat ?n))))"
        using True split(1) by (auto simp del: of_nat_diff of_nat_add)
      then show ?thesis unfolding * using True by auto
    next
      case False
      then show ?thesis
        using chunk_at [OF _ len, of "i - k" srcva "mem s" root] split(1) by auto
    qed
    then show ?thesis using len wa ih by (simp add: Let_def chunk_def)
  qed
qed simp

text \<open>
  C6. Data survives the trip through user memory: on a user-accessible range \<open>copyout\<close> succeeds,
  keeps the address space, changes no byte but those of the range, and a \<open>copyin\<close> of the same
  range then succeeds and returns exactly the bytes that were copied out, also when the range spans
  many pages that are scattered over physical memory.
\<close>

theorem copyout_copyin:
  assumes "aspace s root ps M" and "urange (mem s) root M va (unat len)"
  shows "\<exists>s'. copyout root va src len e s = Ok 0 e s' \<and> aspace s' root ps M \<and>
     (\<forall>a. (\<forall>i < unat len. a \<noteq> uaddr (mem s) root (va + of_nat i)) \<longrightarrow> mem s' a = mem s a) \<and>
     copyin root dst va len e s' = Ok (0, \<lambda>i. if i < unat len then src i else dst i) e s'"
proof -
  from copyout_loop_ok [OF assms lessI, of src e] obtain m where
    m: "copyout root va src len e s = Ok 0 e (s\<lparr>mem := m\<rparr>)"
      "changes_in (frame (mem s) root ` M) (mem s) m" "copied root va (unat len) src (mem s) m"
    by (auto simp: copyout_def simp del: copyout_loop.simps)
  note wf = write_frames [OF assms(1) m(2)]
  have ent: "pent m root j = pent (mem s) root j" if "j \<in> M" for j
    using wf(2) aspaceD(3) [OF assms(1) that] by blast
  have ur: "urange (mem (s\<lparr>mem := m\<rparr>)) root M va (unat len)" using assms(2) ent by (simp add: urange_def)
  have "m (uaddr m root (va + of_nat i)) = src i" if "i < unat len" for i
  proof -
    have "pageno (va + of_nat i) \<in> M" using assms(2) that by (simp add: urange_def)
    then have "uaddr m root (va + of_nat i) = uaddr (mem s) root (va + of_nat i)"
      using ent by (simp add: uaddr_def frame_def)
    then show ?thesis using m(3) that by (simp add: copied_def)
  qed
  then have "copyin root dst va len e (s\<lparr>mem := m\<rparr>) =
      Ok (0, \<lambda>i. if i < unat len then src i else dst i) e (s\<lparr>mem := m\<rparr>)"
    using copyin_loop_ok [OF wf(1) ur lessI, of dst 0 e]
    by (simp add: copyin_def fun_eq_iff del: copyin_loop.simps)
  then show ?thesis using m wf(1) by (intro exI [of _ "s\<lparr>mem := m\<rparr>"]) (simp add: copied_def)
qed

lemma booted_range:
  assumes "aspace s root ps {..<3}" and "fresh_pages root {..<3} (mem s)"
  shows "urange (mem s) root {..<3} 0xFFE (unat (6 :: u64))"
  unfolding urange_def
proof (intro allI impI)
  fix i assume "i < unat (6 :: u64)"
  then have "unat (0xFFE + of_nat i :: u64) = 0xFFE + i" by (simp add: unat_add64 unat_of_nat)
  then have p: "pageno (0xFFE + of_nat i) \<in> {..<3}" using \<open>i < _\<close> by (simp add: pageno_def)
  let ?v = "pent (mem s) root (pageno (0xFFE + of_nat i))"
  have "PTE_FLAGS ?v = PTE_V OR PTE_R OR PTE_W OR PTE_X OR PTE_U"
    using assms(2) p by (simp add: fresh_pages_def)
  then have "(?v AND 0x3FF) AND PTE_U = 0x10" by (simp add: PTE_FLAGS_def pte_bits)
  then have "?v AND PTE_U = 0x10" by (simp add: and.assoc PTE_U_def)
  with p show "pageno (0xFFE + of_nat i) \<in> {..<3} \<and> ?v AND PTE_U \<noteq> 0" by simp
qed

theorem copyout_copyin_witness:
  "\<exists>s0 s1 root s s'. kinit [] \<lparr>mem = (\<lambda>_. 7), lk = sample_lk, img = sample_img, freelist = 0\<rparr> = Ok () [] s0 \<and>
     uvmcreate [] s0 = Ok root [] s1 \<and> uvmalloc root 0 0x2345 [] s1 = Ok 0x2345 [] s \<and>
     copyout root 0xFFE of_nat 6 [] s = Ok 0 [] s' \<and>
     copyin root (\<lambda>_. 9) 0xFFE 6 [] s' = Ok (0, \<lambda>i. if i < 6 then of_nat i else 9) [] s'"
proof -
  obtain s0 s1 root s ps where
    b: "kinit [] \<lparr>mem = (\<lambda>_. 7), lk = sample_lk, img = sample_img, freelist = 0\<rparr> = Ok () [] s0"
      "uvmcreate [] s0 = Ok root [] s1" "uvmalloc root 0 0x2345 [] s1 = Ok 0x2345 [] s"
      "aspace s root ps {..<3}" "fresh_pages root {..<3} (mem s)"
    using booted_user by blast
  from copyout_copyin [OF b(4) booted_range [OF b(4,5)], where src = of_nat and dst = "\<lambda>_. 9" and e = "[]"] b(1-3)
  show ?thesis by (fastforce simp: fun_eq_iff)
qed

subsection \<open>Isolation\<close>

text \<open>
  The two pages above the user pages (trap frames and trampoline) are mapped without \<open>PTE_U\<close>.
\<close>

definition top_guard :: "mem \<Rightarrow> u64 \<Rightarrow> bool" where
  "top_guard m root \<longleftrightarrow> (\<forall>va. TRAPFRAME \<le> va \<longrightarrow> va < MAXVA \<longrightarrow> entry m root va 2 AND PTE_U = 0)"

definition accessible :: "mem \<Rightarrow> u64 \<Rightarrow> nat set \<Rightarrow> nat set" where
  "accessible m root M = {i \<in> M. pent m root i AND PTE_U \<noteq> 0}"

lemma walkaddr_total:
  assumes sp: "aspace s root ps M" and top: "top_guard (mem s) root"
  shows "walkaddr root (PGROUNDDOWN va) e s = Ok (if pageno va \<in> accessible (mem s) root M
     then frame (mem s) root (pageno va) else 0) e s"
proof (cases "pageno va \<in> accessible (mem s) root M")
  case True
  then show ?thesis using walkaddr_user [OF sp] by (simp add: accessible_def)
next
  case False
  note d = aspaceD [OF sp]
  let ?a = "PGROUNDDOWN va"
  show ?thesis
  proof (cases "?a < MAXVA")
    case lt: True
    have "entry (mem s) root ?a 2 AND PTE_V = 0 \<or> entry (mem s) root ?a 2 AND PTE_U = 0"
    proof (cases "user_page (pageno va)")
      case True
      then show ?thesis
        using False d(8) [of "pageno va"] by (auto simp: accessible_def pent_def upage_pageno)
    next
      case nu: False
      have "TRAPFRAME \<le> ?a"
        using nu by (simp add: word_le_nat_alt user_page_def pageno_def unat_PGROUNDDOWN)
      then show ?thesis using top lt by (simp add: top_guard_def)
    qed
    then show ?thesis
      using walk_look [OF lt, of root e s] False linorder_not_le [THEN iffD2, OF lt]
      by (auto simp: walkaddr_def entry_def split: option.splits)
  next
    case ge: False
    then have "MAXVA \<le> ?a" by simp
    then show ?thesis using False by (simp add: walkaddr_def)
  qed
qed

lemma urange_split:
  assumes "0 < len"
  shows "urange m root M va (unat len) \<longleftrightarrow> pageno va \<in> accessible m root M \<and>
     urange m root M (PGROUNDDOWN va + PGSIZE) (unat (len - chunk va len))"
proof
  assume "urange m root M va (unat len)"
  then show "pageno va \<in> accessible m root M \<and> urange m root M (PGROUNDDOWN va + PGSIZE) (unat (len - chunk va len))"
    using urange_first [OF _ assms] urange_shift [OF _ assms refl] by (simp add: accessible_def)
next
  assume r: "pageno va \<in> accessible m root M \<and> urange m root M (PGROUNDDOWN va + PGSIZE) (unat (len - chunk va len))"
  show "urange m root M va (unat len)"
    unfolding urange_def
  proof (intro allI impI)
    fix i assume i: "i < unat len"
    show "pageno (va + of_nat i) \<in> M \<and> pent m root (pageno (va + of_nat i)) AND PTE_U \<noteq> 0"
    proof (cases "i < unat (chunk va len)")
      case True
      then have "pageno (va + of_nat i) = pageno va"
        using chunk_props(1) [OF assms, of va] by (intro uaddr_same_page(1)) simp
      then show ?thesis using r by (simp add: accessible_def)
    next
      case False
      then have j: "i - unat (chunk va len) < unat (len - chunk va len)" "unat (chunk va len) + (i - unat (chunk va len)) = i"
        using i chunk_props(3) [OF assms, of va] by linarith+
      then show ?thesis
        using r chunk_props(4) [OF assms j(1)] unfolding urange_def by metis
    qed
  qed
qed

lemma urange_cong: "(\<And>j. j \<in> M \<Longrightarrow> pent m' root j = pent m root j) \<Longrightarrow> urange m' root M va n = urange m root M va n"
  unfolding urange_def by metis

lemma copyout_loop_safe:
  assumes "aspace s root ps M" and "top_guard (mem s) root" and "unat len < fuel"
  shows "\<exists>r m. copyout_loop fuel root dstva src len e s = Ok r e (s\<lparr>mem := m\<rparr>) \<and>
     r = (if urange (mem s) root M dstva (unat len) then 0 else -1) \<and>
     changes_in (frame (mem s) root ` accessible (mem s) root M) (mem s) m"
  using assms
proof (induction fuel arbitrary: s dstva src len)
  case (Suc fuel s dstva src len)
  show ?case
  proof (cases "len = 0")
    case True
    then show ?thesis by (intro exI [of _ 0] exI [of _ "mem s"]) (simp add: urange_def)
  next
    case False
    then have len: "0 < len" by (simp add: word_neq_0_conv)
    note wt = walkaddr_total [OF Suc.prems(1,2), of dstva e]
    show ?thesis
    proof (cases "pageno dstva \<in> accessible (mem s) root M")
      case no: False
      then have "copyout_loop (Suc fuel) root dstva src len e s = Ok (-1) e (s\<lparr>mem := mem s\<rparr>)"
        using wt len by (simp add: Let_def)
      then show ?thesis using no urange_split [OF len] changes_in_refl by metis
    next
      case yes: True
      let ?n = "chunk dstva len" and ?va0 = "PGROUNDDOWN dstva" and ?F = "frame (mem s) root"
      let ?m1 = "write_bytes (?F (pageno dstva) + (dstva - ?va0)) src (unat ?n) (mem s)"
      have ch: "changes_in (?F ` accessible (mem s) root M) (mem s) ?m1"
        using chunk_write [OF len] by (rule changes_in_mono) (use yes in simp)
      have chM: "changes_in (?F ` M) (mem s) ?m1"
        using ch by (rule changes_in_mono) (auto simp: accessible_def)
      note wf = write_frames [OF Suc.prems(1) chM]
      have ent: "pent ?m1 root j = pent (mem s) root j" if "j \<in> M" for j
        using wf(2) aspaceD(3) [OF Suc.prems(1) that] by blast
      then have acc: "accessible ?m1 root M = accessible (mem s) root M" by (auto simp: accessible_def)
      have "top_guard ?m1 root"
        using Suc.prems(2) write_frames(3) [OF Suc.prems(1) chM] sv39_MAXVA by (simp add: top_guard_def)
      moreover have "unat (len - ?n) < fuel"
        using Suc.prems(3) chunk_props(1-3) [OF len, of dstva] by linarith
      ultimately obtain r m where m: "copyout_loop fuel root (?va0 + PGSIZE) (\<lambda>i. src (unat ?n + i)) (len - ?n) e (s\<lparr>mem := ?m1\<rparr>) =
          Ok r e (s\<lparr>mem := m\<rparr>)" "r = (if urange ?m1 root M (?va0 + PGSIZE) (unat (len - ?n)) then 0 else -1)"
        "changes_in (frame ?m1 root ` accessible ?m1 root M) ?m1 m"
        using Suc.IH [of "s\<lparr>mem := ?m1\<rparr>" "len - ?n" "?va0 + PGSIZE" "\<lambda>i. src (unat ?n + i)"] wf(1)
        by auto
      have "frame ?m1 root ` accessible (mem s) root M = ?F ` accessible (mem s) root M"
        using ent by (intro image_cong refl) (simp add: frame_def accessible_def)
      with m(3) acc ch have "changes_in (?F ` accessible (mem s) root M) (mem s) m"
        using changes_in_trans by metis
      moreover have "copyout_loop (Suc fuel) root dstva src len e s = Ok r e (s\<lparr>mem := m\<rparr>)"
        using len wt yes m(1) walkaddr_user(2) [OF Suc.prems(1)]
        by (simp add: Let_def chunk_def accessible_def)
      moreover have "r = (if urange (mem s) root M dstva (unat len) then 0 else -1)"
        using m(2) urange_split [OF len, of "mem s" root M dstva] yes urange_cong [OF ent] by simp
      ultimately show ?thesis by blast
    qed
  qed
qed simp

text \<open>
  C7. Isolation: for every destination address and length, valid or not, \<open>copyout\<close> terminates
  without a panic, returns 0 exactly when the whole range is user-accessible and -1 otherwise, and
  even when it fails half-way it has written only to page frames that the process itself can
  access: no table page, free page or kernel memory can be overwritten through a system call.
\<close>

theorem copyout_isolated:
  assumes "aspace s root ps M" and "top_guard (mem s) root"
  shows "\<exists>r s'. copyout root va src len e s = Ok r e s' \<and> only_mem s s' \<and> aspace s' root ps M \<and>
     r = (if urange (mem s) root M va (unat len) then 0 else -1) \<and>
     changes_in (frame (mem s) root ` accessible (mem s) root M) (mem s) (mem s')"
proof -
  from copyout_loop_safe [OF assms lessI, of len va src e] obtain m where
    m: "copyout root va src len e s = Ok (if urange (mem s) root M va (unat len) then 0 else -1) e (s\<lparr>mem := m\<rparr>)"
      "changes_in (frame (mem s) root ` accessible (mem s) root M) (mem s) m"
    by (auto simp: copyout_def simp del: copyout_loop.simps)
  have "changes_in (frame (mem s) root ` M) (mem s) m"
    using m(2) by (rule changes_in_mono) (auto simp: accessible_def)
  from write_frames(1) [OF assms(1) this] m show ?thesis
    by (intro exI [of _ "if urange (mem s) root M va (unat len) then 0 else -1"] exI [of _ "s\<lparr>mem := m\<rparr>"]) simp
qed

theorem copyout_isolated_witness:
  "\<exists>s0 s1 root s s'. kinit [] \<lparr>mem = (\<lambda>_. 7), lk = sample_lk, img = sample_img, freelist = 0\<rparr> = Ok () [] s0 \<and>
     uvmcreate [] s0 = Ok root [] s1 \<and> uvmalloc root 0 0x2345 [] s1 = Ok 0x2345 [] s \<and>
     copyout root 0x2FFE of_nat 6 [] s = Ok (-1) [] s' \<and>
     changes_in (frame (mem s) root ` accessible (mem s) root {..<3}) (mem s) (mem s')"
proof -
  obtain s0 s1 root s ps where
    b: "kinit [] \<lparr>mem = (\<lambda>_. 7), lk = sample_lk, img = sample_img, freelist = 0\<rparr> = Ok () [] s0"
      "uvmcreate [] s0 = Ok root [] s1" "uvmalloc root 0 0x2345 [] s1 = Ok 0x2345 [] s"
      "aspace s root ps {..<3}" "top_guard (mem s) root"
    using booted_user by (fastforce simp: top_guard_def)
  have "pageno (0x2FFE + of_nat 2) = 3" by (simp add: pageno_def)
  then have "\<not> urange (mem s) root {..<3} 0x2FFE (unat (6 :: u64))"
    unfolding urange_def by (auto intro!: exI [of _ 2])
  with copyout_isolated [OF b(4,5), where va = "0x2FFE" and src = of_nat and len = 6 and e = "[]"] b(1-3)
  show ?thesis by auto
qed

end
