(* ===== verification/Printf.thy ===== *)
theory Printf
  imports Ucopy
begin

text \<open>
  Polled console output: \<open>uartputc_sync\<close> of \<open>kernel/uart.c\<close>, \<open>consputc\<close> of \<open>kernel/console.c\<close> and
  \<open>kernel/printf.c\<close>. The UART is a device outside the sources; what the driver sees of it is the
  number \<open>tx_room\<close> of characters it accepts before the line status register reports it busy, the
  received characters waiting in \<open>uart_rx\<close>, and the characters \<open>uart_sent\<close> handed to it so far. The
  polling loop of \<open>uartputc_sync\<close> ends because the device drains its register by itself.
\<close>

record con_state = vm_state +
  uart_sent :: "u8 list"
  uart_rx :: "u8 list"
  tx_room :: nat
  panicked :: bool
  pr_locking :: bool

definition uart_tx_idle :: "('z con_state_scheme, bool) M" where
  "uart_tx_idle = gets (\<lambda>s. 0 < tx_room s)"

definition uart_write_thr :: "u8 \<Rightarrow> ('z con_state_scheme, unit) M" where
  "uart_write_thr c = modify (\<lambda>s. s\<lparr>uart_sent := uart_sent s @ [c], tx_room := tx_room s - 1\<rparr>)"

definition uartputc_sync :: "u8 \<Rightarrow> ('z con_state_scheme, unit) M" where
  "uartputc_sync c =
     seq push_off (
     bnd (gets panicked) (\<lambda>halted.
     if halted then spin else
     seq (uart_write_thr c)
     pop_off))"

text \<open>\<open>None\<close> is \<open>BACKSPACE\<close>, the value that is no character.\<close>

definition consputc :: "u8 option \<Rightarrow> ('z con_state_scheme, unit) M" where
  "consputc c = (case c of
     None \<Rightarrow> seq (uartputc_sync 8) (seq (uartputc_sync 32) (uartputc_sync 8))
   | Some ch \<Rightarrow> uartputc_sync ch)"

definition digits :: "u8 list" where
  "digits = [48, 49, 50, 51, 52, 53, 54, 55, 56, 57, 97, 98, 99, 100, 101, 102]"

text \<open>
  The digit loop of \<open>printint\<close>. Its first argument is the free space of \<open>buf[16]\<close>; running out
  of it would write outside the array.
\<close>

primrec int_digits :: "nat \<Rightarrow> u32 \<Rightarrow> u32 \<Rightarrow> u8 list \<Rightarrow> u8 list option" where
  "int_digits 0 x base buf = None"
| "int_digits (Suc n) x base buf =
     (let buf' = buf @ [digits ! unat (x mod base)]; x' = x div base
      in if x' \<noteq> 0 then int_digits n x' base buf' else Some buf')"

definition printint :: "u32 \<Rightarrow> u32 \<Rightarrow> bool \<Rightarrow> ('z con_state_scheme, unit) M" where
  "printint xx base sign =
     (let neg = sign \<and> sint xx < 0; x = (if neg then - xx else xx)
      in case int_digits 16 x base [] of None \<Rightarrow> fault ''buf'' | Some buf \<Rightarrow>
         if neg \<and> length buf = 16 then fault ''buf'' else
         for_each (rev (if neg then buf @ [45] else buf)) (\<lambda>c. consputc (Some c)))"

primrec ptr_digits :: "nat \<Rightarrow> u64 \<Rightarrow> ('z con_state_scheme, unit) M" where
  "ptr_digits 0 x = skip"
| "ptr_digits (Suc n) x =
     seq (consputc (Some (digits ! unat (drop_bit 60 x)))) (ptr_digits n (push_bit 4 x))"

definition printptr :: "u64 \<Rightarrow> ('z con_state_scheme, unit) M" where
  "printptr x = seq (consputc (Some 48)) (seq (consputc (Some 120)) (ptr_digits 16 x))"

datatype va_arg = VaInt u32 | VaPtr u64 | VaStr "u8 list option"

text \<open>
  The format is the list of its characters before the terminating null. An argument of the wrong
  type or a missing one is undefined in C.
\<close>

fun printf_loop :: "u8 list \<Rightarrow> va_arg list \<Rightarrow> ('z con_state_scheme, unit) M" where
  "printf_loop [] ap = skip"
| "printf_loop (c # fmt) ap =
     (if c \<noteq> 37 then seq (consputc (Some c)) (printf_loop fmt ap)
      else (case fmt of [] \<Rightarrow> skip | c' # fmt' \<Rightarrow>
        if c' = 100 then (case ap of VaInt v # ap' \<Rightarrow> seq (printint v 10 True) (printf_loop fmt' ap') | _ \<Rightarrow> fault ''va_arg'')
        else if c' = 120 then (case ap of VaInt v # ap' \<Rightarrow> seq (printint v 16 True) (printf_loop fmt' ap') | _ \<Rightarrow> fault ''va_arg'')
        else if c' = 112 then (case ap of VaPtr v # ap' \<Rightarrow> seq (printptr v) (printf_loop fmt' ap') | _ \<Rightarrow> fault ''va_arg'')
        else if c' = 115 then (case ap of VaStr v # ap' \<Rightarrow>
            seq (for_each (case v of None \<Rightarrow> [40, 110, 117, 108, 108, 41] | Some str \<Rightarrow> str) (\<lambda>ch. consputc (Some ch)))
            (printf_loop fmt' ap') | _ \<Rightarrow> fault ''va_arg'')
        else if c' = 37 then seq (consputc (Some 37)) (printf_loop fmt' ap)
        else seq (consputc (Some 37)) (seq (consputc (Some c')) (printf_loop fmt' ap))))"

definition printf :: "u8 list \<Rightarrow> va_arg list \<Rightarrow> ('z con_state_scheme, unit) M" where
  "printf fmt ap =
     bnd (gets pr_locking) (\<lambda>locking.
     seq (whenM locking (acquire PrLock)) (
     seq (printf_loop fmt ap)
     (whenM locking (release PrLock))))"

definition printfinit :: "('z con_state_scheme, unit) M" where
  "printfinit = seq (initlock PrLock) (modify (\<lambda>s. s\<lparr>pr_locking := True\<rparr>))"

text \<open>The characters of a string literal.\<close>

definition cstr :: "string \<Rightarrow> u8 list" where
  "cstr s = map (\<lambda>c. of_nat (of_char c)) s"

end
