(* ===== verification/Proc.thy ===== *)
theory Proc
  imports Printf
begin

text \<open>
  Processes and threads: the structures of \<open>kernel/proc.h\<close> and the part of \<open>kernel/proc.c\<close> that
  does not call the file system. A \<open>struct proc *\<close> is a slot of the table \<open>proc[NPROC]\<close>, a
  \<open>struct thread *\<close> a pair of slots, the null pointer is \<open>None\<close>. Trap frames live in the raw memory.
\<close>

subsection \<open>proc.h\<close>

datatype states = UNUSED | USED | SLEEPING | RUNNABLE | RUNNING | ZOMBIE

definition states_val :: "states \<Rightarrow> int" where
  "states_val st = (case st of UNUSED \<Rightarrow> 0 | USED \<Rightarrow> 1 | SLEEPING \<Rightarrow> 2 | RUNNABLE \<Rightarrow> 3 | RUNNING \<Rightarrow> 4 | ZOMBIE \<Rightarrow> 5)"

text \<open>The addresses that the kernel sleeps on, by the object they belong to.\<close>

datatype chan =
    ChProc pslot | ChThread tslot | ChTicks | ChSem | ChSleeplock lockid | ChLog
  | ChPipeR u64 | ChPipeW u64 | ChCons | ChUartTx | ChDiskBuf nat | ChDiskFree

record thread =
  t_state :: states
  t_chan :: "chan option"
  t_killed :: bool
  t_xstate :: int
  tid :: int
  thread_parent :: "tslot option"
  proc_parent :: "pslot option"
  kstack :: u64
  trapframe :: u64
  UserTrapFrameBackup :: bytes
  t_context :: context_t
  t_name :: bytes

record proc =
  state :: states
  killed :: bool
  xstate :: int
  pid :: int
  threads :: "nat \<Rightarrow> thread"
  parent :: "pslot option"
  main_thread :: "tslot option"
  sz :: u64
  pagetable :: u64
  ofile :: "nat \<Rightarrow> nat option"
  cwd :: "nat option"
  name :: bytes
  pendingSignals :: u32
  signalMask :: u32
  signalHandlers :: "nat \<Rightarrow> u64"
  stopped :: bool
  signal_mask_backup :: u32
  ignore_signals :: bool
  maskHandlers :: "nat \<Rightarrow> u32"

record proc_state = con_state +
  procs :: "pslot \<Rightarrow> proc"
  initproc :: "pslot option"
  nextpid :: int
  nexttid :: int
  bsems :: "nat \<Rightarrow> int"

text \<open>Offsets of the fields of \<open>struct trapframe\<close>.\<close>

definition tf_kernel_satp :: u64 where "tf_kernel_satp = 0"
definition tf_kernel_sp :: u64 where "tf_kernel_sp = 8"
definition tf_kernel_trap :: u64 where "tf_kernel_trap = 16"
definition tf_epc :: u64 where "tf_epc = 24"
definition tf_kernel_hartid :: u64 where "tf_kernel_hartid = 32"
definition tf_ra :: u64 where "tf_ra = 40"
definition tf_sp :: u64 where "tf_sp = 48"
definition tf_a0 :: u64 where "tf_a0 = 112"
definition tf_a1 :: u64 where "tf_a1 = 120"
definition tf_a7 :: u64 where "tf_a7 = 168"
definition sizeof_trapframe :: nat where "sizeof_trapframe = 288"

lemmas tf_offsets = tf_kernel_satp_def tf_kernel_sp_def tf_kernel_trap_def tf_epc_def
  tf_kernel_hartid_def tf_ra_def tf_sp_def tf_a0_def tf_a1_def tf_a7_def

subsection \<open>Access to the tables\<close>

definition deref :: "'a option \<Rightarrow> ('s, 'a) M" where
  "deref x = (case x of None \<Rightarrow> fault ''null pointer'' | Some v \<Rightarrow> return v)"

definition getp :: "pslot \<Rightarrow> (proc \<Rightarrow> 'a) \<Rightarrow> ('z proc_state_scheme, 'a) M" where
  "getp p f = gets (\<lambda>s. f (procs s p))"

definition setp :: "pslot \<Rightarrow> (proc \<Rightarrow> proc) \<Rightarrow> ('z proc_state_scheme, unit) M" where
  "setp p f = modify (\<lambda>s. s\<lparr>procs := (procs s)(p := f (procs s p))\<rparr>)"

definition thread_of :: "'z proc_state_scheme \<Rightarrow> tslot \<Rightarrow> thread" where
  "thread_of s t = threads (procs s (fst t)) (snd t)"

definition gett :: "tslot \<Rightarrow> (thread \<Rightarrow> 'a) \<Rightarrow> ('z proc_state_scheme, 'a) M" where
  "gett t f = gets (\<lambda>s. f (thread_of s t))"

definition upd_thread :: "nat \<Rightarrow> (thread \<Rightarrow> thread) \<Rightarrow> proc \<Rightarrow> proc" where
  "upd_thread i f p = p\<lparr>threads := (threads p)(i := f (threads p i))\<rparr>"

definition sett :: "tslot \<Rightarrow> (thread \<Rightarrow> thread) \<Rightarrow> ('z proc_state_scheme, unit) M" where
  "sett t f = setp (fst t) (upd_thread (snd t) f)"

definition curproc :: "('z proc_state_scheme, pslot) M" where
  "curproc = bnd myproc deref"

definition curthread :: "('z proc_state_scheme, tslot) M" where
  "curthread = bnd mythread deref"

text \<open>A load or store through a trap frame pointer, at a field offset.\<close>

definition tf_get :: "tslot \<Rightarrow> u64 \<Rightarrow> ('z proc_state_scheme, u64) M" where
  "tf_get t off = bnd (gett t trapframe) (\<lambda>tf.
     if tf = 0 then fault ''null pointer'' else rd64 (tf + off))"

definition tf_set :: "tslot \<Rightarrow> u64 \<Rightarrow> u64 \<Rightarrow> ('z proc_state_scheme, unit) M" where
  "tf_set t off v = bnd (gett t trapframe) (\<lambda>tf.
     if tf = 0 then fault ''null pointer'' else wr64 (tf + off) v)"

lemma deref_run [simp]: "deref (Some v) e s = Ok v e s" "deref None e s = Fault ''null pointer''"
  by (simp_all add: deref_def)

lemma getp_run [simp]: "getp p f e s = Ok (f (procs s p)) e s"
  by (simp add: getp_def)

lemma setp_run [simp]: "setp p f e s = Ok () e (s\<lparr>procs := (procs s)(p := f (procs s p))\<rparr>)"
  by (simp add: setp_def)

lemma gett_run [simp]: "gett t f e s = Ok (f (thread_of s t)) e s"
  by (simp add: gett_def)

lemma sett_run [simp]:
  "sett t f e s = Ok () e (s\<lparr>procs := (procs s)(fst t := upd_thread (snd t) f (procs s (fst t)))\<rparr>)"
  by (simp add: sett_def)

subsection \<open>Initialization and identifiers\<close>

definition procinit :: "('z proc_state_scheme, unit) M" where
  "procinit =
     seq (initlock PidLock) (
     seq (initlock WaitLock) (
     for_each [0..<NPROC] (\<lambda>p.
       seq (initlock (ProcLock p)) (sett (p, 0) (\<lambda>t. t\<lparr>kstack := KSTACK p\<rparr>)))))"

definition allocpid :: "('z proc_state_scheme, int) M" where
  "allocpid =
     seq (acquire PidLock) (
     bnd (gets nextpid) (\<lambda>pid.
     seq (modify (\<lambda>s. s\<lparr>nextpid := nextpid s + 1\<rparr>)) (
     seq (release PidLock)
     (return pid))))"

definition alloctid :: "('z proc_state_scheme, int) M" where
  "alloctid =
     seq (acquire TidLock) (
     bnd (gets nexttid) (\<lambda>tid.
     seq (modify (\<lambda>s. s\<lparr>nexttid := nexttid s + 1\<rparr>)) (
     seq (release TidLock)
     (return tid))))"

subsection \<open>Page tables of a process\<close>

definition proc_pagetable :: "pslot \<Rightarrow> ('z proc_state_scheme, u64) M" where
  "proc_pagetable p =
     bnd uvmcreate (\<lambda>pagetable.
     if pagetable = 0 then return 0 else
     bnd (gets (\<lambda>s. trampoline (img s))) (\<lambda>trampoline.
     bnd (mappages pagetable TRAMPOLINE PGSIZE trampoline (PTE_R OR PTE_X)) (\<lambda>r.
     if r < 0 then seq (uvmfree pagetable 0) (return 0) else
     bnd (getp p main_thread) (\<lambda>mt.
     bnd (deref mt) (\<lambda>t.
     bnd (gett t trapframe) (\<lambda>tf.
     bnd (mappages pagetable TRAPFRAME PGSIZE tf (PTE_R OR PTE_W)) (\<lambda>r.
     if r < 0 then
       seq (uvmunmap pagetable TRAMPOLINE 1 False) (
       seq (uvmfree pagetable 0)
       (return 0))
     else return pagetable)))))))"

definition proc_freepagetable :: "u64 \<Rightarrow> u64 \<Rightarrow> ('z proc_state_scheme, unit) M" where
  "proc_freepagetable pt size' =
     seq (uvmunmap pt TRAMPOLINE 1 False) (
     seq (uvmunmap pt TRAPFRAME 1 False)
     (uvmfree pt size'))"

subsection \<open>allocproc, freeproc, freethread\<close>

definition freeproc :: "pslot \<Rightarrow> ('z proc_state_scheme, unit) M" where
  "freeproc p =
     bnd (getp p pagetable) (\<lambda>pt.
     bnd (getp p sz) (\<lambda>size'.
     seq (whenM (pt \<noteq> 0) (proc_freepagetable pt size')) (
     bnd (gett (p, 0) trapframe) (\<lambda>tf.
     seq (whenM (tf \<noteq> 0) (kfree tf)) (
     setp p (\<lambda>pr. pr\<lparr>pagetable := 0, sz := 0, pid := 0, parent := None, name := (name pr)(0 := 0),
       killed := False, xstate := 0, state := UNUSED\<rparr>))))))"

text \<open>
  \<open>t == t->proc_parent->threads\<close>: the first slot of its own process. The comparison only forms an
  address, so a null \<open>proc_parent\<close> is no fault here.
\<close>

definition first_thread :: "tslot \<Rightarrow> pslot option \<Rightarrow> bool" where
  "first_thread t pp \<longleftrightarrow> pp = Some (fst t) \<and> snd t = 0"

definition freethread :: "tslot \<Rightarrow> ('z proc_state_scheme, unit) M" where
  "freethread t =
     bnd (gett t kstack) (\<lambda>ks.
     bnd (gett t proc_parent) (\<lambda>pp.
     seq (whenM (ks \<noteq> 0 \<and> \<not> first_thread t pp) (kfree ks)) (
     seq (whenM (\<not> first_thread t pp) (sett t (\<lambda>th. th\<lparr>trapframe := 0\<rparr>))) (
     sett t (\<lambda>th. th\<lparr>tid := 0, thread_parent := None, proc_parent := None, t_name := (t_name th)(0 := 0),
       t_chan := None, t_killed := False, t_xstate := 0, t_state := UNUSED\<rparr>)))))"

definition zero_context :: context_t where
  "zero_context = \<lparr>ctx_ra = 0, ctx_sp = 0, ctx_s = (\<lambda>_. 0)\<rparr>"

text \<open>The code after \<open>found\<close> in \<open>allocproc\<close>.\<close>

definition allocproc_found :: "pslot \<Rightarrow> ('z proc_state_scheme, pslot option) M" where
  "allocproc_found p =
     bnd allocpid (\<lambda>newpid.
     seq (setp p (\<lambda>pr. pr\<lparr>pid := newpid, state := USED, pendingSignals := 0, signalMask := 0,
       stopped := False, signal_mask_backup := 0, ignore_signals := False,
       signalHandlers := (\<lambda>i. if i < 32 then SIG_DFL else signalHandlers pr i),
       maskHandlers := (\<lambda>i. if i < 32 then 0 else maskHandlers pr i), main_thread := Some (p, 0)\<rparr>)) (
     bnd alloctid (\<lambda>newtid.
     seq (sett (p, 0) (\<lambda>t. t\<lparr>tid := newtid, t_state := USED, proc_parent := Some p\<rparr>)) (
     bnd kalloc (\<lambda>tf.
     seq (sett (p, 0) (\<lambda>t. t\<lparr>trapframe := tf\<rparr>)) (
     if tf = 0 then
       seq (freeproc p) (seq (freethread (p, 0)) (seq (release (ProcLock p)) (return None)))
     else
     bnd (proc_pagetable p) (\<lambda>pt.
     seq (setp p (\<lambda>pr. pr\<lparr>pagetable := pt\<rparr>)) (
     if pt = 0 then
       seq (freeproc p) (seq (freethread (p, 0)) (seq (release (ProcLock p)) (return None)))
     else
     bnd (gets (\<lambda>s. forkret_pc (img s))) (\<lambda>forkret.
     seq (sett (p, 0) (\<lambda>t. t\<lparr>t_context := zero_context\<lparr>ctx_ra := forkret, ctx_sp := kstack t + PGSIZE\<rparr>\<rparr>))
     (return (Some p)))))))))))"

definition allocproc :: "('z proc_state_scheme, pslot option) M" where
  "allocproc =
     bnd (for_until [0..<NPROC] (\<lambda>p.
       seq (acquire (ProcLock p)) (
       bnd (getp p state) (\<lambda>st.
       if st = UNUSED then return (Some p) else seq (release (ProcLock p)) (return None))))) (\<lambda>r.
     case r of None \<Rightarrow> return None | Some p \<Rightarrow> allocproc_found p)"

subsection \<open>growproc\<close>

text \<open>The local \<open>sz\<close> is a 32-bit \<open>uint\<close>: sizes and sums are truncated to 32 bits.\<close>

definition growproc :: "u32 \<Rightarrow> ('z proc_state_scheme, int) M" where
  "growproc n =
     bnd curproc (\<lambda>p.
     seq (acquire (ProcLock p)) (
     bnd (getp p sz) (\<lambda>psz.
     let sz0 = (ucast psz :: u32) in
     bnd (getp p pagetable) (\<lambda>pt.
     if 0 < sint n then
       bnd (uvmalloc pt (ucast sz0) (ucast (sz0 + n))) (\<lambda>r.
       let sz1 = (ucast r :: u32) in
       if sz1 = 0 then seq (release (ProcLock p)) (return (-1)) else
       seq (setp p (\<lambda>pr. pr\<lparr>sz := ucast sz1\<rparr>)) (seq (release (ProcLock p)) (return 0)))
     else if sint n < 0 then
       bnd (uvmdealloc pt (ucast sz0) (ucast (sz0 + n))) (\<lambda>r.
       seq (setp p (\<lambda>pr. pr\<lparr>sz := ucast (ucast r :: u32)\<rparr>)) (seq (release (ProcLock p)) (return 0)))
     else
       seq (setp p (\<lambda>pr. pr\<lparr>sz := ucast sz0\<rparr>)) (seq (release (ProcLock p)) (return 0))))))"

subsection \<open>Scheduling\<close>

text \<open>
  \<open>swtch\<close> saves the callee-saved registers and gives the CPU away: one step of the environment.
  The thread may be resumed on another hart.
\<close>

definition sched :: "('z proc_state_scheme, unit) M" where
  "sched =
     bnd curthread (\<lambda>t.
     bnd (gett t proc_parent) (\<lambda>pp.
     bnd (deref pp) (\<lambda>p.
     bnd (holding (ProcLock p)) (\<lambda>h.
     if \<not> h then panic ''sched p->lock'' else
     bnd mycpu (\<lambda>c.
     if noff c \<noteq> 1 then panic ''sched locks'' else
     bnd (gett t t_state) (\<lambda>st.
     if st = RUNNING then panic ''sched running'' else
     bnd intr_get (\<lambda>on.
     if on then panic ''sched interruptible'' else
     seq switch
     (set_mycpu (\<lambda>c'. c'\<lparr>intena := intena c\<rparr>)))))))))"

definition yield :: "('z proc_state_scheme, unit) M" where
  "yield =
     bnd curthread (\<lambda>t.
     bnd (gett t proc_parent) (\<lambda>pp.
     bnd (deref pp) (\<lambda>p.
     seq (acquire (ProcLock p)) (
     seq (sett t (\<lambda>th. th\<lparr>t_state := RUNNABLE\<rparr>)) (
     seq sched
     (release (ProcLock p)))))))"

definition sleep :: "chan \<Rightarrow> lockid \<Rightarrow> ('z proc_state_scheme, unit) M" where
  "sleep ch lck =
     bnd curthread (\<lambda>t.
     bnd (gett t proc_parent) (\<lambda>pp.
     bnd (deref pp) (\<lambda>p.
     seq (acquire (ProcLock p)) (
     seq (release lck) (
     seq (sett t (\<lambda>th. th\<lparr>t_chan := Some ch, t_state := SLEEPING\<rparr>)) (
     seq sched (
     seq (sett t (\<lambda>th. th\<lparr>t_chan := None\<rparr>)) (
     bnd (gett t proc_parent) (\<lambda>pp'.
     bnd (deref pp') (\<lambda>p'.
     seq (release (ProcLock p'))
     (acquire lck)))))))))))"

definition wakeup_threads :: "chan option \<Rightarrow> pslot \<Rightarrow> ('z proc_state_scheme, unit) M" where
  "wakeup_threads ch p =
     for_each [0..<NTHREAD] (\<lambda>i.
       bnd mythread (\<lambda>me.
       whenM (me \<noteq> Some (p, i)) (
         bnd (gett (p, i) t_state) (\<lambda>st.
         bnd (gett (p, i) t_chan) (\<lambda>c.
         whenM (st = SLEEPING \<and> c = ch) (sett (p, i) (\<lambda>th. th\<lparr>t_state := RUNNABLE\<rparr>)))))))"

definition wakeup :: "chan option \<Rightarrow> ('z proc_state_scheme, unit) M" where
  "wakeup ch =
     for_each [0..<NPROC] (\<lambda>p.
       seq (acquire (ProcLock p)) (
       seq (wakeup_threads ch p)
       (release (ProcLock p))))"

text \<open>One pass of \<open>scheduler\<close> over the process table; the CPU runs such passes for ever.\<close>

definition scheduler_pass :: "('z proc_state_scheme, unit) M" where
  "scheduler_pass =
     seq intr_on (
     for_each [0..<NPROC] (\<lambda>p.
       seq (acquire (ProcLock p)) (
       seq (for_each [0..<NTHREAD] (\<lambda>i.
         bnd (gett (p, i) t_state) (\<lambda>st.
         whenM (st = RUNNABLE) (
           seq (sett (p, i) (\<lambda>th. th\<lparr>t_state := RUNNING\<rparr>)) (
           seq (set_mycpu (\<lambda>c. c\<lparr>cpu_proc := Some p, cpu_thread := Some (p, i)\<rparr>)) (
           seq switch (
           set_mycpu (\<lambda>c. c\<lparr>cpu_proc := None, cpu_thread := None\<rparr>))))))))
       (release (ProcLock p)))))"

primrec scheduler :: "nat \<Rightarrow> ('z proc_state_scheme, unit) M" where
  "scheduler 0 = set_mycpu (\<lambda>c. c\<lparr>cpu_proc := None, cpu_thread := None\<rparr>)"
| "scheduler (Suc n) = seq (scheduler n) scheduler_pass"

subsection \<open>wait and reparenting\<close>

definition reparent :: "pslot \<Rightarrow> ('z proc_state_scheme, unit) M" where
  "reparent p =
     for_each [0..<NPROC] (\<lambda>pp.
       bnd (getp pp parent) (\<lambda>par.
       whenM (par = Some p) (
         bnd (gets initproc) (\<lambda>ip.
         seq (setp pp (\<lambda>pr. pr\<lparr>parent := ip\<rparr>)) (
         bnd (deref ip) (\<lambda>i.
         bnd (getp i main_thread) (\<lambda>mt.
         wakeup (map_option ChThread mt))))))))"

text \<open>The bytes of an integer variable, and the integer a little-endian byte array holds.\<close>

definition bytes64 :: "u64 \<Rightarrow> bytes" where
  "bytes64 v = (\<lambda>i. ucast (drop_bit (8 * i) v))"

definition bytes32 :: "u32 \<Rightarrow> bytes" where
  "bytes32 v = (\<lambda>i. ucast (drop_bit (8 * i) v))"

definition u64_of :: "bytes \<Rightarrow> u64" where
  "u64_of b = load_le 8 (\<lambda>a. b (unat a)) 0"

definition u32_of :: "bytes \<Rightarrow> u32" where
  "u32_of b = load_le 4 (\<lambda>a. b (unat a)) 0"

text \<open>
  The scan of \<open>wait\<close> over the process table: \<open>Inl\<close> is a \<open>return\<close> out of the loop, \<open>Inr\<close> the
  value of \<open>havekids\<close> at its end.
\<close>

primrec wait_scan :: "nat list \<Rightarrow> pslot \<Rightarrow> u64 \<Rightarrow> bool \<Rightarrow> ('z proc_state_scheme, int + bool) M" where
  "wait_scan [] p addr havekids = return (Inr havekids)"
| "wait_scan (np # nps) p addr havekids =
     bnd (getp np parent) (\<lambda>par.
     if par = Some p then
       seq (acquire (ProcLock np)) (
       bnd (getp np state) (\<lambda>st.
       if st = ZOMBIE then
         bnd (getp np pid) (\<lambda>cpid.
         bnd (getp np xstate) (\<lambda>xs.
         bnd (getp p pagetable) (\<lambda>pt.
         bnd (if addr = 0 then return 0 else copyout pt addr (bytes32 (word_of_int xs)) 4) (\<lambda>r.
         if r < 0 then
           seq (release (ProcLock np)) (seq (release WaitLock) (return (Inl (-1))))
         else
         seq (for_each [0..<NTHREAD] (\<lambda>i.
           bnd (gett (np, i) t_state) (\<lambda>tst. whenM (tst \<noteq> UNUSED) (freethread (np, i))))) (
         seq (freeproc np) (
         seq (release (ProcLock np)) (
         seq (release WaitLock)
         (return (Inl cpid)))))))))
       else
         seq (release (ProcLock np)) (wait_scan nps p addr True)))
     else wait_scan nps p addr havekids)"

definition wait :: "u64 \<Rightarrow> ('z proc_state_scheme, int) M" where
  "wait addr =
     bnd curproc (\<lambda>p.
     seq (acquire WaitLock) (
     sleep_loop (
       bnd (wait_scan [0..<NPROC] p addr False) (\<lambda>r.
       case r of Inl v \<Rightarrow> return (Some v) | Inr havekids \<Rightarrow>
       bnd (getp p killed) (\<lambda>k.
       if \<not> havekids \<or> k then seq (release WaitLock) (return (Some (-1)))
       else seq (sleep (ChProc p) WaitLock) (return None))))))"

subsection \<open>either\_copyout and either\_copyin\<close>

text \<open>
  The destination of \<open>either_copyout\<close> and the source of \<open>either_copyin\<close>: a user virtual address, a
  kernel (physical) address, or a local variable of the caller, held as an array with an offset.
  \<open>either_copyout\<close> returns the destination with what was written to a local variable.
\<close>

datatype xaddr = AtUser u64 | AtKernel u64 | AtLocal bytes nat

definition xaddr_add :: "xaddr \<Rightarrow> nat \<Rightarrow> xaddr" where
  "xaddr_add x n = (case x of AtUser a \<Rightarrow> AtUser (a + of_nat n) | AtKernel a \<Rightarrow> AtKernel (a + of_nat n)
     | AtLocal b k \<Rightarrow> AtLocal b (k + n))"

definition either_copyout :: "xaddr \<Rightarrow> bytes \<Rightarrow> nat \<Rightarrow> ('z proc_state_scheme, int \<times> xaddr) M" where
  "either_copyout dst src len =
     bnd myproc (\<lambda>po.
     case dst of
       AtUser a \<Rightarrow> bnd (deref po) (\<lambda>p. bnd (getp p pagetable) (\<lambda>pt.
         bnd (copyout pt a src (of_nat len)) (\<lambda>r. return (r, dst))))
     | AtKernel a \<Rightarrow> seq (modify (\<lambda>s. s\<lparr>mem := write_bytes a src len (mem s)\<rparr>)) (return (0, dst))
     | AtLocal b k \<Rightarrow> return (0, AtLocal (\<lambda>i. if k \<le> i \<and> i < k + len then src (i - k) else b i) k))"

definition either_copyin :: "bytes \<Rightarrow> nat \<Rightarrow> xaddr \<Rightarrow> nat \<Rightarrow> ('z proc_state_scheme, int \<times> bytes) M" where
  "either_copyin dst off src len =
     bnd myproc (\<lambda>po.
     case src of
       AtUser a \<Rightarrow> bnd (deref po) (\<lambda>p. bnd (getp p pagetable) (\<lambda>pt.
         bnd (copyin pt (\<lambda>i. dst (off + i)) a (of_nat len)) (\<lambda>(r, b).
         return (r, \<lambda>i. if off \<le> i then b (i - off) else dst i))))
     | AtKernel a \<Rightarrow> bnd (gets mem) (\<lambda>m.
         return (0, \<lambda>i. if off \<le> i \<and> i < off + len then m (a + of_nat (i - off)) else dst i))
     | AtLocal b k \<Rightarrow> return (0, \<lambda>i. if off \<le> i \<and> i < off + len then b (k + (i - off)) else dst i))"

definition states_name :: "states \<Rightarrow> u8 list" where
  "states_name st = (case st of UNUSED \<Rightarrow> cstr ''unused'' | USED \<Rightarrow> cstr ''???'' | SLEEPING \<Rightarrow> cstr ''sleep ''
     | RUNNABLE \<Rightarrow> cstr ''runble'' | RUNNING \<Rightarrow> cstr ''run   '' | ZOMBIE \<Rightarrow> cstr ''zombie'')"

text \<open>The characters of a C string in an array of \<open>n\<close> bytes.\<close>

definition string_in :: "nat \<Rightarrow> bytes \<Rightarrow> u8 list" where
  "string_in n b = takeWhile (\<lambda>c. c \<noteq> 0) (map b [0..<n])"

definition procdump :: "('z proc_state_scheme, unit) M" where
  "procdump =
     seq (printf (cstr ''\<newline>'') []) (
     for_each [0..<NPROC] (\<lambda>p.
       bnd (getp p state) (\<lambda>st.
       whenM (st \<noteq> UNUSED) (
         bnd (getp p pid) (\<lambda>i.
         bnd (getp p name) (\<lambda>nm.
         seq (printf (cstr ''%d %s %s'') [VaInt (word_of_int i), VaStr (Some (states_name st)), VaStr (Some (string_in 16 nm))])
         (printf (cstr ''\<newline>'') [])))))))"

end
