(* ===== verification/Signal.thy ===== *)
theory Signal
  imports Proc
begin

text \<open>
  Signals: \<open>kill\<close>, \<open>sigprocmask\<close>, \<open>sigaction\<close>, \<open>sigret\<close>, \<open>usersignal\<close> and \<open>handling_signals\<close> of
  \<open>kernel/proc.c\<close>. Sets of signals are 32-bit words, one bit per signal.
\<close>

definition sigbit :: "nat \<Rightarrow> u32" where
  "sigbit sig = push_bit sig 1"

text \<open>The loop over the threads in \<open>kill\<close>.\<close>

definition kill_threads :: "pslot \<Rightarrow> ('z proc_state_scheme, unit) M" where
  "kill_threads p = for_each [0..<NTHREAD] (\<lambda>i.
     bnd (gett (p, i) t_state) (\<lambda>st.
     whenM (st = SLEEPING) (sett (p, i) (\<lambda>th. th\<lparr>t_state := RUNNABLE\<rparr>))))"

definition kill :: "int \<Rightarrow> int \<Rightarrow> ('z proc_state_scheme, int) M" where
  "kill the_pid signum =
     (if signum \<ge> int SIGNALS_SIZE \<or> signum < 0 then return (-1) else
     bnd (for_until [0..<NPROC] (\<lambda>p.
       seq (acquire (ProcLock p)) (
       bnd (getp p pid) (\<lambda>i.
       if i = the_pid then
         seq (whenM (signum = int SIGKILL) (
           seq (setp p (\<lambda>pr. pr\<lparr>killed := True\<rparr>)) (
           seq (setp p (\<lambda>pr. if state pr = SLEEPING then pr\<lparr>state := RUNNABLE\<rparr> else pr))
           (kill_threads p)))) (
         seq (setp p (\<lambda>pr. pr\<lparr>pendingSignals := pendingSignals pr OR sigbit (nat signum)\<rparr>)) (
         seq (release (ProcLock p))
         (return (Some 0))))
       else seq (release (ProcLock p)) (return None))))) (\<lambda>r.
     return (case r of None \<Rightarrow> -1 | Some v \<Rightarrow> v)))"

definition sigprocmask :: "u32 \<Rightarrow> ('z proc_state_scheme, u32) M" where
  "sigprocmask sigmask =
     bnd curproc (\<lambda>p.
     bnd (getp p signalMask) (\<lambda>oldMask.
     seq (setp p (\<lambda>pr. pr\<lparr>signalMask := sigmask\<rparr>))
     (return oldMask)))"

text \<open>
  \<open>sigaction\<close>. The old handler is copied out with length \<open>sizeof(8)\<close>, four bytes; the test
  \<open>newSig.sigmask < 0\<close> on an unsigned field is always false. A failed copy returns with the
  process lock still held.
\<close>

definition sigaction :: "int \<Rightarrow> u64 \<Rightarrow> u64 \<Rightarrow> ('z proc_state_scheme, int) M" where
  "sigaction signum act oldact =
     (if signum < 0 \<or> signum \<ge> 32 then return (-1)
      else if signum = int SIGSTOP \<or> signum = int SIGKILL then return (-1) else
     bnd curproc (\<lambda>p.
     seq (acquire (ProcLock p)) (
     bnd (getp p pagetable) (\<lambda>pt.
     bnd (if oldact = 0 then return (0::int) else
       bnd (getp p (\<lambda>pr. signalHandlers pr (nat signum))) (\<lambda>h.
       bnd (getp p (\<lambda>pr. maskHandlers pr (nat signum))) (\<lambda>mk.
       bnd (copyout pt oldact (bytes64 h) 4) (\<lambda>r.
       if r < 0 then return (-1) else
       bnd (copyout pt (oldact + 8) (bytes32 mk) 4) (\<lambda>r.
       if r < 0 then return (-1) else return 0))))) (\<lambda>r.
     if r < 0 then return (-1) else
     bnd (if act = 0 then return (0::int) else
       bnd (copyin pt (\<lambda>_. 0) act 16) (\<lambda>(r, newSig).
       if r < 0 then return (-1) else
       let h = u64_of newSig; mk = u32_of (\<lambda>i. newSig (8 + i)) in
       seq (setp p (\<lambda>pr. pr\<lparr>signalHandlers := (signalHandlers pr)(nat signum := h)\<rparr>)) (
       seq (setp p (\<lambda>pr. pr\<lparr>maskHandlers := (maskHandlers pr)(nat signum := mk)\<rparr>))
       (return 0)))) (\<lambda>r.
     if r < 0 then return (-1) else
     seq (release (ProcLock p))
     (return 0)))))))"

definition sigret :: "('z proc_state_scheme, unit) M" where
  "sigret =
     bnd curproc (\<lambda>p.
     bnd curthread (\<lambda>t.
     bnd (gett t UserTrapFrameBackup) (\<lambda>bk.
     bnd (gett t trapframe) (\<lambda>tf.
     if tf = 0 then fault ''null pointer'' else
     seq (modify (\<lambda>s. s\<lparr>mem := write_bytes tf bk sizeof_trapframe (mem s)\<rparr>)) (
     setp p (\<lambda>pr. pr\<lparr>signalMask := signal_mask_backup pr, ignore_signals := False\<rparr>))))))"

definition usersignal :: "tslot \<Rightarrow> nat \<Rightarrow> ('z proc_state_scheme, unit) M" where
  "usersignal t signum =
     bnd (gett t proc_parent) (\<lambda>pp.
     bnd (deref pp) (\<lambda>p.
     seq (setp p (\<lambda>pr. pr\<lparr>signal_mask_backup := signalMask pr, signalMask := maskHandlers pr signum,
       ignore_signals := True\<rparr>)) (
     bnd (gett t trapframe) (\<lambda>tf.
     if tf = 0 then fault ''null pointer'' else
     bnd (gets mem) (\<lambda>m.
     seq (sett t (\<lambda>th. th\<lparr>UserTrapFrameBackup :=
       (\<lambda>i. if i < sizeof_trapframe then m (tf + of_nat i) else UserTrapFrameBackup th i)\<rparr>)) (
     bnd (getp p (\<lambda>pr. signalHandlers pr signum)) (\<lambda>h.
     seq (tf_set t tf_epc h) (
     bnd (gets (\<lambda>s. ucast (end_ret (img s) - start_ret (img s)) :: u32)) (\<lambda>sigret_size.
     bnd (tf_get t tf_sp) (\<lambda>sp.
     seq (tf_set t tf_sp (sp - ucast sigret_size)) (
     bnd (getp p pagetable) (\<lambda>pt.
     bnd (gets (\<lambda>s i. mem s (start_ret (img s) + of_nat i))) (\<lambda>code.
     bnd (tf_get t tf_sp) (\<lambda>sp'.
     bnd (copyout pt sp' code (ucast sigret_size)) (\<lambda>_.
     seq (tf_set t tf_a0 (of_nat signum)) (
     bnd (tf_get t tf_sp) (\<lambda>sp''.
     tf_set t tf_ra sp'')))))))))))))))))"

definition stopSignal :: "pslot \<Rightarrow> ('z proc_state_scheme, unit) M" where
  "stopSignal p = setp p (\<lambda>pr. pr\<lparr>stopped := True\<rparr>)"

definition contSignal :: "pslot \<Rightarrow> ('z proc_state_scheme, unit) M" where
  "contSignal p = setp p (\<lambda>pr. pr\<lparr>stopped := False\<rparr>)"

definition toggle_pending :: "pslot \<Rightarrow> nat \<Rightarrow> ('z proc_state_scheme, unit) M" where
  "toggle_pending p sig = setp p (\<lambda>pr. pr\<lparr>pendingSignals := pendingSignals pr XOR sigbit sig\<rparr>)"

text \<open>The wait of a stopped process for \<open>SIGCONT\<close>.\<close>

definition stop_wait :: "pslot \<Rightarrow> ('z proc_state_scheme, unit) M" where
  "stop_wait p =
     sleep_loop (
       bnd (getp p pendingSignals) (\<lambda>pend.
       if pend AND sigbit SIGCONT \<noteq> 0 then
         seq (setp p (\<lambda>pr. pr\<lparr>stopped := False\<rparr>)) (
         seq (toggle_pending p SIGCONT)
         (return (Some ())))
       else seq yield (return None)))"

text \<open>The body of the loop over the signals.\<close>

definition handle_signal :: "pslot \<Rightarrow> nat \<Rightarrow> ('z proc_state_scheme, unit) M" where
  "handle_signal p sig =
     bnd (getp p pendingSignals) (\<lambda>pandSigs.
     bnd (getp p signalMask) (\<lambda>sigMask.
     whenM (pandSigs AND sigbit sig \<noteq> 0 \<and> sigMask AND sigbit sig = 0) (
       bnd (getp p (\<lambda>pr. signalHandlers pr sig)) (\<lambda>h.
       if h = SIG_DFL then
         seq (if sig = SIGSTOP then stopSignal p
           else if sig = SIGCONT then contSignal p
           else bnd (getp p pid) (\<lambda>i. bnd (kill i (int SIGKILL)) (\<lambda>_. skip)))
         (toggle_pending p sig)
       else if h \<noteq> SIG_IGN then
         bnd curthread (\<lambda>t.
         seq (usersignal t sig)
         (toggle_pending p sig))
       else skip))))"

definition handling_signals :: "('z proc_state_scheme, unit) M" where
  "handling_signals =
     bnd myproc (\<lambda>po.
     case po of None \<Rightarrow> skip | Some p \<Rightarrow>
     bnd (getp p signalMask) (\<lambda>mask.
     bnd (getp p ignore_signals) (\<lambda>ign.
     if mask = 0xFFFFFFFF \<or> ign then skip else
     bnd (getp p stopped) (\<lambda>st.
     seq (whenM (st \<and> mask AND sigbit SIGSTOP = 0) (stop_wait p)) (
     for_each [0..<SIGNALS_SIZE] (handle_signal p))))))"

end
