(* ===== verification/Bsem.thy ===== *)
theory Bsem
  imports Signal
begin

text \<open>
  Binary semaphores: \<open>bsem_alloc\<close>, \<open>bsem_free\<close>, \<open>bsem_down\<close> and \<open>bsem_up\<close> of \<open>kernel/proc.c\<close>. A
  descriptor is the index that user space passes; the source does not check it, and an index
  outside \<open>bsems[MAX_BSEM]\<close> is a \<open>Fault\<close>.
\<close>

definition bsem_index :: "int \<Rightarrow> ('z proc_state_scheme, nat) M" where
  "bsem_index i = (if 0 \<le> i \<and> i < int MAX_BSEM then return (nat i) else fault ''bsems'')"

definition set_bsem :: "nat \<Rightarrow> int \<Rightarrow> ('z proc_state_scheme, unit) M" where
  "set_bsem i v = modify (\<lambda>s. s\<lparr>bsems := (bsems s)(i := v)\<rparr>)"

definition bsem_alloc :: "('z proc_state_scheme, int) M" where
  "bsem_alloc =
     seq (acquire PidLock) (
     bnd (for_until [0..<MAX_BSEM] (\<lambda>i.
       bnd (gets (\<lambda>s. bsems s i)) (\<lambda>v.
       if v = -1 then seq (set_bsem i 1) (seq (release PidLock) (return (Some (int i))))
       else return None))) (\<lambda>r.
     case r of Some i \<Rightarrow> return i | None \<Rightarrow> seq (release PidLock) (return (-1))))"

definition bsem_free :: "int \<Rightarrow> ('z proc_state_scheme, unit) M" where
  "bsem_free i =
     seq (acquire PidLock) (
     bnd (bsem_index i) (\<lambda>k.
     seq (set_bsem k (-1))
     (release PidLock)))"

definition bsem_down :: "int \<Rightarrow> ('z proc_state_scheme, unit) M" where
  "bsem_down i =
     seq (acquire PidLock) (
     seq (sleep_loop (
       bnd (bsem_index i) (\<lambda>k.
       bnd (gets (\<lambda>s. bsems s k)) (\<lambda>v.
       if v = 0 then seq (sleep ChSem PidLock) (return None) else return (Some ()))))) (
     bnd (bsem_index i) (\<lambda>k.
     seq (set_bsem k 0)
     (release PidLock))))"

definition bsem_up :: "int \<Rightarrow> ('z proc_state_scheme, unit) M" where
  "bsem_up i =
     seq (acquire PidLock) (
     bnd (bsem_index i) (\<lambda>k.
     seq (set_bsem k 1) (
     seq (wakeup (Some ChSem))
     (release PidLock))))"

end
