(* ===== verification/Kthread.thy ===== *)
theory Kthread
  imports Bsem
begin

text \<open>
  Kernel threads of a process: \<open>Treparent\<close>, \<open>allocthread\<close>, \<open>kthread_create\<close>, \<open>kthread_id\<close> and
  \<open>kthread_join\<close> of \<open>kernel/proc.c\<close>.
\<close>

definition Treparent :: "tslot \<Rightarrow> ('z proc_state_scheme, unit) M" where
  "Treparent t =
     bnd (gett t proc_parent) (\<lambda>pp.
     bnd (deref pp) (\<lambda>p.
     for_each [0..<NTHREAD] (\<lambda>i.
       bnd (gett (p, i) thread_parent) (\<lambda>tp.
       bnd (getp p main_thread) (\<lambda>mt.
       if tp = Some t \<and> mt \<noteq> Some t then
         seq (sett (p, i) (\<lambda>th. th\<lparr>thread_parent := mt\<rparr>)) (wakeup (map_option ChThread mt))
       else if tp = Some t then
         seq (setp p (\<lambda>pr. pr\<lparr>main_thread := Some (p, i)\<rparr>)) (printf (cstr ''found a children\<newline>'') [])
       else skip)))))"

text \<open>
  \<open>p->threads->trapframe + sizeof(struct trapframe) * i\<close> is pointer arithmetic on a
  \<open>struct trapframe *\<close>, so the byte offset is \<open>288 * 288 * i\<close>.
\<close>

definition thread_trapframe :: "u64 \<Rightarrow> nat \<Rightarrow> u64" where
  "thread_trapframe base i = base + of_nat (sizeof_trapframe * (sizeof_trapframe * i))"

definition allocthread :: "u64 \<Rightarrow> u64 \<Rightarrow> ('z proc_state_scheme, tslot option) M" where
  "allocthread start_func stack =
     bnd curthread (\<lambda>curr_thread.
     bnd (gett curr_thread proc_parent) (\<lambda>pp.
     bnd (deref pp) (\<lambda>p.
     seq (acquire (ProcLock p)) (
     bnd (for_until [0..<NTHREAD] (\<lambda>i.
       bnd (gett (p, i) t_state) (\<lambda>st.
       return (if st = UNUSED \<or> st = ZOMBIE then Some i else None)))) (\<lambda>r.
     case r of None \<Rightarrow> seq (release (ProcLock p)) (return None) | Some i \<Rightarrow>
     bnd alloctid (\<lambda>newtid.
     seq (sett (p, i) (\<lambda>t. t\<lparr>tid := newtid, t_state := USED, proc_parent := Some p,
       thread_parent := Some curr_thread\<rparr>)) (
     seq (release (ProcLock p)) (
     bnd kalloc (\<lambda>ks.
     seq (sett (p, i) (\<lambda>t. t\<lparr>kstack := ks\<rparr>)) (
     if ks = 0 then
       seq (freethread (p, i)) (seq (release (ProcLock p)) (return None))
     else
     bnd (gett (p, 0) trapframe) (\<lambda>base.
     seq (sett (p, i) (\<lambda>t. t\<lparr>trapframe := thread_trapframe base i\<rparr>)) (
     seq (printf (cstr ''(int)(t-p->threads) = %d\<newline>'') [VaInt (of_nat i)]) (
     bnd (gett curr_thread trapframe) (\<lambda>ctf.
     seq (modify (\<lambda>s. s\<lparr>mem := memmove (thread_trapframe base i) ctf sizeof_trapframe (mem s)\<rparr>)) (
     bnd (gets (\<lambda>s. forkret_pc (img s))) (\<lambda>forkret.
     seq (sett (p, i) (\<lambda>t. t\<lparr>t_context := zero_context\<lparr>ctx_ra := forkret, ctx_sp := kstack t + PGSIZE\<rparr>\<rparr>)) (
     seq (tf_set (p, i) tf_epc start_func) (
     seq (tf_set (p, i) tf_sp (stack + MAX_STACK_SIZE))
     (return (Some (p, i)))))))))))))))))))))"

definition kthread_create :: "u64 \<Rightarrow> u64 \<Rightarrow> ('z proc_state_scheme, int) M" where
  "kthread_create start_func stack =
     bnd (allocthread start_func stack) (\<lambda>to.
     bnd (deref to) (\<lambda>t.
     seq (sett t (\<lambda>th. th\<lparr>t_state := RUNNABLE\<rparr>))
     (gett t tid)))"

definition kthread_id :: "('z proc_state_scheme, int) M" where
  "kthread_id = bnd curthread (\<lambda>t. gett t tid)"

text \<open>
  \<open>kthread_join\<close>. The condition \<open>tt->state == UNUSED || ZOMBIE\<close> compares with \<open>UNUSED\<close> only and
  then tests the constant \<open>ZOMBIE\<close>.
\<close>

definition join_cond :: "states \<Rightarrow> bool" where
  "join_cond st \<longleftrightarrow> st = UNUSED \<or> states_val ZOMBIE \<noteq> 0"

definition kthread_join :: "int \<Rightarrow> u64 \<Rightarrow> ('z proc_state_scheme, int) M" where
  "kthread_join thread_id status =
     bnd curthread (\<lambda>t.
     bnd (gett t proc_parent) (\<lambda>pp.
     bnd (deref pp) (\<lambda>p.
     seq (acquire (ProcLock p)) (
     bnd (for_until [0..<NTHREAD] (\<lambda>i.
       bnd (gett (p, i) tid) (\<lambda>j. return (if j = thread_id then Some i else None)))) (\<lambda>r.
     seq (release (ProcLock p)) (
     case r of None \<Rightarrow> return (-1) | Some i \<Rightarrow>
     bnd (gett (p, i) t_state) (\<lambda>st.
     if join_cond st then return 0 else
     sleep_loop (
       seq (sleep (ChThread t) JoinLock) (
       bnd (gett (p, i) t_state) (\<lambda>st.
       if join_cond st then
         bnd (gett (p, i) t_xstate) (\<lambda>x.
         seq (modify (\<lambda>s. s\<lparr>mem := store32 status (word_of_int x) (mem s)\<rparr>))
         (return (Some 0)))
       else return None))))))))))"

end
