(* ===== verification/Sleeplock.thy ===== *)
theory Sleeplock
  imports Kthread
begin

text \<open>
  Long-term locks: \<open>kernel/sleeplock.h\<close> and \<open>kernel/sleeplock.c\<close>. A sleep lock is named by the
  spinlock inside it.
\<close>

record sleeplock =
  sl_locked :: bool
  sl_pid :: int

record sl_state = proc_state +
  sleeplocks :: "lockid \<Rightarrow> sleeplock"

definition set_sleeplock :: "lockid \<Rightarrow> sleeplock \<Rightarrow> ('z sl_state_scheme, unit) M" where
  "set_sleeplock l v = modify (\<lambda>s. s\<lparr>sleeplocks := (sleeplocks s)(l := v)\<rparr>)"

definition initsleeplock :: "lockid \<Rightarrow> ('z sl_state_scheme, unit) M" where
  "initsleeplock l = seq (initlock l) (set_sleeplock l \<lparr>sl_locked = False, sl_pid = 0\<rparr>)"

definition acquiresleep :: "lockid \<Rightarrow> ('z sl_state_scheme, unit) M" where
  "acquiresleep l =
     seq (acquire l) (
     seq (sleep_loop (
       bnd (gets (\<lambda>s. sl_locked (sleeplocks s l))) (\<lambda>h.
       if h then seq (sleep (ChSleeplock l) l) (return None) else return (Some ())))) (
     bnd curproc (\<lambda>p.
     bnd (getp p pid) (\<lambda>i.
     seq (set_sleeplock l \<lparr>sl_locked = True, sl_pid = i\<rparr>)
     (release l)))))"

definition releasesleep :: "lockid \<Rightarrow> ('z sl_state_scheme, unit) M" where
  "releasesleep l =
     seq (acquire l) (
     seq (set_sleeplock l \<lparr>sl_locked = False, sl_pid = 0\<rparr>) (
     seq (wakeup (Some (ChSleeplock l)))
     (release l)))"

definition holdingsleep :: "lockid \<Rightarrow> ('z sl_state_scheme, bool) M" where
  "holdingsleep l =
     seq (acquire l) (
     bnd (gets (\<lambda>s. sleeplocks s l)) (\<lambda>sl.
     bnd (if sl_locked sl then bnd curproc (\<lambda>p. bnd (getp p pid) (\<lambda>i. return (sl_pid sl = i))) else return False) (\<lambda>r.
     seq (release l)
     (return r))))"

end
