(* ===== verification/Bio.thy ===== *)
theory Bio
  imports Sleeplock
begin

text \<open>
  The buffer cache: \<open>kernel/buf.h\<close> and \<open>kernel/bio.c\<close>. Buffers are the slots of \<open>bcache.buf\<close>; the
  list header \<open>bcache.head\<close> is the slot \<open>NBUF\<close>. The list is kept in the \<open>prev\<close> and \<open>next\<close> fields,
  as in the source, and the loops over it follow these pointers.

  The disk driver is used through its contract, \<open>disk_rw\<close>: the block is transferred between the
  buffer and the disk when the call returns. The field \<open>writes\<close> records the writes the disk has
  completed, in order; no code reads it.
\<close>

definition BSIZE :: nat where "BSIZE = 1024"

record buf =
  b_valid :: bool
  b_disk :: bool
  b_dev :: u32
  b_blockno :: u32
  b_refcnt :: u32
  b_prev :: nat
  b_next :: nat
  b_data :: bytes

record bio_state = sl_state +
  bufs :: "nat \<Rightarrow> buf"
  disk :: "u32 \<Rightarrow> bytes"
  writes :: "(u32 \<times> bytes) list"

definition bhead :: nat where "bhead = NBUF"

definition getb :: "nat \<Rightarrow> (buf \<Rightarrow> 'a) \<Rightarrow> ('z bio_state_scheme, 'a) M" where
  "getb b f = gets (\<lambda>s. f (bufs s b))"

definition setb :: "nat \<Rightarrow> (buf \<Rightarrow> buf) \<Rightarrow> ('z bio_state_scheme, unit) M" where
  "setb b f = modify (\<lambda>s. s\<lparr>bufs := (bufs s)(b := f (bufs s b))\<rparr>)"

lemma getb_run [simp]: "getb b f e s = Ok (f (bufs s b)) e s"
  by (simp add: getb_def)

lemma setb_run [simp]: "setb b f e s = Ok () e (s\<lparr>bufs := (bufs s)(b := f (bufs s b))\<rparr>)"
  by (simp add: setb_def)

text \<open>The loop body of \<open>binit\<close>.\<close>

definition binit_buf :: "nat \<Rightarrow> ('z bio_state_scheme, unit) M" where
  "binit_buf b =
     bnd (getb bhead b_next) (\<lambda>n.
     seq (setb b (\<lambda>x. x\<lparr>b_next := n, b_prev := bhead\<rparr>)) (
     seq (initsleeplock (BufLock b)) (
     bnd (getb bhead b_next) (\<lambda>n.
     seq (setb n (\<lambda>x. x\<lparr>b_prev := b\<rparr>))
     (setb bhead (\<lambda>h. h\<lparr>b_next := b\<rparr>))))))"

definition binit :: "('z bio_state_scheme, unit) M" where
  "binit =
     seq (initlock BcacheLock) (
     seq (setb bhead (\<lambda>h. h\<lparr>b_prev := bhead, b_next := bhead\<rparr>)) (
     for_each [0..<NBUF] binit_buf))"

text \<open>
  The two searches of \<open>bget\<close>. The fuel, one more than the number of buffers, is what a traversal
  of the circular list needs.
\<close>

primrec bfind_next :: "nat \<Rightarrow> nat \<Rightarrow> u32 \<Rightarrow> u32 \<Rightarrow> ('z bio_state_scheme, nat option) M" where
  "bfind_next 0 b dev blockno = fault ''fuel''"
| "bfind_next (Suc n) b dev blockno =
     (if b = bhead then return None else
     bnd (getb b (\<lambda>x. b_dev x = dev \<and> b_blockno x = blockno)) (\<lambda>hit.
     if hit then return (Some b) else bnd (getb b b_next) (\<lambda>b'. bfind_next n b' dev blockno)))"

primrec bfind_prev :: "nat \<Rightarrow> nat \<Rightarrow> ('z bio_state_scheme, nat option) M" where
  "bfind_prev 0 b = fault ''fuel''"
| "bfind_prev (Suc n) b =
     (if b = bhead then return None else
     bnd (getb b (\<lambda>x. b_refcnt x = 0)) (\<lambda>hit.
     if hit then return (Some b) else bnd (getb b b_prev) (\<lambda>b'. bfind_prev n b')))"

definition bget :: "u32 \<Rightarrow> u32 \<Rightarrow> ('z bio_state_scheme, nat) M" where
  "bget dev blockno =
     seq (acquire BcacheLock) (
     bnd (getb bhead b_next) (\<lambda>b0.
     bnd (bfind_next (Suc NBUF) b0 dev blockno) (\<lambda>r.
     case r of Some b \<Rightarrow>
       seq (setb b (\<lambda>x. x\<lparr>b_refcnt := b_refcnt x + 1\<rparr>)) (
       seq (release BcacheLock) (
       seq (acquiresleep (BufLock b))
       (return b)))
     | None \<Rightarrow>
     bnd (getb bhead b_prev) (\<lambda>b1.
     bnd (bfind_prev (Suc NBUF) b1) (\<lambda>r.
     case r of Some b \<Rightarrow>
       seq (setb b (\<lambda>x. x\<lparr>b_dev := dev, b_blockno := blockno, b_valid := False, b_refcnt := 1\<rparr>)) (
       seq (release BcacheLock) (
       seq (acquiresleep (BufLock b))
       (return b)))
     | None \<Rightarrow> panic ''bget: no buffers'')))))"

definition disk_rw :: "nat \<Rightarrow> bool \<Rightarrow> ('z bio_state_scheme, unit) M" where
  "disk_rw b write = modify (\<lambda>s.
     if write then s\<lparr>disk := (disk s)(b_blockno (bufs s b) := b_data (bufs s b)),
       writes := writes s @ [(b_blockno (bufs s b), b_data (bufs s b))]\<rparr>
     else s\<lparr>bufs := (bufs s)(b := (bufs s b)\<lparr>b_data := disk s (b_blockno (bufs s b))\<rparr>)\<rparr>)"

definition bread :: "u32 \<Rightarrow> u32 \<Rightarrow> ('z bio_state_scheme, nat) M" where
  "bread dev blockno =
     bnd (bget dev blockno) (\<lambda>b.
     bnd (getb b b_valid) (\<lambda>v.
     seq (whenM (\<not> v) (seq (disk_rw b False) (setb b (\<lambda>x. x\<lparr>b_valid := True\<rparr>))))
     (return b)))"

definition bwrite :: "nat \<Rightarrow> ('z bio_state_scheme, unit) M" where
  "bwrite b =
     bnd (holdingsleep (BufLock b)) (\<lambda>h.
     if \<not> h then panic ''bwrite'' else disk_rw b True)"

definition brelse :: "nat \<Rightarrow> ('z bio_state_scheme, unit) M" where
  "brelse b =
     bnd (holdingsleep (BufLock b)) (\<lambda>h.
     if \<not> h then panic ''brelse'' else
     seq (releasesleep (BufLock b)) (
     seq (acquire BcacheLock) (
     seq (setb b (\<lambda>x. x\<lparr>b_refcnt := b_refcnt x - 1\<rparr>)) (
     bnd (getb b b_refcnt) (\<lambda>r.
     seq (whenM (r = 0) (
       bnd (getb b b_next) (\<lambda>n.
       bnd (getb b b_prev) (\<lambda>p.
       seq (setb n (\<lambda>x. x\<lparr>b_prev := p\<rparr>)) (
       seq (setb p (\<lambda>x. x\<lparr>b_next := n\<rparr>)) (
       bnd (getb bhead b_next) (\<lambda>h.
       seq (setb b (\<lambda>x. x\<lparr>b_next := h, b_prev := bhead\<rparr>)) (
       bnd (getb bhead b_next) (\<lambda>h.
       seq (setb h (\<lambda>x. x\<lparr>b_prev := b\<rparr>))
       (setb bhead (\<lambda>x. x\<lparr>b_next := b\<rparr>)))))))))))
     (release BcacheLock))))))"

definition bpin :: "nat \<Rightarrow> ('z bio_state_scheme, unit) M" where
  "bpin b =
     seq (acquire BcacheLock) (
     seq (setb b (\<lambda>x. x\<lparr>b_refcnt := b_refcnt x + 1\<rparr>))
     (release BcacheLock))"

definition bunpin :: "nat \<Rightarrow> ('z bio_state_scheme, unit) M" where
  "bunpin b =
     seq (acquire BcacheLock) (
     seq (setb b (\<lambda>x. x\<lparr>b_refcnt := b_refcnt x - 1\<rparr>))
     (release BcacheLock))"

end
