(* ===== verification/Log.thy ===== *)
theory Log
  imports Bio
begin

text \<open>
  The write-ahead log: \<open>kernel/log.c\<close>. The in-memory header \<open>log.lh\<close> is the pair of fields
  \<open>log_n\<close> and \<open>log_block\<close>; an access of \<open>log.lh.block\<close> outside its \<open>LOGSIZE\<close> entries is a fault.
  A \<open>memmove\<close> of a whole \<open>data\<close> array is an assignment of the array.
\<close>

subsection \<open>Integer fields of the structures a block holds\<close>

definition get32 :: "bytes \<Rightarrow> nat \<Rightarrow> u32" where
  "get32 d off = u32_of (\<lambda>i. d (off + i))"

definition put32 :: "nat \<Rightarrow> u32 \<Rightarrow> bytes \<Rightarrow> bytes" where
  "put32 off v d = (\<lambda>i. if off \<le> i \<and> i < off + 4 then bytes32 v (i - off) else d i)"

definition get16 :: "bytes \<Rightarrow> nat \<Rightarrow> u16" where
  "get16 d off = ucast (d off) OR push_bit 8 (ucast (d (off + 1)))"

definition put16 :: "nat \<Rightarrow> u16 \<Rightarrow> bytes \<Rightarrow> bytes" where
  "put16 off v d = d(off := ucast v, off + 1 := ucast (drop_bit 8 v))"

subsection \<open>The state of the log\<close>

record logst =
  log_start :: u32
  log_size :: int
  log_outstanding :: int
  log_committing :: bool
  log_dev :: u32
  log_n :: int
  log_block :: "nat \<Rightarrow> u32"

record log_state = bio_state +
  the_log :: logst

definition getl :: "(logst \<Rightarrow> 'a) \<Rightarrow> ('z log_state_scheme, 'a) M" where
  "getl f = gets (\<lambda>s. f (the_log s))"

definition setl :: "(logst \<Rightarrow> logst) \<Rightarrow> ('z log_state_scheme, unit) M" where
  "setl f = modify (\<lambda>s. s\<lparr>the_log := f (the_log s)\<rparr>)"

lemma getl_run [simp]: "getl f e s = Ok (f (the_log s)) e s"
  by (simp add: getl_def)

lemma setl_run [simp]: "setl f e s = Ok () e (s\<lparr>the_log := f (the_log s)\<rparr>)"
  by (simp add: setl_def)

definition get_lh_block :: "nat \<Rightarrow> ('z log_state_scheme, u32) M" where
  "get_lh_block i = (if i < LOGSIZE then getl (\<lambda>l. log_block l i) else fault ''log.lh.block'')"

definition set_lh_block :: "nat \<Rightarrow> u32 \<Rightarrow> ('z log_state_scheme, unit) M" where
  "set_lh_block i v =
     (if i < LOGSIZE then setl (\<lambda>l. l\<lparr>log_block := (log_block l)(i := v)\<rparr>) else fault ''log.lh.block'')"

subsection \<open>Operations\<close>

text \<open>The loop bodies are definitions of their own.\<close>

definition install_block :: "bool \<Rightarrow> nat \<Rightarrow> ('z log_state_scheme, unit) M" where
  "install_block recovering tail =
     bnd (getl log_dev) (\<lambda>dev.
     bnd (getl log_start) (\<lambda>start.
     bnd (bread dev (start + of_nat tail + 1)) (\<lambda>lbuf.
     bnd (get_lh_block tail) (\<lambda>blk.
     bnd (bread dev blk) (\<lambda>dbuf.
     bnd (getb lbuf b_data) (\<lambda>d.
     seq (setb dbuf (\<lambda>x. x\<lparr>b_data := d\<rparr>)) (
     seq (bwrite dbuf) (
     seq (whenM (\<not> recovering) (bunpin dbuf)) (
     seq (brelse lbuf)
     (brelse dbuf))))))))))"

definition install_trans :: "bool \<Rightarrow> ('z log_state_scheme, unit) M" where
  "install_trans recovering =
     bnd (getl log_n) (\<lambda>n. for_each [0..<nat n] (install_block recovering))"

definition read_head_entry :: "nat \<Rightarrow> nat \<Rightarrow> ('z log_state_scheme, unit) M" where
  "read_head_entry b i = bnd (getb b (\<lambda>x. get32 (b_data x) (4 + 4 * i))) (\<lambda>v. set_lh_block i v)"

definition read_head :: "('z log_state_scheme, unit) M" where
  "read_head =
     bnd (getl log_dev) (\<lambda>dev.
     bnd (getl log_start) (\<lambda>start.
     bnd (bread dev start) (\<lambda>b.
     bnd (getb b (\<lambda>x. get32 (b_data x) 0)) (\<lambda>n.
     seq (setl (\<lambda>l. l\<lparr>log_n := sint n\<rparr>)) (
     seq (for_each [0..<nat (sint n)] (read_head_entry b))
     (brelse b))))))"

definition write_head_entry :: "nat \<Rightarrow> nat \<Rightarrow> ('z log_state_scheme, unit) M" where
  "write_head_entry b i =
     bnd (get_lh_block i) (\<lambda>v. setb b (\<lambda>x. x\<lparr>b_data := put32 (4 + 4 * i) v (b_data x)\<rparr>))"

definition write_head :: "('z log_state_scheme, unit) M" where
  "write_head =
     bnd (getl log_dev) (\<lambda>dev.
     bnd (getl log_start) (\<lambda>start.
     bnd (bread dev start) (\<lambda>b.
     bnd (getl log_n) (\<lambda>n.
     seq (setb b (\<lambda>x. x\<lparr>b_data := put32 0 (word_of_int n) (b_data x)\<rparr>)) (
     seq (for_each [0..<nat n] (write_head_entry b)) (
     seq (bwrite b)
     (brelse b)))))))"

definition recover_from_log :: "('z log_state_scheme, unit) M" where
  "recover_from_log =
     seq read_head (
     seq (install_trans True) (
     seq (setl (\<lambda>l. l\<lparr>log_n := 0\<rparr>))
     write_head))"

record superblock =
  sb_magic :: u32
  sb_size :: u32
  sb_nblocks :: u32
  sb_ninodes :: u32
  sb_nlog :: u32
  sb_logstart :: u32
  sb_inodestart :: u32
  sb_bmapstart :: u32

definition initlog :: "u32 \<Rightarrow> superblock \<Rightarrow> ('z log_state_scheme, unit) M" where
  "initlog dev sb =
     (if BSIZE \<le> 4 + 4 * LOGSIZE then panic ''initlog: too big logheader'' else
     seq (initlock LogLock) (
     seq (setl (\<lambda>l. l\<lparr>log_start := sb_logstart sb, log_size := sint (sb_nlog sb), log_dev := dev\<rparr>))
     recover_from_log))"

definition begin_op :: "('z log_state_scheme, unit) M" where
  "begin_op =
     seq (acquire LogLock) (
     sleep_loop (
       bnd (getl id) (\<lambda>l.
       if log_committing l then seq (sleep ChLog LogLock) (return None)
       else if int LOGSIZE < log_n l + (log_outstanding l + 1) * int MAXOPBLOCKS then
         seq (sleep ChLog LogLock) (return None)
       else
         seq (setl (\<lambda>l. l\<lparr>log_outstanding := log_outstanding l + 1\<rparr>)) (
         seq (release LogLock)
         (return (Some ()))))))"

definition write_log_block :: "nat \<Rightarrow> ('z log_state_scheme, unit) M" where
  "write_log_block tail =
     bnd (getl log_dev) (\<lambda>dev.
     bnd (getl log_start) (\<lambda>start.
     bnd (bread dev (start + of_nat tail + 1)) (\<lambda>to.
     bnd (get_lh_block tail) (\<lambda>blk.
     bnd (bread dev blk) (\<lambda>from.
     bnd (getb from b_data) (\<lambda>d.
     seq (setb to (\<lambda>x. x\<lparr>b_data := d\<rparr>)) (
     seq (bwrite to) (
     seq (brelse from)
     (brelse to)))))))))"

definition write_log :: "('z log_state_scheme, unit) M" where
  "write_log = bnd (getl log_n) (\<lambda>n. for_each [0..<nat n] write_log_block)"

definition commit :: "('z log_state_scheme, unit) M" where
  "commit =
     bnd (getl log_n) (\<lambda>n.
     whenM (0 < n) (
       seq write_log (
       seq write_head (
       seq (install_trans False) (
       seq (setl (\<lambda>l. l\<lparr>log_n := 0\<rparr>))
       write_head)))))"

definition end_op :: "('z log_state_scheme, unit) M" where
  "end_op =
     seq (acquire LogLock) (
     seq (setl (\<lambda>l. l\<lparr>log_outstanding := log_outstanding l - 1\<rparr>)) (
     bnd (getl id) (\<lambda>l.
     if log_committing l then panic ''log.committing'' else
     bnd (if log_outstanding l = 0 then seq (setl (\<lambda>l. l\<lparr>log_committing := True\<rparr>)) (return True)
          else seq (wakeup (Some ChLog)) (return False)) (\<lambda>do_commit.
     seq (release LogLock)
     (whenM do_commit (
       seq commit (
       seq (acquire LogLock) (
       seq (setl (\<lambda>l. l\<lparr>log_committing := False\<rparr>)) (
       seq (wakeup (Some ChLog))
       (release LogLock))))))))))"

definition log_write :: "nat \<Rightarrow> ('z log_state_scheme, unit) M" where
  "log_write b =
     seq (acquire LogLock) (
     bnd (getl id) (\<lambda>l.
     if int LOGSIZE \<le> log_n l \<or> log_size l - 1 \<le> log_n l then panic ''too big a transaction''
     else if log_outstanding l < 1 then panic ''log_write outside of trans'' else
     bnd (getb b b_blockno) (\<lambda>blk.
     bnd (for_until [0..<nat (log_n l)] (\<lambda>i.
       bnd (get_lh_block i) (\<lambda>v. return (if v = blk then Some i else None)))) (\<lambda>r.
     let i = (case r of Some i \<Rightarrow> i | None \<Rightarrow> nat (log_n l)) in
     seq (set_lh_block i blk) (
     seq (whenM (int i = log_n l) (
       seq (bpin b) (setl (\<lambda>l. l\<lparr>log_n := log_n l + 1\<rparr>))))
     (release LogLock))))))"

end
