(* ===== verification/Fs.thy ===== *)
theory Fs
  imports Log
begin

text \<open>
  Disk blocks and inodes: \<open>kernel/fs.h\<close>, the inode of \<open>kernel/file.h\<close>, \<open>kernel/stat.h\<close> and the
  block and inode layers of \<open>kernel/fs.c\<close>. An inode pointer is its slot in \<open>itable.inode\<close>. A
  \<open>struct dinode\<close>, 64 bytes, is accessed at its byte offset in the block.
\<close>

definition ROOTINO :: u32 where "ROOTINO = 1"
definition FSMAGIC :: u32 where "FSMAGIC = 0x10203040"
definition NDIRECT :: nat where "NDIRECT = 12"
definition NINDIRECT :: nat where "NINDIRECT = BSIZE div 4"
definition MAXFILE :: nat where "MAXFILE = NDIRECT + NINDIRECT"
definition sizeof_dinode :: nat where "sizeof_dinode = 64"
definition IPB :: nat where "IPB = BSIZE div sizeof_dinode"
definition BPB :: nat where "BPB = BSIZE * 8"

definition IBLOCK :: "u32 \<Rightarrow> superblock \<Rightarrow> u32" where
  "IBLOCK i sb = i div of_nat IPB + sb_inodestart sb"

definition BBLOCK :: "u32 \<Rightarrow> superblock \<Rightarrow> u32" where
  "BBLOCK b sb = b div of_nat BPB + sb_bmapstart sb"

definition T_DIR :: u16 where "T_DIR = 1"
definition T_FILE :: u16 where "T_FILE = 2"
definition T_DEVICE :: u16 where "T_DEVICE = 3"

record inode =
  i_dev :: u32
  i_inum :: u32
  i_ref :: int
  i_valid :: bool
  i_type :: u16
  i_major :: u16
  i_minor :: u16
  i_nlink :: u16
  i_size :: u32
  i_addrs :: "nat \<Rightarrow> u32"

record fs_state = log_state +
  sb :: superblock
  itable :: "nat \<Rightarrow> inode"

definition geti :: "nat \<Rightarrow> (inode \<Rightarrow> 'a) \<Rightarrow> ('z fs_state_scheme, 'a) M" where
  "geti ip f = gets (\<lambda>s. f (itable s ip))"

definition seti :: "nat \<Rightarrow> (inode \<Rightarrow> inode) \<Rightarrow> ('z fs_state_scheme, unit) M" where
  "seti ip f = modify (\<lambda>s. s\<lparr>itable := (itable s)(ip := f (itable s ip))\<rparr>)"

lemma geti_run [simp]: "geti ip f e s = Ok (f (itable s ip)) e s"
  by (simp add: geti_def)

lemma seti_run [simp]: "seti ip f e s = Ok () e (s\<lparr>itable := (itable s)(ip := f (itable s ip))\<rparr>)"
  by (simp add: seti_def)

subsection \<open>Super block\<close>

definition readsb :: "u32 \<Rightarrow> ('z fs_state_scheme, unit) M" where
  "readsb dev =
     bnd (bread dev 1) (\<lambda>bp.
     bnd (getb bp b_data) (\<lambda>d.
     seq (modify (\<lambda>s. s\<lparr>sb := \<lparr>sb_magic = get32 d 0, sb_size = get32 d 4, sb_nblocks = get32 d 8,
       sb_ninodes = get32 d 12, sb_nlog = get32 d 16, sb_logstart = get32 d 20,
       sb_inodestart = get32 d 24, sb_bmapstart = get32 d 28\<rparr>\<rparr>))
     (brelse bp)))"

definition fsinit :: "u32 \<Rightarrow> ('z fs_state_scheme, unit) M" where
  "fsinit dev =
     seq (readsb dev) (
     bnd (gets sb) (\<lambda>b.
     if sb_magic b \<noteq> FSMAGIC then panic ''invalid file system'' else initlog dev b))"

subsection \<open>Blocks\<close>

definition bzero :: "u32 \<Rightarrow> u32 \<Rightarrow> ('z fs_state_scheme, unit) M" where
  "bzero dev bno =
     bnd (bread dev bno) (\<lambda>bp.
     seq (setb bp (\<lambda>x. x\<lparr>b_data := (\<lambda>_. 0)\<rparr>)) (
     seq (log_write bp)
     (brelse bp)))"

definition bit_mask :: "nat \<Rightarrow> u8" where
  "bit_mask bi = push_bit (bi mod 8) 1"

definition balloc :: "u32 \<Rightarrow> ('z fs_state_scheme, u32) M" where
  "balloc dev =
     bnd (gets (\<lambda>s. unat (sb_size (sb s)))) (\<lambda>size.
     bnd (for_until [0..<(size + BPB - 1) div BPB] (\<lambda>k.
       let b = k * BPB in
       bnd (gets (\<lambda>s. BBLOCK (of_nat b) (sb s))) (\<lambda>blk.
       bnd (bread dev blk) (\<lambda>bp.
       bnd (for_until [0..<min BPB (size - b)] (\<lambda>bi.
         bnd (getb bp (\<lambda>x. b_data x (bi div 8))) (\<lambda>d.
         if d AND bit_mask bi = 0 then
           seq (setb bp (\<lambda>x. x\<lparr>b_data := (b_data x)(bi div 8 := d OR bit_mask bi)\<rparr>)) (
           seq (log_write bp) (
           seq (brelse bp) (
           seq (bzero dev (of_nat (b + bi)))
           (return (Some (of_nat (b + bi)))))))
         else return None))) (\<lambda>r.
       case r of Some v \<Rightarrow> return (Some v) | None \<Rightarrow> seq (brelse bp) (return None)))))) (\<lambda>r.
     case r of Some v \<Rightarrow> return v | None \<Rightarrow> panic ''balloc: out of blocks''))"

definition bfree :: "u32 \<Rightarrow> u32 \<Rightarrow> ('z fs_state_scheme, unit) M" where
  "bfree dev b =
     bnd (gets (\<lambda>s. BBLOCK b (sb s))) (\<lambda>blk.
     bnd (bread dev blk) (\<lambda>bp.
     let bi = unat b mod BPB in
     bnd (getb bp (\<lambda>x. b_data x (bi div 8))) (\<lambda>d.
     if d AND bit_mask bi = 0 then panic ''freeing free block'' else
     seq (setb bp (\<lambda>x. x\<lparr>b_data := (b_data x)(bi div 8 := d AND NOT (bit_mask bi))\<rparr>)) (
     seq (log_write bp)
     (brelse bp)))))"

subsection \<open>Inodes\<close>

definition iinit :: "('z fs_state_scheme, unit) M" where
  "iinit = seq (initlock ItableLock) (for_each [0..<NINODE] (\<lambda>i. initsleeplock (InodeLock i)))"

text \<open>The scan of \<open>iget\<close>: \<open>Inl\<close> the entry found, \<open>Inr\<close> the value of \<open>empty\<close> at the end.\<close>

primrec iget_scan :: "nat list \<Rightarrow> nat option \<Rightarrow> u32 \<Rightarrow> u32 \<Rightarrow> ('z fs_state_scheme, nat + nat option) M" where
  "iget_scan [] emp dev inum = return (Inr emp)"
| "iget_scan (ip # ips) emp dev inum =
     bnd (geti ip id) (\<lambda>i.
     if 0 < i_ref i \<and> i_dev i = dev \<and> i_inum i = inum then return (Inl ip)
     else iget_scan ips (if emp = None \<and> i_ref i = 0 then Some ip else emp) dev inum)"

definition iget :: "u32 \<Rightarrow> u32 \<Rightarrow> ('z fs_state_scheme, nat) M" where
  "iget dev inum =
     seq (acquire ItableLock) (
     bnd (iget_scan [0..<NINODE] None dev inum) (\<lambda>r.
     case r of Inl ip \<Rightarrow>
       seq (seti ip (\<lambda>i. i\<lparr>i_ref := i_ref i + 1\<rparr>)) (
       seq (release ItableLock)
       (return ip))
     | Inr None \<Rightarrow> panic ''iget: no inodes''
     | Inr (Some ip) \<Rightarrow>
       seq (seti ip (\<lambda>i. i\<lparr>i_dev := dev, i_inum := inum, i_ref := 1, i_valid := False\<rparr>)) (
       seq (release ItableLock)
       (return ip))))"

text \<open>Byte offset of the on-disk inode in its block, and its image for given field values.\<close>

definition dinode_off :: "u32 \<Rightarrow> nat" where
  "dinode_off inum = unat inum mod IPB * sizeof_dinode"

primrec put_addrs :: "nat \<Rightarrow> nat \<Rightarrow> (nat \<Rightarrow> u32) \<Rightarrow> bytes \<Rightarrow> bytes" where
  "put_addrs 0 off a d = d"
| "put_addrs (Suc n) off a d = put32 (off + 4 * n) (a n) (put_addrs n off a d)"

definition put_dinode :: "nat \<Rightarrow> inode \<Rightarrow> bytes \<Rightarrow> bytes" where
  "put_dinode doff i d =
     put_addrs (NDIRECT + 1) (doff + 12) (i_addrs i) (
     put32 (doff + 8) (i_size i) (
     put16 (doff + 6) (i_nlink i) (
     put16 (doff + 4) (i_minor i) (
     put16 (doff + 2) (i_major i) (
     put16 doff (i_type i) d)))))"

definition ialloc :: "u32 \<Rightarrow> u16 \<Rightarrow> ('z fs_state_scheme, nat) M" where
  "ialloc dev type =
     bnd (gets (\<lambda>s. unat (sb_ninodes (sb s)))) (\<lambda>ninodes.
     bnd (for_until [1..<ninodes] (\<lambda>inum.
       bnd (gets (\<lambda>s. IBLOCK (of_nat inum) (sb s))) (\<lambda>blk.
       bnd (bread dev blk) (\<lambda>bp.
       let doff = dinode_off (of_nat inum) in
       bnd (getb bp (\<lambda>x. get16 (b_data x) doff)) (\<lambda>ty.
       if ty = 0 then
         seq (setb bp (\<lambda>x. x\<lparr>b_data := put16 doff type
           (\<lambda>i. if doff \<le> i \<and> i < doff + sizeof_dinode then 0 else b_data x i)\<rparr>)) (
         seq (log_write bp) (
         seq (brelse bp) (
         bnd (iget dev (of_nat inum)) (\<lambda>ip. return (Some ip)))))
       else seq (brelse bp) (return None)))))) (\<lambda>r.
     case r of Some ip \<Rightarrow> return ip | None \<Rightarrow> panic ''ialloc: no inodes''))"

definition iupdate :: "nat \<Rightarrow> ('z fs_state_scheme, unit) M" where
  "iupdate ip =
     bnd (geti ip id) (\<lambda>i.
     bnd (gets (\<lambda>s. IBLOCK (i_inum i) (sb s))) (\<lambda>blk.
     bnd (bread (i_dev i) blk) (\<lambda>bp.
     bnd (geti ip id) (\<lambda>i.
     seq (setb bp (\<lambda>x. x\<lparr>b_data := put_dinode (dinode_off (i_inum i)) i (b_data x)\<rparr>)) (
     seq (log_write bp)
     (brelse bp))))))"

definition idup :: "nat \<Rightarrow> ('z fs_state_scheme, nat) M" where
  "idup ip =
     seq (acquire ItableLock) (
     seq (seti ip (\<lambda>i. i\<lparr>i_ref := i_ref i + 1\<rparr>)) (
     seq (release ItableLock)
     (return ip)))"

definition ilock :: "nat option \<Rightarrow> ('z fs_state_scheme, unit) M" where
  "ilock ipo = (case ipo of None \<Rightarrow> panic ''ilock'' | Some ip \<Rightarrow>
     bnd (geti ip i_ref) (\<lambda>r.
     if r < 1 then panic ''ilock'' else
     seq (acquiresleep (InodeLock ip)) (
     bnd (geti ip i_valid) (\<lambda>v.
     whenM (\<not> v) (
       bnd (geti ip id) (\<lambda>i.
       bnd (gets (\<lambda>s. IBLOCK (i_inum i) (sb s))) (\<lambda>blk.
       bnd (bread (i_dev i) blk) (\<lambda>bp.
       let doff = dinode_off (i_inum i) in
       bnd (getb bp b_data) (\<lambda>d.
       seq (seti ip (\<lambda>i. i\<lparr>i_type := get16 d doff, i_major := get16 d (doff + 2), i_minor := get16 d (doff + 4),
         i_nlink := get16 d (doff + 6), i_size := get32 d (doff + 8),
         i_addrs := (\<lambda>k. if k < NDIRECT + 1 then get32 d (doff + 12 + 4 * k) else i_addrs i k)\<rparr>)) (
       seq (brelse bp) (
       seq (seti ip (\<lambda>i. i\<lparr>i_valid := True\<rparr>)) (
       bnd (geti ip i_type) (\<lambda>ty.
       whenM (ty = 0) (panic ''ilock: no type''))))))))))))))"

definition iunlock :: "nat option \<Rightarrow> ('z fs_state_scheme, unit) M" where
  "iunlock ipo = (case ipo of None \<Rightarrow> panic ''iunlock'' | Some ip \<Rightarrow>
     bnd (holdingsleep (InodeLock ip)) (\<lambda>h.
     bnd (geti ip i_ref) (\<lambda>r.
     if \<not> h \<or> r < 1 then panic ''iunlock'' else releasesleep (InodeLock ip))))"

definition itrunc :: "nat \<Rightarrow> ('z fs_state_scheme, unit) M" where
  "itrunc ip =
     bnd (geti ip i_dev) (\<lambda>dev.
     seq (for_each [0..<NDIRECT] (\<lambda>i.
       bnd (geti ip (\<lambda>x. i_addrs x i)) (\<lambda>a.
       whenM (a \<noteq> 0) (
         seq (bfree dev a)
         (seti ip (\<lambda>x. x\<lparr>i_addrs := (i_addrs x)(i := 0)\<rparr>)))))) (
     bnd (geti ip (\<lambda>x. i_addrs x NDIRECT)) (\<lambda>ind.
     seq (whenM (ind \<noteq> 0) (
       bnd (bread dev ind) (\<lambda>bp.
       seq (for_each [0..<NINDIRECT] (\<lambda>j.
         bnd (getb bp (\<lambda>x. get32 (b_data x) (4 * j))) (\<lambda>a.
         whenM (a \<noteq> 0) (bfree dev a)))) (
       seq (brelse bp) (
       seq (bfree dev ind)
       (seti ip (\<lambda>x. x\<lparr>i_addrs := (i_addrs x)(NDIRECT := 0)\<rparr>))))))) (
     seq (seti ip (\<lambda>x. x\<lparr>i_size := 0\<rparr>))
     (iupdate ip)))))"

definition iput :: "nat \<Rightarrow> ('z fs_state_scheme, unit) M" where
  "iput ip =
     seq (acquire ItableLock) (
     bnd (geti ip id) (\<lambda>i.
     seq (whenM (i_ref i = 1 \<and> i_valid i \<and> i_nlink i = 0) (
       seq (acquiresleep (InodeLock ip)) (
       seq (release ItableLock) (
       seq (itrunc ip) (
       seq (seti ip (\<lambda>x. x\<lparr>i_type := 0\<rparr>)) (
       seq (iupdate ip) (
       seq (seti ip (\<lambda>x. x\<lparr>i_valid := False\<rparr>)) (
       seq (releasesleep (InodeLock ip))
       (acquire ItableLock))))))))) (
     seq (seti ip (\<lambda>x. x\<lparr>i_ref := i_ref x - 1\<rparr>))
     (release ItableLock))))"

definition iunlockput :: "nat \<Rightarrow> ('z fs_state_scheme, unit) M" where
  "iunlockput ip = seq (iunlock (Some ip)) (iput ip)"

subsection \<open>Inode content\<close>

definition bmap :: "nat \<Rightarrow> u32 \<Rightarrow> ('z fs_state_scheme, u32) M" where
  "bmap ip bn =
     bnd (geti ip i_dev) (\<lambda>dev.
     if unat bn < NDIRECT then
       bnd (geti ip (\<lambda>x. i_addrs x (unat bn))) (\<lambda>a.
       if a = 0 then
         bnd (balloc dev) (\<lambda>a.
         seq (seti ip (\<lambda>x. x\<lparr>i_addrs := (i_addrs x)(unat bn := a)\<rparr>))
         (return a))
       else return a)
     else if unat bn - NDIRECT < NINDIRECT then
       let k = unat bn - NDIRECT in
       bnd (geti ip (\<lambda>x. i_addrs x NDIRECT)) (\<lambda>a.
       bnd (if a = 0 then
              bnd (balloc dev) (\<lambda>a.
              seq (seti ip (\<lambda>x. x\<lparr>i_addrs := (i_addrs x)(NDIRECT := a)\<rparr>))
              (return a))
            else return a) (\<lambda>ind.
       bnd (bread dev ind) (\<lambda>bp.
       bnd (getb bp (\<lambda>x. get32 (b_data x) (4 * k))) (\<lambda>a.
       bnd (if a = 0 then
              bnd (balloc dev) (\<lambda>a.
              seq (setb bp (\<lambda>x. x\<lparr>b_data := put32 (4 * k) a (b_data x)\<rparr>)) (
              seq (log_write bp)
              (return a)))
            else return a) (\<lambda>a.
       seq (brelse bp)
       (return a))))))
     else panic ''bmap: out of range'')"

record stat =
  st_dev :: u32
  st_ino :: u32
  st_type :: u16
  st_nlink :: u16
  st_size :: u64

definition stati :: "nat \<Rightarrow> ('z fs_state_scheme, stat) M" where
  "stati ip = geti ip (\<lambda>i. \<lparr>st_dev = i_dev i, st_ino = i_inum i, st_type = i_type i,
     st_nlink = i_nlink i, st_size = ucast (i_size i)\<rparr>)"

text \<open>
  The copy loops move at least one byte in each round, so that a fuel of one more than the byte
  count is enough. They return the final values of \<open>tot\<close> and \<open>off\<close>.
\<close>

primrec readi_loop :: "nat \<Rightarrow> nat \<Rightarrow> xaddr \<Rightarrow> u32 \<Rightarrow> u32 \<Rightarrow> u32 \<Rightarrow> ('z fs_state_scheme, u32 \<times> xaddr) M" where
  "readi_loop 0 ip dst off n tot = fault ''fuel''"
| "readi_loop (Suc f) ip dst off n tot =
     (if tot < n then
       bnd (geti ip i_dev) (\<lambda>dev.
       bnd (bmap ip (off div of_nat BSIZE)) (\<lambda>a.
       bnd (bread dev a) (\<lambda>bp.
       let m = min (n - tot) (of_nat BSIZE - off mod of_nat BSIZE) in
       bnd (getb bp b_data) (\<lambda>d.
       bnd (either_copyout dst (\<lambda>i. d (unat (off mod of_nat BSIZE) + i)) (unat m)) (\<lambda>(r, dst').
       if r = -1 then seq (brelse bp) (return (-1, dst'))
       else seq (brelse bp) (readi_loop f ip (xaddr_add dst' (unat m)) (off + m) n (tot + m)))))))
     else return (tot, dst))"

definition readi :: "nat \<Rightarrow> xaddr \<Rightarrow> u32 \<Rightarrow> u32 \<Rightarrow> ('z fs_state_scheme, int \<times> xaddr) M" where
  "readi ip dst off n =
     bnd (geti ip i_size) (\<lambda>size.
     if size < off \<or> off + n < off then return (0, dst) else
     let n = (if size < off + n then size - off else n) in
     bnd (readi_loop (Suc (unat n)) ip dst off n 0) (\<lambda>(tot, dst').
     return (sint tot, dst')))"

primrec writei_loop :: "nat \<Rightarrow> nat \<Rightarrow> xaddr \<Rightarrow> u32 \<Rightarrow> u32 \<Rightarrow> u32 \<Rightarrow> ('z fs_state_scheme, u32 \<times> u32) M" where
  "writei_loop 0 ip src off n tot = fault ''fuel''"
| "writei_loop (Suc f) ip src off n tot =
     (if tot < n then
       bnd (geti ip i_dev) (\<lambda>dev.
       bnd (bmap ip (off div of_nat BSIZE)) (\<lambda>a.
       bnd (bread dev a) (\<lambda>bp.
       let m = min (n - tot) (of_nat BSIZE - off mod of_nat BSIZE) in
       bnd (getb bp b_data) (\<lambda>d.
       bnd (either_copyin d (unat (off mod of_nat BSIZE)) src (unat m)) (\<lambda>(r, d').
       seq (setb bp (\<lambda>x. x\<lparr>b_data := d'\<rparr>))
       (if r = -1 then seq (brelse bp) (return (tot, off))
        else
        seq (log_write bp) (
        seq (brelse bp)
        (writei_loop f ip (xaddr_add src (unat m)) (off + m) n (tot + m)))))))))
     else return (tot, off))"

definition writei :: "nat \<Rightarrow> xaddr \<Rightarrow> u32 \<Rightarrow> u32 \<Rightarrow> ('z fs_state_scheme, int) M" where
  "writei ip src off n =
     bnd (geti ip i_size) (\<lambda>size.
     if size < off \<or> off + n < off then return (-1)
     else if MAXFILE * BSIZE < unat (off + n) then return (-1) else
     bnd (writei_loop (Suc (unat n)) ip src off n 0) (\<lambda>(tot, off').
     bnd (geti ip i_size) (\<lambda>size.
     seq (whenM (size < off') (seti ip (\<lambda>x. x\<lparr>i_size := off'\<rparr>))) (
     seq (iupdate ip)
     (return (sint tot))))))"

end
