(* ===== verification/Dir.thy ===== *)
theory Dir
  imports Fs
begin

text \<open>
  Directories and path names: the last part of \<open>kernel/fs.c\<close>. A \<open>struct dirent\<close> is 16 bytes, the
  inode number in the first two and the name in the other fourteen. A path is the list of the
  characters before its terminating zero, and the pointer that walks along it is the list that is left.
\<close>

definition DIRSIZ :: nat where "DIRSIZ = 14"
definition sizeof_dirent :: nat where "sizeof_dirent = 16"
definition slash :: u8 where "slash = 47"

definition namecmp :: "bytes \<Rightarrow> bytes \<Rightarrow> int" where
  "namecmp s t = strncmp s t DIRSIZ"

definition de_inum :: "bytes \<Rightarrow> u16" where "de_inum de = get16 de 0"
definition de_name :: "bytes \<Rightarrow> bytes" where "de_name de = (\<lambda>i. de (2 + i))"

definition local_bytes :: "xaddr \<Rightarrow> bytes" where
  "local_bytes x = (case x of AtLocal b k \<Rightarrow> b | _ \<Rightarrow> (\<lambda>_. 0))"

text \<open>The number of entries the loops over a directory of the given size visit.\<close>

definition dir_slots :: "u32 \<Rightarrow> nat" where
  "dir_slots n = (unat n + sizeof_dirent - 1) div sizeof_dirent"

text \<open>The entry found comes with its offset, the value of \<open>*poff\<close>.\<close>

definition dirlookup :: "nat \<Rightarrow> bytes \<Rightarrow> ('z fs_state_scheme, (nat \<times> u32) option) M" where
  "dirlookup dp nm =
     bnd (geti dp id) (\<lambda>d.
     if i_type d \<noteq> T_DIR then panic ''dirlookup not DIR'' else
     for_until [0..<dir_slots (i_size d)] (\<lambda>k.
       let off = of_nat (k * sizeof_dirent) in
       bnd (readi dp (AtLocal (\<lambda>_. 0) 0) off (of_nat sizeof_dirent)) (\<lambda>(r, x).
       if r \<noteq> int sizeof_dirent then panic ''dirlookup read'' else
       let de = local_bytes x in
       if de_inum de = 0 then return None
       else if namecmp nm (de_name de) = 0 then
         bnd (geti dp i_dev) (\<lambda>dev.
         bnd (iget dev (ucast (de_inum de))) (\<lambda>ip.
         return (Some (ip, off))))
       else return None)))"

definition dirlink :: "nat \<Rightarrow> bytes \<Rightarrow> u32 \<Rightarrow> ('z fs_state_scheme, int) M" where
  "dirlink dp nm inum =
     bnd (dirlookup dp nm) (\<lambda>f.
     case f of Some (ip, _) \<Rightarrow> seq (iput ip) (return (-1))
     | None \<Rightarrow>
     bnd (geti dp i_size) (\<lambda>size.
     bnd (for_until [0..<dir_slots size] (\<lambda>k.
       bnd (readi dp (AtLocal (\<lambda>_. 0) 0) (of_nat (k * sizeof_dirent)) (of_nat sizeof_dirent)) (\<lambda>(r, x).
       if r \<noteq> int sizeof_dirent then panic ''dirlink read'' else
       return (if de_inum (local_bytes x) = 0 then Some (k, local_bytes x) else None)))) (\<lambda>e.
     let (k, de) = (case e of Some kd \<Rightarrow> kd | None \<Rightarrow> (dir_slots size, (\<lambda>_. 0)));
         nm' = strncpy (de_name de) nm DIRSIZ;
         de' = put16 0 (ucast inum) (\<lambda>i. if 2 \<le> i then nm' (i - 2) else de i) in
     bnd (writei dp (AtLocal de' 0) (of_nat (k * sizeof_dirent)) (of_nat sizeof_dirent)) (\<lambda>r.
     if r \<noteq> int sizeof_dirent then panic ''dirlink'' else return 0))))"

text \<open>The path element is copied to \<open>name\<close>; what \<open>name\<close> held behind it stays.\<close>

definition set_name :: "u8 list \<Rightarrow> bytes \<Rightarrow> bytes" where
  "set_name elem nm =
     (let len = length elem in
      if DIRSIZ \<le> len then (\<lambda>i. if i < DIRSIZ then elem ! i else nm i)
      else (\<lambda>i. if i < len then elem ! i else nm i)(len := 0))"

definition skipelem :: "u8 list \<Rightarrow> bytes \<Rightarrow> (u8 list \<times> bytes) option" where
  "skipelem path nm =
     (let s = dropWhile (\<lambda>c. c = slash) path in
      if s = [] then None
      else
        let elem = takeWhile (\<lambda>c. c \<noteq> slash) s;
            rest = dropWhile (\<lambda>c. c \<noteq> slash) s
        in Some (dropWhile (\<lambda>c. c = slash) rest, set_name elem nm))"

text \<open>Every round of \<open>namex\<close> removes a path element, so that the length of the path bounds the rounds.\<close>

primrec namex_loop :: "nat \<Rightarrow> nat \<Rightarrow> u8 list \<Rightarrow> bool \<Rightarrow> bytes \<Rightarrow> ('z fs_state_scheme, nat option \<times> bytes) M" where
  "namex_loop 0 ip path isparent nm = fault ''fuel''"
| "namex_loop (Suc f) ip path isparent nm =
     (case skipelem path nm of
       None \<Rightarrow> if isparent then seq (iput ip) (return (None, nm)) else return (Some ip, nm)
     | Some (path', nm') \<Rightarrow>
       seq (ilock (Some ip)) (
       bnd (geti ip i_type) (\<lambda>ty.
       if ty \<noteq> T_DIR then seq (iunlockput ip) (return (None, nm'))
       else if isparent \<and> path' = [] then seq (iunlock (Some ip)) (return (Some ip, nm'))
       else
         bnd (dirlookup ip nm') (\<lambda>r.
         case r of None \<Rightarrow> seq (iunlockput ip) (return (None, nm'))
         | Some (next, _) \<Rightarrow> seq (iunlockput ip) (namex_loop f next path' isparent nm')))))"

definition namex :: "u8 list \<Rightarrow> bool \<Rightarrow> bytes \<Rightarrow> ('z fs_state_scheme, nat option \<times> bytes) M" where
  "namex path isparent nm =
     bnd (if path \<noteq> [] \<and> hd path = slash then iget ROOTDEV ROOTINO
          else bnd curproc (\<lambda>p. bnd (getp p cwd) (\<lambda>c. bnd (deref c) idup))) (\<lambda>ip.
     namex_loop (Suc (length path)) ip path isparent nm)"

definition namei :: "u8 list \<Rightarrow> ('z fs_state_scheme, nat option) M" where
  "namei path = bnd (namex path False (\<lambda>_. 0)) (\<lambda>(ip, _). return ip)"

definition nameiparent :: "u8 list \<Rightarrow> bytes \<Rightarrow> ('z fs_state_scheme, nat option \<times> bytes) M" where
  "nameiparent path nm = namex path True nm"

end
