(* ===== verification/Console.thy ===== *)
theory Console
  imports Dir
begin

text \<open>
  The console: the interrupt driven part of \<open>kernel/uart.c\<close> and \<open>kernel/console.c\<close>. Both rings keep
  free-running indices that wrap around at the width of their C type. The device switch \<open>devsw\<close> of
  \<open>kernel/file.c\<close> is here because \<open>consoleinit\<close> fills it; the console's functions are the only ones
  that are ever entered in it.
\<close>

datatype devfn = Consoleread | Consolewrite

record devsw_entry =
  dv_read :: "devfn option"
  dv_write :: "devfn option"

record tty_state = fs_state +
  uart_ier :: u8
  uart_lcr :: u8
  uart_fcr :: u8
  uart_dll :: u8
  uart_dlm :: u8
  uart_tx_buf :: "nat \<Rightarrow> u8"
  uart_tx_w :: u64
  uart_tx_r :: u64
  cons_buf :: "nat \<Rightarrow> u8"
  cons_r :: u32
  cons_w :: u32
  cons_e :: u32
  devsw :: "nat \<Rightarrow> devsw_entry"

definition UART_TX_BUF_SIZE :: nat where "UART_TX_BUF_SIZE = 32"
definition INPUT_BUF :: nat where "INPUT_BUF = 128"
definition CONSOLE :: nat where "CONSOLE = 1"

definition Control :: "u8 \<Rightarrow> u8" where "Control x = x - 64"

subsection \<open>uart.c\<close>

text \<open>
  The register writes of \<open>uartinit\<close>. Registers 0 and 1 are the baud rate latch while the latch bit
  of the line control register is set.
\<close>

definition uartinit :: "('z tty_state_scheme, unit) M" where
  "uartinit =
     seq (modify (\<lambda>s. s\<lparr>uart_ier := 0\<rparr>)) (
     seq (modify (\<lambda>s. s\<lparr>uart_lcr := 128\<rparr>)) (
     seq (modify (\<lambda>s. s\<lparr>uart_dll := 3\<rparr>)) (
     seq (modify (\<lambda>s. s\<lparr>uart_dlm := 0\<rparr>)) (
     seq (modify (\<lambda>s. s\<lparr>uart_lcr := 3\<rparr>)) (
     seq (modify (\<lambda>s. s\<lparr>uart_fcr := 1 OR 6\<rparr>)) (
     seq (modify (\<lambda>s. s\<lparr>uart_ier := 2 OR 1\<rparr>))
     (initlock UartLock)))))))"

text \<open>Each round of \<open>uartstart\<close> takes a character out of the buffer, whose length bounds the rounds.\<close>

primrec uartstart_loop :: "nat \<Rightarrow> ('z tty_state_scheme, unit) M" where
  "uartstart_loop 0 = fault ''fuel''"
| "uartstart_loop (Suc f) =
     bnd (gets (\<lambda>s. uart_tx_w s = uart_tx_r s)) (\<lambda>emp.
     if emp then skip else
     bnd uart_tx_idle (\<lambda>idle.
     if \<not> idle then skip else
     bnd (gets (\<lambda>s. uart_tx_buf s (unat (uart_tx_r s) mod UART_TX_BUF_SIZE))) (\<lambda>c.
     seq (modify (\<lambda>s. s\<lparr>uart_tx_r := uart_tx_r s + 1\<rparr>)) (
     seq (wakeup (Some ChUartTx)) (
     seq (uart_write_thr c)
     (uartstart_loop f))))))"

definition uartstart :: "('z tty_state_scheme, unit) M" where
  "uartstart = bnd (gets (\<lambda>s. unat (uart_tx_w s - uart_tx_r s))) (\<lambda>n. uartstart_loop (Suc n))"

definition uartputc :: "u8 \<Rightarrow> ('z tty_state_scheme, unit) M" where
  "uartputc c =
     seq (acquire UartLock) (
     bnd (gets panicked) (\<lambda>halted.
     if halted then spin else
     sleep_loop (
       bnd (gets (\<lambda>s. uart_tx_w s = uart_tx_r s + of_nat UART_TX_BUF_SIZE)) (\<lambda>full.
       if full then seq (sleep ChUartTx UartLock) (return None)
       else
         seq (modify (\<lambda>s. s\<lparr>uart_tx_buf := (uart_tx_buf s)(unat (uart_tx_w s) mod UART_TX_BUF_SIZE := c)\<rparr>)) (
         seq (modify (\<lambda>s. s\<lparr>uart_tx_w := uart_tx_w s + 1\<rparr>)) (
         seq uartstart (
         seq (release UartLock)
         (return (Some ())))))))))"

definition uartgetc :: "('z tty_state_scheme, u8 option) M" where
  "uartgetc =
     bnd (gets uart_rx) (\<lambda>rx.
     case rx of [] \<Rightarrow> return None
     | c # rx' \<Rightarrow> seq (modify (\<lambda>s. s\<lparr>uart_rx := rx'\<rparr>)) (return (Some c)))"

subsection \<open>console.c\<close>

text \<open>The loop returns the value of \<open>i\<close> when it ends; its first argument is \<open>n - i\<close>.\<close>

primrec consolewrite_loop :: "nat \<Rightarrow> xaddr \<Rightarrow> nat \<Rightarrow> ('z tty_state_scheme, nat) M" where
  "consolewrite_loop 0 src i = return i"
| "consolewrite_loop (Suc k) src i =
     bnd (either_copyin (\<lambda>_. 0) 0 (xaddr_add src i) 1) (\<lambda>(r, b).
     if r = -1 then return i
     else seq (uartputc (b 0)) (consolewrite_loop k src (i + 1)))"

definition consolewrite :: "xaddr \<Rightarrow> int \<Rightarrow> ('z tty_state_scheme, int) M" where
  "consolewrite src n = bnd (consolewrite_loop (nat n) src 0) (\<lambda>i. return (int i))"

text \<open>
  The inner loop of \<open>consoleread\<close>; \<open>False\<close> is the return of a killed process. The outer loop
  returns the value of \<open>n\<close> when it ends, or \<open>None\<close> in that case.
\<close>

definition cons_wait :: "('z tty_state_scheme, bool) M" where
  "cons_wait = sleep_loop (
     bnd (gets (\<lambda>s. cons_r s = cons_w s)) (\<lambda>emp.
     if emp then
       bnd curproc (\<lambda>p. bnd (getp p killed) (\<lambda>k.
       if k then seq (release ConsLock) (return (Some False))
       else seq (sleep ChCons ConsLock) (return None)))
     else return (Some True)))"

primrec consoleread_loop :: "nat \<Rightarrow> nat \<Rightarrow> xaddr \<Rightarrow> ('z tty_state_scheme, nat option) M" where
  "consoleread_loop 0 target dst = return (Some 0)"
| "consoleread_loop (Suc n) target dst =
     bnd cons_wait (\<lambda>ready.
     if \<not> ready then return None else
     bnd (gets (\<lambda>s. cons_buf s (unat (cons_r s) mod INPUT_BUF))) (\<lambda>c.
     seq (modify (\<lambda>s. s\<lparr>cons_r := cons_r s + 1\<rparr>)) (
     if c = Control 68 then
       seq (whenM (Suc n < target) (modify (\<lambda>s. s\<lparr>cons_r := cons_r s - 1\<rparr>)))
       (return (Some (Suc n)))
     else
       bnd (either_copyout dst (\<lambda>_. c) 1) (\<lambda>(r, dst').
       if r = -1 then return (Some (Suc n))
       else if c = 10 then return (Some n)
       else consoleread_loop n target (xaddr_add dst' 1)))))"

definition consoleread :: "xaddr \<Rightarrow> int \<Rightarrow> ('z tty_state_scheme, int) M" where
  "consoleread dst n =
     seq (acquire ConsLock) (
     if 0 < n then
       bnd (consoleread_loop (nat n) (nat n) dst) (\<lambda>r.
       case r of None \<Rightarrow> return (-1)
       | Some m \<Rightarrow> seq (release ConsLock) (return (n - int m)))
     else seq (release ConsLock) (return 0))"

text \<open>The kill-line loop walks \<open>cons.e\<close> back to \<open>cons.w\<close> at most.\<close>

primrec kill_line :: "nat \<Rightarrow> ('z tty_state_scheme, unit) M" where
  "kill_line 0 = fault ''fuel''"
| "kill_line (Suc f) =
     bnd (gets (\<lambda>s. cons_e s \<noteq> cons_w s \<and> cons_buf s (unat (cons_e s - 1) mod INPUT_BUF) \<noteq> 10)) (\<lambda>more.
     whenM more (
       seq (modify (\<lambda>s. s\<lparr>cons_e := cons_e s - 1\<rparr>)) (
       seq (consputc None)
       (kill_line f))))"

definition consoleintr :: "u8 \<Rightarrow> ('z tty_state_scheme, unit) M" where
  "consoleintr c =
     seq (acquire ConsLock) (
     seq (
       if c = Control 80 then procdump
       else if c = Control 85 then
         bnd (gets (\<lambda>s. unat (cons_e s - cons_w s))) (\<lambda>n. kill_line (Suc n))
       else if c = Control 72 \<or> c = 127 then
         bnd (gets (\<lambda>s. cons_e s \<noteq> cons_w s)) (\<lambda>more.
         whenM more (seq (modify (\<lambda>s. s\<lparr>cons_e := cons_e s - 1\<rparr>)) (consputc None)))
       else
         bnd (gets (\<lambda>s. unat (cons_e s - cons_r s) < INPUT_BUF)) (\<lambda>room.
         whenM (c \<noteq> 0 \<and> room) (
           let c = (if c = 13 then 10 else c) in
           seq (consputc (Some c)) (
           seq (modify (\<lambda>s. s\<lparr>cons_buf := (cons_buf s)(unat (cons_e s) mod INPUT_BUF := c), cons_e := cons_e s + 1\<rparr>)) (
           bnd (gets (\<lambda>s. cons_e s = cons_r s + of_nat INPUT_BUF)) (\<lambda>full.
           whenM (c = 10 \<or> c = Control 68 \<or> full) (
             seq (modify (\<lambda>s. s\<lparr>cons_w := cons_e s\<rparr>))
             (wakeup (Some ChCons)))))))))
     (release ConsLock))"

definition consoleinit :: "('z tty_state_scheme, unit) M" where
  "consoleinit =
     seq (initlock ConsLock) (
     seq uartinit (
     modify (\<lambda>s. s\<lparr>devsw := (devsw s)(CONSOLE := \<lparr>dv_read = Some Consoleread, dv_write = Some Consolewrite\<rparr>)\<rparr>)))"

text \<open>The input loop of \<open>uartintr\<close> takes one character from the device in each round.\<close>

primrec uartintr_loop :: "nat \<Rightarrow> ('z tty_state_scheme, unit) M" where
  "uartintr_loop 0 = fault ''fuel''"
| "uartintr_loop (Suc f) =
     bnd uartgetc (\<lambda>r.
     case r of None \<Rightarrow> skip | Some c \<Rightarrow> seq (consoleintr c) (uartintr_loop f))"

definition uartintr :: "('z tty_state_scheme, unit) M" where
  "uartintr =
     bnd (gets (\<lambda>s. length (uart_rx s))) (\<lambda>n.
     seq (uartintr_loop (Suc n)) (
     seq (acquire UartLock) (
     seq uartstart
     (release UartLock))))"

end
