(* ===== verification/Pipe.thy ===== *)
theory Pipe
  imports Console
begin

text \<open>
  Pipes and open files: \<open>kernel/pipe.c\<close>, \<open>kernel/file.c\<close> and the \<open>struct file\<close> of \<open>kernel/file.h\<close>. A
  pipe is named by the address of the page it lives in and its fields are kept in \<open>pipes\<close>; an open
  file is its slot in \<open>ftable.file\<close>.
\<close>

definition PIPESIZE :: nat where "PIPESIZE = 512"

record pipe =
  p_data :: "nat \<Rightarrow> u8"
  p_nread :: u32
  p_nwrite :: u32
  p_readopen :: bool
  p_writeopen :: bool

datatype fdtype = FD_NONE | FD_PIPE | FD_INODE | FD_DEVICE

record kfile =
  f_type :: fdtype
  f_ref :: int
  f_readable :: bool
  f_writable :: bool
  f_pipe :: u64
  f_ip :: "nat option"
  f_off :: u32
  f_major :: u16

record file_state = tty_state +
  pipes :: "u64 \<Rightarrow> pipe"
  ftable :: "nat \<Rightarrow> kfile"

definition getpi :: "u64 \<Rightarrow> (pipe \<Rightarrow> 'a) \<Rightarrow> ('z file_state_scheme, 'a) M" where
  "getpi pi f = gets (\<lambda>s. f (pipes s pi))"

definition setpi :: "u64 \<Rightarrow> (pipe \<Rightarrow> pipe) \<Rightarrow> ('z file_state_scheme, unit) M" where
  "setpi pi f = modify (\<lambda>s. s\<lparr>pipes := (pipes s)(pi := f (pipes s pi))\<rparr>)"

definition getf :: "nat \<Rightarrow> (kfile \<Rightarrow> 'a) \<Rightarrow> ('z file_state_scheme, 'a) M" where
  "getf i f = gets (\<lambda>s. f (ftable s i))"

definition setf :: "nat \<Rightarrow> (kfile \<Rightarrow> kfile) \<Rightarrow> ('z file_state_scheme, unit) M" where
  "setf i f = modify (\<lambda>s. s\<lparr>ftable := (ftable s)(i := f (ftable s i))\<rparr>)"

lemma getpi_run [simp]: "getpi pi f e s = Ok (f (pipes s pi)) e s"
  by (simp add: getpi_def)

lemma setpi_run [simp]: "setpi pi f e s = Ok () e (s\<lparr>pipes := (pipes s)(pi := f (pipes s pi))\<rparr>)"
  by (simp add: setpi_def)

lemma getf_run [simp]: "getf i f e s = Ok (f (ftable s i)) e s"
  by (simp add: getf_def)

lemma setf_run [simp]: "setf i f e s = Ok () e (s\<lparr>ftable := (ftable s)(i := f (ftable s i))\<rparr>)"
  by (simp add: setf_def)

subsection \<open>pipe.c\<close>

definition pipeclose :: "u64 \<Rightarrow> bool \<Rightarrow> ('z file_state_scheme, unit) M" where
  "pipeclose pi writable =
     seq (acquire (PipeLock pi)) (
     seq (if writable then
            seq (setpi pi (\<lambda>p. p\<lparr>p_writeopen := False\<rparr>)) (wakeup (Some (ChPipeR pi)))
          else
            seq (setpi pi (\<lambda>p. p\<lparr>p_readopen := False\<rparr>)) (wakeup (Some (ChPipeW pi)))) (
     bnd (getpi pi (\<lambda>p. \<not> p_readopen p \<and> \<not> p_writeopen p)) (\<lambda>dead.
     if dead then seq (release (PipeLock pi)) (kfree pi)
     else release (PipeLock pi))))"

text \<open>
  Each round of \<open>pipewrite\<close> stores a byte or sleeps, so that the sum of the byte count and the
  number of environment steps bounds the rounds. \<open>None\<close> is the early return.
\<close>

primrec pipewrite_loop :: "nat \<Rightarrow> u64 \<Rightarrow> pslot \<Rightarrow> u64 \<Rightarrow> nat \<Rightarrow> nat \<Rightarrow> ('z file_state_scheme, nat option) M" where
  "pipewrite_loop 0 pi pr addr n i = fault ''fuel''"
| "pipewrite_loop (Suc f) pi pr addr n i =
     (if n \<le> i then return (Some i) else
     bnd (getpi pi id) (\<lambda>p.
     bnd (getp pr killed) (\<lambda>k.
     if \<not> p_readopen p \<or> k then seq (release (PipeLock pi)) (return None)
     else if p_nwrite p = p_nread p + of_nat PIPESIZE then
       seq (wakeup (Some (ChPipeR pi))) (
       seq (sleep (ChPipeW pi) (PipeLock pi))
       (pipewrite_loop f pi pr addr n i))
     else
       bnd (getp pr pagetable) (\<lambda>pt.
       bnd (copyin pt (\<lambda>_. 0) (addr + of_nat i) 1) (\<lambda>(r, b).
       if r = -1 then return (Some i)
       else
         seq (setpi pi (\<lambda>p. p\<lparr>p_data := (p_data p)(unat (p_nwrite p) mod PIPESIZE := b 0),
           p_nwrite := p_nwrite p + 1\<rparr>))
         (pipewrite_loop f pi pr addr n (i + 1)))))))"

definition pipewrite :: "u64 \<Rightarrow> u64 \<Rightarrow> int \<Rightarrow> ('z file_state_scheme, int) M" where
  "pipewrite pi addr n =
     bnd curproc (\<lambda>pr.
     seq (acquire (PipeLock pi)) (
     bnd (\<lambda>e s. pipewrite_loop (Suc (nat n + length e)) pi pr addr (nat n) 0 e s) (\<lambda>r.
     case r of None \<Rightarrow> return (-1)
     | Some i \<Rightarrow>
       seq (wakeup (Some (ChPipeR pi))) (
       seq (release (PipeLock pi))
       (return (int i))))))"

primrec piperead_loop :: "nat \<Rightarrow> u64 \<Rightarrow> pslot \<Rightarrow> u64 \<Rightarrow> nat \<Rightarrow> ('z file_state_scheme, nat) M" where
  "piperead_loop 0 pi pr addr i = return i"
| "piperead_loop (Suc k) pi pr addr i =
     bnd (getpi pi id) (\<lambda>p.
     if p_nread p = p_nwrite p then return i else
     seq (setpi pi (\<lambda>p. p\<lparr>p_nread := p_nread p + 1\<rparr>)) (
     bnd (getp pr pagetable) (\<lambda>pt.
     bnd (copyout pt (addr + of_nat i) (\<lambda>_. p_data p (unat (p_nread p) mod PIPESIZE)) 1) (\<lambda>r.
     if r = -1 then return i
     else piperead_loop k pi pr addr (i + 1)))))"

definition piperead :: "u64 \<Rightarrow> u64 \<Rightarrow> int \<Rightarrow> ('z file_state_scheme, int) M" where
  "piperead pi addr n =
     bnd curproc (\<lambda>pr.
     seq (acquire (PipeLock pi)) (
     bnd (sleep_loop (
       bnd (getpi pi id) (\<lambda>p.
       if p_nread p = p_nwrite p \<and> p_writeopen p then
         bnd (getp pr killed) (\<lambda>k.
         if k then seq (release (PipeLock pi)) (return (Some False))
         else seq (sleep (ChPipeR pi) (PipeLock pi)) (return None))
       else return (Some True)))) (\<lambda>ready.
     if \<not> ready then return (-1) else
     bnd (piperead_loop (nat n) pi pr addr 0) (\<lambda>i.
     seq (wakeup (Some (ChPipeW pi))) (
     seq (release (PipeLock pi))
     (return (int i)))))))"

subsection \<open>file.c\<close>

definition fileinit :: "('z file_state_scheme, unit) M" where
  "fileinit = initlock FtableLock"

definition filealloc :: "('z file_state_scheme, nat option) M" where
  "filealloc =
     seq (acquire FtableLock) (
     bnd (for_until [0..<NFILE] (\<lambda>f.
       bnd (getf f f_ref) (\<lambda>r.
       if r = 0 then
         seq (setf f (\<lambda>x. x\<lparr>f_ref := 1\<rparr>)) (
         seq (release FtableLock)
         (return (Some f)))
       else return None))) (\<lambda>r.
     case r of Some f \<Rightarrow> return (Some f)
     | None \<Rightarrow> seq (release FtableLock) (return None)))"

definition filedup :: "nat \<Rightarrow> ('z file_state_scheme, nat) M" where
  "filedup f =
     seq (acquire FtableLock) (
     bnd (getf f f_ref) (\<lambda>r.
     if r < 1 then panic ''filedup'' else
     seq (setf f (\<lambda>x. x\<lparr>f_ref := f_ref x + 1\<rparr>)) (
     seq (release FtableLock)
     (return f))))"

definition fileclose :: "nat \<Rightarrow> ('z file_state_scheme, unit) M" where
  "fileclose f =
     seq (acquire FtableLock) (
     bnd (getf f f_ref) (\<lambda>r.
     if r < 1 then panic ''fileclose'' else
     seq (setf f (\<lambda>x. x\<lparr>f_ref := f_ref x - 1\<rparr>)) (
     bnd (getf f id) (\<lambda>ff.
     if 0 < f_ref ff then release FtableLock
     else
       seq (setf f (\<lambda>x. x\<lparr>f_ref := 0, f_type := FD_NONE\<rparr>)) (
       seq (release FtableLock) (
       if f_type ff = FD_PIPE then pipeclose (f_pipe ff) (f_writable ff)
       else whenM (f_type ff = FD_INODE \<or> f_type ff = FD_DEVICE) (
         seq begin_op (
         seq (bnd (deref (f_ip ff)) iput)
         end_op))))))))"

text \<open>
  \<open>struct stat\<close> as it is copied to user space, 24 bytes. The four bytes of padding before \<open>size\<close> are
  whatever the kernel stack held; they are zero here.
\<close>

definition sizeof_stat :: nat where "sizeof_stat = 24"

definition stat_bytes :: "stat \<Rightarrow> bytes" where
  "stat_bytes st = (\<lambda>i.
     if 16 \<le> i then bytes64 (st_size st) (i - 16)
     else put16 10 (st_nlink st) (put16 8 (st_type st) (put32 4 (st_ino st) (put32 0 (st_dev st) (\<lambda>_. 0)))) i)"

definition filestat :: "nat \<Rightarrow> u64 \<Rightarrow> ('z file_state_scheme, int) M" where
  "filestat f addr =
     bnd curproc (\<lambda>p.
     bnd (getf f id) (\<lambda>ff.
     if f_type ff = FD_INODE \<or> f_type ff = FD_DEVICE then
       seq (ilock (f_ip ff)) (
       bnd (bnd (deref (f_ip ff)) stati) (\<lambda>st.
       seq (iunlock (f_ip ff)) (
       bnd (getp p pagetable) (\<lambda>pt.
       bnd (copyout pt addr (stat_bytes st) (of_nat sizeof_stat)) (\<lambda>r.
       return (if r < 0 then -1 else 0))))))
     else return (-1)))"

definition dev_fn :: "devfn \<Rightarrow> xaddr \<Rightarrow> int \<Rightarrow> ('z file_state_scheme, int) M" where
  "dev_fn d = (case d of Consoleread \<Rightarrow> consoleread | Consolewrite \<Rightarrow> consolewrite)"

definition fileread :: "nat \<Rightarrow> u64 \<Rightarrow> int \<Rightarrow> ('z file_state_scheme, int) M" where
  "fileread f addr n =
     bnd (getf f id) (\<lambda>ff.
     if \<not> f_readable ff then return (-1) else
     (case f_type ff of
       FD_PIPE \<Rightarrow> piperead (f_pipe ff) addr n
     | FD_DEVICE \<Rightarrow>
       if sint (f_major ff) < 0 \<or> int NDEV \<le> sint (f_major ff) then return (-1) else
       bnd (gets (\<lambda>s. dv_read (devsw s (nat (sint (f_major ff)))))) (\<lambda>d.
       case d of None \<Rightarrow> return (-1) | Some fn \<Rightarrow> dev_fn fn (AtUser addr) n)
     | FD_INODE \<Rightarrow>
       seq (ilock (f_ip ff)) (
       bnd (deref (f_ip ff)) (\<lambda>ip.
       bnd (getf f f_off) (\<lambda>off.
       bnd (readi ip (AtUser addr) off (word_of_int n)) (\<lambda>(r, _).
       seq (whenM (0 < r) (setf f (\<lambda>x. x\<lparr>f_off := f_off x + word_of_int r\<rparr>))) (
       seq (iunlock (f_ip ff))
       (return r))))))
     | FD_NONE \<Rightarrow> panic ''fileread''))"

definition write_max :: int where
  "write_max = int ((MAXOPBLOCKS - 1 - 1 - 2) div 2 * BSIZE)"

text \<open>Every round of the loop but the last writes at least one byte.\<close>

primrec filewrite_loop :: "nat \<Rightarrow> nat \<Rightarrow> u64 \<Rightarrow> int \<Rightarrow> int \<Rightarrow> ('z file_state_scheme, int) M" where
  "filewrite_loop 0 f addr n i = fault ''fuel''"
| "filewrite_loop (Suc k) f addr n i =
     (if n \<le> i then return i else
     let n1 = min (n - i) write_max in
     seq begin_op (
     bnd (getf f f_ip) (\<lambda>ipo.
     seq (ilock ipo) (
     bnd (deref ipo) (\<lambda>ip.
     bnd (getf f f_off) (\<lambda>off.
     bnd (writei ip (AtUser (addr + word_of_int i)) off (word_of_int n1)) (\<lambda>r.
     seq (whenM (0 < r) (setf f (\<lambda>x. x\<lparr>f_off := f_off x + word_of_int r\<rparr>))) (
     seq (iunlock ipo) (
     seq end_op (
     if r \<noteq> n1 then return i else filewrite_loop k f addr n (i + r)))))))))))"

definition filewrite :: "nat \<Rightarrow> u64 \<Rightarrow> int \<Rightarrow> ('z file_state_scheme, int) M" where
  "filewrite f addr n =
     bnd (getf f id) (\<lambda>ff.
     if \<not> f_writable ff then return (-1) else
     (case f_type ff of
       FD_PIPE \<Rightarrow> pipewrite (f_pipe ff) addr n
     | FD_DEVICE \<Rightarrow>
       if sint (f_major ff) < 0 \<or> int NDEV \<le> sint (f_major ff) then return (-1) else
       bnd (gets (\<lambda>s. dv_write (devsw s (nat (sint (f_major ff)))))) (\<lambda>d.
       case d of None \<Rightarrow> return (-1) | Some fn \<Rightarrow> dev_fn fn (AtUser addr) n)
     | FD_INODE \<Rightarrow>
       bnd (filewrite_loop (Suc (nat n)) f addr n 0) (\<lambda>i.
       return (if i = n then n else -1))
     | FD_NONE \<Rightarrow> panic ''filewrite''))"

subsection \<open>pipealloc\<close>

definition pipealloc :: "('z file_state_scheme, (nat \<times> nat) option) M" where
  "pipealloc =
     bnd filealloc (\<lambda>f0.
     bnd (case f0 of None \<Rightarrow> return None | Some _ \<Rightarrow> filealloc) (\<lambda>f1.
     bnd (case f1 of None \<Rightarrow> return 0 | Some _ \<Rightarrow> kalloc) (\<lambda>pi.
     case (f0, f1, pi = 0) of
       (Some a, Some b, False) \<Rightarrow>
         seq (setpi pi (\<lambda>p. p\<lparr>p_readopen := True, p_writeopen := True, p_nwrite := 0, p_nread := 0\<rparr>)) (
         seq (initlock (PipeLock pi)) (
         seq (setf a (\<lambda>x. x\<lparr>f_type := FD_PIPE, f_readable := True, f_writable := False, f_pipe := pi\<rparr>)) (
         seq (setf b (\<lambda>x. x\<lparr>f_type := FD_PIPE, f_readable := False, f_writable := True, f_pipe := pi\<rparr>))
         (return (Some (a, b))))))
     | _ \<Rightarrow>
         seq (case f0 of None \<Rightarrow> skip | Some a \<Rightarrow> fileclose a) (
         seq (case f1 of None \<Rightarrow> skip | Some b \<Rightarrow> fileclose b)
         (return None)))))"

end
