(* ===== verification/Virtio.thy ===== *)
theory Virtio
  imports Pipe
begin

text \<open>
  The disk driver: \<open>kernel/virtio.h\<close> and \<open>kernel/virtio_disk.c\<close>. The descriptor table, the two rings
  and the request headers, which driver and device share, are fields of the state. The addresses a
  descriptor can hold are those the driver writes: a request header, the data of a buffer, or a
  status byte. The device itself is outside the sources; it acts while the driver sleeps, as a step
  of the environment.
\<close>

definition NUM :: nat where "NUM = 8"
definition VRING_DESC_F_NEXT :: u16 where "VRING_DESC_F_NEXT = 1"
definition VRING_DESC_F_WRITE :: u16 where "VRING_DESC_F_WRITE = 2"
definition VIRTIO_BLK_T_IN :: u32 where "VIRTIO_BLK_T_IN = 0"
definition VIRTIO_BLK_T_OUT :: u32 where "VIRTIO_BLK_T_OUT = 1"

datatype dma_addr = NoAddr | OpsAt nat | DataAt nat | StatusAt nat

record virtq_desc =
  d_addr :: dma_addr
  d_len :: u32
  d_flags :: u16
  d_next :: u16

record virtio_blk_req =
  rq_type :: u32
  rq_reserved :: u32
  rq_sector :: u64

record vdisk_state = file_state +
  vd_desc :: "nat \<Rightarrow> virtq_desc"
  vd_avail_idx :: u16
  vd_avail_ring :: "nat \<Rightarrow> u16"
  vd_dev_used_idx :: u16
  vd_used_ring :: "nat \<Rightarrow> u32"
  vd_free :: "nat \<Rightarrow> bool"
  vd_used_idx :: u16
  vd_info_b :: "nat \<Rightarrow> nat option"
  vd_info_status :: "nat \<Rightarrow> u8"
  vd_ops :: "nat \<Rightarrow> virtio_blk_req"
  vd_mmio :: "nat \<Rightarrow> u32"
  vd_pages :: u64

definition mmio_read :: "nat \<Rightarrow> ('z vdisk_state_scheme, u32) M" where
  "mmio_read r = gets (\<lambda>s. vd_mmio s r)"

definition mmio_write :: "nat \<Rightarrow> u32 \<Rightarrow> ('z vdisk_state_scheme, unit) M" where
  "mmio_write r v = modify (\<lambda>s. s\<lparr>vd_mmio := (vd_mmio s)(r := v)\<rparr>)"

definition set_desc :: "nat \<Rightarrow> (virtq_desc \<Rightarrow> virtq_desc) \<Rightarrow> ('z vdisk_state_scheme, unit) M" where
  "set_desc i f = modify (\<lambda>s. s\<lparr>vd_desc := (vd_desc s)(i := f (vd_desc s i))\<rparr>)"

lemma set_desc_run [simp]: "set_desc i f e s = Ok () e (s\<lparr>vd_desc := (vd_desc s)(i := f (vd_desc s i))\<rparr>)"
  by (simp add: set_desc_def)

definition empty_desc :: virtq_desc where
  "empty_desc = \<lparr>d_addr = NoAddr, d_len = 0, d_flags = 0, d_next = 0\<rparr>"

text \<open>The feature bits the driver does not want: RO, SCSI, CONFIG\_WCE, MQ, ANY\_LAYOUT, EVENT\_IDX, INDIRECT\_DESC.\<close>

definition unwanted_features :: u32 where
  "unwanted_features = push_bit 5 1 OR push_bit 7 1 OR push_bit 11 1 OR push_bit 12 1 OR push_bit 27 1
     OR push_bit 29 1 OR push_bit 28 1"

definition virtio_disk_init :: "('z vdisk_state_scheme, unit) M" where
  "virtio_disk_init =
     seq (initlock VdiskLock) (
     bnd (mmio_read 0x000) (\<lambda>magic.
     bnd (mmio_read 0x004) (\<lambda>version.
     bnd (mmio_read 0x008) (\<lambda>device.
     bnd (mmio_read 0x00c) (\<lambda>vendor.
     if magic \<noteq> 0x74726976 \<or> version \<noteq> 1 \<or> device \<noteq> 2 \<or> vendor \<noteq> 0x554d4551 then
       panic ''could not find virtio disk''
     else
     seq (mmio_write 0x070 1) (
     seq (mmio_write 0x070 (1 OR 2)) (
     bnd (mmio_read 0x010) (\<lambda>features.
     seq (mmio_write 0x020 (features AND NOT unwanted_features)) (
     seq (mmio_write 0x070 (1 OR 2 OR 8)) (
     seq (mmio_write 0x070 (1 OR 2 OR 8 OR 4)) (
     seq (mmio_write 0x028 (ucast PGSIZE)) (
     seq (mmio_write 0x030 0) (
     bnd (mmio_read 0x034) (\<lambda>qmax.
     if qmax = 0 then panic ''virtio disk has no queue 0''
     else if unat qmax < NUM then panic ''virtio disk max queue too short'' else
     seq (mmio_write 0x038 (of_nat NUM)) (
     seq (modify (\<lambda>s. s\<lparr>vd_desc := (\<lambda>_. empty_desc), vd_avail_idx := 0, vd_avail_ring := (\<lambda>_. 0),
       vd_dev_used_idx := 0, vd_used_ring := (\<lambda>_. 0)\<rparr>)) (
     bnd (gets vd_pages) (\<lambda>pages.
     seq (mmio_write 0x040 (ucast (drop_bit 12 pages)))
     (for_each [0..<NUM] (\<lambda>i. modify (\<lambda>s. s\<lparr>vd_free := (vd_free s)(i := True)\<rparr>)))
     )))))))))))))))))"

definition alloc_desc :: "('z vdisk_state_scheme, nat option) M" where
  "alloc_desc = for_until [0..<NUM] (\<lambda>i.
     bnd (gets (\<lambda>s. vd_free s i)) (\<lambda>fr.
     if fr then seq (modify (\<lambda>s. s\<lparr>vd_free := (vd_free s)(i := False)\<rparr>)) (return (Some i))
     else return None))"

definition free_desc :: "nat \<Rightarrow> ('z vdisk_state_scheme, unit) M" where
  "free_desc i =
     (if NUM \<le> i then panic ''free_desc 1'' else
     bnd (gets (\<lambda>s. vd_free s i)) (\<lambda>fr.
     if fr then panic ''free_desc 2'' else
     seq (set_desc i (\<lambda>_. empty_desc)) (
     seq (modify (\<lambda>s. s\<lparr>vd_free := (vd_free s)(i := True)\<rparr>))
     (wakeup (Some ChDiskFree)))))"

text \<open>
  \<open>free_chain\<close> frees another descriptor in each round, and a round on one that is already free
  panics, so that \<open>NUM\<close> and one rounds are enough.
\<close>

primrec free_chain_loop :: "nat \<Rightarrow> nat \<Rightarrow> ('z vdisk_state_scheme, unit) M" where
  "free_chain_loop 0 i = fault ''fuel''"
| "free_chain_loop (Suc f) i =
     bnd (gets (\<lambda>s. vd_desc s i)) (\<lambda>d.
     seq (free_desc i)
     (if d_flags d AND VRING_DESC_F_NEXT \<noteq> 0 then free_chain_loop f (unat (d_next d)) else skip))"

definition free_chain :: "nat \<Rightarrow> ('z vdisk_state_scheme, unit) M" where
  "free_chain i = free_chain_loop (Suc NUM) i"

definition alloc3_desc :: "('z vdisk_state_scheme, (nat \<times> nat \<times> nat) option) M" where
  "alloc3_desc =
     bnd alloc_desc (\<lambda>r0. case r0 of None \<Rightarrow> return None | Some i0 \<Rightarrow>
     bnd alloc_desc (\<lambda>r1. case r1 of None \<Rightarrow> seq (free_desc i0) (return None) | Some i1 \<Rightarrow>
     bnd alloc_desc (\<lambda>r2. case r2 of None \<Rightarrow> seq (free_desc i0) (seq (free_desc i1) (return None)) | Some i2 \<Rightarrow>
     return (Some (i0, i1, i2)))))"

definition virtio_disk_rw :: "nat \<Rightarrow> bool \<Rightarrow> ('z vdisk_state_scheme, unit) M" where
  "virtio_disk_rw b write =
     bnd (getb b (\<lambda>x. ucast (b_blockno x * of_nat (BSIZE div 512)) :: u64)) (\<lambda>sector.
     seq (acquire VdiskLock) (
     bnd (sleep_loop (
       bnd alloc3_desc (\<lambda>r.
       case r of Some idx \<Rightarrow> return (Some idx)
       | None \<Rightarrow> seq (sleep ChDiskFree VdiskLock) (return None)))) (\<lambda>(i0, i1, i2).
     seq (modify (\<lambda>s. s\<lparr>vd_ops := (vd_ops s)(i0 :=
       \<lparr>rq_type = (if write then VIRTIO_BLK_T_OUT else VIRTIO_BLK_T_IN), rq_reserved = 0, rq_sector = sector\<rparr>)\<rparr>)) (
     seq (set_desc i0 (\<lambda>_. \<lparr>d_addr = OpsAt i0, d_len = 16, d_flags = VRING_DESC_F_NEXT, d_next = of_nat i1\<rparr>)) (
     seq (set_desc i1 (\<lambda>_. \<lparr>d_addr = DataAt b, d_len = of_nat BSIZE,
       d_flags = (if write then 0 else VRING_DESC_F_WRITE) OR VRING_DESC_F_NEXT, d_next = of_nat i2\<rparr>)) (
     seq (modify (\<lambda>s. s\<lparr>vd_info_status := (vd_info_status s)(i0 := 0xff)\<rparr>)) (
     seq (set_desc i2 (\<lambda>_. \<lparr>d_addr = StatusAt i0, d_len = 1, d_flags = VRING_DESC_F_WRITE, d_next = 0\<rparr>)) (
     seq (setb b (\<lambda>x. x\<lparr>b_disk := True\<rparr>)) (
     seq (modify (\<lambda>s. s\<lparr>vd_info_b := (vd_info_b s)(i0 := Some b)\<rparr>)) (
     seq (modify (\<lambda>s. s\<lparr>vd_avail_ring := (vd_avail_ring s)(unat (vd_avail_idx s) mod NUM := of_nat i0)\<rparr>)) (
     seq (modify (\<lambda>s. s\<lparr>vd_avail_idx := vd_avail_idx s + 1\<rparr>)) (
     seq (mmio_write 0x050 0) (
     seq (sleep_loop (
       bnd (getb b b_disk) (\<lambda>busy.
       if busy then seq (sleep (ChDiskBuf b) VdiskLock) (return None) else return (Some ())))) (
     seq (modify (\<lambda>s. s\<lparr>vd_info_b := (vd_info_b s)(i0 := None)\<rparr>)) (
     seq (free_chain i0)
     (release VdiskLock))))))))))))))))"

text \<open>The completion loop of \<open>virtio_disk_intr\<close>, bounded by the distance of the two indices.\<close>

primrec disk_intr_loop :: "nat \<Rightarrow> ('z vdisk_state_scheme, unit) M" where
  "disk_intr_loop 0 = fault ''fuel''"
| "disk_intr_loop (Suc f) =
     bnd (gets (\<lambda>s. vd_used_idx s \<noteq> vd_dev_used_idx s)) (\<lambda>more.
     if \<not> more then skip else
     bnd (gets (\<lambda>s. unat (vd_used_ring s (unat (vd_used_idx s) mod NUM)))) (\<lambda>id.
     bnd (gets (\<lambda>s. vd_info_status s id)) (\<lambda>st.
     if st \<noteq> 0 then panic ''virtio_disk_intr status'' else
     bnd (gets (\<lambda>s. vd_info_b s id)) (\<lambda>bo.
     bnd (deref bo) (\<lambda>b.
     seq (setb b (\<lambda>x. x\<lparr>b_disk := False\<rparr>)) (
     seq (wakeup (Some (ChDiskBuf b))) (
     seq (modify (\<lambda>s. s\<lparr>vd_used_idx := vd_used_idx s + 1\<rparr>))
     (disk_intr_loop f))))))))"

definition virtio_disk_intr :: "('z vdisk_state_scheme, unit) M" where
  "virtio_disk_intr =
     seq (acquire VdiskLock) (
     bnd (mmio_read 0x060) (\<lambda>st.
     seq (mmio_write 0x064 (st AND 3)) (
     bnd (gets (\<lambda>s. unat (vd_dev_used_idx s - vd_used_idx s))) (\<lambda>n.
     seq (disk_intr_loop (Suc n))
     (release VdiskLock)))))"

end
