(* ===== verification/Process.thy ===== *)
theory Process
  imports Virtio
begin

text \<open>
  The part of \<open>kernel/proc.c\<close> that calls the file system: \<open>userinit\<close>, \<open>fork\<close>, \<open>exit\<close> and
  \<open>kthread_exit\<close>. The record \<open>kernel_state\<close> closes the kernel state with the clock of
  \<open>kernel/trap.c\<close>, the trap registers of a hart, the interrupt controller and the \<open>static\<close> flags of
  \<open>forkret\<close> and \<open>main\<close>.
\<close>

record kernel_state = vdisk_state +
  ticks :: u32
  forkret_first :: bool
  started :: bool
  r_sepc :: u64
  r_scause :: u64
  r_stval :: u64
  r_stvec :: u64
  r_sip :: u64
  plic :: "u64 \<Rightarrow> u32"
  reg_a0 :: u64

definition initcode :: "u8 list" where
  "initcode = [
     0x17, 0x05, 0x00, 0x00, 0x13, 0x05, 0x45, 0x02,
     0x97, 0x05, 0x00, 0x00, 0x93, 0x85, 0x35, 0x02,
     0x93, 0x08, 0x70, 0x00, 0x73, 0x00, 0x00, 0x00,
     0x93, 0x08, 0x20, 0x00, 0x73, 0x00, 0x00, 0x00,
     0xef, 0xf0, 0x9f, 0xff, 0x2f, 0x69, 0x6e, 0x69,
     0x74, 0x00, 0x00, 0x24, 0x00, 0x00, 0x00, 0x00,
     0x00, 0x00, 0x00, 0x00]"

text \<open>A string as an array of characters with its terminating null.\<close>

definition array_of :: "u8 list \<Rightarrow> bytes" where
  "array_of cs = (\<lambda>i. if i < length cs then cs ! i else 0)"

definition userinit :: "('z kernel_state_scheme, unit) M" where
  "userinit =
     bnd allocproc (\<lambda>po.
     seq (modify (\<lambda>s. s\<lparr>initproc := po\<rparr>)) (
     bnd (deref po) (\<lambda>p.
     bnd (getp p pagetable) (\<lambda>pt.
     seq (uvminit pt (array_of initcode) (of_nat (length initcode))) (
     seq (setp p (\<lambda>pr. pr\<lparr>sz := PGSIZE\<rparr>)) (
     bnd (getp p main_thread) (\<lambda>mto.
     bnd (deref mto) (\<lambda>mt.
     seq (tf_set mt tf_epc 0) (
     seq (tf_set mt tf_sp PGSIZE) (
     seq (setp p (\<lambda>pr. pr\<lparr>name := safestrcpy (name pr) (array_of (cstr ''initcode'')) 16\<rparr>)) (
     bnd (namei (cstr ''/'')) (\<lambda>ip.
     seq (setp p (\<lambda>pr. pr\<lparr>cwd := ip, pendingSignals := 0, signalMask := 0,
       signalHandlers := (\<lambda>i. if i < 32 then SIG_DFL else signalHandlers pr i),
       ignore_signals := False, stopped := False\<rparr>)) (
     seq (sett mt (\<lambda>th. th\<lparr>t_state := RUNNABLE\<rparr>))
     (release (ProcLock p)))))))))))))))"

definition fork :: "('z kernel_state_scheme, int) M" where
  "fork =
     bnd curproc (\<lambda>p.
     bnd curthread (\<lambda>t.
     bnd allocproc (\<lambda>npo.
     case npo of None \<Rightarrow> return (-1) | Some np \<Rightarrow>
     bnd (getp p id) (\<lambda>pr.
     bnd (getp np pagetable) (\<lambda>npt.
     bnd (uvmcopy (pagetable pr) npt (sz pr)) (\<lambda>r.
     bnd (getp np main_thread) (\<lambda>mto.
     bnd (deref mto) (\<lambda>mt.
     if r < 0 then
       seq (freeproc np) (
       seq (freethread mt) (
       seq (release (ProcLock np))
       (return (-1))))
     else
     seq (setp np (\<lambda>n. n\<lparr>sz := sz pr, signalMask := signalMask pr,
       signalHandlers := (\<lambda>i. if i < 32 then signalHandlers pr i else signalHandlers n i)\<rparr>)) (
     bnd (gett mt trapframe) (\<lambda>ntf.
     bnd (gett t trapframe) (\<lambda>tf.
     seq (modify (\<lambda>s. s\<lparr>mem := memmove ntf tf sizeof_trapframe (mem s)\<rparr>)) (
     seq (tf_set mt tf_a0 0) (
     seq (for_each [0..<NOFILE] (\<lambda>i.
       bnd (getp p (\<lambda>pr. ofile pr i)) (\<lambda>fo.
       case fo of None \<Rightarrow> skip
       | Some f \<Rightarrow> bnd (filedup f) (\<lambda>f. setp np (\<lambda>n. n\<lparr>ofile := (ofile n)(i := Some f)\<rparr>))))) (
     bnd (getp p cwd) (\<lambda>co.
     bnd (deref co) (\<lambda>c.
     bnd (idup c) (\<lambda>c.
     seq (setp np (\<lambda>n. n\<lparr>cwd := Some c\<rparr>)) (
     bnd (getp p name) (\<lambda>nm.
     seq (setp np (\<lambda>n. n\<lparr>name := safestrcpy (name n) nm 16\<rparr>)) (
     bnd (getp np pid) (\<lambda>pid.
     seq (release (ProcLock np)) (
     seq (acquire WaitLock) (
     seq (setp np (\<lambda>n. n\<lparr>parent := Some p\<rparr>)) (
     seq (release WaitLock) (
     seq (acquire (ProcLock np)) (
     bnd (getp p signalMask) (\<lambda>mask.
     seq (setp np (\<lambda>n. n\<lparr>pendingSignals := 0, signalMask := mask, ignore_signals := False, stopped := False\<rparr>)) (
     bnd (getp np main_thread) (\<lambda>mto.
     bnd (deref mto) (\<lambda>mt.
     seq (sett mt (\<lambda>th. th\<lparr>t_state := RUNNABLE\<rparr>)) (
     seq (release (ProcLock np))
     (return pid))))))))))))))))))))))))))))))))"

definition exit_files :: "pslot \<Rightarrow> ('z kernel_state_scheme, unit) M" where
  "exit_files p = for_each [0..<NOFILE] (\<lambda>fd.
     bnd (getp p (\<lambda>pr. ofile pr fd)) (\<lambda>fo.
     case fo of None \<Rightarrow> skip
     | Some f \<Rightarrow> seq (fileclose f) (setp p (\<lambda>pr. pr\<lparr>ofile := (ofile pr)(fd := None)\<rparr>))))"

text \<open>\<open>exit\<close> does not return: a run that comes back from \<open>sched\<close> panics.\<close>

definition exit :: "int \<Rightarrow> ('z kernel_state_scheme, 'a) M" where
  "exit status =
     bnd curproc (\<lambda>p.
     bnd (gets initproc) (\<lambda>ini.
     if ini = Some p then panic ''init exiting'' else
     seq (exit_files p) (
     seq begin_op (
     seq (bnd (getp p cwd) (\<lambda>co. bnd (deref co) iput)) (
     seq end_op (
     seq (setp p (\<lambda>pr. pr\<lparr>cwd := None\<rparr>)) (
     seq (acquire WaitLock) (
     seq (reparent p) (
     bnd (getp p parent) (\<lambda>par.
     seq (wakeup (map_option ChProc par)) (
     seq (for_each [0..<NTHREAD] (\<lambda>i.
       seq (sett (p, i) (\<lambda>th. th\<lparr>t_state := ZOMBIE\<rparr>)) (wakeup (Some (ChThread (p, i)))))) (
     seq (acquire (ProcLock p)) (
     seq (setp p (\<lambda>pr. pr\<lparr>xstate := status, state := ZOMBIE\<rparr>)) (
     seq (release WaitLock) (
     seq sched
     (panic ''zombie exit''))))))))))))))))"

definition kthread_exit :: "int \<Rightarrow> ('z kernel_state_scheme, 'a) M" where
  "kthread_exit status =
     bnd curthread (\<lambda>t.
     bnd (gett t tid) (\<lambda>i.
     seq (printf (cstr ''inside exit for tid: %d\<newline>'') [VaInt (word_of_int i)]) (
     bnd (gett t proc_parent) (\<lambda>pp.
     seq (acquire WaitLock) (
     seq (Treparent t) (
     bnd (gett t thread_parent) (\<lambda>tp.
     seq (case tp of None \<Rightarrow> skip | Some x \<Rightarrow> wakeup (Some (ChThread x))) (
     seq (sett t (\<lambda>th. th\<lparr>t_xstate := status, t_state := ZOMBIE\<rparr>)) (
     bnd (gett t tid) (\<lambda>i.
     seq (printf (cstr ''update status for tid: %d\<newline>'') [VaInt (word_of_int i)]) (
     bnd (deref pp) (\<lambda>p.
     seq (acquire (ProcLock p)) (
     bnd (for_until [0..<NTHREAD] (\<lambda>i.
       bnd (gett (p, i) t_state) (\<lambda>st.
       return (if st = USED \<or> st = SLEEPING \<or> st = RUNNABLE \<or> st = RUNNING then Some () else None)))) (\<lambda>r.
     case r of None \<Rightarrow>
       seq (release (ProcLock p)) (
       seq (release WaitLock)
       (exit 0))
     | Some _ \<Rightarrow>
       seq (release WaitLock) (
       seq sched
       (panic ''zombie exit''))))))))))))))))"

end
