(* ===== verification/Exec.thy ===== *)
theory Exec
  imports Process
begin

text \<open>
  Program loading: \<open>kernel/elf.h\<close> and \<open>kernel/exec.c\<close>. The headers are read at their byte offsets.
  The argument vector is an array of kernel addresses that ends with a null pointer.
\<close>

definition ELF_MAGIC :: u32 where "ELF_MAGIC = 0x464C457F"
definition ELF_PROG_LOAD :: u32 where "ELF_PROG_LOAD = 1"
definition sizeof_elfhdr :: nat where "sizeof_elfhdr = 64"
definition sizeof_proghdr :: nat where "sizeof_proghdr = 56"

definition get64 :: "bytes \<Rightarrow> nat \<Rightarrow> u64" where
  "get64 d off = u64_of (\<lambda>i. d (off + i))"

record elfhdr =
  elf_magic :: u32
  elf_entry :: u64
  elf_phoff :: u64
  elf_phnum :: u16

definition elfhdr_of :: "bytes \<Rightarrow> elfhdr" where
  "elfhdr_of d = \<lparr>elf_magic = get32 d 0, elf_entry = get64 d 24, elf_phoff = get64 d 32, elf_phnum = get16 d 56\<rparr>"

record proghdr =
  ph_type :: u32
  ph_off :: u64
  ph_vaddr :: u64
  ph_filesz :: u64
  ph_memsz :: u64

definition proghdr_of :: "bytes \<Rightarrow> proghdr" where
  "proghdr_of d = \<lparr>ph_type = get32 d 0, ph_off = get64 d 8, ph_vaddr = get64 d 16,
     ph_filesz = get64 d 32, ph_memsz = get64 d 40\<rparr>"

definition loadseg :: "u64 \<Rightarrow> u64 \<Rightarrow> nat \<Rightarrow> u32 \<Rightarrow> u32 \<Rightarrow> ('z kernel_state_scheme, int) M" where
  "loadseg pt va ip offset len =
     (if va mod PGSIZE \<noteq> 0 then panic ''loadseg: va must be page aligned'' else
     bnd (for_until [0..<(unat len + 4095) div 4096] (\<lambda>k.
       let i = of_nat (k * 4096) in
       bnd (walkaddr pt (va + ucast i)) (\<lambda>pa.
       if pa = 0 then panic ''loadseg: address should exist'' else
       let n = min (len - i) (ucast PGSIZE) in
       bnd (readi ip (AtKernel pa) (offset + i) n) (\<lambda>(r, _).
       return (if r \<noteq> uint n then Some () else None))))) (\<lambda>r.
     return (case r of Some _ \<Rightarrow> -1 | None \<Rightarrow> 0)))"

text \<open>
  The loop over the program headers. Its result has the size reached so far; \<open>Inl\<close> is a jump to
  \<open>bad\<close>.
\<close>

primrec load_segments :: "nat \<Rightarrow> u64 \<Rightarrow> nat \<Rightarrow> u32 \<Rightarrow> u64 \<Rightarrow> ('z kernel_state_scheme, u64 + u64) M" where
  "load_segments 0 pt ip off size' = return (Inr size')"
| "load_segments (Suc k) pt ip off size' =
     bnd (readi ip (AtLocal (\<lambda>_. 0) 0) off (of_nat sizeof_proghdr)) (\<lambda>(r, x).
     if r \<noteq> int sizeof_proghdr then return (Inl size') else
     let ph = proghdr_of (local_bytes x) in
     if ph_type ph \<noteq> ELF_PROG_LOAD then load_segments k pt ip (off + of_nat sizeof_proghdr) size'
     else if ph_memsz ph < ph_filesz ph then return (Inl size')
     else if ph_vaddr ph + ph_memsz ph < ph_vaddr ph then return (Inl size')
     else
     bnd (uvmalloc pt size' (ph_vaddr ph + ph_memsz ph)) (\<lambda>sz1.
     if sz1 = 0 then return (Inl size')
     else if ph_vaddr ph mod PGSIZE \<noteq> 0 then return (Inl sz1)
     else
     bnd (loadseg pt (ph_vaddr ph) ip (ucast (ph_off ph)) (ucast (ph_filesz ph))) (\<lambda>r.
     if r < 0 then return (Inl sz1)
     else load_segments k pt ip (off + of_nat sizeof_proghdr) sz1)))"

text \<open>The length of a string in kernel memory. A scan that finds no null byte does not end.\<close>

definition kstrlen :: "u64 \<Rightarrow> ('z kernel_state_scheme, nat) M" where
  "kstrlen a =
     bnd (gets mem) (\<lambda>m.
     case strlen (\<lambda>i. m (a + of_nat i)) of None \<Rightarrow> spin | Some n \<Rightarrow> return n)"

definition round_sp :: "u64 \<Rightarrow> u64" where
  "round_sp sp = sp - sp mod 16"

text \<open>The argument loop; \<open>None\<close> is a jump to \<open>bad\<close>. It runs for \<open>argc\<close> up to \<open>MAXARG\<close>.\<close>

primrec push_args :: "nat \<Rightarrow> (nat \<Rightarrow> u64) \<Rightarrow> u64 \<Rightarrow> u64 \<Rightarrow> nat \<Rightarrow> u64 \<Rightarrow> (nat \<Rightarrow> u64)
    \<Rightarrow> ('z kernel_state_scheme, (nat \<times> u64 \<times> (nat \<Rightarrow> u64)) option) M" where
  "push_args 0 argv pt stackbase argc sp ustack = fault ''fuel''"
| "push_args (Suc f) argv pt stackbase argc sp ustack =
     (if argv argc = 0 then return (Some (argc, sp, ustack(argc := 0)))
      else if MAXARG \<le> argc then return None else
      bnd (kstrlen (argv argc)) (\<lambda>n.
      let sp' = round_sp (sp - of_nat (n + 1)) in
      if sp' < stackbase then return None else
      bnd (gets mem) (\<lambda>m.
      bnd (copyout pt sp' (\<lambda>i. m (argv argc + of_nat i)) (of_nat (n + 1))) (\<lambda>r.
      if r < 0 then return None
      else push_args f argv pt stackbase (argc + 1) sp' (ustack(argc := sp'))))))"

definition ustack_bytes :: "(nat \<Rightarrow> u64) \<Rightarrow> bytes" where
  "ustack_bytes u = (\<lambda>i. bytes64 (u (i div 8)) (i mod 8))"

definition base_name :: "u8 list \<Rightarrow> u8 list" where
  "base_name path = rev (takeWhile (\<lambda>c. c \<noteq> slash) (rev path))"

text \<open>The label \<open>bad\<close>, with the new page table, its size and the inode if it is still held.\<close>

definition exec_bad :: "u64 \<Rightarrow> u64 \<Rightarrow> nat option \<Rightarrow> ('z kernel_state_scheme, int) M" where
  "exec_bad pt size' ipo =
     seq (whenM (pt \<noteq> 0) (proc_freepagetable pt size')) (
     seq (case ipo of None \<Rightarrow> skip | Some ip \<Rightarrow> seq (iunlockput ip) end_op)
     (return (-1)))"

text \<open>
  The commit to the new image. The loop that should reset user handlers assigns to a local copy of
  the handler, so that only \<open>maskHandlers\<close> changes.
\<close>

definition exec_commit :: "pslot \<Rightarrow> tslot \<Rightarrow> u64 \<Rightarrow> u64 \<Rightarrow> u64 \<Rightarrow> u64 \<Rightarrow> u64 \<Rightarrow> ('z kernel_state_scheme, unit) M" where
  "exec_commit p t pt size' oldsz entry_pc sp =
     bnd (getp p pagetable) (\<lambda>oldpt.
     seq (setp p (\<lambda>pr. pr\<lparr>pagetable := pt, sz := size'\<rparr>)) (
     seq (tf_set t tf_epc entry_pc) (
     seq (tf_set t tf_sp sp) (
     seq (proc_freepagetable oldpt oldsz)
     (setp p (\<lambda>pr. pr\<lparr>signalMask := 0,
       maskHandlers := (\<lambda>i. if i < 32 \<and> signalHandlers pr i \<noteq> SIG_IGN \<and> signalHandlers pr i \<noteq> SIG_DFL
         then 0 else maskHandlers pr i)\<rparr>))))))"

definition exec_stack :: "pslot \<Rightarrow> tslot \<Rightarrow> u8 list \<Rightarrow> (nat \<Rightarrow> u64) \<Rightarrow> u64 \<Rightarrow> u64 \<Rightarrow> u64 \<Rightarrow> ('z kernel_state_scheme, int) M" where
  "exec_stack p t path argv pt size' entry_pc =
     bnd (getp p sz) (\<lambda>oldsz.
     let size1 = PGROUNDUP size' in
     bnd (uvmalloc pt size1 (size1 + 2 * PGSIZE)) (\<lambda>size2.
     if size2 = 0 then exec_bad pt size1 None else
     seq (uvmclear pt (size2 - 2 * PGSIZE)) (
     let stackbase = size2 - PGSIZE in
     bnd (push_args (Suc (Suc MAXARG)) argv pt stackbase 0 size2 (\<lambda>_. 0)) (\<lambda>r.
     case r of None \<Rightarrow> exec_bad pt size2 None | Some (argc, sp0, ustack) \<Rightarrow>
     let sp = round_sp (sp0 - of_nat ((argc + 1) * 8)) in
     if sp < stackbase then exec_bad pt size2 None else
     bnd (copyout pt sp (ustack_bytes ustack) (of_nat ((argc + 1) * 8))) (\<lambda>r.
     if r < 0 then exec_bad pt size2 None else
     seq (tf_set t tf_a1 sp) (
     seq (setp p (\<lambda>pr. pr\<lparr>name := safestrcpy (name pr) (array_of (base_name path)) 16\<rparr>)) (
     seq (exec_commit p t pt size2 oldsz entry_pc sp)
     (return (int argc)))))))))"

definition exec :: "u8 list \<Rightarrow> (nat \<Rightarrow> u64) \<Rightarrow> ('z kernel_state_scheme, int) M" where
  "exec path argv =
     bnd curproc (\<lambda>p.
     bnd curthread (\<lambda>t.
     seq begin_op (
     bnd (namei path) (\<lambda>ipo.
     case ipo of None \<Rightarrow> seq end_op (return (-1)) | Some ip \<Rightarrow>
     seq (ilock (Some ip)) (
     bnd (readi ip (AtLocal (\<lambda>_. 0) 0) 0 (of_nat sizeof_elfhdr)) (\<lambda>(r, x).
     if r \<noteq> int sizeof_elfhdr then exec_bad 0 0 (Some ip) else
     let elf = elfhdr_of (local_bytes x) in
     if elf_magic elf \<noteq> ELF_MAGIC then exec_bad 0 0 (Some ip) else
     bnd (proc_pagetable p) (\<lambda>pt.
     if pt = 0 then exec_bad 0 0 (Some ip) else
     bnd (load_segments (unat (elf_phnum elf)) pt ip (ucast (elf_phoff elf)) 0) (\<lambda>r.
     case r of Inl size' \<Rightarrow> exec_bad pt size' (Some ip)
     | Inr size' \<Rightarrow>
       seq (iunlockput ip) (
       seq end_op (
       bnd curproc (\<lambda>p.
       exec_stack p t path argv pt size' (elf_entry elf))))))))))))"

end
