(* ===== verification/Sysfile.thy ===== *)
theory Sysfile
  imports Exec
begin

text \<open>
  System call arguments, \<open>kernel/syscall.c\<close>, and the file system calls, \<open>kernel/sysfile.c\<close> with
  \<open>kernel/fcntl.h\<close>. A system call returns the 64-bit value for register \<open>a0\<close>. The arrays for path
  names are local variables; what matters of them is the string they hold.
\<close>

subsection \<open>Arguments\<close>

definition fetchaddr :: "u64 \<Rightarrow> ('z kernel_state_scheme, u64 option) M" where
  "fetchaddr addr =
     bnd curproc (\<lambda>p.
     bnd (getp p sz) (\<lambda>size'.
     if size' \<le> addr \<or> size' < addr + 8 then return None else
     bnd (getp p pagetable) (\<lambda>pt.
     bnd (copyin pt (\<lambda>_. 0) addr 8) (\<lambda>(r, b).
     return (if r \<noteq> 0 then None else Some (u64_of b))))))"

text \<open>The result is the length of the string, or negative, and the array filled in.\<close>

definition fetchstr :: "u64 \<Rightarrow> bytes \<Rightarrow> u64 \<Rightarrow> ('z kernel_state_scheme, int \<times> bytes) M" where
  "fetchstr addr buf max' =
     bnd curproc (\<lambda>p.
     bnd (getp p pagetable) (\<lambda>pt.
     bnd (copyinstr pt buf addr max') (\<lambda>(err, b).
     if err < 0 then return (err, b)
     else case strlen b of None \<Rightarrow> spin | Some n \<Rightarrow> return (int n, b))))"

definition argraw :: "nat \<Rightarrow> ('z kernel_state_scheme, u64) M" where
  "argraw n = bnd curthread (\<lambda>t.
     if n < 6 then tf_get t (tf_a0 + 8 * of_nat n) else panic ''argraw'')"

definition argint :: "nat \<Rightarrow> ('z kernel_state_scheme, u32) M" where
  "argint n = bnd (argraw n) (\<lambda>v. return (ucast v))"

definition argaddr :: "nat \<Rightarrow> ('z kernel_state_scheme, u64) M" where
  "argaddr n = argraw n"

definition argstr :: "nat \<Rightarrow> nat \<Rightarrow> ('z kernel_state_scheme, u8 list option) M" where
  "argstr n max' =
     bnd (argaddr n) (\<lambda>addr.
     bnd (fetchstr addr (\<lambda>_. 0) (of_nat max')) (\<lambda>(r, b).
     return (if r < 0 then None else Some (string_in max' b))))"

subsection \<open>File descriptors\<close>

definition argfd :: "nat \<Rightarrow> ('z kernel_state_scheme, (nat \<times> nat) option) M" where
  "argfd n =
     bnd (argint n) (\<lambda>v.
     let fd = sint v in
     if fd < 0 \<or> int NOFILE \<le> fd then return None else
     bnd curproc (\<lambda>p.
     bnd (getp p (\<lambda>pr. ofile pr (nat fd))) (\<lambda>fo.
     return (map_option (\<lambda>f. (nat fd, f)) fo))))"

definition fdalloc :: "nat \<Rightarrow> ('z kernel_state_scheme, nat option) M" where
  "fdalloc f =
     bnd curproc (\<lambda>p.
     for_until [0..<NOFILE] (\<lambda>fd.
       bnd (getp p (\<lambda>pr. ofile pr fd)) (\<lambda>fo.
       if fo = None then
         seq (setp p (\<lambda>pr. pr\<lparr>ofile := (ofile pr)(fd := Some f)\<rparr>)) (return (Some fd))
       else return None)))"

definition sys_dup :: "('z kernel_state_scheme, u64) M" where
  "sys_dup =
     bnd (argfd 0) (\<lambda>r.
     case r of None \<Rightarrow> return (-1) | Some (_, f) \<Rightarrow>
     bnd (fdalloc f) (\<lambda>r.
     case r of None \<Rightarrow> return (-1) | Some fd \<Rightarrow>
     seq (filedup f) (return (of_nat fd))))"

definition sys_read :: "('z kernel_state_scheme, u64) M" where
  "sys_read =
     bnd (argfd 0) (\<lambda>r.
     case r of None \<Rightarrow> return (-1) | Some (_, f) \<Rightarrow>
     bnd (argint 2) (\<lambda>n.
     bnd (argaddr 1) (\<lambda>p.
     bnd (fileread f p (sint n)) (\<lambda>v. return (word_of_int v)))))"

definition sys_write :: "('z kernel_state_scheme, u64) M" where
  "sys_write =
     bnd (argfd 0) (\<lambda>r.
     case r of None \<Rightarrow> return (-1) | Some (_, f) \<Rightarrow>
     bnd (argint 2) (\<lambda>n.
     bnd (argaddr 1) (\<lambda>p.
     bnd (filewrite f p (sint n)) (\<lambda>v. return (word_of_int v)))))"

definition sys_close :: "('z kernel_state_scheme, u64) M" where
  "sys_close =
     bnd (argfd 0) (\<lambda>r.
     case r of None \<Rightarrow> return (-1) | Some (fd, f) \<Rightarrow>
     bnd curproc (\<lambda>p.
     seq (setp p (\<lambda>pr. pr\<lparr>ofile := (ofile pr)(fd := None)\<rparr>)) (
     seq (fileclose f)
     (return 0))))"

definition sys_fstat :: "('z kernel_state_scheme, u64) M" where
  "sys_fstat =
     bnd (argfd 0) (\<lambda>r.
     case r of None \<Rightarrow> return (-1) | Some (_, f) \<Rightarrow>
     bnd (argaddr 1) (\<lambda>st.
     bnd (filestat f st) (\<lambda>v. return (word_of_int v))))"

subsection \<open>Links and directories\<close>

definition link_bad :: "nat \<Rightarrow> ('z kernel_state_scheme, u64) M" where
  "link_bad ip =
     seq (ilock (Some ip)) (
     seq (seti ip (\<lambda>i. i\<lparr>i_nlink := i_nlink i - 1\<rparr>)) (
     seq (iupdate ip) (
     seq (iunlockput ip) (
     seq end_op
     (return (-1))))))"

definition sys_link :: "('z kernel_state_scheme, u64) M" where
  "sys_link =
     bnd (argstr 0 MAXPATH) (\<lambda>oldo.
     case oldo of None \<Rightarrow> return (-1) | Some old \<Rightarrow>
     bnd (argstr 1 MAXPATH) (\<lambda>newo.
     case newo of None \<Rightarrow> return (-1) | Some new \<Rightarrow>
     seq begin_op (
     bnd (namei old) (\<lambda>ipo.
     case ipo of None \<Rightarrow> seq end_op (return (-1)) | Some ip \<Rightarrow>
     seq (ilock (Some ip)) (
     bnd (geti ip i_type) (\<lambda>ty.
     if ty = T_DIR then seq (iunlockput ip) (seq end_op (return (-1))) else
     seq (seti ip (\<lambda>i. i\<lparr>i_nlink := i_nlink i + 1\<rparr>)) (
     seq (iupdate ip) (
     seq (iunlock (Some ip)) (
     bnd (nameiparent new (\<lambda>_. 0)) (\<lambda>(dpo, nm).
     case dpo of None \<Rightarrow> link_bad ip | Some dp \<Rightarrow>
     seq (ilock (Some dp)) (
     bnd (geti dp i_dev) (\<lambda>ddev.
     bnd (geti ip id) (\<lambda>i.
     bnd (if ddev \<noteq> i_dev i then return (-1) else dirlink dp nm (i_inum i)) (\<lambda>r.
     if r < 0 then seq (iunlockput dp) (link_bad ip) else
     seq (iunlockput dp) (
     seq (iput ip) (
     seq end_op
     (return 0)))))))))))))))))"

definition isdirempty :: "nat \<Rightarrow> ('z kernel_state_scheme, bool) M" where
  "isdirempty dp =
     bnd (geti dp i_size) (\<lambda>size'.
     bnd (for_until [2..<dir_slots size'] (\<lambda>k.
       bnd (readi dp (AtLocal (\<lambda>_. 0) 0) (of_nat (k * sizeof_dirent)) (of_nat sizeof_dirent)) (\<lambda>(r, x).
       if r \<noteq> int sizeof_dirent then panic ''isdirempty: readi'' else
       return (if de_inum (local_bytes x) \<noteq> 0 then Some () else None)))) (\<lambda>r.
     return (r = None)))"

definition unlink_bad :: "nat \<Rightarrow> ('z kernel_state_scheme, u64) M" where
  "unlink_bad dp = seq (iunlockput dp) (seq end_op (return (-1)))"

definition sys_unlink :: "('z kernel_state_scheme, u64) M" where
  "sys_unlink =
     bnd (argstr 0 MAXPATH) (\<lambda>patho.
     case patho of None \<Rightarrow> return (-1) | Some path \<Rightarrow>
     seq begin_op (
     bnd (nameiparent path (\<lambda>_. 0)) (\<lambda>(dpo, nm).
     case dpo of None \<Rightarrow> seq end_op (return (-1)) | Some dp \<Rightarrow>
     seq (ilock (Some dp)) (
     if namecmp nm (array_of (cstr ''.'')) = 0 \<or> namecmp nm (array_of (cstr ''..'')) = 0 then unlink_bad dp else
     bnd (dirlookup dp nm) (\<lambda>r.
     case r of None \<Rightarrow> unlink_bad dp | Some (ip, off) \<Rightarrow>
     seq (ilock (Some ip)) (
     bnd (geti ip id) (\<lambda>i.
     if sint (i_nlink i) < 1 then panic ''unlink: nlink < 1'' else
     bnd (if i_type i = T_DIR then bnd (isdirempty ip) (\<lambda>em. return (\<not> em)) else return False) (\<lambda>busy.
     if busy then seq (iunlockput ip) (unlink_bad dp) else
     bnd (writei dp (AtLocal (\<lambda>_. 0) 0) off (of_nat sizeof_dirent)) (\<lambda>r.
     if r \<noteq> int sizeof_dirent then panic ''unlink: writei'' else
     seq (whenM (i_type i = T_DIR) (
       seq (seti dp (\<lambda>d. d\<lparr>i_nlink := i_nlink d - 1\<rparr>))
       (iupdate dp))) (
     seq (iunlockput dp) (
     seq (seti ip (\<lambda>i. i\<lparr>i_nlink := i_nlink i - 1\<rparr>)) (
     seq (iupdate ip) (
     seq (iunlockput ip) (
     seq end_op
     (return 0)))))))))))))))"

definition create :: "u8 list \<Rightarrow> u16 \<Rightarrow> u16 \<Rightarrow> u16 \<Rightarrow> ('z kernel_state_scheme, nat option) M" where
  "create path type major minor =
     bnd (nameiparent path (\<lambda>_. 0)) (\<lambda>(dpo, nm).
     case dpo of None \<Rightarrow> return None | Some dp \<Rightarrow>
     seq (ilock (Some dp)) (
     bnd (dirlookup dp nm) (\<lambda>r.
     case r of Some (ip, _) \<Rightarrow>
       seq (iunlockput dp) (
       seq (ilock (Some ip)) (
       bnd (geti ip i_type) (\<lambda>ty.
       if type = T_FILE \<and> (ty = T_FILE \<or> ty = T_DEVICE) then return (Some ip)
       else seq (iunlockput ip) (return None))))
     | None \<Rightarrow>
     bnd (geti dp i_dev) (\<lambda>dev.
     bnd (ialloc dev type) (\<lambda>ip.
     seq (ilock (Some ip)) (
     seq (seti ip (\<lambda>i. i\<lparr>i_major := major, i_minor := minor, i_nlink := 1\<rparr>)) (
     seq (iupdate ip) (
     bnd (geti ip i_inum) (\<lambda>inum.
     seq (whenM (type = T_DIR) (
       seq (seti dp (\<lambda>d. d\<lparr>i_nlink := i_nlink d + 1\<rparr>)) (
       seq (iupdate dp) (
       bnd (dirlink ip (array_of (cstr ''.'')) inum) (\<lambda>r1.
       if r1 < 0 then panic ''create dots'' else
       bnd (geti dp i_inum) (\<lambda>dinum.
       bnd (dirlink ip (array_of (cstr ''..'')) dinum) (\<lambda>r2.
       if r2 < 0 then panic ''create dots'' else skip))))))) (
     bnd (dirlink dp nm inum) (\<lambda>r.
     if r < 0 then panic ''create: dirlink'' else
     seq (iunlockput dp)
     (return (Some ip)))))))))))))"

subsection \<open>open and the remaining calls\<close>

definition O_WRONLY :: u32 where "O_WRONLY = 1"
definition O_RDWR :: u32 where "O_RDWR = 2"
definition O_CREATE :: u32 where "O_CREATE = 0x200"
definition O_TRUNC :: u32 where "O_TRUNC = 0x400"

text \<open>The part of \<open>sys_open\<close> up to the locked inode; \<open>None\<close> is an error return, the transaction still open.\<close>

definition open_inode :: "u8 list \<Rightarrow> u32 \<Rightarrow> ('z kernel_state_scheme, nat option) M" where
  "open_inode path omode =
     (if omode AND O_CREATE \<noteq> 0 then create path T_FILE 0 0
      else
      bnd (namei path) (\<lambda>ipo.
      case ipo of None \<Rightarrow> return None | Some ip \<Rightarrow>
      seq (ilock (Some ip)) (
      bnd (geti ip i_type) (\<lambda>ty.
      if ty = T_DIR \<and> omode \<noteq> 0 then seq (iunlockput ip) (return None) else return (Some ip)))))"

definition sys_open :: "('z kernel_state_scheme, u64) M" where
  "sys_open =
     bnd (argstr 0 MAXPATH) (\<lambda>patho.
     case patho of None \<Rightarrow> return (-1) | Some path \<Rightarrow>
     bnd (argint 1) (\<lambda>omode.
     seq begin_op (
     bnd (open_inode path omode) (\<lambda>ipo.
     case ipo of None \<Rightarrow> seq end_op (return (-1)) | Some ip \<Rightarrow>
     bnd (geti ip id) (\<lambda>i.
     if i_type i = T_DEVICE \<and> (sint (i_major i) < 0 \<or> int NDEV \<le> sint (i_major i)) then
       seq (iunlockput ip) (seq end_op (return (-1)))
     else
     bnd filealloc (\<lambda>fo.
     bnd (case fo of None \<Rightarrow> return None | Some f \<Rightarrow> fdalloc f) (\<lambda>fdo.
     case (fo, fdo) of (Some f, Some fd) \<Rightarrow>
       seq (if i_type i = T_DEVICE then setf f (\<lambda>x. x\<lparr>f_type := FD_DEVICE, f_major := i_major i\<rparr>)
            else setf f (\<lambda>x. x\<lparr>f_type := FD_INODE, f_off := 0\<rparr>)) (
       seq (setf f (\<lambda>x. x\<lparr>f_ip := Some ip, f_readable := (omode AND O_WRONLY = 0),
         f_writable := (omode AND O_WRONLY \<noteq> 0 \<or> omode AND O_RDWR \<noteq> 0)\<rparr>)) (
       seq (whenM (omode AND O_TRUNC \<noteq> 0 \<and> i_type i = T_FILE) (itrunc ip)) (
       seq (iunlock (Some ip)) (
       seq end_op
       (return (of_nat fd))))))
     | _ \<Rightarrow>
       seq (case fo of None \<Rightarrow> skip | Some f \<Rightarrow> fileclose f) (
       seq (iunlockput ip) (
       seq end_op
       (return (-1)))))))))))"

definition sys_mkdir :: "('z kernel_state_scheme, u64) M" where
  "sys_mkdir =
     seq begin_op (
     bnd (argstr 0 MAXPATH) (\<lambda>patho.
     bnd (case patho of None \<Rightarrow> return None | Some path \<Rightarrow> create path T_DIR 0 0) (\<lambda>ipo.
     case ipo of None \<Rightarrow> seq end_op (return (-1)) | Some ip \<Rightarrow>
     seq (iunlockput ip) (
     seq end_op
     (return 0)))))"

definition sys_mknod :: "('z kernel_state_scheme, u64) M" where
  "sys_mknod =
     seq begin_op (
     bnd (argstr 0 MAXPATH) (\<lambda>patho.
     bnd (case patho of None \<Rightarrow> return None | Some path \<Rightarrow>
       bnd (argint 1) (\<lambda>major.
       bnd (argint 2) (\<lambda>minor.
       create path T_DEVICE (ucast major) (ucast minor)))) (\<lambda>ipo.
     case ipo of None \<Rightarrow> seq end_op (return (-1)) | Some ip \<Rightarrow>
     seq (iunlockput ip) (
     seq end_op
     (return 0)))))"

definition sys_chdir :: "('z kernel_state_scheme, u64) M" where
  "sys_chdir =
     bnd curproc (\<lambda>p.
     seq begin_op (
     bnd (argstr 0 MAXPATH) (\<lambda>patho.
     bnd (case patho of None \<Rightarrow> return None | Some path \<Rightarrow> namei path) (\<lambda>ipo.
     case ipo of None \<Rightarrow> seq end_op (return (-1)) | Some ip \<Rightarrow>
     seq (ilock (Some ip)) (
     bnd (geti ip i_type) (\<lambda>ty.
     if ty \<noteq> T_DIR then seq (iunlockput ip) (seq end_op (return (-1))) else
     seq (iunlock (Some ip)) (
     seq (bnd (getp p cwd) (\<lambda>co. bnd (deref co) iput)) (
     seq end_op (
     seq (setp p (\<lambda>pr. pr\<lparr>cwd := Some ip\<rparr>))
     (return 0))))))))))"

text \<open>
  The argument loop of \<open>sys_exec\<close>: the flag tells whether the final null pointer was reached. The
  first argument is the number of entries of \<open>argv\<close> that are left.
\<close>

primrec fetch_argv :: "nat \<Rightarrow> nat \<Rightarrow> u64 \<Rightarrow> (nat \<Rightarrow> u64) \<Rightarrow> ('z kernel_state_scheme, bool \<times> (nat \<Rightarrow> u64)) M" where
  "fetch_argv 0 i uargv argv = return (False, argv)"
| "fetch_argv (Suc k) i uargv argv =
     bnd (fetchaddr (uargv + 8 * of_nat i)) (\<lambda>uo.
     case uo of None \<Rightarrow> return (False, argv) | Some uarg \<Rightarrow>
     if uarg = 0 then return (True, argv(i := 0)) else
     bnd kalloc (\<lambda>a.
     if a = 0 then return (False, argv(i := 0)) else
     bnd (gets mem) (\<lambda>m.
     bnd (fetchstr uarg (\<lambda>j. m (a + of_nat j)) PGSIZE) (\<lambda>(r, b).
     seq (modify (\<lambda>s. s\<lparr>mem := write_bytes a b 4096 (mem s)\<rparr>))
     (if r < 0 then return (False, argv(i := a))
      else fetch_argv k (i + 1) uargv (argv(i := a)))))))"

definition free_argv :: "(nat \<Rightarrow> u64) \<Rightarrow> ('z kernel_state_scheme, unit) M" where
  "free_argv argv = for_each (takeWhile (\<lambda>i. argv i \<noteq> 0) [0..<MAXARG]) (\<lambda>i. kfree (argv i))"

definition sys_exec :: "('z kernel_state_scheme, u64) M" where
  "sys_exec =
     bnd (argstr 0 MAXPATH) (\<lambda>patho.
     case patho of None \<Rightarrow> return (-1) | Some path \<Rightarrow>
     bnd (argaddr 1) (\<lambda>uargv.
     bnd (fetch_argv MAXARG 0 uargv (\<lambda>_. 0)) (\<lambda>(ok, argv).
     if ok then
       bnd (exec path argv) (\<lambda>ret.
       seq (free_argv argv)
       (return (word_of_int ret)))
     else seq (free_argv argv) (return (-1)))))"

definition pipe_bad :: "nat \<Rightarrow> nat \<Rightarrow> ('z kernel_state_scheme, u64) M" where
  "pipe_bad rf wrf = seq (fileclose rf) (seq (fileclose wrf) (return (-1)))"

definition sys_pipe :: "('z kernel_state_scheme, u64) M" where
  "sys_pipe =
     bnd curproc (\<lambda>p.
     bnd (argaddr 0) (\<lambda>fdarray.
     bnd pipealloc (\<lambda>r.
     case r of None \<Rightarrow> return (-1) | Some (rf, wrf) \<Rightarrow>
     bnd (fdalloc rf) (\<lambda>fd0o.
     case fd0o of None \<Rightarrow> pipe_bad rf wrf | Some fd0 \<Rightarrow>
     bnd (fdalloc wrf) (\<lambda>fd1o.
     case fd1o of None \<Rightarrow> seq (setp p (\<lambda>pr. pr\<lparr>ofile := (ofile pr)(fd0 := None)\<rparr>)) (pipe_bad rf wrf)
     | Some fd1 \<Rightarrow>
     bnd (getp p pagetable) (\<lambda>pt.
     bnd (copyout pt fdarray (bytes32 (of_nat fd0)) 4) (\<lambda>r.
     bnd (if r < 0 then return r else copyout pt (fdarray + 4) (bytes32 (of_nat fd1)) 4) (\<lambda>r.
     if r < 0 then
       seq (setp p (\<lambda>pr. pr\<lparr>ofile := (ofile pr)(fd0 := None, fd1 := None)\<rparr>))
       (pipe_bad rf wrf)
     else return 0))))))))"

end
