(* ===== verification/Syscall.thy ===== *)
theory Syscall
  imports Sysfile
begin

text \<open>
  The process system calls, \<open>kernel/sysproc.c\<close>, and the dispatcher of \<open>kernel/syscall.c\<close> with the
  numbers of \<open>kernel/syscall.h\<close>. Three of the entries are declared \<open>void\<close>: the dispatcher stores what
  register \<open>a0\<close> happens to hold when they return, the field \<open>reg_a0\<close>.
\<close>

subsection \<open>sysproc.c\<close>

definition sys_exit :: "('z kernel_state_scheme, u64) M" where
  "sys_exit = bnd (argint 0) (\<lambda>n. exit (sint n))"

definition sys_getpid :: "('z kernel_state_scheme, u64) M" where
  "sys_getpid = bnd curproc (\<lambda>p. bnd (getp p pid) (\<lambda>i. return (word_of_int i)))"

definition sys_fork :: "('z kernel_state_scheme, u64) M" where
  "sys_fork = bnd fork (\<lambda>r. return (word_of_int r))"

definition sys_wait :: "('z kernel_state_scheme, u64) M" where
  "sys_wait = bnd (argaddr 0) (\<lambda>p. bnd (wait p) (\<lambda>r. return (word_of_int r)))"

definition sys_sbrk :: "('z kernel_state_scheme, u64) M" where
  "sys_sbrk =
     bnd (argint 0) (\<lambda>n.
     bnd curproc (\<lambda>p.
     bnd (getp p sz) (\<lambda>size'.
     bnd (growproc n) (\<lambda>r.
     return (if r < 0 then -1 else scast (ucast size' :: u32))))))"

definition sys_sleep :: "('z kernel_state_scheme, u64) M" where
  "sys_sleep =
     bnd (argint 0) (\<lambda>n.
     seq (acquire TicksLock) (
     bnd (gets ticks) (\<lambda>ticks0.
     sleep_loop (
       bnd (gets ticks) (\<lambda>now.
       if now - ticks0 < n then
         bnd curproc (\<lambda>p.
         bnd (getp p killed) (\<lambda>k.
         if k then seq (release TicksLock) (return (Some (-1)))
         else seq (sleep ChTicks TicksLock) (return None)))
       else seq (release TicksLock) (return (Some 0)))))))"

definition sys_kill :: "('z kernel_state_scheme, u64) M" where
  "sys_kill =
     bnd (argint 0) (\<lambda>pid.
     bnd (argint 1) (\<lambda>signum.
     bnd (kill (sint pid) (sint signum)) (\<lambda>r. return (word_of_int r))))"

definition sys_uptime :: "('z kernel_state_scheme, u64) M" where
  "sys_uptime =
     seq (acquire TicksLock) (
     bnd (gets ticks) (\<lambda>xticks.
     seq (release TicksLock)
     (return (ucast xticks))))"

definition sys_sigprocmask :: "('z kernel_state_scheme, u64) M" where
  "sys_sigprocmask = bnd (argint 0) (\<lambda>mask. bnd (sigprocmask mask) (\<lambda>r. return (ucast r)))"

definition sys_sigaction :: "('z kernel_state_scheme, u64) M" where
  "sys_sigaction =
     bnd (argint 0) (\<lambda>signum.
     bnd (argaddr 1) (\<lambda>act.
     bnd (argaddr 2) (\<lambda>oldact.
     bnd (sigaction (sint signum) act oldact) (\<lambda>r. return (word_of_int r)))))"

definition sys_sigret :: "('z kernel_state_scheme, u64) M" where
  "sys_sigret = seq sigret (return 0)"

definition sys_bsem_alloc :: "('z kernel_state_scheme, u64) M" where
  "sys_bsem_alloc = bnd bsem_alloc (\<lambda>r. return (word_of_int r))"

definition sys_bsem_free :: "('z kernel_state_scheme, u64) M" where
  "sys_bsem_free = bnd (argint 0) (\<lambda>i. seq (bsem_free (sint i)) (gets reg_a0))"

definition sys_bsem_down :: "('z kernel_state_scheme, u64) M" where
  "sys_bsem_down = bnd (argint 0) (\<lambda>i. seq (bsem_down (sint i)) (gets reg_a0))"

definition sys_bsem_up :: "('z kernel_state_scheme, u64) M" where
  "sys_bsem_up = bnd (argint 0) (\<lambda>i. seq (bsem_up (sint i)) (gets reg_a0))"

definition sys_kthread_create :: "('z kernel_state_scheme, u64) M" where
  "sys_kthread_create =
     bnd (argaddr 0) (\<lambda>fn.
     bnd (argaddr 1) (\<lambda>stack.
     bnd (kthread_create fn stack) (\<lambda>x.
     seq (printf (cstr ''the value of kthread_create is: %d\<newline>'') [VaInt (word_of_int x)])
     (return (word_of_int x)))))"

definition sys_kthread_id :: "('z kernel_state_scheme, u64) M" where
  "sys_kthread_id = bnd kthread_id (\<lambda>r. return (word_of_int r))"

definition sys_kthread_exit :: "('z kernel_state_scheme, u64) M" where
  "sys_kthread_exit = bnd (argint 0) (\<lambda>status. kthread_exit (sint status))"

definition sys_kthread_join :: "('z kernel_state_scheme, u64) M" where
  "sys_kthread_join =
     bnd (argint 0) (\<lambda>tid.
     bnd curthread (\<lambda>t.
     bnd (tf_get t tf_a1) (\<lambda>status.
     bnd (kthread_join (sint tid) status) (\<lambda>r. return (word_of_int r)))))"

subsection \<open>The dispatcher\<close>

text \<open>The entries from \<open>SYS_fork = 1\<close> to \<open>SYS_kthread_join = 32\<close>; the table has no gap.\<close>

definition syscalls :: "('z kernel_state_scheme, u64) M list" where
  "syscalls = [sys_fork, sys_exit, sys_wait, sys_pipe, sys_read, sys_kill, sys_exec, sys_fstat,
     sys_chdir, sys_dup, sys_getpid, sys_sbrk, sys_sleep, sys_uptime, sys_open, sys_write, sys_mknod,
     sys_unlink, sys_link, sys_mkdir, sys_close, sys_sigprocmask, sys_sigaction, sys_sigret,
     sys_bsem_alloc, sys_bsem_free, sys_bsem_down, sys_bsem_up, sys_kthread_create, sys_kthread_id,
     sys_kthread_exit, sys_kthread_join]"

definition syscall :: "('z kernel_state_scheme, unit) M" where
  "syscall =
     bnd curthread (\<lambda>t.
     bnd (tf_get t tf_a7) (\<lambda>a7.
     let num = sint (ucast a7 :: u32) in
     if 0 < num \<and> num \<le> int (length (syscalls :: ('z kernel_state_scheme, u64) M list)) then
       bnd (syscalls ! nat (num - 1)) (\<lambda>r. tf_set t tf_a0 r)
     else
       bnd (gett t id) (\<lambda>th.
       seq (printf (cstr ''%d %s: unknown sys call %d\<newline>'')
         [VaInt (word_of_int (tid th)), VaStr (Some (string_in 16 (t_name th))), VaInt (ucast a7)])
       (tf_set t tf_a0 (-1)))))"

end
