(* ===== verification/Trap.thy ===== *)
theory Trap
  imports Syscall
begin

text \<open>
  Traps and the interrupt controller: \<open>kernel/trap.c\<close>, \<open>kernel/plic.c\<close> and \<open>forkret\<close> of
  \<open>kernel/proc.c\<close>. The trap registers are those of the running hart. A return to user space is the
  value of \<open>usertrapret\<close>: the two arguments it passes to \<open>userret\<close> in the trampoline page.
\<close>

definition SSTATUS_SPP :: u64 where "SSTATUS_SPP = push_bit 8 1"
definition SSTATUS_SPIE :: u64 where "SSTATUS_SPIE = push_bit 5 1"

definition w_stvec :: "u64 \<Rightarrow> ('z kernel_state_scheme, unit) M" where
  "w_stvec x = modify (\<lambda>s. s\<lparr>r_stvec := x\<rparr>)"

definition w_sepc :: "u64 \<Rightarrow> ('z kernel_state_scheme, unit) M" where
  "w_sepc x = modify (\<lambda>s. s\<lparr>r_sepc := x\<rparr>)"

definition trapinit :: "('z kernel_state_scheme, unit) M" where
  "trapinit = initlock TicksLock"

definition trapinithart :: "('z kernel_state_scheme, unit) M" where
  "trapinithart = bnd (gets (\<lambda>s. kernelvec (img s))) w_stvec"

subsection \<open>plic.c\<close>

definition UART0_IRQ :: u32 where "UART0_IRQ = 10"
definition VIRTIO0_IRQ :: u32 where "VIRTIO0_IRQ = 1"

definition PLIC_SENABLE :: "nat \<Rightarrow> u64" where "PLIC_SENABLE h = PLIC + 0x2080 + of_nat h * 0x100"
definition PLIC_SPRIORITY :: "nat \<Rightarrow> u64" where "PLIC_SPRIORITY h = PLIC + 0x201000 + of_nat h * 0x2000"
definition PLIC_SCLAIM :: "nat \<Rightarrow> u64" where "PLIC_SCLAIM h = PLIC + 0x201004 + of_nat h * 0x2000"

definition plic_write :: "u64 \<Rightarrow> u32 \<Rightarrow> ('z kernel_state_scheme, unit) M" where
  "plic_write a v = modify (\<lambda>s. s\<lparr>plic := (plic s)(a := v)\<rparr>)"

definition plicinit :: "('z kernel_state_scheme, unit) M" where
  "plicinit = seq (plic_write (PLIC + ucast UART0_IRQ * 4) 1) (plic_write (PLIC + ucast VIRTIO0_IRQ * 4) 1)"

definition plicinithart :: "('z kernel_state_scheme, unit) M" where
  "plicinithart =
     bnd cpuid (\<lambda>h.
     seq (plic_write (PLIC_SENABLE h) (push_bit (unat UART0_IRQ) 1 OR push_bit (unat VIRTIO0_IRQ) 1))
     (plic_write (PLIC_SPRIORITY h) 0))"

definition plic_claim :: "('z kernel_state_scheme, u32) M" where
  "plic_claim = bnd cpuid (\<lambda>h. gets (\<lambda>s. plic s (PLIC_SCLAIM h)))"

definition plic_complete :: "u32 \<Rightarrow> ('z kernel_state_scheme, unit) M" where
  "plic_complete irq = bnd cpuid (\<lambda>h. plic_write (PLIC_SCLAIM h) irq)"

subsection \<open>Device interrupts\<close>

definition clockintr :: "('z kernel_state_scheme, unit) M" where
  "clockintr =
     seq (acquire TicksLock) (
     seq (modify (\<lambda>s. s\<lparr>ticks := ticks s + 1\<rparr>)) (
     seq (wakeup (Some ChTicks))
     (release TicksLock)))"

definition devintr :: "('z kernel_state_scheme, int) M" where
  "devintr =
     bnd (gets r_scause) (\<lambda>scause.
     if scause AND 0x8000000000000000 \<noteq> 0 \<and> scause AND 0xff = 9 then
       bnd plic_claim (\<lambda>irq.
       seq (if irq = UART0_IRQ then uartintr
            else if irq = VIRTIO0_IRQ then virtio_disk_intr
            else whenM (irq \<noteq> 0) (printf (cstr ''unexpected interrupt irq=%d\<newline>'') [VaInt irq])) (
       seq (whenM (irq \<noteq> 0) (plic_complete irq))
       (return 1)))
     else if scause = 0x8000000000000001 then
       bnd cpuid (\<lambda>h.
       seq (whenM (h = 0) clockintr) (
       seq (modify (\<lambda>s. s\<lparr>r_sip := r_sip s AND NOT 2\<rparr>))
       (return 2)))
     else return 0)"

subsection \<open>User traps\<close>

definition usertrapret :: "('z kernel_state_scheme, u64 \<times> u64) M" where
  "usertrapret =
     bnd curproc (\<lambda>p.
     bnd curthread (\<lambda>t.
     seq handling_signals (
     seq intr_off (
     bnd (gets img) (\<lambda>im.
     seq (w_stvec (TRAMPOLINE + (uservec im - trampoline im))) (
     bnd (gets (\<lambda>s. satp s (hart (lk s)))) (\<lambda>ksatp.
     seq (tf_set t tf_kernel_satp ksatp) (
     bnd (gett t kstack) (\<lambda>ks.
     seq (tf_set t tf_kernel_sp (ks + PGSIZE)) (
     seq (tf_set t tf_kernel_trap (usertrap_pc im)) (
     bnd cpuid (\<lambda>h.
     seq (tf_set t tf_kernel_hartid (of_nat h)) (
     bnd r_sstatus (\<lambda>x.
     seq (w_sstatus ((x AND NOT SSTATUS_SPP) OR SSTATUS_SPIE)) (
     bnd (tf_get t tf_epc) (\<lambda>epc.
     seq (w_sepc epc) (
     bnd (getp p pagetable) (\<lambda>pt.
     return (TRAPFRAME + of_nat (sizeof_trapframe * snd t), MAKE_SATP pt)))))))))))))))))))"

text \<open>The kill check after the trap was handled, and the way back to user space.\<close>

definition usertrap_done :: "tslot \<Rightarrow> int \<Rightarrow> ('z kernel_state_scheme, u64 \<times> u64) M" where
  "usertrap_done t which_dev =
     bnd (gett t proc_parent) (\<lambda>pp.
     bnd (deref pp) (\<lambda>p.
     bnd (getp p killed) (\<lambda>k.
     if k then exit (-1) else
     seq (whenM (which_dev = 2) yield)
     usertrapret)))"

definition usertrap :: "('z kernel_state_scheme, u64 \<times> u64) M" where
  "usertrap =
     bnd r_sstatus (\<lambda>x.
     if x AND SSTATUS_SPP \<noteq> 0 then panic ''usertrap: not from user mode'' else
     bnd (gets (\<lambda>s. kernelvec (img s))) (\<lambda>kv.
     seq (w_stvec kv) (
     bnd curthread (\<lambda>t.
     bnd (gets r_sepc) (\<lambda>sepc.
     seq (tf_set t tf_epc sepc) (
     bnd (gets r_scause) (\<lambda>scause.
     bnd (gett t proc_parent) (\<lambda>pp.
     bnd (deref pp) (\<lambda>p.
     if scause = 8 then
       bnd (getp p killed) (\<lambda>k.
       if k then exit (-1) else
       bnd (tf_get t tf_epc) (\<lambda>epc.
       seq (tf_set t tf_epc (epc + 4)) (
       seq intr_on (
       seq syscall
       (usertrap_done t 0)))))
     else
       bnd devintr (\<lambda>which_dev.
       if which_dev \<noteq> 0 then usertrap_done t which_dev
       else
         bnd (gett t tid) (\<lambda>i.
         bnd (gets r_stval) (\<lambda>stval.
         seq (printf (cstr ''usertrap(): unexpected scause %p tid=%d\<newline>'') [VaPtr scause, VaInt (word_of_int i)]) (
         seq (printf (cstr ''            sepc=%p stval=%p\<newline>'') [VaPtr sepc, VaPtr stval]) (
         seq (setp p (\<lambda>pr. pr\<lparr>killed := True\<rparr>))
         (usertrap_done t 0)))))))))))))))"

definition forkret :: "('z kernel_state_scheme, u64 \<times> u64) M" where
  "forkret =
     bnd curproc (\<lambda>p.
     seq (release (ProcLock p)) (
     bnd (gets forkret_first) (\<lambda>first.
     seq (whenM first (
       seq (modify (\<lambda>s. s\<lparr>forkret_first := False\<rparr>))
       (fsinit ROOTDEV)))
     usertrapret)))"

subsection \<open>Kernel traps\<close>

definition kerneltrap :: "('z kernel_state_scheme, unit) M" where
  "kerneltrap =
     bnd (gets r_sepc) (\<lambda>sepc.
     bnd r_sstatus (\<lambda>ss.
     bnd (gets r_scause) (\<lambda>scause.
     if ss AND SSTATUS_SPP = 0 then panic ''kerneltrap: not from supervisor mode'' else
     bnd intr_get (\<lambda>on.
     if on then panic ''kerneltrap: interrupts enabled'' else
     bnd devintr (\<lambda>which_dev.
     if which_dev = 0 then
       bnd (gets r_stval) (\<lambda>stval.
       seq (printf (cstr ''scause %p\<newline>'') [VaPtr scause]) (
       seq (printf (cstr ''sepc=%p stval=%p\<newline>'') [VaPtr sepc, VaPtr stval])
       (panic ''kerneltrap'')))
     else
       bnd mythread (\<lambda>me.
       bnd (case me of None \<Rightarrow> return False | Some t \<Rightarrow> gett t (\<lambda>th. t_state th = RUNNING)) (\<lambda>running.
       seq (whenM (which_dev = 2 \<and> running) yield) (
       seq (w_sepc sepc)
       (w_sstatus ss)))))))))"

end
