(* ===== verification/Boot.thy ===== *)
theory Boot
  imports Trap
begin

text \<open>
  Booting: \<open>kernel/start.c\<close> and \<open>kernel/main.c\<close>. The machine-mode registers of the hart that boots and
  the timer registers extend the kernel state. \<open>main\<close> ends in the scheduler, which never returns;
  the model runs it for a given number of passes.
\<close>

record boot_state = kernel_state +
  mhartid :: u64
  mstatus :: u64
  mepc :: u64
  medeleg :: u64
  mideleg :: u64
  sie :: u64
  mie :: u64
  mtvec :: u64
  mscratch :: u64
  clint :: "u64 \<Rightarrow> u64"
  timer_scratch :: "nat \<Rightarrow> nat \<Rightarrow> u64"
  timer_scratch_addr :: u64
  timervec :: u64
  main_pc :: u64

definition MSTATUS_MPP_MASK :: u64 where "MSTATUS_MPP_MASK = push_bit 11 3"
definition MSTATUS_MPP_S :: u64 where "MSTATUS_MPP_S = push_bit 11 1"
definition MSTATUS_MIE :: u64 where "MSTATUS_MIE = push_bit 3 1"
definition MIE_MTIE :: u64 where "MIE_MTIE = push_bit 7 1"
definition SIE_SEIE :: u64 where "SIE_SEIE = push_bit 9 1"
definition SIE_STIE :: u64 where "SIE_STIE = push_bit 5 1"
definition SIE_SSIE :: u64 where "SIE_SSIE = push_bit 1 1"

definition CLINT :: u64 where "CLINT = 0x2000000"
definition CLINT_MTIMECMP :: "u64 \<Rightarrow> u64" where "CLINT_MTIMECMP h = CLINT + 0x4000 + 8 * h"
definition CLINT_MTIME :: u64 where "CLINT_MTIME = CLINT + 0xBFF8"

definition timerinit :: "('z boot_state_scheme, unit) M" where
  "timerinit =
     bnd (gets mhartid) (\<lambda>id.
     seq (modify (\<lambda>s. s\<lparr>clint := (clint s)(CLINT_MTIMECMP id := clint s CLINT_MTIME + 1000000)\<rparr>)) (
     seq (modify (\<lambda>s. s\<lparr>timer_scratch := (timer_scratch s)(unat id :=
       (timer_scratch s (unat id))(3 := CLINT_MTIMECMP id, 4 := 1000000))\<rparr>)) (
     seq (modify (\<lambda>s. s\<lparr>mscratch := timer_scratch_addr s + 40 * id\<rparr>)) (
     seq (modify (\<lambda>s. s\<lparr>mtvec := timervec s\<rparr>)) (
     seq (modify (\<lambda>s. s\<lparr>mstatus := mstatus s OR MSTATUS_MIE\<rparr>))
     (modify (\<lambda>s. s\<lparr>mie := mie s OR MIE_MTIE\<rparr>)))))))"

text \<open>The \<open>mret\<close> at the end goes to \<open>mepc\<close> in the mode \<open>mstatus\<close> holds.\<close>

definition start :: "('z boot_state_scheme, unit) M" where
  "start =
     seq (modify (\<lambda>s. s\<lparr>mstatus := (mstatus s AND NOT MSTATUS_MPP_MASK) OR MSTATUS_MPP_S\<rparr>)) (
     seq (modify (\<lambda>s. s\<lparr>mepc := main_pc s\<rparr>)) (
     seq (w_satp 0) (
     seq (modify (\<lambda>s. s\<lparr>medeleg := 0xffff\<rparr>)) (
     seq (modify (\<lambda>s. s\<lparr>mideleg := 0xffff\<rparr>)) (
     seq (modify (\<lambda>s. s\<lparr>sie := sie s OR SIE_SEIE OR SIE_STIE OR SIE_SSIE\<rparr>)) (
     seq timerinit
     (modify (\<lambda>s. s\<lparr>lk := (lk s)\<lparr>hart := unat (mhartid s)\<rparr>\<rparr>))))))))"

text \<open>\<open>main\<close> on the first hart and on the others, which wait for \<open>started\<close>.\<close>

definition main :: "nat \<Rightarrow> ('z kernel_state_scheme, unit) M" where
  "main passes =
     bnd cpuid (\<lambda>id.
     seq (if id = 0 then
       seq consoleinit (
       seq printfinit (
       seq (printf (cstr ''\<newline>'') []) (
       seq (printf (cstr ''xv6 kernel is booting\<newline>'') []) (
       seq (printf (cstr ''\<newline>'') []) (
       seq kinit (
       seq kvminit (
       seq kvminithart (
       seq procinit (
       seq trapinit (
       seq trapinithart (
       seq plicinit (
       seq plicinithart (
       seq binit (
       seq iinit (
       seq fileinit (
       seq virtio_disk_init (
       seq userinit
       (modify (\<lambda>s. s\<lparr>started := True\<rparr>)))))))))))))))))))
     else
       bnd (gets started) (\<lambda>go.
       if \<not> go then spin else
       seq (printf (cstr ''hart %d starting\<newline>'') [VaInt (of_nat id)]) (
       seq kvminithart (
       seq trapinithart
       plicinithart))))
     (scheduler passes))"

end
