(* ===== verification/Sched_Run.thy ===== *)
theory Sched_Run
  imports Kthread
begin

text \<open>
  What \<open>wakeup\<close> and \<open>sleep\<close> do: their effect on the process table in a kernel in which no other
  lock is held.
\<close>

subsection \<open>A CPU that holds no lock\<close>

definition all_free :: "lockst \<Rightarrow> bool" where
  "all_free k \<longleftrightarrow> lk_ok k \<and> (\<forall>l. lock_free l k)"

lemma all_freeD [simp]: "all_free k \<Longrightarrow> lk_ok k" "all_free k \<Longrightarrow> lock_free l k"
  by (simp_all add: all_free_def)

lemma all_free_sample [simp]: "all_free sample_lk"
  by (simp add: all_free_def)

text \<open>The thread and the process that run on the CPU.\<close>

abbreviation my_thread :: "'z machine_scheme \<Rightarrow> tslot option" where
  "my_thread s \<equiv> cpu_thread (this_cpu (lk s))"

abbreviation my_proc :: "'z machine_scheme \<Rightarrow> pslot option" where
  "my_proc s \<equiv> cpu_proc (this_cpu (lk s))"

lemma curproc_run [lock_run]: "lk_ok (lk s) \<Longrightarrow> my_proc s = Some p \<Longrightarrow> curproc e s = Ok p e s"
  by (simp add: curproc_def lock_run)

lemma curthread_run [lock_run]: "lk_ok (lk s) \<Longrightarrow> my_thread s = Some t \<Longrightarrow> curthread e s = Ok t e s"
  by (simp add: curthread_def lock_run)

subsection \<open>wakeup\<close>

definition wake_thread :: "chan option \<Rightarrow> tslot option \<Rightarrow> tslot \<Rightarrow> thread \<Rightarrow> thread" where
  "wake_thread ch me t th =
     (if me \<noteq> Some t \<and> t_state th = SLEEPING \<and> t_chan th = ch then th\<lparr>t_state := RUNNABLE\<rparr> else th)"

definition wake_proc :: "chan option \<Rightarrow> tslot option \<Rightarrow> pslot \<Rightarrow> proc \<Rightarrow> proc" where
  "wake_proc ch me p pr = pr\<lparr>threads := (\<lambda>i. if i < NTHREAD then wake_thread ch me (p, i) (threads pr i)
     else threads pr i)\<rparr>"

definition woken :: "chan option \<Rightarrow> tslot option \<Rightarrow> (pslot \<Rightarrow> proc) \<Rightarrow> pslot \<Rightarrow> proc" where
  "woken ch me P = (\<lambda>p. if p < NPROC then wake_proc ch me p (P p) else P p)"

lemma wakeup_threads_run:
  assumes "lk_ok (lk s)"
  shows "wakeup_threads ch p e s
    = Ok () e (s\<lparr>procs := (procs s)(p := wake_proc ch (my_thread s) p (procs s p))\<rparr>)"
proof -
  let ?W = "\<lambda>n. (procs s p)\<lparr>threads := (\<lambda>i. if i < n then wake_thread ch (my_thread s) (p, i) (threads (procs s p) i)
     else threads (procs s p) i)\<rparr>"
  let ?S = "\<lambda>n. s\<lparr>procs := (procs s)(p := ?W n)\<rparr>"
  have "wakeup_threads ch p e (?S 0) = Ok () e (?S NTHREAD)"
    unfolding wakeup_threads_def
  proof (rule for_each_upt [where S = ?S], goal_cases)
    case (1 i)
    have W: "?W (Suc i) = upd_thread i (\<lambda>_. wake_thread ch (my_thread s) (p, i) (threads (procs s p) i)) (?W i)"
      by (auto simp: upd_thread_def fun_eq_iff less_Suc_eq)
    have I: "upd_thread i (\<lambda>_. threads (procs s p) i) (?W i) = ?W i"
      by (auto simp: upd_thread_def fun_eq_iff)
    show ?case
    proof (cases "my_thread s \<noteq> Some (p, i) \<and> t_state (threads (procs s p) i) = SLEEPING
        \<and> t_chan (threads (procs s p) i) = ch")
      case True
      then show ?thesis unfolding W using assms
        by (simp add: mythread_run wake_thread_def thread_of_def upd_thread_def)
    next
      case False
      then show ?thesis unfolding W using assms I
        by (auto simp: mythread_run wake_thread_def thread_of_def)
    qed
  qed
  moreover have "?S 0 = s" by simp
  ultimately show ?thesis by (simp add: wake_proc_def)
qed

lemma wakeup_run:
  assumes "lk_ok (lk s)" and "\<And>p. p < NPROC \<Longrightarrow> lock_free (ProcLock p) (lk s)"
  shows "wakeup ch e s = Ok () e (s\<lparr>procs := woken ch (my_thread s) (procs s)\<rparr>)"
proof -
  let ?P = "\<lambda>n p. if p < n then wake_proc ch (my_thread s) p (procs s p) else procs s p"
  have "wakeup ch e (s\<lparr>procs := ?P 0\<rparr>) = Ok () e (s\<lparr>procs := ?P NPROC\<rparr>)"
    unfolding wakeup_def
  proof (rule for_each_upt, goal_cases)
    case (1 p)
    have "(?P p)(p := wake_proc ch (my_thread s) p (procs s p)) = ?P (Suc p)"
      by (auto simp: fun_eq_iff less_Suc_eq)
    then show ?case using assms 1 by (simp add: lock_run wakeup_threads_run)
  qed
  then show ?thesis by (simp add: woken_def)
qed

lemma wakeup_free: "all_free (lk s) \<Longrightarrow>
    wakeup ch e s = Ok () e (s\<lparr>procs := woken ch (my_thread s) (procs s)\<rparr>)"
  by (rule wakeup_run) auto

lemma wakeup_acq:
  "lk s = lk_acq l k \<Longrightarrow> all_free k \<Longrightarrow> (\<And>p. l \<noteq> ProcLock p) \<Longrightarrow>
    wakeup ch e s = Ok () e (s\<lparr>procs := woken ch (my_thread s) (procs s)\<rparr>)"
  by (rule wakeup_run) auto

lemma woken_simps [simp]:
  "pid (woken ch me P p) = pid (P p)" "state (woken ch me P p) = state (P p)"
  "killed (woken ch me P p) = killed (P p)" "pagetable (woken ch me P p) = pagetable (P p)"
  "sz (woken ch me P p) = sz (P p)" "parent (woken ch me P p) = parent (P p)"
  "ofile (woken ch me P p) = ofile (P p)" "cwd (woken ch me P p) = cwd (P p)"
  "main_thread (woken ch me P p) = main_thread (P p)" "xstate (woken ch me P p) = xstate (P p)"
  by (simp_all add: woken_def wake_proc_def)

lemma woken_thread:
  "threads (woken ch me P p) i = (if p < NPROC \<and> i < NTHREAD then wake_thread ch me (p, i) (threads (P p) i)
     else threads (P p) i)"
  by (simp add: woken_def wake_proc_def)

lemma wake_thread_simps [simp]:
  "t_chan (wake_thread ch me t th) = t_chan th" "tid (wake_thread ch me t th) = tid th"
  "proc_parent (wake_thread ch me t th) = proc_parent th" "trapframe (wake_thread ch me t th) = trapframe th"
  "kstack (wake_thread ch me t th) = kstack th" "thread_parent (wake_thread ch me t th) = thread_parent th"
  by (simp_all add: wake_thread_def)

subsection \<open>sleep\<close>

text \<open>
  What the environment must do for a sleeping thread \<open>t\<close>: resume it on the hart it left, with the
  process lock held as \<open>sched\<close> left it and no other lock, and leave it a thread of its process.
\<close>

definition resumes :: "tslot \<Rightarrow> ('z proc_state_scheme \<Rightarrow> 'z proc_state_scheme) \<Rightarrow> bool" where
  "resumes t f \<longleftrightarrow> (\<forall>s. lk (f s) = lk s \<and> proc_parent (thread_of (f s) t) = proc_parent (thread_of s t))"

text \<open>A thread that can sleep: it runs on this CPU, with no lock but the one it gives up.\<close>

definition can_sleep :: "'z proc_state_scheme \<Rightarrow> tslot \<Rightarrow> lockst \<Rightarrow> lockid \<Rightarrow> bool" where
  "can_sleep s t k lck \<longleftrightarrow> lk s = lk_acq lck k \<and> all_free k \<and> noff (this_cpu k) = 0
     \<and> cpu_thread (this_cpu k) = Some t \<and> proc_parent (thread_of s t) = Some (fst t) \<and> lck \<noteq> ProcLock (fst t)"

definition asleep :: "chan \<Rightarrow> tslot \<Rightarrow> lockst \<Rightarrow> 'z proc_state_scheme \<Rightarrow> 'z proc_state_scheme" where
  "asleep ch t k s = s\<lparr>lk := lk_acq (ProcLock (fst t)) k, procs := (procs s)(fst t :=
     upd_thread (snd t) (\<lambda>th. th\<lparr>t_chan := Some ch, t_state := SLEEPING\<rparr>) (procs s (fst t)))\<rparr>"

definition resumed :: "tslot \<Rightarrow> lockst \<Rightarrow> lockid \<Rightarrow> 'z proc_state_scheme \<Rightarrow> 'z proc_state_scheme" where
  "resumed t k lck s = s\<lparr>lk := lk_acq lck k, procs := (procs s)(fst t :=
     upd_thread (snd t) (\<lambda>th. th\<lparr>t_chan := None\<rparr>) (procs s (fst t)))\<rparr>"

lemma thread_of_upd:
  "thread_of (s\<lparr>procs := (procs s)(fst t := upd_thread (snd t) f (procs s (fst t)))\<rparr>) t = f (thread_of s t)"
  by (simp add: thread_of_def upd_thread_def)

lemma intr_get_run: "intr_get e s = Ok (sie (lk s)) e s"
  by (simp add: intr_get_def r_sstatus_def sie_def and_SIE_iff)

lemma set_intena_same:
  "intena (this_cpu (lk s)) = b \<Longrightarrow> set_mycpu (\<lambda>c. c\<lparr>intena := b\<rparr>) e s = Ok () e s"
  by (simp add: set_mycpu_def this_cpu_def cpu_update_idem fun_upd_idem)

lemma asleep_simps:
  "lk (asleep ch t k s) = lk_acq (ProcLock (fst t)) k"
  "t_state (thread_of (asleep ch t k s) t) = SLEEPING"
  "t_chan (thread_of (asleep ch t k s) t) = Some ch"
  "proc_parent (thread_of (asleep ch t k s) t) = proc_parent (thread_of s t)"
  "bsems (asleep ch t k s) = bsems s"
  by (simp_all add: asleep_def thread_of_def upd_thread_def)

lemma sched_run:
  assumes "my_thread s = Some t" and "proc_parent (thread_of s t) = Some (fst t)"
    and "lk s = lk_acq (ProcLock (fst t)) k" and "all_free k" and "noff (this_cpu k) = 0"
    and "t_state (thread_of s t) \<noteq> RUNNING"
  shows "sched [] s = Blocked s"
    and "lk (f s) = lk s \<Longrightarrow> sched (f # e) s = Ok () e (f s)"
  using assms by (simp_all add: sched_def lock_run intr_get_run set_intena_same)

lemma sleep_run:
  assumes "can_sleep s t k lck"
  shows "sleep ch lck [] s = Blocked (asleep ch t k s)"
    and "resumes t f \<Longrightarrow> sleep ch lck (f # e) s = Ok () e (resumed t k lck (f (asleep ch t k s)))"
proof -
  obtain p i where t: "t = (p, i)" by fastforce
  have c: "lk s = lk_acq lck k" "all_free k" "noff (this_cpu k) = 0" "cpu_thread (this_cpu k) = Some (p, i)"
    "proc_parent (thread_of s (p, i)) = Some p" "lck \<noteq> ProcLock p" "ProcLock p \<noteq> lck"
    using assms by (auto simp: can_sleep_def t)
  have pre: "sleep ch lck e s = (case sched e (asleep ch t k s) of Ok v e' s' \<Rightarrow>
      (seq (sett (p, i) (\<lambda>th. th\<lparr>t_chan := None\<rparr>)) (bnd (gett (p, i) proc_parent) (\<lambda>pp'.
       bnd (deref pp') (\<lambda>p'. seq (release (ProcLock p')) (acquire lck))))) e' s'
      | Panic x \<Rightarrow> Panic x | Spin \<Rightarrow> Spin | Blocked s' \<Rightarrow> Blocked s' | Fault x \<Rightarrow> Fault x)" for e
    using c by (simp add: sleep_def lock_run asleep_def t)
  have sched: "sched [] (asleep ch t k s) = Blocked (asleep ch t k s)"
    "lk (f (asleep ch t k s)) = lk (asleep ch t k s) \<Longrightarrow> sched (f # e) (asleep ch t k s) = Ok () e (f (asleep ch t k s))"
    for f e using c by (intro sched_run [where t = t and k = k]; simp add: asleep_simps t)+
  show "sleep ch lck [] s = Blocked (asleep ch t k s)" by (simp add: pre sched)
  assume r: "resumes t f"
  then have "lk (f (asleep ch t k s)) = lk_acq (ProcLock p) k"
    "proc_parent (thread_of (f (asleep ch t k s)) t) = Some p"
    using c by (simp_all add: resumes_def asleep_simps t)
  then show "sleep ch lck (f # e) s = Ok () e (resumed t k lck (f (asleep ch t k s)))"
    using c sched(2) [of f e]
    by (simp add: pre asleep_simps lock_run resumed_def thread_of_upd t thread_of_def upd_thread_def)
qed

lemma can_sleep_resumed:
  assumes "can_sleep s t k lck" and "resumes t f"
  shows "can_sleep (resumed t k lck (f (asleep ch t k s))) t k lck"
proof -
  have "proc_parent (thread_of (f (asleep ch t k s)) t) = Some (fst t)"
    using assms by (simp add: can_sleep_def resumes_def asleep_simps)
  then show ?thesis using assms
    by (simp add: can_sleep_def resumed_def thread_of_def upd_thread_def)
qed

text \<open>
  \<open>while(C) sleep(ch, lck)\<close>: the loop ends in a state in which the condition is false, or the
  thread is left asleep in a state in which it is true. There is no third outcome.
\<close>

lemma sleep_while_then:
  assumes "\<forall>e s. can_sleep s t k lck \<longrightarrow> body e s = (if C s then seq (sleep ch lck) (return None) e s else Ok (Some v) e (g s))"
    and "can_sleep s t k lck" and "\<forall>f \<in> set e. resumes t f"
  obtains (returns) e' s1 where "sleep_loop body e s = Ok v e' (g s1)" "\<not> C s1" "can_sleep s1 t k lck"
      "\<forall>f \<in> set e'. resumes t f"
  | (sleeps) s1 where "sleep_loop body e s = Blocked (asleep ch t k s1)" "C s1" "can_sleep s1 t k lck"
proof -
  note body = assms(1) [rule_format]
  have "(\<exists>e' s1. rounds (Suc (length e)) body e s = Ok v e' (g s1) \<and> \<not> C s1 \<and> can_sleep s1 t k lck
        \<and> (\<forall>f \<in> set e'. resumes t f))
      \<or> (\<exists>s1. rounds (Suc (length e)) body e s = Blocked (asleep ch t k s1) \<and> C s1 \<and> can_sleep s1 t k lck)"
    using assms(2,3)
  proof (induction e arbitrary: s)
    case Nil
    then show ?case by (cases "C s") (auto simp: body sleep_run)
  next
    case (Cons f e)
    show ?case
    proof (cases "C s")
      case True
      let ?s = "resumed t k lck (f (asleep ch t k s))"
      from Cons.prems have "can_sleep ?s t k lck" by (intro can_sleep_resumed) auto
      from Cons.IH [OF this] Cons.prems True show ?thesis
        by (simp add: body sleep_run [OF Cons.prems(1)])
    next
      case False
      with Cons.prems show ?thesis by (auto simp: body)
    qed
  qed
  then show thesis using that by (auto simp: sleep_loop_def simp del: rounds.simps)
qed

lemma sleep_while:
  assumes body: "\<And>e s. body e s = (if C s then seq (sleep ch lck) (return None) e s else Ok (Some v) e s)"
    and "can_sleep s t k lck" and "\<forall>f \<in> set e. resumes t f"
  obtains (returns) e' s1 where "sleep_loop body e s = Ok v e' s1" "\<not> C s1" "can_sleep s1 t k lck"
      "\<forall>f \<in> set e'. resumes t f"
  | (sleeps) s1 where "sleep_loop body e s = Blocked (asleep ch t k s1)" "C s1" "can_sleep s1 t k lck"
proof -
  have b: "\<forall>e s. can_sleep s t k lck \<longrightarrow> body e s = (if C s then seq (sleep ch lck) (return None) e s else Ok (Some v) e s)"
    using body by blast
  from b assms(2,3) show thesis
    by (cases rule: sleep_while_then [where body = body and C = C and g = "\<lambda>s. s"]) (rule that; assumption)+
qed

subsection \<open>A concrete kernel state for evaluations\<close>

definition sample_thread :: thread where
  "sample_thread = \<lparr>t_state = UNUSED, t_chan = None, t_killed = False, t_xstate = 0, tid = 0, thread_parent = None,
     proc_parent = None, kstack = 0, trapframe = 0, UserTrapFrameBackup = (\<lambda>_. 0), t_context = zero_context,
     t_name = (\<lambda>_. 0)\<rparr>"

definition sample_proc :: proc where
  "sample_proc = \<lparr>state = UNUSED, killed = False, xstate = 0, pid = 0, threads = (\<lambda>_. sample_thread), parent = None,
     main_thread = None, sz = 0, pagetable = 0, ofile = (\<lambda>_. None), cwd = None, name = (\<lambda>_. 0),
     pendingSignals = 0, signalMask = 0, signalHandlers = (\<lambda>_. 0), stopped = False, signal_mask_backup = 0,
     ignore_signals = False, maskHandlers = (\<lambda>_. 0)\<rparr>"

text \<open>Thread 0 of process 0, with process identifier 1, runs; its trap frame is at \<open>0x80200000\<close>.\<close>

definition running_thread :: thread where
  "running_thread = sample_thread\<lparr>t_state := RUNNING, tid := 1, proc_parent := Some 0, trapframe := 0x80200000\<rparr>"

definition running_proc :: proc where
  "running_proc = sample_proc\<lparr>state := USED, pid := 1, threads := (\<lambda>_. sample_thread)(0 := running_thread),
     main_thread := Some (0, 0)\<rparr>"

definition sample_ps :: proc_state where
  "sample_ps = \<lparr>mem = (\<lambda>_. 0), lk = sample_lk, img = sample_img, freelist = 0, kernel_pagetable = 0, satp = (\<lambda>_. 0),
     uart_sent = [], uart_rx = [], tx_room = 1, panicked = False, pr_locking = False,
     procs = (\<lambda>_. sample_proc)(0 := running_proc), initproc = None, nextpid = 2, nexttid = 2, bsems = (\<lambda>_. -1)\<rparr>"

lemmas sample_defs = sample_thread_def sample_proc_def running_thread_def running_proc_def sample_ps_def

lemma sample_ps_simps [simp]:
  "lk sample_ps = sample_lk" "thread_of sample_ps (0, 0) = running_thread" "img sample_ps = sample_img"
  "cpu_thread sample_cpu = Some (0, 0)" "cpu_proc sample_cpu = Some 0" "noff sample_cpu = 0"
  "proc_parent running_thread = Some 0"
  "bsems sample_ps = (\<lambda>_. -1)" "procs sample_ps 0 = running_proc"
  by (simp_all add: sample_defs thread_of_def this_cpu_def sample_lk_def sample_cpu_def)

end
