(* ===== verification/Slots.thy ===== *)
theory Slots
  imports Prelude
begin

text \<open>
  The interface of a first-fit table: an array of slots, an operation that takes the lowest free
  slot, and the update it makes. \<open>filealloc\<close>, \<open>fdalloc\<close>, \<open>bsem_alloc\<close> and \<open>alloc_desc\<close> provide it.
\<close>

text \<open>The slots that up to \<open>n\<close> calls in a row return, and the number of free slots.\<close>

primrec alloc_many :: "('s, nat option) M \<Rightarrow> nat \<Rightarrow> ('s, nat list) M" where
  "alloc_many alloc 0 = return []"
| "alloc_many alloc (Suc n) = bnd alloc (\<lambda>r. case r of None \<Rightarrow> return []
     | Some i \<Rightarrow> bnd (alloc_many alloc n) (\<lambda>is. return (i # is)))"

definition free_count :: "nat \<Rightarrow> (nat \<Rightarrow> bool) \<Rightarrow> nat" where
  "free_count n P = card {i. i < n \<and> P i}"

locale slot_table =
  fixes size' :: nat
    and good :: "'s \<Rightarrow> bool"
    and free_slot :: "'s \<Rightarrow> nat \<Rightarrow> bool"
    and take_slot :: "nat \<Rightarrow> 's \<Rightarrow> 's"
    and alloc :: "('s, nat option) M"
  assumes alloc_run: "good s \<Longrightarrow> alloc e s =
      (case List.find (free_slot s) [0..<size'] of None \<Rightarrow> Ok None e s | Some i \<Rightarrow> Ok (Some i) e (take_slot i s))"
    and take_good: "good s \<Longrightarrow> good (take_slot i s)"
    and take_free: "free_slot (take_slot i s) j \<longleftrightarrow> j \<noteq> i \<and> free_slot s j"
begin

text \<open>The slot returned is the lowest free one, and only it is taken.\<close>

lemma alloc_SomeD:
  assumes "good s" and "alloc e s = Ok (Some i) e' s'"
  shows "i < size'" "free_slot s i" "\<And>j. j < i \<Longrightarrow> \<not> free_slot s j" "s' = take_slot i s" "e' = e" "good s'"
  using assms by (auto simp: alloc_run take_good split: option.splits dest: find_upt_SomeD)

lemma alloc_NoneD:
  assumes "good s" and "alloc e s = Ok None e' s'"
  shows "\<And>j. j < size' \<Longrightarrow> \<not> free_slot s j" "s' = s" "e' = e"
  using assms by (auto simp: alloc_run find_upt_None_iff split: option.splits)

text \<open>It always returns, and fails only on a full table.\<close>

lemma alloc_total:
  assumes "good s"
  obtains (full) "alloc e s = Ok None e s" "\<forall>j < size'. \<not> free_slot s j"
  | (slot) i where "alloc e s = Ok (Some i) e (take_slot i s)" "i < size'" "free_slot s i"
      "\<forall>j < i. \<not> free_slot s j"
proof (cases "List.find (free_slot s) [0..<size']")
  case None
  then have "\<forall>j < size'. \<not> free_slot s j" by (simp add: find_upt_None_iff)
  with None show thesis using full assms by (simp add: alloc_run)
next
  case (Some i)
  then show thesis using slot assms find_upt_SomeD [OF Some] by (simp add: alloc_run)
qed

lemma free_count_take:
  assumes "i < size'" and "free_slot s i"
  shows "free_count size' (free_slot s) = Suc (free_count size' (free_slot (take_slot i s)))"
proof -
  have "{j. j < size' \<and> free_slot s j} = insert i {j. j < size' \<and> free_slot (take_slot i s) j}"
    using assms by (auto simp: take_free)
  then show ?thesis by (simp add: free_count_def take_free)
qed

theorem alloc_many_run:
  assumes "good s"
  shows "\<exists>is s'. alloc_many alloc n e s = Ok is e s' \<and> good s' \<and> distinct is \<and> length is = min n (free_count size' (free_slot s))
    \<and> (\<forall>i \<in> set is. i < size' \<and> free_slot s i)"
  using assms
proof (induction n arbitrary: s)
  case 0
  then show ?case by simp
next
  case (Suc n)
  from Suc.prems show ?case
  proof (cases rule: alloc_total [where e = e])
    case full
    then have "free_count size' (free_slot s) = 0" by (simp add: free_count_def)
    with full Suc.prems show ?thesis by simp
  next
    case (slot i)
    from Suc.IH [OF take_good [OF Suc.prems], of i] obtain "is" s' where
      "alloc_many alloc n e (take_slot i s) = Ok is e s'" "good s'" "distinct is"
      "length is = min n (free_count size' (free_slot (take_slot i s)))"
      "\<forall>j \<in> set is. j < size' \<and> free_slot (take_slot i s) j" by blast
    with slot show ?thesis
      by (auto simp: free_count_take [OF slot(2,3)] take_free intro!: exI [of _ "i # is"] exI [of _ s'])
  qed
qed

end

end
