(* ===== verification/Bsem_Run.thy ===== *)
theory Bsem_Run
  imports Sched_Run Slots
begin

text \<open>
  Correctness of the binary semaphores: allocation is first-fit, \<open>bsem_down\<close> passes only a
  semaphore that is up, and takes it, and blocks otherwise.
\<close>

lemma set_bsem_run [simp]: "set_bsem i v e s = Ok () e (s\<lparr>bsems := (bsems s)(i := v)\<rparr>)"
  by (simp add: set_bsem_def)

lemma bsem_index_run [simp]:
  "i < MAX_BSEM \<Longrightarrow> bsem_index (int i) e s = Ok i e s"
  "k < 0 \<or> int MAX_BSEM \<le> k \<Longrightarrow> bsem_index k e s = Fault ''bsems''"
  by (auto simp: bsem_index_def)

subsection \<open>Allocation\<close>

text \<open>The result of \<open>bsem_alloc\<close> as an option: -1 is no semaphore.\<close>

definition bsem_new :: "('z proc_state_scheme, nat option) M" where
  "bsem_new = bnd bsem_alloc (\<lambda>r. return (if r < 0 then None else Some (nat r)))"

lemma bsem_alloc_run:
  assumes "all_free (lk s)"
  shows "bsem_alloc e s = (case List.find (\<lambda>i. bsems s i = -1) [0..<MAX_BSEM] of
      None \<Rightarrow> Ok (-1) e s | Some i \<Rightarrow> Ok (int i) e (s\<lparr>bsems := (bsems s)(i := 1)\<rparr>))"
proof -
  let ?s = "s\<lparr>lk := lk_acq PidLock (lk s)\<rparr>"
  have "for_until [0..<MAX_BSEM] (\<lambda>i.
       bnd (gets (\<lambda>s. bsems s i)) (\<lambda>v.
       if v = -1 then seq (set_bsem i 1) (seq (release PidLock) (return (Some (int i))))
       else return None)) e ?s =
    (case List.find (\<lambda>i. bsems s i = -1) [0..<MAX_BSEM] of None \<Rightarrow> Ok None e ?s
      | Some i \<Rightarrow> Ok (Some (int i)) e (s\<lparr>bsems := (bsems s)(i := 1)\<rparr>))"
    by (rule for_until_find) (use assms in \<open>simp_all add: lock_run\<close>)
  then show ?thesis using assms
    by (simp add: bsem_alloc_def lock_run split: option.split)
qed

interpretation bsem: slot_table MAX_BSEM "\<lambda>s. all_free (lk s)" "\<lambda>s i. bsems s i = -1"
    "\<lambda>i s. s\<lparr>bsems := (bsems s)(i := 1)\<rparr>" bsem_new
  by unfold_locales (auto simp: bsem_new_def bsem_alloc_run split: option.split)



subsection \<open>down and up\<close>

lemma bsem_up_run:
  assumes "all_free (lk s)" and "i < MAX_BSEM"
  shows "bsem_up (int i) e s =
    Ok () e (s\<lparr>bsems := (bsems s)(i := 1), procs := woken (Some ChSem) (my_thread s) (procs s)\<rparr>)"
  using assms by (simp add: bsem_up_def lock_run wakeup_acq [where k = "lk s" and l = PidLock])

lemma bsem_down_pass:
  assumes "all_free (lk s)" and "i < MAX_BSEM" and "bsems s i \<noteq> 0"
  shows "bsem_down (int i) e s = Ok () e (s\<lparr>bsems := (bsems s)(i := 0)\<rparr>)"
  using assms by (simp add: bsem_down_def lock_run sleep_loop_def)



end
