(* ===== verification/Csem.thy ===== *)
theory Csem
  imports Bsem_Run
begin

text \<open>
  Counting semaphores of user space: \<open>user/Csemaphore.h\<close> and \<open>user/Csemaphore.c\<close>. The functions are
  given twice: as calls of the kernel's binary semaphores, and as the steps of a system in which any
  number of threads execute them, one statement at a time and in any order. The steps use of a binary
  semaphore what the theorems on \<open>bsem_down\<close> and \<open>bsem_up\<close> say: a \<open>down\<close> passes only if the value is
  not 0 and leaves 0, an \<open>up\<close> leaves 1.
\<close>

record counting_semaphore =
  bsem1 :: int
  bsem2 :: int
  count :: int

subsection \<open>The functions\<close>

text \<open>The record is the caller's struct; each function returns it as it leaves it.\<close>

definition csem_down :: "counting_semaphore \<Rightarrow> ('z proc_state_scheme, counting_semaphore) M" where
  "csem_down sem =
     seq (bsem_down (bsem2 sem)) (
     seq (bsem_down (bsem1 sem)) (
     let sem = sem\<lparr>count := count sem - 1\<rparr> in
     seq (whenM (0 < count sem) (bsem_up (bsem2 sem))) (
     seq (bsem_up (bsem1 sem))
     (return sem))))"

definition csem_up :: "counting_semaphore \<Rightarrow> ('z proc_state_scheme, counting_semaphore) M" where
  "csem_up sem =
     seq (bsem_down (bsem1 sem)) (
     let sem = sem\<lparr>count := count sem + 1\<rparr> in
     seq (whenM (count sem = 1) (bsem_up (bsem2 sem))) (
     seq (bsem_up (bsem1 sem))
     (return sem)))"

definition csem_alloc :: "counting_semaphore \<Rightarrow> int \<Rightarrow> ('z proc_state_scheme, int \<times> counting_semaphore) M" where
  "csem_alloc sem n =
     bnd bsem_alloc (\<lambda>b1.
     bnd bsem_alloc (\<lambda>b2.
     if b1 = -1 \<or> b2 = -1 then return (-1, sem) else
     let sem = sem\<lparr>bsem1 := b1, bsem2 := b2\<rparr> in
     seq (whenM (n = 0) (bsem_down (bsem2 sem)))
     (return (0, sem\<lparr>count := n\<rparr>))))"

text \<open>The \<open>free\<close> of the struct itself concerns the memory of the caller only.\<close>

definition csem_free :: "counting_semaphore \<Rightarrow> ('z proc_state_scheme, unit) M" where
  "csem_free sem = seq (bsem_free (bsem1 sem)) (bsem_free (bsem2 sem))"

subsection \<open>The interleaving of threads\<close>

text \<open>The statement of \<open>csem_down\<close> or \<open>csem_up\<close> that a thread executes next.\<close>

datatype csem_pc = CIdle | CDown1 | CDown2 | CDown3 | CDown4 | CDown5 | CUp1 | CUp2 | CUp3 | CUp4

text \<open>The values of the two binary semaphores and of \<open>count\<close>, and how often \<open>count\<close> was changed.\<close>

record csem_sys =
  v1 :: int
  v2 :: int
  cnt :: int
  pc :: "nat \<Rightarrow> csem_pc"
  taken :: int
  given :: int

definition csem_init :: "int \<Rightarrow> csem_sys" where
  "csem_init n = \<lparr>v1 = 1, v2 = (if n = 0 then 0 else 1), cnt = n, pc = (\<lambda>_. CIdle), taken = 0, given = 0\<rparr>"

definition goto :: "csem_sys \<Rightarrow> nat \<Rightarrow> csem_pc \<Rightarrow> csem_sys" where
  "goto s i c = s\<lparr>pc := (pc s)(i := c)\<rparr>"

inductive csem_step :: "csem_sys \<Rightarrow> csem_sys \<Rightarrow> bool" where
  call_down: "pc s i = CIdle \<Longrightarrow> csem_step s (goto s i CDown1)"
| down1: "pc s i = CDown1 \<Longrightarrow> v2 s \<noteq> 0 \<Longrightarrow> csem_step s (goto (s\<lparr>v2 := 0\<rparr>) i CDown2)"
| down2: "pc s i = CDown2 \<Longrightarrow> v1 s \<noteq> 0 \<Longrightarrow> csem_step s (goto (s\<lparr>v1 := 0\<rparr>) i CDown3)"
| down3: "pc s i = CDown3 \<Longrightarrow> csem_step s (goto (s\<lparr>cnt := cnt s - 1, taken := taken s + 1\<rparr>) i CDown4)"
| down4: "pc s i = CDown4 \<Longrightarrow> csem_step s (goto (if 0 < cnt s then s\<lparr>v2 := 1\<rparr> else s) i CDown5)"
| down5: "pc s i = CDown5 \<Longrightarrow> csem_step s (goto (s\<lparr>v1 := 1\<rparr>) i CIdle)"
| call_up: "pc s i = CIdle \<Longrightarrow> csem_step s (goto s i CUp1)"
| up1: "pc s i = CUp1 \<Longrightarrow> v1 s \<noteq> 0 \<Longrightarrow> csem_step s (goto (s\<lparr>v1 := 0\<rparr>) i CUp2)"
| up2: "pc s i = CUp2 \<Longrightarrow> csem_step s (goto (s\<lparr>cnt := cnt s + 1, given := given s + 1\<rparr>) i CUp3)"
| up3: "pc s i = CUp3 \<Longrightarrow> csem_step s (goto (if cnt s = 1 then s\<lparr>v2 := 1\<rparr> else s) i CUp4)"
| up4: "pc s i = CUp4 \<Longrightarrow> csem_step s (goto (s\<lparr>v1 := 1\<rparr>) i CIdle)"

inductive csem_run :: "csem_sys \<Rightarrow> csem_sys \<Rightarrow> bool" for s0 where
  csem_start: "csem_run s0 s0"
| csem_more: "csem_run s0 s \<Longrightarrow> csem_step s s' \<Longrightarrow> csem_run s0 s'"

subsection \<open>The invariant\<close>

text \<open>
  The threads that hold \<open>bsem1\<close>, and those that passed \<open>bsem2\<close> and have not decided yet whether to
  open it for the next thread.
\<close>

definition in_mutex :: "csem_pc \<Rightarrow> bool" where
  "in_mutex c \<longleftrightarrow> c \<in> {CDown3, CDown4, CDown5, CUp2, CUp3, CUp4}"

definition in_gate :: "csem_pc \<Rightarrow> bool" where
  "in_gate c \<longleftrightarrow> c \<in> {CDown2, CDown3, CDown4}"

text \<open>
  With \<open>m\<close> the thread in the first set, if any, and \<open>g\<close> the one in the second. \<open>to_open\<close>: a thread
  has incremented \<open>count\<close> to 1 and will open \<open>bsem2\<close> next.
\<close>

definition at :: "csem_sys \<Rightarrow> nat option \<Rightarrow> csem_pc" where
  "at s m = (case m of None \<Rightarrow> CIdle | Some i \<Rightarrow> pc s i)"

definition to_open :: "nat option \<Rightarrow> csem_sys \<Rightarrow> bool" where
  "to_open m s \<longleftrightarrow> cnt s = 1 \<and> at s m = CUp3"

definition csem_inv :: "nat option \<Rightarrow> nat option \<Rightarrow> csem_sys \<Rightarrow> bool" where
  "csem_inv m g s \<longleftrightarrow>
     (\<forall>i. in_mutex (pc s i) \<longleftrightarrow> m = Some i) \<and> v1 s = (if m = None then 1 else 0) \<and>
     (\<forall>i. in_gate (pc s i) \<longleftrightarrow> g = Some i) \<and> v2 s = (if g = None \<and> 0 < cnt s \<and> \<not> to_open m s then 1 else 0) \<and>
     (to_open m s \<longrightarrow> g = None) \<and> (g \<noteq> None \<longrightarrow> at s g \<noteq> CDown4 \<longrightarrow> 0 < cnt s) \<and>
     (at s m = CUp3 \<longrightarrow> 0 < cnt s) \<and> 0 \<le> cnt s"

lemma goto_simps [simp]:
  "pc (goto s i c) = (pc s)(i := c)" "v1 (goto s i c) = v1 s" "v2 (goto s i c) = v2 s"
  "cnt (goto s i c) = cnt s" "taken (goto s i c) = taken s" "given (goto s i c) = given s"
  "at (goto s i c) m = (if m = Some i then c else at s m)"
  by (auto simp: goto_def at_def split: option.split)

lemma at_simps [simp]:
  "at (s\<lparr>v1 := x\<rparr>) m = at s m" "at (s\<lparr>v2 := x\<rparr>) m = at s m" "at (s\<lparr>cnt := x, taken := y\<rparr>) m = at s m"
  "at (s\<lparr>cnt := x, given := y\<rparr>) m = at s m" "at s None = CIdle" "at s (Some i) = pc s i"
  by (simp_all add: at_def split: option.split)

lemma in_mutex_simps [simp]:
  "in_mutex CDown3" "in_mutex CDown4" "in_mutex CDown5" "in_mutex CUp2" "in_mutex CUp3" "in_mutex CUp4"
  "\<not> in_mutex CIdle" "\<not> in_mutex CDown1" "\<not> in_mutex CDown2" "\<not> in_mutex CUp1"
  by (simp_all add: in_mutex_def)

lemma in_gate_simps [simp]:
  "in_gate CDown2" "in_gate CDown3" "in_gate CDown4" "\<not> in_gate CIdle" "\<not> in_gate CDown1" "\<not> in_gate CDown5"
  "\<not> in_gate CUp1" "\<not> in_gate CUp2" "\<not> in_gate CUp3" "\<not> in_gate CUp4"
  by (simp_all add: in_gate_def)

lemma csem_inv_init: "0 \<le> n \<Longrightarrow> csem_inv None None (csem_init n)"
  by (auto simp: csem_inv_def csem_init_def to_open_def)

text \<open>Where the invariant places a thread, by its program counter.\<close>

lemma csem_inv_at:
  assumes "csem_inv m g s"
  shows "m = Some i \<longleftrightarrow> in_mutex (pc s i)" "g = Some i \<longleftrightarrow> in_gate (pc s i)"
  using assms by (auto simp: csem_inv_def)

lemma csem_inv_goto:
  assumes "csem_inv m g s"
    and "\<And>j. j \<noteq> i \<Longrightarrow> (m' = Some j \<longleftrightarrow> m = Some j) \<and> (g' = Some j \<longleftrightarrow> g = Some j)"
    and "m' = Some i \<longleftrightarrow> in_mutex c'" and "g' = Some i \<longleftrightarrow> in_gate c'" and "pc t = pc s"
    and "v1 t = (if m' = None then 1 else 0)"
    and "let s' = goto t i c' in v2 t = (if g' = None \<and> 0 < cnt t \<and> \<not> to_open m' s' then 1 else 0) \<and>
     (to_open m' s' \<longrightarrow> g' = None) \<and> (g' \<noteq> None \<longrightarrow> at s' g' \<noteq> CDown4 \<longrightarrow> 0 < cnt t) \<and>
     (at s' m' = CUp3 \<longrightarrow> 0 < cnt t) \<and> 0 \<le> cnt t"
  shows "csem_inv m' g' (goto t i c')"
  using assms by (simp add: csem_inv_def Let_def)

lemma csem_inv_step:
  assumes "csem_step s s'" and "csem_inv m g s"
  shows "\<exists>m' g'. csem_inv m' g' s'"
proof -
  note a = csem_inv_at [OF assms(2)]
  have inv: "v1 s = (if m = None then 1 else 0)" "v2 s = (if g = None \<and> 0 < cnt s \<and> \<not> to_open m s then 1 else 0)"
    "to_open m s \<longrightarrow> g = None" "g \<noteq> None \<longrightarrow> at s g \<noteq> CDown4 \<longrightarrow> 0 < cnt s" "at s m = CUp3 \<longrightarrow> 0 < cnt s" "0 \<le> cnt s"
    using assms(2) by (auto simp: csem_inv_def)
  have both: "at s g = CDown4 \<Longrightarrow> m = g"
    using csem_inv_at(1) [OF assms(2)] by (cases g) auto
  from assms(1) show ?thesis
  proof cases
    case (call_down i)
    then show ?thesis unfolding call_down(1) using a [of i] inv
      by - (rule exI [of _ m], rule exI [of _ g], rule csem_inv_goto [OF assms(2)], auto simp: to_open_def split: if_splits)
  next
    case (down1 i)
    then show ?thesis unfolding down1(1) using a [of i] inv
      by - (rule exI [of _ m], rule exI [of _ "Some i"], rule csem_inv_goto [OF assms(2)], auto simp: to_open_def split: if_splits)
  next
    case (down2 i)
    then show ?thesis unfolding down2(1) using a [of i] inv
      by - (rule exI [of _ "Some i"], rule exI [of _ g], rule csem_inv_goto [OF assms(2)], auto simp: to_open_def split: if_splits)
  next
    case (down3 i)
    then show ?thesis unfolding down3(1) using a [of i] inv
      by - (rule exI [of _ m], rule exI [of _ g], rule csem_inv_goto [OF assms(2)], auto simp: to_open_def split: if_splits)
  next
    case (down4 i)
    then show ?thesis unfolding down4(1) using a [of i] inv
      by - (rule exI [of _ m], rule exI [of _ None], rule csem_inv_goto [OF assms(2)], auto simp: to_open_def split: if_splits)
  next
    case (down5 i)
    then show ?thesis unfolding down5(1) using a [of i] inv
      by - (rule exI [of _ None], rule exI [of _ g], rule csem_inv_goto [OF assms(2)], auto simp: to_open_def split: if_splits)
  next
    case (call_up i)
    then show ?thesis unfolding call_up(1) using a [of i] inv
      by - (rule exI [of _ m], rule exI [of _ g], rule csem_inv_goto [OF assms(2)], auto simp: to_open_def split: if_splits)
  next
    case (up1 i)
    then show ?thesis unfolding up1(1) using a [of i] inv
      by - (rule exI [of _ "Some i"], rule exI [of _ g], rule csem_inv_goto [OF assms(2)], auto simp: to_open_def split: if_splits)
  next
    case (up2 i)
    then show ?thesis unfolding up2(1) using a [of i] inv both
      by - (rule exI [of _ m], rule exI [of _ g], rule csem_inv_goto [OF assms(2)], auto simp: to_open_def split: if_splits)
  next
    case (up3 i)
    then show ?thesis unfolding up3(1) using a [of i] inv
      by - (rule exI [of _ m], rule exI [of _ g], rule csem_inv_goto [OF assms(2)], auto simp: to_open_def split: if_splits)
  next
    case (up4 i)
    then show ?thesis unfolding up4(1) using a [of i] inv
      by - (rule exI [of _ None], rule exI [of _ g], rule csem_inv_goto [OF assms(2)], auto simp: to_open_def split: if_splits)
  qed
qed

lemma csem_account_step: "csem_step s s' \<Longrightarrow> cnt s' - given s' + taken s' = cnt s - given s + taken s"
  by (cases rule: csem_step.cases) auto

lemma csem_run_inv:
  assumes "csem_run (csem_init n) s" and "0 \<le> n"
  shows "(\<exists>m g. csem_inv m g s) \<and> cnt s = n + given s - taken s"
  using assms
proof (induction rule: csem_run.induct)
  case csem_start
  then have "csem_inv None None (csem_init n)" by (intro csem_inv_init)
  moreover have "cnt (csem_init n) = n + given (csem_init n) - taken (csem_init n)" by (simp add: csem_init_def)
  ultimately show ?case by blast
next
  case (csem_more s s')
  then show ?case using csem_inv_step [of s s'] csem_account_step [of s s'] by auto
qed

text \<open>
  C10. The counting semaphore counts: with any number of threads that call \<open>csem_down\<close> and
  \<open>csem_up\<close> in any interleaving of their statements, \<open>count\<close> never becomes negative, the downs that
  took a unit never exceed the initial value plus the ups, and no two threads are between
  \<open>bsem_down(bsem1)\<close> and \<open>bsem_up(bsem1)\<close> at the same time. When no thread is past its first
  statement, \<open>bsem1\<close> is up and \<open>bsem2\<close> is up exactly if a unit is left, so that no wakeup is lost.
\<close>

theorem csem_safe:
  assumes "0 \<le> n" and "csem_run (csem_init n) s"
  shows "0 \<le> cnt s \<and> taken s \<le> n + given s \<and> (in_mutex (pc s i) \<longrightarrow> in_mutex (pc s j) \<longrightarrow> i = j)
    \<and> ((\<forall>i. pc s i = CIdle \<or> pc s i = CDown1 \<or> pc s i = CUp1) \<longrightarrow> v1 s = 1 \<and> (v2 s \<noteq> 0 \<longleftrightarrow> 0 < cnt s))"
proof -
  from csem_run_inv [OF assms(2,1)] obtain m g where inv: "csem_inv m g s" and "cnt s = n + given s - taken s"
    by blast
  then have 1: "0 \<le> cnt s" "taken s \<le> n + given s" by (simp_all add: csem_inv_def)
  have 2: "in_mutex (pc s i) \<longrightarrow> in_mutex (pc s j) \<longrightarrow> i = j" using csem_inv_at(1) [OF inv, of i] csem_inv_at(1) [OF inv, of j] by auto
  have "m = None \<and> g = None" if q: "\<forall>i. pc s i = CIdle \<or> pc s i = CDown1 \<or> pc s i = CUp1"
  proof -
    have "\<not> in_mutex (pc s k) \<and> \<not> in_gate (pc s k)" for k using spec [OF q, of k] by auto
    then have "m \<noteq> Some k \<and> g \<noteq> Some k" for k using csem_inv_at [OF inv, of k] by simp
    then show ?thesis by (cases m; cases g) auto
  qed
  with inv have "(\<forall>i. pc s i = CIdle \<or> pc s i = CDown1 \<or> pc s i = CUp1) \<longrightarrow> v1 s = 1 \<and> (v2 s \<noteq> 0 \<longleftrightarrow> 0 < cnt s)"
    by (auto simp: csem_inv_def to_open_def)
  with 1 2 show ?thesis by blast
qed

text \<open>Two units, and two threads on their way through \<open>csem_down\<close>.\<close>

theorem csem_safe_witness:
  "\<exists>s. csem_run (csem_init 2) s \<and> pc s 0 = CDown3 \<and> pc s 1 = CDown1 \<and> 0 \<le> cnt s \<and> taken s \<le> 2 + given s"
proof -
  let ?s1 = "goto (csem_init 2) 0 CDown1"
  let ?s2 = "goto (?s1\<lparr>v2 := 0\<rparr>) 0 CDown2"
  let ?s3 = "goto (?s2\<lparr>v1 := 0\<rparr>) 0 CDown3"
  let ?s4 = "goto ?s3 1 CDown1"
  have "csem_run (csem_init 2) ?s1" by (intro csem_more [OF csem_start] call_down) (simp add: csem_init_def)
  then have "csem_run (csem_init 2) ?s2" by (rule csem_more) (rule down1, simp_all add: csem_init_def)
  then have "csem_run (csem_init 2) ?s3" by (rule csem_more) (rule down2, simp_all add: csem_init_def)
  then have "csem_run (csem_init 2) ?s4" by (rule csem_more) (rule call_down, simp add: csem_init_def)
  with csem_safe [of 2 ?s4 0 1] show ?thesis by (intro exI [of _ ?s4]) (simp add: csem_init_def)
qed

end
