(* ===== verification/Ubyte.thy ===== *)
theory Ubyte
  imports Ucopy
begin

text \<open>
  User memory one byte at a time: the form in which pipes, the console and string arguments use \<open>copyin\<close> and
  \<open>copyout\<close> of \<open>kernel/vm.c\<close>.
\<close>

text \<open>An address space depends on the memory, the locks, the image and the free list only.\<close>

lemma aspace_cong:
  assumes "mem s' = mem s" "lk s' = lk s" "img s' = img s" "freelist s' = freelist s"
  shows "aspace s' root ps M = aspace s root ps M"
  using assms by (simp add: aspace_def vm_inv_def idle_def kmem_inv_def pages_of_def)

lemma aspace_locks:
  assumes "aspace s root ps M" "mem s' = mem s" "img s' = img s" "freelist s' = freelist s"
    and "lk_ok (lk s')" "lock_free KmemLock (lk s')"
  shows "aspace s' root ps M"
  using assms by (simp add: aspace_def vm_inv_def idle_def kmem_inv_def pages_of_def)

text \<open>The user byte at a virtual address, and a user-accessible address.\<close>

definition ubyte :: "mem \<Rightarrow> u64 \<Rightarrow> u64 \<Rightarrow> u8" where
  "ubyte m root va = m (uaddr m root va)"

definition uaccess :: "mem \<Rightarrow> u64 \<Rightarrow> nat set \<Rightarrow> u64 \<Rightarrow> bool" where
  "uaccess m root M va \<longleftrightarrow> pageno va \<in> accessible m root M"

lemma urange_one: "urange m root M va (unat (1 :: u64)) \<longleftrightarrow> uaccess m root M va"
  by (simp add: urange_def uaccess_def accessible_def)

lemma urange_uaccess: "urange m root M va n \<longleftrightarrow> (\<forall>i < n. uaccess m root M (va + of_nat i))"
  by (simp add: urange_def uaccess_def accessible_def)

lemma copyin_byte:
  assumes "aspace s root ps M" and "uaccess (mem s) root M va"
  shows "copyin root dst va 1 e s = Ok (0, dst(0 := ubyte (mem s) root va)) e s"
proof -
  have "unat (1 :: u64) < Suc (unat (1 :: u64))" by simp
  from copyin_loop_ok [OF assms(1) assms(2) [folded urange_one] this, of dst 0 e]
  show ?thesis by (auto simp: copyin_def ubyte_def fun_eq_iff simp del: copyin_loop.simps)
qed

text \<open>A byte stored in user space, and what it leaves unchanged.\<close>

definition uset :: "mem \<Rightarrow> u64 \<Rightarrow> u64 \<Rightarrow> u8 \<Rightarrow> mem" where
  "uset m root va b = m(uaddr m root va := b)"

lemma uset_space:
  assumes "aspace s root ps M" and "uaccess (mem s) root M va"
  shows "aspace (s\<lparr>mem := uset (mem s) root va b\<rparr>) root ps M"
    and "j \<in> M \<Longrightarrow> pent (uset (mem s) root va b) root j = pent (mem s) root j"
    and "uaccess (uset (mem s) root va b) root M = uaccess (mem s) root M"
    and "pageno va' \<in> M \<Longrightarrow> uaddr (uset (mem s) root va b) root va' = uaddr (mem s) root va'"
    and "uaccess (mem s) root M va' \<Longrightarrow>
      ubyte (uset (mem s) root va b) root va' = (if va' = va then b else ubyte (mem s) root va')"
proof -
  have M: "pageno va \<in> M" using assms(2) by (simp add: uaccess_def accessible_def)
  have "in_page (uaddr (mem s) root va) (frame (mem s) root (pageno va))"
    using unat_page_offset [of va] by (simp add: uaddr_def in_page_def in_range_def)
  then have "changes_in (frame (mem s) root ` M) (mem s) (uset (mem s) root va b)"
    using M by (auto simp: changes_in_def uset_def)
  note w = write_frames [OF assms(1) this]
  show "aspace (s\<lparr>mem := uset (mem s) root va b\<rparr>) root ps M" by (rule w(1))
  show p: "pent (uset (mem s) root va b) root j = pent (mem s) root j" if "j \<in> M" for j
    using w(2) aspaceD(3) [OF assms(1) that] by blast
  then show "uaccess (uset (mem s) root va b) root M = uaccess (mem s) root M"
    by (auto simp: uaccess_def accessible_def fun_eq_iff)
  show u: "uaddr (uset (mem s) root va b) root va' = uaddr (mem s) root va'" if "pageno va' \<in> M" for va'
    using p [OF that] by (simp add: uaddr_def frame_def)
  show "ubyte (uset (mem s) root va b) root va' = (if va' = va then b else ubyte (mem s) root va')"
    if "uaccess (mem s) root M va'"
  proof -
    have M': "pageno va' \<in> M" using that by (simp add: uaccess_def accessible_def)
    then show ?thesis using u uaddr_inj [OF assms(1) M' M] by (auto simp: ubyte_def uset_def)
  qed
qed

lemma copyout_byte:
  assumes "aspace s root ps M" and "uaccess (mem s) root M va"
  shows "copyout root va src 1 e s = Ok 0 e (s\<lparr>mem := uset (mem s) root va (src 0)\<rparr>)"
proof -
  have "unat (1 :: u64) < Suc (unat (1 :: u64))" by simp
  from copyout_loop_ok [OF assms(1) assms(2) [folded urange_one] this, of src e] obtain m where
    m: "copyout root va src 1 e s = Ok 0 e (s\<lparr>mem := m\<rparr>)" "copied root va 1 src (mem s) m"
    by (auto simp: copyout_def simp del: copyout_loop.simps)
  from m(2) have "m = uset (mem s) root va (src 0)" by (auto simp: copied_def uset_def fun_eq_iff)
  with m(1) show ?thesis by simp
qed

subsection \<open>A concrete address space\<close>

text \<open>The address space of \<open>booted_user\<close>, in any state built on the same memory.\<close>

lemma booted_any:
  "\<exists>m f root ps. (\<forall>s :: 'z kmem_state_scheme. mem s = m \<longrightarrow> freelist s = f \<longrightarrow> img s = sample_img \<longrightarrow> lk s = sample_lk \<longrightarrow>
      aspace s root ps {..<3}) \<and> top_guard m root \<and> fresh_pages root {..<3} m"
proof -
  obtain s :: kmem_state and root ps where
    s: "aspace s root ps {..<3}" "top_guard (mem s) root" "fresh_pages root {..<3} (mem s)" "img s = sample_img"
    using booted_user by (fastforce simp: top_guard_def)
  have "aspace s' root ps {..<3}" if "mem s' = mem s" "freelist s' = freelist s" "img s' = sample_img" "lk s' = sample_lk"
    for s' :: "'z kmem_state_scheme"
    using s(1,4) that by (simp add: aspace_def vm_inv_def idle_def kmem_inv_def pages_of_def)
  with s(2,3) show ?thesis by blast
qed

end
