(* ===== verification/Sigret.thy ===== *)
theory Sigret
  imports Signal_Run
begin

text \<open>
  The round trip of a user signal handler: \<open>usersignal\<close> redirects a thread to its handler, \<open>sigret\<close>
  puts the thread back where it was (\<open>kernel/proc.c\<close>).
\<close>

subsection \<open>The page of a trap frame\<close>

text \<open>
  The trap frame of a thread lies in a page that is neither free nor part of the address space of
  the process.
\<close>

definition own_trapframe :: "'z kmem_state_scheme \<Rightarrow> u64 \<Rightarrow> u64 list \<Rightarrow> nat set \<Rightarrow> u64 \<Rightarrow> u64 \<Rightarrow> bool" where
  "own_trapframe s root ps M P tf \<longleftrightarrow> tf \<noteq> 0 \<and> page_aligned P \<and> unat (tf - P) + sizeof_trapframe \<le> 4096 \<and>
     P \<notin> footprint s root ps M"

lemma tf_in_page:
  assumes "unat (tf - P) + sizeof_trapframe \<le> 4096" and "n < sizeof_trapframe"
  shows "in_page (tf + of_nat n) P"
proof -
  have "tf + of_nat n - P = (tf - P) + of_nat n" by simp
  then have "unat (tf + of_nat n - P) = (unat (tf - P) + n) mod 2 ^ 64"
    using assms(2) by (simp only: unat_add64) (simp add: unat_of_nat sizeof_trapframe_def)
  then show ?thesis using assms by (simp add: in_page_def in_range_def)
qed

lemma tf_field_in_page:
  assumes "unat (tf - P) + sizeof_trapframe \<le> 4096" and "unat off + 8 \<le> sizeof_trapframe" and "in_range a (tf + off) 8"
  shows "in_page a P"
proof -
  have "unat (a - (tf + off)) < 8" using assms(3) by (simp add: in_range_def)
  then have "unat (a - tf) = unat (a - (tf + off)) + unat off" "unat (a - tf) < sizeof_trapframe"
    using assms(2) unat_add64 [of "a - (tf + off)" off] by (simp_all add: sizeof_trapframe_def)
  then show ?thesis using tf_in_page [OF assms(1), of "unat (a - tf)"] by simp
qed

lemma tf_store_changes:
  assumes "unat (tf - P) + sizeof_trapframe \<le> 4096" and "unat off + 8 \<le> sizeof_trapframe"
  shows "changes_in {P} m (store64 (tf + off) v m)"
  unfolding changes_in_def using tf_field_in_page [OF assms] store64_frame by blast

lemma tf_load_store:
  assumes "unat off + 8 \<le> unat off' \<or> unat off' + 8 \<le> unat off"
    and "unat off + 8 \<le> sizeof_trapframe" and "unat off' + 8 \<le> sizeof_trapframe"
  shows "load64 (store64 (tf + off') v m) (tf + off) = load64 m (tf + off)"
proof (rule load64_store64_other)
  have "tf + off' - (tf + off) = off' - off" "tf + off - (tf + off') = off - off'" by simp_all
  then show "disjoint_range (tf + off) 8 (tf + off') 8"
    using assms
    unfolding disjoint_range_def by (simp only: unat_sub64) (auto simp: sizeof_trapframe_def split: if_splits)
qed

lemma tf_load_changes:
  assumes "changes_in S m m'" and "P \<notin> S" and "\<And>p. p \<in> S \<Longrightarrow> page_aligned p" and "page_aligned P"
    and "unat (tf - P) + sizeof_trapframe \<le> 4096" and "unat off + 8 \<le> sizeof_trapframe"
  shows "load64 m' (tf + off) = load64 m (tf + off)"
proof (rule load64_cong)
  fix a assume "in_range a (tf + off) 8"
  then have "in_page a P" using tf_field_in_page [OF assms(5,6)] by blast
  then show "m' a = m a" using assms(1-4) in_page_unique [of _ P] unfolding changes_in_def by metis
qed


subsection \<open>usersignal\<close>

text \<open>The process while its thread \<open>i\<close> runs the handler of \<open>sig\<close>, with the saved registers \<open>m\<close> at \<open>tf\<close>.\<close>

definition in_handler :: "nat \<Rightarrow> nat \<Rightarrow> mem \<Rightarrow> u64 \<Rightarrow> proc \<Rightarrow> proc" where
  "in_handler sig i m tf pr = upd_thread i (\<lambda>th. th\<lparr>UserTrapFrameBackup :=
      (\<lambda>k. if k < sizeof_trapframe then m (tf + of_nat k) else UserTrapFrameBackup th k)\<rparr>)
    (pr\<lparr>signal_mask_backup := signalMask pr, signalMask := maskHandlers pr sig, ignore_signals := True\<rparr>)"

text \<open>The registers the handler starts with: its address, the signal, and a return address at the top of the stack.\<close>

definition handler_regs :: "mem \<Rightarrow> u64 \<Rightarrow> nat \<Rightarrow> u64 \<Rightarrow> u64 \<Rightarrow> bool" where
  "handler_regs m tf sig h sp \<longleftrightarrow> load64 m (tf + tf_epc) = h \<and> load64 m (tf + tf_a0) = of_nat sig \<and>
     load64 m (tf + tf_sp) = sp \<and> load64 m (tf + tf_ra) = sp"

lemma tf_offsets_ok [simp]:
  "unat tf_epc = 24" "unat tf_ra = 40" "unat tf_sp = 48" "unat tf_a0 = 112"
  by (simp_all add: tf_offsets)

lemma usersignal_run:
  assumes rt: "root = pagetable (procs s p)" and tf: "tf = trapframe (thread_of s (p, i))" and sp: "aspace s root ps M" and top: "top_guard (mem s) root"
    and own: "own_trapframe s root ps M P tf" and pp: "proc_parent (thread_of s (p, i)) = Some p"
  shows "\<exists>m. usersignal (p, i) sig e s = Ok () e (s\<lparr>procs := (procs s)(p := in_handler sig i (mem s) tf (procs s p)), mem := m\<rparr>)
     \<and> handler_regs m tf sig (signalHandlers (procs s p) sig)
         (load64 (mem s) (tf + tf_sp) - ucast (ucast (end_ret (img s) - start_ret (img s)) :: u32))
     \<and> changes_in (insert P (frame (mem s) root ` M)) (mem s) m"
proof -
  let ?size = "ucast (end_ret (img s) - start_ret (img s)) :: u32"
  let ?m1 = "store64 (tf + tf_epc) (signalHandlers (procs s p) sig) (mem s)"
  let ?sp = "load64 (mem s) (tf + tf_sp) - ucast ?size"
  let ?m2 = "store64 (tf + tf_sp) ?sp ?m1"
  let ?s = "s\<lparr>procs := (procs s)(p := in_handler sig i (mem s) tf (procs s p))\<rparr>"
  have o: "tf \<noteq> 0" "page_aligned P" "unat (tf - P) + sizeof_trapframe \<le> 4096" "P \<notin> pages_of s root ps"
    "P \<notin> frame (mem s) root ` M"
    using own by (auto simp: own_trapframe_def footprint_def)
  note st = tf_store_changes [OF o(3)]
  have c2: "changes_in {P} (mem s) ?m2"
    by (rule changes_in_trans [OF st st]) (simp_all add: sizeof_trapframe_def)
  have w: "aspace (s\<lparr>mem := ?m2\<rparr>) root ps M" "va < MAXVA \<Longrightarrow> entry ?m2 root va 2 = entry (mem s) root va 2" for va
    using write_outside [OF sp c2] o(2,4) sv39_MAXVA [of va] by simp_all
  have fr: "frame ?m2 root j = frame (mem s) root j" if "j \<in> M" for j
    using w(2) user_page_bounds(2) aspaceD(3) [OF sp that] by (simp add: frame_def pent_def)
  have "aspace (?s\<lparr>mem := ?m2\<rparr>) root ps M"
    using w(1) by (subst aspace_cong [of _ "s\<lparr>mem := ?m2\<rparr>"]) simp_all
  moreover have "top_guard (mem (?s\<lparr>mem := ?m2\<rparr>)) root"
    using top w(2) by (simp add: top_guard_def)
  ultimately obtain m3 r where m3: "copyout root ?sp (\<lambda>k. ?m2 (start_ret (img s) + of_nat k)) (ucast ?size) e (?s\<lparr>mem := ?m2\<rparr>)
      = Ok r e (?s\<lparr>mem := m3\<rparr>)" "changes_in (frame ?m2 root ` accessible ?m2 root M) ?m2 m3"
    using copyout_loop_safe [of "?s\<lparr>mem := ?m2\<rparr>" root ps M "ucast ?size" "Suc (unat (ucast ?size :: u64))" ?sp]
    unfolding copyout_def by fastforce
  have c3: "changes_in (frame (mem s) root ` M) ?m2 m3"
    using m3(2) by (rule changes_in_mono) (use fr in \<open>auto simp: accessible_def image_iff\<close>)
  have l3: "load64 m3 (tf + off) = load64 ?m2 (tf + off)" if "unat off + 8 \<le> sizeof_trapframe" for off
    using tf_load_changes [OF c3 o(5) _ o(2,3) that] frame_aligned by blast
  let ?m5 = "store64 (tf + tf_ra) ?sp (store64 (tf + tf_a0) (of_nat sig) m3)"
  have regs: "handler_regs ?m5 tf sig (signalHandlers (procs s p) sig) ?sp"
    using l3 [of tf_epc] l3 [of tf_sp]
    by (simp add: handler_regs_def tf_load_store sizeof_trapframe_def)
  have c5: "changes_in {P} m3 ?m5"
    by (rule changes_in_trans [OF st st]) (simp_all add: sizeof_trapframe_def)
  have "changes_in (insert P (frame (mem s) root ` M)) (mem s) ?m5"
    using c2 c3 c5 changes_in_mono changes_in_trans by (meson insert_subset subset_insertI empty_subsetI insertI1)
  moreover have "usersignal (p, i) sig e s = Ok () e (?s\<lparr>mem := ?m5\<rparr>)"
    using m3(1) o(1) l3 [of tf_sp] pp
    by (simp add: usersignal_def tf_set_def tf_get_def in_handler_def thread_of_def upd_thread_def tf_load_store
        sizeof_trapframe_def rt tf)
  ultimately show ?thesis using regs by blast
qed


subsection \<open>sigret\<close>

lemma sigret_run:
  assumes "lk_ok (lk s)" "my_thread s = Some t" "my_proc s = Some p" "trapframe (thread_of s t) = tf" "tf \<noteq> 0"
  shows "sigret e s = Ok () e (s\<lparr>mem := write_bytes tf (UserTrapFrameBackup (thread_of s t)) sizeof_trapframe (mem s),
     procs := (procs s)(p := (procs s p)\<lparr>signalMask := signal_mask_backup (procs s p), ignore_signals := False\<rparr>)\<rparr>)"
  using assms by (simp add: sigret_def lock_run)

lemma in_handler_simps:
  "k < sizeof_trapframe \<Longrightarrow> UserTrapFrameBackup (threads (in_handler sig i m tf pr) i) k = m (tf + of_nat k)"
  "trapframe (threads (in_handler sig i m tf pr) i) = trapframe (threads pr i)"
  "signalMask (in_handler sig i m tf pr) = maskHandlers pr sig"
  "signal_mask_backup (in_handler sig i m tf pr) = signalMask pr"
  "ignore_signals (in_handler sig i m tf pr)"
  by (simp_all add: in_handler_def upd_thread_def)



lemma footprint_valid:
  assumes "aspace s root ps M" and "p \<in> footprint s root ps M"
  shows "kend (img s) \<le> p"
proof -
  note i = vm_inv_facts [OF aspaceD(1) [OF assms(1)]]
  have "valid_page (kend (img s)) q" if "q \<in> tables (mem s) root" for q
    using i(4) that unfolding pt_wf_def by blast
  moreover have "valid_page (kend (img s)) q" if "q \<in> set ps" for q
    using i(3) that by (simp add: kmem_inv_def)
  ultimately have "valid_page (kend (img s)) p"
    using assms aspaceD(6) [OF assms(1)] by (auto simp: footprint_def pages_of_def)
  then show ?thesis by (simp add: valid_page_def)
qed


end
