(* ===== verification/Signal_Default.thy ===== *)
theory Signal_Default
  imports Signal_Run
begin

text \<open>
  \<open>handling_signals\<close> of \<open>kernel/proc.c\<close> for a process without handlers of its own: which signals kill it,
  stop it or let it continue, and which stay pending.
\<close>

subsection \<open>handling_signals with default actions\<close>

text \<open>A pending signal that is not blocked.\<close>

definition due :: "nat \<Rightarrow> proc \<Rightarrow> bool" where
  "due sig pr \<longleftrightarrow> bit (pendingSignals pr) sig \<and> \<not> bit (signalMask pr) sig"

definition act_default :: "nat \<Rightarrow> proc \<Rightarrow> proc" where
  "act_default sig pr = (let pr = (if sig = SIGSTOP then pr\<lparr>stopped := True\<rparr>
       else if sig = SIGCONT then pr\<lparr>stopped := False\<rparr> else signalled SIGKILL pr) in
     pr\<lparr>pendingSignals := pendingSignals pr XOR sigbit sig\<rparr>)"

definition act :: "nat \<Rightarrow> proc \<Rightarrow> proc" where
  "act sig pr = (if due sig pr \<and> signalHandlers pr sig = SIG_DFL then act_default sig pr else pr)"

lemma sigbit_test: "sig < 32 \<Longrightarrow> x AND sigbit sig \<noteq> 0 \<longleftrightarrow> bit x sig"
proof -
  assume s: "sig < 32"
  have b: "bit (sigbit sig) n \<longleftrightarrow> n = sig" for n
    using s unfolding sigbit_def bit_push_bit_iff by (auto simp: bit_1_iff)
  show ?thesis unfolding bit_eq_iff [of "x AND sigbit sig" 0] using s by (auto simp: bit_and_iff b)
qed

lemma kill_self:
  assumes "all_free (lk s)" and "p < NPROC" and "\<And>q. q < NPROC \<Longrightarrow> pid (procs s q) = pid (procs s p) \<Longrightarrow> q = p"
  shows "kill (pid (procs s p)) (int SIGKILL) e s = Ok 0 e (s\<lparr>procs := (procs s)(p := signalled SIGKILL (procs s p))\<rparr>)"
proof -
  obtain q where q: "List.find (\<lambda>q. pid (procs s q) = pid (procs s p)) [0..<NPROC] = Some q"
    using find_upt_None_iff [of "\<lambda>q. pid (procs s q) = pid (procs s p)" NPROC] assms(2) by fastforce
  then have "q = p" using find_upt_SomeD(1,2) [OF q] assms(3) by blast
  with kill_run [OF assms(1), of "int SIGKILL" "pid (procs s p)" e] q show ?thesis
    by (simp add: sig_defs)
qed

lemma handle_signal_run:
  assumes "all_free (lk s)" and "p < NPROC" and "\<And>q. q < NPROC \<Longrightarrow> pid (procs s q) = pid (procs s p) \<Longrightarrow> q = p"
    and "signalHandlers (procs s p) sig \<in> {SIG_DFL, SIG_IGN}" and "sig < 32"
  shows "handle_signal p sig e s = Ok () e (s\<lparr>procs := (procs s)(p := act sig (procs s p))\<rparr>)"
proof -
  have ne: "SIG_DFL \<noteq> SIG_IGN" "SIGSTOP \<noteq> SIGCONT" by (simp_all add: SIG_DFL_def SIG_IGN_def sig_defs)
  have du: "pendingSignals (procs s p) AND sigbit sig \<noteq> 0 \<and> signalMask (procs s p) AND sigbit sig = 0 \<longleftrightarrow> due sig (procs s p)"
    using sigbit_test [OF assms(5)] unfolding due_def by blast
  note defs = handle_signal_def act_def act_default_def stopSignal_def contSignal_def toggle_pending_def Let_def
  consider "\<not> due sig (procs s p)" | "due sig (procs s p)" "signalHandlers (procs s p) sig = SIG_IGN"
    | "due sig (procs s p)" "signalHandlers (procs s p) sig = SIG_DFL"
    using assms(4) by blast
  then show ?thesis
  proof cases
    case 1
    then show ?thesis by (simp add: defs du)
  next
    case 2
    then show ?thesis using ne by (simp add: defs du)
  next
    case 3
    then show ?thesis using ne(2) du 3(1)
      by (cases "sig = SIGSTOP"; cases "sig = SIGCONT") (simp_all add: defs du kill_self [OF assms(1-3)])
  qed
qed


lemma act_simps:
  "signalMask (act sig pr) = signalMask pr" "signalHandlers (act sig pr) = signalHandlers pr"
  "pid (act sig pr) = pid pr"
  by (simp_all add: act_def act_default_def signalled_def mark_killed_def unblock_first_def Let_def)

lemma handle_signals_run:
  assumes "all_free (lk s)" and "p < NPROC" and "\<And>q. q < NPROC \<Longrightarrow> pid (procs s q) = pid (procs s p) \<Longrightarrow> q = p"
    and "\<And>sig. signalHandlers (procs s p) sig \<in> {SIG_DFL, SIG_IGN}" and "\<forall>sig \<in> set xs. sig < 32"
  shows "for_each xs (handle_signal p) e s = Ok () e (s\<lparr>procs := (procs s)(p := fold act xs (procs s p))\<rparr>)"
  using assms
proof (induction xs arbitrary: s)
  case (Cons x xs)
  let ?s = "s\<lparr>procs := (procs s)(p := act x (procs s p))\<rparr>"
  have "handle_signal p x e s = Ok () e ?s" using Cons.prems by (intro handle_signal_run) auto
  moreover have f1: "all_free (lk ?s)" using Cons.prems(1) by simp
  have f2: "q = p" if "q < NPROC" "pid (procs ?s q) = pid (procs ?s p)" for q
    using that Cons.prems(3) [of q] by (simp add: act_simps split: if_splits)
  have f3: "signalHandlers (procs ?s p) sig \<in> {SIG_DFL, SIG_IGN}" for sig
    using Cons.prems(4) [of sig] by (simp add: act_simps)
  have f4: "\<forall>sig \<in> set xs. sig < 32" using Cons.prems(5) by simp
  have "for_each xs (handle_signal p) e ?s = Ok () e (?s\<lparr>procs := (procs ?s)(p := fold act xs (procs ?s p))\<rparr>)"
    by (rule Cons.IH [OF f1 Cons.prems(2) f2 f3 f4])
  ultimately show ?case by (simp del: fun_upd_apply add: fun_upd_same)
qed simp

text \<open>The signals whose default action is to kill the process.\<close>

definition lethal :: "nat \<Rightarrow> proc \<Rightarrow> bool" where
  "lethal sig pr \<longleftrightarrow> due sig pr \<and> signalHandlers pr sig = SIG_DFL \<and> sig \<noteq> SIGSTOP \<and> sig \<noteq> SIGCONT"

lemma act_pending:
  assumes "n \<noteq> SIGKILL" and "sig < 32"
  shows "bit (pendingSignals (act sig pr)) n \<longleftrightarrow>
     bit (pendingSignals pr) n \<and> \<not> (n = sig \<and> due sig pr \<and> signalHandlers pr sig = SIG_DFL)"
proof -
  have b: "bit (sigbit sig) n \<longleftrightarrow> n = sig"
    using assms(2) unfolding sigbit_def bit_push_bit_iff by (auto simp: bit_1_iff)
  have "bit (pendingSignals (act_default sig pr)) n \<longleftrightarrow> bit (pendingSignals pr) n \<noteq> (n = sig)"
    using assms(1) by (simp add: act_default_def Let_def bit_xor_iff b signalled_simps(1))
  then show ?thesis by (auto simp: act_def due_def)
qed

lemma act_killed: "killed (act sig pr) \<longleftrightarrow> killed pr \<or> lethal sig pr"
  by (auto simp: act_def act_default_def lethal_def signalled_simps(3) Let_def)

lemma act_safe:
  assumes "\<not> lethal sig pr" and "n \<noteq> sig" and "sig < 32"
  shows "due n (act sig pr) = due n pr"
proof (cases "due sig pr \<and> signalHandlers pr sig = SIG_DFL")
  case True
  then have "bit (pendingSignals (act sig pr)) n \<longleftrightarrow> bit (pendingSignals pr) n"
    using assms bit_push_bit_iff [of sig "1 :: u32" n]
    by (auto simp: lethal_def act_def act_default_def Let_def bit_xor_iff sigbit_def bit_1_iff)
  then show ?thesis by (simp add: due_def act_simps)
qed (auto simp: act_def)


lemma act_stopped: "sig \<noteq> SIGSTOP \<Longrightarrow> sig \<noteq> SIGCONT \<Longrightarrow> stopped (act sig pr) = stopped pr"
  by (simp add: act_def act_default_def signalled_def mark_killed_def unblock_first_def Let_def)

lemma fold_act_pending:
  assumes "n \<noteq> SIGKILL" and "distinct xs" and "\<forall>sig \<in> set xs. sig < 32"
  shows "bit (pendingSignals (fold act xs pr)) n \<longleftrightarrow>
     bit (pendingSignals pr) n \<and> \<not> (n \<in> set xs \<and> due n pr \<and> signalHandlers pr n = SIG_DFL)"
  using assms
proof (induction xs arbitrary: pr)
  case (Cons x xs)
  have a: "bit (pendingSignals (act x pr)) n \<longleftrightarrow>
     bit (pendingSignals pr) n \<and> \<not> (n = x \<and> due x pr \<and> signalHandlers pr x = SIG_DFL)"
    using Cons.prems by (intro act_pending) auto
  then have "due n (act x pr) \<longleftrightarrow> due n pr \<and> \<not> (n = x \<and> signalHandlers pr x = SIG_DFL)"
    by (auto simp: due_def act_simps)
  with a Cons.IH [of "act x pr"] Cons.prems show ?case by (auto simp: act_simps)
qed simp

lemma fold_act_killed:
  assumes "distinct xs" and "\<forall>sig \<in> set xs. sig < 32"
  shows "killed (fold act xs pr) \<longleftrightarrow> killed pr \<or> (\<exists>sig \<in> set xs. lethal sig pr)"
proof -
  have k: "killed (fold act xs pr)" if "killed pr" for xs pr
    using that by (induction xs arbitrary: pr) (auto simp: act_killed)
  show ?thesis
    using assms
  proof (induction xs arbitrary: pr)
    case (Cons x xs)
    show ?case
    proof (cases "lethal x pr")
      case True
      then show ?thesis using k [of "act x pr" xs] by (simp add: act_killed)
    next
      case False
      then have "lethal sig (act x pr) = lethal sig pr" if "sig \<in> set xs" for sig
        using act_safe [OF False, of sig] Cons.prems that by (auto simp: lethal_def act_simps)
      with False Cons.IH [of "act x pr"] Cons.prems show ?thesis by (auto simp: act_killed)
    qed
  qed simp
qed

lemma fold_act_stopped:
  "SIGSTOP \<notin> set xs \<Longrightarrow> SIGCONT \<notin> set xs \<Longrightarrow> stopped (fold act xs pr) = stopped pr"
  by (induction xs arbitrary: pr) (auto simp: act_stopped)

lemma fold_act_hands:
  "signalHandlers (fold act xs pr) = signalHandlers pr" "signalMask (fold act xs pr) = signalMask pr"
  by (induction xs arbitrary: pr) (simp_all add: act_simps)

lemma stopped_after:
  "stopped (fold act [0..<32] pr) \<longleftrightarrow> \<not> (due SIGCONT pr \<and> signalHandlers pr SIGCONT = SIG_DFL)
     \<and> (stopped pr \<or> due SIGSTOP pr \<and> signalHandlers pr SIGSTOP = SIG_DFL)"
proof -
  let ?p1 = "fold act [0..<17] pr" let ?p2 = "act 17 ?p1" let ?p3 = "fold act [18..<19] ?p2" let ?p4 = "act 19 ?p3"
  have "[0..<32] = [0..<17] @ [17] @ [18..<19] @ [19] @ [20..<32]" by (simp add: upt_rec)
  then have "fold act [0..<32] pr = fold act ([0..<17] @ [17] @ [18..<19] @ [19] @ [20..<32]) pr" by (rule arg_cong)
  also have "\<dots> = fold act [20..<32] ?p4" by (simp only: fold_append comp_def fold.simps id_apply)
  finally have "fold act [0..<32] pr = fold act [20..<32] ?p4" .
  moreover have "stopped (fold act [20..<32] ?p4) = stopped ?p4" by (rule fold_act_stopped) (simp_all add: sig_defs)
  ultimately have "stopped (fold act [0..<32] pr) = stopped ?p4" by simp
  moreover have "stopped ?p4 \<longleftrightarrow> stopped ?p3 \<and> \<not> (due 19 ?p3 \<and> signalHandlers ?p3 19 = SIG_DFL)"
    by (auto simp: act_def act_default_def sig_defs)
  moreover have "stopped ?p3 = stopped ?p2" by (rule fold_act_stopped) (simp_all add: sig_defs)
  moreover have "stopped ?p2 \<longleftrightarrow> stopped ?p1 \<or> due 17 ?p1 \<and> signalHandlers ?p1 17 = SIG_DFL"
    by (auto simp: act_def act_default_def sig_defs)
  moreover have "stopped ?p1 = stopped pr" by (rule fold_act_stopped) (simp_all add: sig_defs)
  moreover have "due 17 ?p1 = due 17 pr"
    using fold_act_pending [of 17 "[0..<17]" pr] by (simp add: due_def fold_act_hands sig_defs)
  moreover have "due 19 ?p3 = due 19 pr"
    using fold_act_pending [of 19 "[0..<17] @ [17] @ [18..<19]" pr]
    by (simp add: due_def fold_act_hands act_simps sig_defs)
  ultimately show ?thesis by (auto simp: fold_act_hands act_simps sig_defs)
qed




end
