(* ===== verification/Printf_Run.thy ===== *)
theory Printf_Run
  imports Printf
begin

text \<open>
  Correctness of number output in \<open>kernel/printf.c\<close>: the characters that \<open>printint\<close> and \<open>printptr\<close> send to the
  console read back as the number, and the digit buffer never overflows.
\<close>

subsection \<open>Output of one character\<close>

definition sent :: "u8 list \<Rightarrow> 'z con_state_scheme \<Rightarrow> 'z con_state_scheme" where
  "sent out s = s\<lparr>uart_sent := uart_sent s @ out, tx_room := tx_room s - length out\<rparr>"

definition console_up :: "'z con_state_scheme \<Rightarrow> bool" where
  "console_up s \<longleftrightarrow> lk_ok (lk s) \<and> \<not> panicked s"

lemma sent_simps [simp]:
  "sent [] s = s" "sent b (sent a s) = sent (a @ b) s" "lk (sent a s) = lk s" "panicked (sent a s) = panicked s"
  "uart_sent (sent a s) = uart_sent s @ a" "pr_locking (sent a s) = pr_locking s" "mem (sent a s) = mem s"
  "console_up (sent a s) = console_up s"
  by (simp_all add: sent_def console_up_def)

lemma uartputc_sync_run: "console_up s \<Longrightarrow> uartputc_sync c e s = Ok () e (sent [c] s)"
proof -
  assume "console_up s"
  then have k: "lk_ok (lk s)" "\<not> panicked s" by (simp_all add: console_up_def)
  then have "0 \<le> noff (this_cpu (lk s))" by (simp add: lk_ok_def)
  with k show ?thesis
    by (simp add: uartputc_sync_def uart_write_thr_def push_off_run pop_off_run lk_pop_push sent_def)
qed

lemma consputc_run: "console_up s \<Longrightarrow> consputc (Some c) e s = Ok () e (sent [c] s)"
  by (simp add: consputc_def uartputc_sync_run)

lemma consputs_run: "console_up s \<Longrightarrow> for_each cs (\<lambda>c. consputc (Some c)) e s = Ok () e (sent cs s)"
  by (induction cs arbitrary: s) (simp_all add: consputc_run)

subsection \<open>Reading numerals back\<close>

definition digit_val :: "u8 \<Rightarrow> nat" where
  "digit_val c = (if c < 58 then unat c - 48 else unat c - 87)"

definition parse_nat :: "nat \<Rightarrow> u8 list \<Rightarrow> nat" where
  "parse_nat b cs = foldl (\<lambda>n c. n * b + digit_val c) 0 cs"

definition parse_int :: "nat \<Rightarrow> u8 list \<Rightarrow> int" where
  "parse_int b cs = (case cs of [] \<Rightarrow> 0 | c # cs' \<Rightarrow> if c = 45 then - int (parse_nat b cs') else int (parse_nat b cs))"

lemma digits_facts:
  assumes "i < 16"
  shows "digit_val (digits ! i) = i" "digits ! i \<noteq> 45" "digits ! i = 48 \<longleftrightarrow> i = 0"
proof -
  have "\<forall>i \<in> set [0..<16]. digit_val (digits ! i) = i \<and> digits ! i \<noteq> 45 \<and> (digits ! i = 48 \<longleftrightarrow> i = 0)"
    by (simp add: upt_rec digits_def digit_val_def)
  then show "digit_val (digits ! i) = i" "digits ! i \<noteq> 45" "digits ! i = 48 \<longleftrightarrow> i = 0" using assms by simp_all
qed

lemma parse_nat_append: "parse_nat b (cs @ [c]) = parse_nat b cs * b + digit_val c"
  by (simp add: parse_nat_def)

text \<open>A numeral as it is written by hand: at least one digit, and no leading zero but for 0 itself.\<close>

definition canonical :: "nat \<Rightarrow> u8 list \<Rightarrow> bool" where
  "canonical b cs \<longleftrightarrow> cs \<noteq> [] \<and> (\<forall>c \<in> set cs. \<exists>i < b. c = digits ! i) \<and> (hd cs = 48 \<longrightarrow> length cs = 1)"

lemma int_digits_run:
  assumes "2 \<le> unat base" and "unat base \<le> 16" and "unat x < unat base ^ n" and "0 < n"
  shows "\<exists>ds. int_digits n x base buf = Some (buf @ ds) \<and> parse_nat (unat base) (rev ds) = unat x
     \<and> length ds \<le> n \<and> ds \<noteq> [] \<and> (\<forall>c \<in> set ds. \<exists>i < unat base. c = digits ! i)
     \<and> (last ds = 48 \<longrightarrow> length ds = 1) \<and> (x \<noteq> 0 \<longrightarrow> last ds \<noteq> 48)"
  using assms(3,4)
proof (induction n arbitrary: x buf)
  case (Suc n)
  let ?c = "digits ! unat (x mod base)" and ?q = "x div base"
  have m: "unat (x mod base) = unat x mod unat base" "unat ?q = unat x div unat base"
    by (simp_all add: unat_mod_distrib unat_div_distrib)
  have lt: "unat (x mod base) < unat base" using assms(1) by (simp add: m)
  then have c: "digit_val ?c = unat x mod unat base" "\<exists>i < unat base. ?c = digits ! i"
    using digits_facts(1) [of "unat (x mod base)"] assms(2) m by auto
  show ?case
  proof (cases "?q = 0")
    case True
    then have "unat x div unat base = 0" using m(2) by simp
    then have x: "unat x < unat base" using assms(1) by (simp add: div_eq_0_iff)
    have "?c \<noteq> 48" if "x \<noteq> 0"
      using that x digits_facts(3) [of "unat (x mod base)"] lt assms(2) by (simp add: m unat_eq_0)
    with True c x show ?thesis
      by (intro exI [of _ "[?c]"]) (auto simp: parse_nat_def Let_def)
  next
    case False
    have "unat ?q < unat base ^ n" using Suc.prems(1) assms(1) by (simp add: m div_less_iff_less_mult mult.commute)
    moreover have "0 < n"
    proof (rule ccontr)
      assume "\<not> 0 < n"
      then have "unat x < unat base" using Suc.prems(1) by simp
      then have "unat ?q = 0" by (simp add: m)
      then show False using False by (simp add: unat_eq_0)
    qed
    ultimately obtain ds where ds: "int_digits n ?q base (buf @ [?c]) = Some ((buf @ [?c]) @ ds)"
      "parse_nat (unat base) (rev ds) = unat ?q" "length ds \<le> n" "ds \<noteq> []"
      "\<forall>c \<in> set ds. \<exists>i < unat base. c = digits ! i" "last ds \<noteq> 48"
      using Suc.IH [of ?q "buf @ [?c]"] False by auto
    then have "parse_nat (unat base) (rev (?c # ds)) = unat x"
      using c(1) by (simp add: parse_nat_append m div_mult_mod_eq)
    with ds c(2) False show ?thesis
      by (intro exI [of _ "?c # ds"]) (auto simp: Let_def)
  qed
qed simp


lemma sint_sign: "sint (x :: u32) = (if sint x < 0 then - int (unat (- x)) else int (unat x))"
proof -
  have u: "int (unat x) = uint x" "0 \<le> uint x" "uint x < 2 ^ 32" using unsigned_less [of x] by simp_all
  have s: "sint x = uint x - 2 ^ 32 * of_bool (bit x 31)"
    using signed_take_bit_eq_take_bit_minus [of 31 "uint x"] take_bit_int_eq_self [OF u(2,3)] by (simp add: sint_uint bit_uint_iff)
  have "uint (- x) = 2 ^ 32 - uint x" if "x \<noteq> 0"
  proof -
    have "0 < uint x" using that u(2) by (simp add: order_less_le uint_0_iff)
    then have "(- uint x) mod 2 ^ 32 = 2 ^ 32 - uint x" using u by (simp add: zmod_zminus1_eq_if)
    then show ?thesis by (simp add: uint_word_ariths)
  qed
  then have "int (unat (- x)) = 2 ^ 32 - uint x" if "x \<noteq> 0" using that by simp
  with s u show ?thesis by (cases "bit x 31"; cases "x = 0") auto
qed


lemma printint_run:
  assumes "console_up s" and "unat base = 10 \<or> unat base = 16"
  shows "\<exists>ds. printint xx base True e s = Ok () e (sent ((if sint xx < 0 then [45] else []) @ ds) s)
     \<and> canonical (unat base) ds \<and> parse_nat (unat base) ds = nat \<bar>sint xx\<bar> \<and> length ds \<le> 10"
proof -
  let ?neg = "sint xx < 0" let ?x = "if ?neg then - xx else xx"
  have b: "2 \<le> unat base" "unat base \<le> 16" using assms(2) by auto
  have "unat ?x < 2 ^ 32" using unsigned_less [of ?x] by simp
  also have "(2 :: nat) ^ 32 \<le> unat base ^ 10" using assms(2) by auto
  finally have lt: "unat ?x < unat base ^ 10" .
  obtain ds where ds: "int_digits 10 ?x base [] = Some ds" "parse_nat (unat base) (rev ds) = unat ?x"
    "length ds \<le> 10" "ds \<noteq> []" "\<forall>c \<in> set ds. \<exists>i < unat base. c = digits ! i" "last ds = 48 \<longrightarrow> length ds = 1"
    using int_digits_run [OF b lt, of "[]"] by auto
  have more: "int_digits n x base buf = Some r \<Longrightarrow> int_digits (n + k) x base buf = Some r" for n k x buf r
    by (induction n arbitrary: x buf) (auto simp: Let_def)
  have "int_digits 16 ?x base [] = Some ds" using more [OF ds(1), of 6] by simp
  then have "printint xx base True e s = Ok () e (sent ((if ?neg then [45] else []) @ rev ds) s)"
    using assms(1) ds(3) by (simp add: printint_def consputs_run Let_def del: int_digits.simps)
  moreover have "canonical (unat base) (rev ds)" using ds(4-6) by (simp add: canonical_def hd_rev)
  moreover have "unat ?x = nat \<bar>sint xx\<bar>" using sint_sign [of xx] by (auto split: if_splits)
  ultimately show ?thesis using ds(2,3) by (intro exI [of _ "rev ds"]) simp
qed

text \<open>
  C14. \<open>%d\<close> and \<open>%x\<close> print numbers correctly: for every 32-bit value \<open>printint\<close> terminates without
  overflowing its buffer, and the characters it sends are a minus sign for a negative value followed
  by a numeral of at most ten digits without leading zeros; read back in the base they are the value.
\<close>

theorem printint_roundtrip:
  assumes "console_up s" and "base = 10 \<or> base = 16"
  shows "\<exists>out. printint xx base True e s = Ok () e (sent out s) \<and> parse_int (unat base) out = sint xx
     \<and> canonical (unat base) (if sint xx < 0 then tl out else out) \<and> length out \<le> 11"
proof -
  have "unat base = 10 \<or> unat base = 16" using assms(2) by auto
  from printint_run [OF assms(1) this, of xx e] obtain ds where
    ds: "printint xx base True e s = Ok () e (sent ((if sint xx < 0 then [45] else []) @ ds) s)"
      "canonical (unat base) ds" "parse_nat (unat base) ds = nat \<bar>sint xx\<bar>" "length ds \<le> 10" by blast
  then obtain c cs i where c: "ds = c # cs" "c = digits ! i" "i < unat base"
    by (cases ds) (auto simp: canonical_def)
  then have "c \<noteq> 45" using digits_facts(2) [of i] \<open>unat base = 10 \<or> unat base = 16\<close> by auto
  with ds c(1) show ?thesis
    by (intro exI [of _ "(if sint xx < 0 then [45] else []) @ ds"]) (auto simp: parse_int_def)
qed

definition sample_con :: con_state where
  "sample_con = \<lparr>mem = (\<lambda>_. 0), lk = sample_lk, img = sample_img, freelist = 0, kernel_pagetable = 0, satp = (\<lambda>_. 0),
     uart_sent = [], uart_rx = [], tx_room = 1, panicked = False, pr_locking = False\<rparr>"

text \<open>The smallest 32-bit integer.\<close>

theorem printint_roundtrip_witness:
  "\<exists>out. printint 0x80000000 10 True [] sample_con = Ok () [] (sent out sample_con) \<and> parse_int 10 out = -2147483648"
proof -
  have "console_up sample_con" by (simp add: console_up_def sample_con_def)
  from printint_roundtrip [OF this, of 10 "0x80000000" "[]"] show ?thesis by auto
qed


subsection \<open>Well-typed calls of printf\<close>

text \<open>Code that only sends characters, when the locks are as \<open>P\<close> says.\<close>

definition outputs :: "(lockst \<Rightarrow> bool) \<Rightarrow> ('z con_state_scheme, unit) M \<Rightarrow> bool" where
  "outputs P m \<longleftrightarrow> (\<forall>e s. console_up s \<longrightarrow> P (lk s) \<longrightarrow> (\<exists>out. m e s = Ok () e (sent out s)))"

named_theorems outputs_intros "composition of code that only sends characters"

lemma outputsI: "(\<And>e s. console_up s \<Longrightarrow> P (lk s) \<Longrightarrow> m e s = Ok () e (sent (f s) s)) \<Longrightarrow> outputs P m"
  unfolding outputs_def by blast

lemma outputs_skip [outputs_intros]: "outputs P skip"
  by (rule outputsI [where f = "\<lambda>_. []"]) simp

lemma outputs_consputc [outputs_intros]: "outputs P (consputc (Some c))"
  by (rule outputsI [where f = "\<lambda>_. [c]"]) (simp add: consputc_run)

lemma outputs_seq [outputs_intros]:
  assumes "outputs P m" and "outputs P n"
  shows "outputs P (seq m n)"
  unfolding outputs_def
proof (intro allI impI)
  fix e s assume s: "console_up (s :: 'a con_state_scheme)" "P (lk s)"
  with assms(1) obtain a where a: "m e s = Ok () e (sent a s)" unfolding outputs_def by blast
  from s assms(2) obtain b where "n e (sent a s) = Ok () e (sent b (sent a s))"
    unfolding outputs_def using sent_simps(3,8) by metis
  with a show "\<exists>out. seq m n e s = Ok () e (sent out s)" by (intro exI [of _ "a @ b"]) simp
qed

lemma outputs_for_each [outputs_intros]: "(\<And>x. outputs P (b x)) \<Longrightarrow> outputs P (for_each xs b)"
  by (induction xs) (simp_all add: outputs_intros)

lemma outputs_printint [outputs_intros]: "base = 10 \<or> base = 16 \<Longrightarrow> outputs P (printint v base True)"
  unfolding outputs_def using printint_run [of _ base v] by fastforce

lemma outputs_ptr_digits [outputs_intros]: "outputs P (ptr_digits n x)"
  by (induction n arbitrary: x) (simp_all add: outputs_intros)

lemma outputs_printptr [outputs_intros]: "outputs P (printptr x)"
  unfolding printptr_def by (intro outputs_intros)

text \<open>The arguments match the conversions of the format.\<close>

fun va_ok :: "u8 list \<Rightarrow> va_arg list \<Rightarrow> bool" where
  "va_ok [] ap = True"
| "va_ok (c # fmt) ap =
     (if c \<noteq> 37 then va_ok fmt ap else (case fmt of [] \<Rightarrow> True | c' # fmt' \<Rightarrow>
        if c' = 100 \<or> c' = 120 then (case ap of VaInt v # ap' \<Rightarrow> va_ok fmt' ap' | _ \<Rightarrow> False)
        else if c' = 112 then (case ap of VaPtr v # ap' \<Rightarrow> va_ok fmt' ap' | _ \<Rightarrow> False)
        else if c' = 115 then (case ap of VaStr v # ap' \<Rightarrow> va_ok fmt' ap' | _ \<Rightarrow> False)
        else va_ok fmt' ap))"

lemma outputs_printf_loop: "va_ok fmt ap \<Longrightarrow> outputs P (printf_loop fmt ap)"
proof (induction fmt ap rule: va_ok.induct)
  case (2 c fmt ap)
  show ?case
  proof (cases "c = 37")
    case False
    then show ?thesis using 2 by (auto intro!: outputs_intros simp del: seq_run)
  next
    case True
    show ?thesis
    proof (cases fmt)
      case Nil
      then show ?thesis using True by (simp add: outputs_skip del: skip_run)
    next
      case (Cons c' fmt')
      with 2 True show ?thesis
        by (auto intro!: outputs_intros simp del: seq_run split: list.splits va_arg.splits)
    qed
  qed
qed (simp add: outputs_skip del: skip_run)

lemma printf_total:
  assumes "console_up s" and "va_ok fmt ap" and "lock_free PrLock (lk s)"
  shows "\<exists>out. printf fmt ap e s = Ok () e (sent out s)"
proof (cases "pr_locking s")
  case False
  moreover obtain out where "printf_loop fmt ap e s = Ok () e (sent out s)"
    using outputs_printf_loop [OF assms(2), of "\<lambda>_. True"] assms(1) unfolding outputs_def by blast
  ultimately show ?thesis by (intro exI [of _ out]) (simp add: printf_def)
next
  case True
  let ?s = "s\<lparr>lk := lk_acq PrLock (lk s)\<rparr>"
  have k: "lk_ok (lk s)" "console_up ?s" using assms(1) by (simp_all add: console_up_def)
  then obtain out where "printf_loop fmt ap e ?s = Ok () e (sent out ?s)"
    using outputs_printf_loop [OF assms(2), of "\<lambda>_. True"] unfolding outputs_def by blast
  with True k assms(3) show ?thesis
    by (intro exI [of _ out]) (simp add: printf_def lock_run, simp add: sent_def)
qed


lemma outputs_printf [outputs_intros]: "va_ok fmt ap \<Longrightarrow> outputs (lock_free PrLock) (printf fmt ap)"
  unfolding outputs_def using printf_total by blast

lemma outputs_bnd_gets [outputs_intros]:
  assumes "\<And>v. outputs P (m v)"
  shows "outputs P (bnd (gets f) m)"
  using assms unfolding outputs_def by simp

lemma outputs_whenM [outputs_intros]: "outputs P m \<Longrightarrow> outputs P (whenM b m)"
  by (simp add: whenM_def outputs_intros)

end
