(* ===== verification/Kthread_Run.thy ===== *)
theory Kthread_Run
  imports Sched_Run Printf_Run
begin

text \<open>
  What the kernel thread calls of \<open>kernel/proc.c\<close> do: \<open>kthread_join\<close> does not wait, the trap frame of a
  new thread does not lie where \<open>usertrapret\<close> looks for it, and \<open>kthread_create\<close> stops the kernel when
  it finds no memory.
\<close>

subsection \<open>kthread_join\<close>

lemma join_cond_always: "join_cond st"
  by (simp add: join_cond_def states_val_def)

lemma find_slot_run:
  "for_until [0..<n] (\<lambda>i. bnd (gett (p, i) f) (\<lambda>x. return (if P x then Some i else None))) e s
     = Ok (List.find (\<lambda>i. P (f (thread_of s (p, i)))) [0..<n]) e s"
  by (subst for_until_find [where P = "\<lambda>i. P (f (thread_of s (p, i)))" and found = "\<lambda>i. Ok (Some i) e s"])
    (auto split: option.split)

text \<open>
  C15. \<open>kthread_join\<close> never waits. If the process has a thread with the given identifier, whatever that
  thread is doing, the call returns 0 at once, without storing an exit status; otherwise it returns -1.
  In both cases the state is unchanged.
\<close>

theorem kthread_join_at_once:
  assumes "all_free (lk s)" and "my_thread s = Some t" and "proc_parent (thread_of s t) = Some p"
  shows "kthread_join thread_id status e s
     = Ok (if \<exists>i < NTHREAD. tid (thread_of s (p, i)) = thread_id then 0 else -1) e s"
proof -
  let ?s = "s\<lparr>lk := lk_acq (ProcLock p) (lk s)\<rparr>"
  have th: "thread_of ?s = thread_of s" by (simp add: fun_eq_iff thread_of_def)
  note f = find_slot_run [where P = "\<lambda>x. x = thread_id" and f = tid and p = p and n = NTHREAD and e = e and s = ?s]
  show ?thesis
  proof (cases "List.find (\<lambda>i. tid (thread_of s (p, i)) = thread_id) [0..<NTHREAD]")
    case None
    then have "\<not> (\<exists>i < NTHREAD. tid (thread_of s (p, i)) = thread_id)" by (simp add: find_upt_None_iff)
    with None f assms show ?thesis by (simp add: kthread_join_def lock_run th)
  next
    case (Some i)
    then have "\<exists>i < NTHREAD. tid (thread_of s (p, i)) = thread_id" using find_upt_SomeD(1,2) [OF Some] by blast
    with Some f assms show ?thesis by (simp add: kthread_join_def lock_run th join_cond_always)
  qed
qed

text \<open>A thread joins thread 1 of its process, which is running: it is told that thread 1 has ended.\<close>

theorem kthread_join_at_once_witness:
  "\<exists>s :: proc_state. t_state (thread_of s (0, 1)) = RUNNING \<and> tid (thread_of s (0, 1)) = 7 \<and> kthread_join 7 64 [] s = Ok 0 [] s"
proof -
  let ?s = "sample_ps\<lparr>procs := (procs sample_ps)(0 := upd_thread 1 (\<lambda>_. running_thread\<lparr>tid := 7\<rparr>) running_proc)\<rparr>"
  have "all_free (lk ?s)" "my_thread ?s = Some (0, 0)" "proc_parent (thread_of ?s (0, 0)) = Some 0"
    by (simp_all add: thread_of_def upd_thread_def running_proc_def)
  from kthread_join_at_once [OF this, of 7 64 "[]"]
  have "kthread_join 7 64 [] ?s = Ok 0 [] ?s"
    by (auto simp: thread_of_def upd_thread_def NTHREAD_def split: if_splits)
  moreover have "t_state (thread_of ?s (0, 1)) = RUNNING" "tid (thread_of ?s (0, 1)) = 7"
    by (simp_all add: thread_of_def upd_thread_def running_thread_def)
  ultimately show ?thesis by blast
qed

subsection \<open>kthread_create\<close>

lemma alloctid_run:
  "lk_ok (lk s) \<Longrightarrow> lock_free TidLock (lk s) \<Longrightarrow> alloctid e s = Ok (nexttid s) e (s\<lparr>nexttid := nexttid s + 1\<rparr>)"
  by (simp add: alloctid_def lock_run)

definition thread_slot :: "'z proc_state_scheme \<Rightarrow> pslot \<Rightarrow> nat option" where
  "thread_slot s p = List.find (\<lambda>i. t_state (thread_of s (p, i)) \<in> {UNUSED, ZOMBIE}) [0..<NTHREAD]"

text \<open>The thread in its slot, and the memory, when \<open>kthread_create\<close> returns.\<close>

definition new_thread :: "'z proc_state_scheme \<Rightarrow> pslot \<Rightarrow> tslot \<Rightarrow> nat \<Rightarrow> thread \<Rightarrow> thread" where
  "new_thread s p ct i th = th\<lparr>tid := nexttid s, proc_parent := Some p, thread_parent := Some ct,
     kstack := freelist s, trapframe := thread_trapframe (trapframe (thread_of s (p, 0))) i,
     t_context := zero_context\<lparr>ctx_ra := forkret_pc (img s), ctx_sp := freelist s + PGSIZE\<rparr>, t_state := RUNNABLE\<rparr>"

definition new_thread_mem :: "'z proc_state_scheme \<Rightarrow> u64 \<Rightarrow> u64 \<Rightarrow> u64 \<Rightarrow> u64 \<Rightarrow> mem" where
  "new_thread_mem s tf ctf start_func stack =
     store64 (tf + tf_sp) (stack + MAX_STACK_SIZE) (store64 (tf + tf_epc) start_func
       (memmove tf ctf sizeof_trapframe (memset (freelist s) 5 4096 (mem s))))"

lemma sent_proc_simps [simp]:
  "procs (sent out s) = procs s" "thread_of (sent out s) t = thread_of s t" "img (sent out s) = img s"
  "(sent out s)\<lparr>mem := m\<rparr> = sent out (s\<lparr>mem := m\<rparr>)" "(sent out s)\<lparr>procs := P\<rparr> = sent out (s\<lparr>procs := P\<rparr>)"
  by (simp_all add: sent_def thread_of_def)

lemma kthread_create_run:
  assumes "all_free (lk s)" and "my_thread s = Some ct" and "proc_parent (thread_of s ct) = Some p"
    and "thread_slot s p = Some i" and "freelist s \<noteq> 0" and "\<not> panicked s"
    and "thread_trapframe (trapframe (thread_of s (p, 0))) i \<noteq> 0" and "i \<noteq> 0" and "ct \<noteq> (p, i)"
    and "0 < kend (img s)"
  shows "\<exists>out. kthread_create start_func stack e s = Ok (nexttid s) e (sent out (s\<lparr>
      nexttid := nexttid s + 1, freelist := load64 (mem s) (freelist s),
      mem := new_thread_mem s (thread_trapframe (trapframe (thread_of s (p, 0))) i) (trapframe (thread_of s ct)) start_func stack,
      procs := (procs s)(p := upd_thread i (new_thread s p ct i) (procs s p))\<rparr>))"
proof -
  let ?base = "trapframe (thread_of s (p, 0))" let ?tf = "thread_trapframe ?base i"
  let ?s0 = "s\<lparr>lk := lk_acq (ProcLock p) (lk s)\<rparr>"
  let ?th1 = "\<lambda>t. t\<lparr>tid := nexttid s, t_state := USED, proc_parent := Some p, thread_parent := Some ct\<rparr>"
  let ?th2 = "\<lambda>t. (?th1 t)\<lparr>kstack := freelist s\<rparr>"
  let ?th3 = "\<lambda>t. (?th2 t)\<lparr>trapframe := ?tf\<rparr>"
  let ?m = "memset (freelist s) 5 4096 (mem s)"
  let ?st = "\<lambda>f. s\<lparr>nexttid := nexttid s + 1, mem := ?m, freelist := load64 (mem s) (freelist s),
     procs := (procs s)(p := upd_thread i f (procs s p))\<rparr>"
  obtain q j where ct: "ct = (q, j)" by fastforce
  have scan: "for_until [0..<NTHREAD] (\<lambda>i. bnd (gett (p, i) t_state) (\<lambda>st.
       return (if st = UNUSED \<or> st = ZOMBIE then Some i else None))) e ?s0 = Ok (Some i) e ?s0"
    using find_slot_run [where P = "\<lambda>x. x = UNUSED \<or> x = ZOMBIE" and f = t_state and p = p and n = NTHREAD and e = e and s = ?s0]
      assms(4) by (simp add: thread_slot_def thread_of_def)
  have "console_up (?st ?th3)" "va_ok (cstr ''(int)(t-p->threads) = %d\<newline>'') [VaInt (of_nat i)]" "lock_free PrLock (lk (?st ?th3))"
    using assms(1,6) by (simp_all add: console_up_def cstr_def)
  then obtain out where pr: "printf (cstr ''(int)(t-p->threads) = %d\<newline>'') [VaInt (of_nat i)] e (?st ?th3) = Ok () e (sent out (?st ?th3))"
    using printf_total by blast
  have other: "threads (((procs s)(p := upd_thread i f (procs s p))) q) j = threads (procs s q) j" for f
    using assms(9) by (auto simp: ct upd_thread_def)
  show ?thesis
    using assms scan pr other
    apply (intro exI [of _ out])
    by (simp add: kthread_create_def allocthread_def lock_run alloctid_run kalloc_run idle_def thread_of_def upd_thread_def ct tf_set_def
        new_thread_def new_thread_mem_def)
qed


text \<open>A process whose thread \<open>ct\<close> can create a thread in slot \<open>i\<close>, with memory for its kernel stack.\<close>

definition can_create :: "'z proc_state_scheme \<Rightarrow> tslot \<Rightarrow> pslot \<Rightarrow> nat \<Rightarrow> bool" where
  "can_create s ct p i \<longleftrightarrow> all_free (lk s) \<and> my_thread s = Some ct \<and> proc_parent (thread_of s ct) = Some p \<and>
     thread_slot s p = Some i \<and> i \<noteq> 0 \<and> ct \<noteq> (p, i) \<and> freelist s \<noteq> 0 \<and> \<not> panicked s \<and> 0 < kend (img s) \<and>
     thread_trapframe (trapframe (thread_of s (p, 0))) i \<noteq> 0"

lemma thread_slotD:
  assumes "thread_slot s p = Some i"
  shows "i < NTHREAD" "t_state (thread_of s (p, i)) \<in> {UNUSED, ZOMBIE}"
  using find_upt_SomeD(1,2) [OF assms [unfolded thread_slot_def]] by simp_all

lemma epc_sp_disjoint: "disjoint_range (tf + tf_epc) 8 (tf + tf_sp) 8"
proof -
  have "tf + tf_sp - (tf + tf_epc) = tf_sp - tf_epc" "tf + tf_epc - (tf + tf_sp) = tf_epc - tf_sp" by simp_all
  then show ?thesis unfolding disjoint_range_def by (simp add: tf_offsets)
qed

lemma new_thread_mem_loads:
  "load64 (new_thread_mem s tf ctf f st) (tf + tf_epc) = f"
  "load64 (new_thread_mem s tf ctf f st) (tf + tf_sp) = st + MAX_STACK_SIZE"
  by (simp_all add: new_thread_mem_def load64_store64_other epc_sp_disjoint)

lemma new_thread_mem_outside:
  assumes "\<not> in_range a tf sizeof_trapframe" and "\<not> in_page a (freelist s)"
  shows "new_thread_mem s tf ctf f st a = mem s a"
proof -
  have field: "in_range a tf sizeof_trapframe" if "in_range a (tf + off) 8" "unat off \<le> 48" for off
  proof -
    have "unat (a - (tf + off)) < 8" using that(1) by (simp add: in_range_def)
    then show ?thesis
      using that(2) unat_add64 [of "a - (tf + off)" off] by (simp add: in_range_def sizeof_trapframe_def)
  qed
  then have "\<not> in_range a (tf + tf_epc) 8" "\<not> in_range a (tf + tf_sp) 8"
    using assms(1) field [of tf_epc] field [of tf_sp] by (auto simp: tf_offsets)
  then show ?thesis using assms
    by (simp add: new_thread_mem_def store64_frame memmove_frame memset_apply in_page_def sizeof_trapframe_def)
qed

text \<open>
  C16. \<open>kthread_create\<close> starts a thread: it terminates and returns a fresh identifier; the thread in the
  first slot that was unused or a zombie becomes a runnable thread of the process with that
  identifier, the caller as its parent, and a trap frame whose program counter is the start function
  and whose stack pointer is the upper limit of the given stack; no other thread of any process is changed.
\<close>

theorem kthread_create_starts:
  assumes "can_create s ct p i"
  shows "\<exists>s'. kthread_create start_func stack e s = Ok (nexttid s) e s' \<and> nexttid s' = nexttid s + 1
     \<and> t_state (thread_of s (p, i)) \<in> {UNUSED, ZOMBIE} \<and> t_state (thread_of s' (p, i)) = RUNNABLE
     \<and> tid (thread_of s' (p, i)) = nexttid s \<and> proc_parent (thread_of s' (p, i)) = Some p
     \<and> thread_parent (thread_of s' (p, i)) = Some ct
     \<and> load64 (mem s') (trapframe (thread_of s' (p, i)) + tf_epc) = start_func
     \<and> load64 (mem s') (trapframe (thread_of s' (p, i)) + tf_sp) = stack + MAX_STACK_SIZE
     \<and> (\<forall>t. t \<noteq> (p, i) \<longrightarrow> thread_of s' t = thread_of s t)"
proof -
  have c: "thread_slot s p = Some i" using assms by (simp add: can_create_def)
  from assms obtain out where "kthread_create start_func stack e s = Ok (nexttid s) e (sent out (s\<lparr>
      nexttid := nexttid s + 1, freelist := load64 (mem s) (freelist s),
      mem := new_thread_mem s (thread_trapframe (trapframe (thread_of s (p, 0))) i) (trapframe (thread_of s ct)) start_func stack,
      procs := (procs s)(p := upd_thread i (new_thread s p ct i) (procs s p))\<rparr>))" (is "_ = Ok _ _ (sent _ ?s)")
    using kthread_create_run unfolding can_create_def by blast
  moreover have "thread_of ?s (p, i) = new_thread s p ct i (thread_of s (p, i))"
    by (simp add: thread_of_def upd_thread_def)
  moreover have "thread_of ?s t = thread_of s t" if "t \<noteq> (p, i)" for t
    using that by (cases t) (auto simp: thread_of_def upd_thread_def)
  moreover have "nexttid (sent out ?s) = nexttid s + 1" by (simp add: sent_def)
  ultimately show ?thesis using thread_slotD(2) [OF c]
    by (intro exI [of _ "sent out ?s"]) (simp add: new_thread_def new_thread_mem_loads)
qed


text \<open>Thread 0 of a process creates thread 1.\<close>

definition create_state :: proc_state where
  "create_state = sample_ps\<lparr>freelist := 0x80300000\<rparr>"

lemma create_state_ok: "can_create create_state (0, 0) 0 1"
proof -
  have "thread_slot create_state 0 = Some 1"
    by (simp add: thread_slot_def create_state_def thread_of_def sample_defs NTHREAD_def upt_rec)
  then show ?thesis
    by (simp add: can_create_def create_state_def thread_of_def thread_trapframe_def sizeof_trapframe_def
        running_proc_def running_thread_def) (simp add: sample_ps_def)
qed

theorem kthread_create_starts_witness:
  "\<exists>s'. kthread_create 0x100 0x3000 [] create_state = Ok 2 [] s' \<and> t_state (thread_of s' (0, 1)) = RUNNABLE \<and>
     load64 (mem s') (trapframe (thread_of s' (0, 1)) + tf_epc) = 0x100"
proof -
  have "nexttid create_state = 2" by (simp add: create_state_def sample_ps_def)
  with kthread_create_starts [OF create_state_ok, of "0x100" "0x3000" "[]"] show ?thesis by auto
qed

text \<open>
  C17. The registers of a further thread are not where the thread starts from. The page at \<open>base\<close>, which
  is mapped at \<open>TRAPFRAME\<close> and from which the trampoline loads the registers of thread \<open>i\<close> at offset
  \<open>288 * i\<close>, is left exactly as it was by a successful \<open>kthread_create\<close>: the copy of the caller's registers, the start
  function and the stack pointer go to an address outside that page.
\<close>

theorem kthread_create_misses_page:
  assumes "can_create s ct p i" and "base = trapframe (thread_of s (p, 0))" and "page_aligned base"
    and "page_aligned (freelist s)" and "freelist s \<noteq> base"
  shows "\<exists>s'. kthread_create start_func stack e s = Ok (nexttid s) e s'
     \<and> in_page (base + of_nat (sizeof_trapframe * i)) base \<and> \<not> in_page (trapframe (thread_of s' (p, i))) base
     \<and> (\<forall>a. in_page a base \<longrightarrow> mem s' a = mem s a)"
proof -
  let ?tf = "thread_trapframe base i"
  have i: "0 < i" "i < 8" using assms(1) thread_slotD(1) by (auto simp: can_create_def NTHREAD_def)
  have d: "?tf - base = of_nat (82944 * i)" by (simp add: thread_trapframe_def sizeof_trapframe_def)
  have u: "unat (of_nat (82944 * i) :: u64) = 82944 * i" by (rule unat_of_nat64) (use i in simp)
  have "\<not> in_range a ?tf sizeof_trapframe" if "in_page a base" for a
  proof -
    define x where "x = a - base"
    have "a - ?tf = x - of_nat (82944 * i)" unfolding x_def d [symmetric] by simp
    then have "unat (a - ?tf) = (if 82944 * i \<le> unat x then unat x - 82944 * i else 2 ^ 64 + unat x - 82944 * i)"
      by (simp only: unat_sub64 u)
    moreover have "unat x < 4096" using that by (simp add: in_page_def in_range_def x_def)
    ultimately show ?thesis using i by (simp add: in_range_def sizeof_trapframe_def)
  qed
  moreover have "\<not> in_page a (freelist s)" if "in_page a base" for a
    using that assms(3-5) in_page_unique by blast
  ultimately have out: "new_thread_mem s ?tf ctf f st a = mem s a" if "in_page a base" for a ctf f st
    using that by (intro new_thread_mem_outside) auto
  have far: "\<not> in_page ?tf base" using i u by (simp add: in_page_def in_range_def d)
  have near: "in_page (base + of_nat (sizeof_trapframe * i)) base"
    using i unat_of_nat64 [of "288 * i"] by (simp add: in_page_def in_range_def sizeof_trapframe_def)
  from assms(1) obtain out where run: "kthread_create start_func stack e s = Ok (nexttid s) e (sent out (s\<lparr>
      nexttid := nexttid s + 1, freelist := load64 (mem s) (freelist s),
      mem := new_thread_mem s ?tf (trapframe (thread_of s ct)) start_func stack,
      procs := (procs s)(p := upd_thread i (new_thread s p ct i) (procs s p))\<rparr>))"
    using kthread_create_run unfolding can_create_def assms(2) by blast
  show ?thesis
    using far near out assms(2) unfolding run by (simp add: thread_of_def upd_thread_def new_thread_def)
qed

theorem kthread_create_misses_page_witness:
  "\<exists>s'. kthread_create 0x100 0x3000 [] create_state = Ok 2 [] s' \<and> mem s' (0x80200000 + 288 + tf_epc) = 0"
proof -
  have s: "trapframe (thread_of create_state (0, 0)) = 0x80200000" "freelist create_state = 0x80300000"
    "nexttid create_state = 2" "mem create_state = (\<lambda>_. 0)"
    by (simp_all add: create_state_def thread_of_def sample_defs)
  have p: "page_aligned 0x80200000" "page_aligned 0x80300000" by (simp_all add: page_aligned_def PGSIZE_def)
  have "in_page (0x80200000 + 288 + tf_epc) 0x80200000" by (simp add: in_page_def in_range_def tf_offsets)
  with kthread_create_misses_page [OF create_state_ok s(1) [symmetric], of "0x100" "0x3000" "[]"] s p
  show ?thesis by auto
qed


text \<open>
  C18. The error paths of \<open>kthread_create\<close> do not return -1 as they are meant to. With every slot of the
  process in use the kernel writes through a null pointer; with a free slot but no free page it
  releases the process lock twice and panics.
\<close>

theorem kthread_create_failures:
  assumes "all_free (lk s)" and "my_thread s = Some ct" and "proc_parent (thread_of s ct) = Some p" and "0 < kend (img s)"
  shows "(thread_slot s p = None \<longrightarrow> kthread_create start_func stack e s = Fault ''null pointer'')
     \<and> (thread_slot s p \<noteq> None \<longrightarrow> freelist s = 0 \<longrightarrow> kthread_create start_func stack e s = Panic ''release'')"
proof -
  let ?s0 = "s\<lparr>lk := lk_acq (ProcLock p) (lk s)\<rparr>"
  have scan: "for_until [0..<NTHREAD] (\<lambda>i. bnd (gett (p, i) t_state) (\<lambda>st.
       return (if st = UNUSED \<or> st = ZOMBIE then Some i else None))) e ?s0 = Ok (thread_slot s p) e ?s0"
    using find_slot_run [where P = "\<lambda>x. x = UNUSED \<or> x = ZOMBIE" and f = t_state and p = p and n = NTHREAD and e = e and s = ?s0]
    by (simp add: thread_slot_def thread_of_def)
  show ?thesis
    using assms scan
    by (auto simp: kthread_create_def allocthread_def lock_run alloctid_run kalloc_run idle_def thread_of_def upd_thread_def
        freethread_def release_free)
qed

theorem kthread_create_failures_witness:
  "kthread_create 0x100 0x3000 [] sample_ps = Panic ''release''"
proof -
  have "thread_slot sample_ps 0 \<noteq> None"
    by (simp add: thread_slot_def thread_of_def sample_defs NTHREAD_def upt_rec)
  moreover have "freelist sample_ps = 0" by (simp add: sample_ps_def)
  ultimately show ?thesis using kthread_create_failures [of sample_ps "(0, 0)" 0 "0x100" "0x3000" "[]"] by simp
qed

end
