(* ===== verification/Sample_File.thy ===== *)
theory Sample_File
  imports Pipe Sched_Run
begin

text \<open>
  A concrete state of the file layers for evaluations: thread 0 of process 0 runs, no lock is held, all
  buffers, inodes, pipes and open files are unused and the disk is empty.
\<close>

definition sample_buf :: buf where
  "sample_buf = \<lparr>b_valid = False, b_disk = False, b_dev = 0, b_blockno = 0, b_refcnt = 0, b_prev = 0, b_next = 0, b_data = (\<lambda>_. 0)\<rparr>"

definition sample_log :: logst where
  "sample_log = \<lparr>log_start = 2, log_size = 30, log_outstanding = 0, log_committing = False, log_dev = 1, log_n = 0, log_block = (\<lambda>_. 0)\<rparr>"

definition sample_sb :: superblock where
  "sample_sb = \<lparr>sb_magic = 0x10203040, sb_size = 1000, sb_nblocks = 954, sb_ninodes = 200, sb_nlog = 30, sb_logstart = 2,
     sb_inodestart = 32, sb_bmapstart = 45\<rparr>"

definition sample_inode :: inode where
  "sample_inode = \<lparr>i_dev = 0, i_inum = 0, i_ref = 0, i_valid = False, i_type = 0, i_major = 0, i_minor = 0, i_nlink = 0, i_size = 0, i_addrs = (\<lambda>_. 0)\<rparr>"

definition sample_pipe :: pipe where
  "sample_pipe = \<lparr>p_data = (\<lambda>_. 0), p_nread = 0, p_nwrite = 0, p_readopen = True, p_writeopen = True\<rparr>"

definition sample_kfile :: kfile where
  "sample_kfile = \<lparr>f_type = FD_NONE, f_ref = 0, f_readable = False, f_writable = False, f_pipe = 0, f_ip = None, f_off = 0, f_major = 0\<rparr>"

definition sample_file :: "'z \<Rightarrow> 'z file_state_scheme" where
  "sample_file z = \<lparr>mem = (\<lambda>_. 0), lk = sample_lk, img = sample_img, freelist = 0, kernel_pagetable = 0, satp = (\<lambda>_. 0),
     uart_sent = [], uart_rx = [], tx_room = 1, panicked = False, pr_locking = False,
     procs = (\<lambda>_. sample_proc)(0 := running_proc), initproc = None, nextpid = 2, nexttid = 2, bsems = (\<lambda>_. -1),
     sleeplocks = (\<lambda>_. \<lparr>sl_locked = False, sl_pid = 0\<rparr>), bufs = (\<lambda>_. sample_buf), disk = (\<lambda>_ _. 0), writes = [],
     the_log = sample_log, sb = sample_sb, itable = (\<lambda>_. sample_inode),
     uart_ier = 0, uart_lcr = 0, uart_fcr = 0, uart_dll = 0, uart_dlm = 0, uart_tx_buf = (\<lambda>_. 0), uart_tx_w = 0, uart_tx_r = 0,
     cons_buf = (\<lambda>_. 0), cons_r = 0, cons_w = 0, cons_e = 0, devsw = (\<lambda>_. \<lparr>dv_read = None, dv_write = None\<rparr>),
     pipes = (\<lambda>_. sample_pipe), ftable = (\<lambda>_. sample_kfile), \<dots> = z\<rparr>"

lemma sample_file_simps [simp]:
  "lk (sample_file z) = sample_lk" "img (sample_file z) = sample_img" "procs (sample_file z) 0 = running_proc"
  "pipes (sample_file z) = (\<lambda>_. sample_pipe)" "ftable (sample_file z) = (\<lambda>_. sample_kfile)"
  "itable (sample_file z) = (\<lambda>_. sample_inode)" "bufs (sample_file z) = (\<lambda>_. sample_buf)" "disk (sample_file z) = (\<lambda>_ _. 0)" "writes (sample_file z) = []"
  "the_log (sample_file z) = sample_log" "sb (sample_file z) = sample_sb" "mem (sample_file z) = (\<lambda>_. 0)"
  "sleeplocks (sample_file z) = (\<lambda>_. \<lparr>sl_locked = False, sl_pid = 0\<rparr>)" "panicked (sample_file z) = False"
  "thread_of (sample_file z) (0, 0) = running_thread"
  by (simp_all add: sample_file_def thread_of_def running_proc_def)

end
