(* ===== verification/Ring.thy ===== *)
theory Ring
  imports Prelude
begin

text \<open>
  Ring buffers with free-running indices: an array of \<open>N\<close> elements, a read index \<open>r\<close> and a write index \<open>w\<close>
  that count modulo the width of their C type. \<open>pipe.c\<close>, \<open>console.c\<close> and \<open>uart.c\<close> use them. The
  abstraction is the list of the elements between the indices; it is a FIFO queue as long as the
  size divides the range of the indices.
\<close>

definition ring_list :: "nat \<Rightarrow> (nat \<Rightarrow> 'b) \<Rightarrow> 'a::len word \<Rightarrow> 'a word \<Rightarrow> 'b list" where
  "ring_list N buf r w = map (\<lambda>k. buf (unat (r + of_nat k) mod N)) [0..<unat (w - r)]"

locale ring =
  fixes N :: nat and width :: "'a::len itself"
  assumes N_pos: "0 < N" and N_lt: "N < 2 ^ LENGTH('a)" and N_dvd: "N dvd 2 ^ LENGTH('a)"
begin

definition bounded :: "'a word \<Rightarrow> 'a word \<Rightarrow> bool" where
  "bounded r w \<longleftrightarrow> unat (w - r) \<le> N"

lemma unat_plus: "k < 2 ^ LENGTH('a) \<Longrightarrow> unat (r + of_nat k :: 'a word) = (unat r + k) mod 2 ^ LENGTH('a)"
  by (simp add: unat_word_ariths unat_of_nat mod_simps)

lemma index_plus: "k < 2 ^ LENGTH('a) \<Longrightarrow> unat (r + of_nat k :: 'a word) mod N = (unat r + k) mod N"
  using N_dvd by (simp add: unat_plus mod_mod_cancel)

lemma length_ring [simp]: "length (ring_list N buf r (w :: 'a word)) = unat (w - r)"
  by (simp add: ring_list_def)

lemma ring_empty_iff: "ring_list N buf r (w :: 'a word) = [] \<longleftrightarrow> r = w"
  by (auto simp: ring_list_def unat_eq_0)

lemma full_iff: "bounded r w \<Longrightarrow> w = r + of_nat N \<longleftrightarrow> unat (w - r) = N"
proof -
  have "w = r + of_nat N \<longleftrightarrow> w - r = of_nat N" by (auto simp: algebra_simps)
  also have "\<dots> \<longleftrightarrow> unat (w - r) = unat (of_nat N :: 'a word)" by (simp only: word_unat_eq_iff)
  also have "unat (of_nat N :: 'a word) = N" using N_lt by (simp add: unat_of_nat)
  finally show ?thesis .
qed

lemma width_gt: "N < 2 ^ LENGTH('a)" "unat (w - r :: 'a word) < 2 ^ LENGTH('a)"
  using N_lt unsigned_less [of "w - r"] by simp_all

lemma unat_Suc: "unat (w - r) < N \<Longrightarrow> unat (w + 1 - r :: 'a word) = Suc (unat (w - r))"
proof -
  assume lt: "unat (w - r) < N"
  have "w + 1 - r = (w - r) + of_nat 1" by simp
  then have "unat (w + 1 - r) = (unat (w - r) + 1) mod 2 ^ LENGTH('a)"
    using unat_plus [of 1 "w - r"] width_gt(1) N_pos by (simp only:)
  then show ?thesis using lt width_gt(1) by simp
qed

text \<open>Distinct positions of the window are distinct cells of the array.\<close>

lemma index_inj:
  assumes "i < N" and "j < N" and "unat (r + of_nat i :: 'a word) mod N = unat (r + of_nat j) mod N"
  shows "i = j"
proof -
  have e: "(unat r + i) mod N = (unat r + j) mod N"
    using assms index_plus [of i r] index_plus [of j r] width_gt(1) by simp
  show ?thesis
  proof (cases "i \<le> j")
    case True
    then have "N dvd j - i" using e mod_eq_dvd_iff_nat [of "unat r + i" "unat r + j" N] by simp
    then show ?thesis using True assms(2) by (metis diff_is_0_eq dvd_imp_le le_antisym less_imp_diff_less linorder_not_less not_gr_zero)
  next
    case False
    then have "N dvd i - j" using e mod_eq_dvd_iff_nat [of "unat r + j" "unat r + i" N] by simp
    then show ?thesis using False assms(1) by (metis diff_is_0_eq dvd_imp_le le_cases less_imp_diff_less linorder_not_less not_gr_zero)
  qed
qed

text \<open>Enqueue, dequeue and removal at the rear, in terms of the list.\<close>

lemma put:
  assumes "unat (w - r) < N"
  shows "ring_list N (buf(unat w mod N := x)) r (w + 1) = ring_list N buf r (w :: 'a word) @ [x]"
    and "bounded r (w + 1)"
proof -
  have w: "r + of_nat (unat (w - r)) = w" by simp
  have "(buf(unat w mod N := x)) (unat (r + of_nat k) mod N) = buf (unat (r + of_nat k) mod N)" if "k < unat (w - r)" for k
    using index_inj [of k "unat (w - r)" r] that assms w by auto
  then show "ring_list N (buf(unat w mod N := x)) r (w + 1) = ring_list N buf r w @ [x]"
    using unat_Suc [OF assms] w by (simp add: ring_list_def del: fun_upd_apply) simp
  show "bounded r (w + 1)" using unat_Suc [OF assms] assms by (simp add: bounded_def)
qed

lemma step_down: "r \<noteq> w \<Longrightarrow> unat (w - r :: 'a word) = Suc (unat (w - (r + 1)))"
proof -
  assume "r \<noteq> w"
  then have "w - r \<noteq> 0" by simp
  then have "unat (w - r - 1) = unat (w - r) - 1" "0 < unat (w - r)" by (simp_all add: unat_minus_one unat_gt_0)
  moreover have "w - (r + 1) = w - r - 1" by simp
  ultimately show ?thesis by (simp only:)
qed

lemma get:
  assumes "r \<noteq> w"
  shows "ring_list N buf r (w :: 'a word) = buf (unat r mod N) # ring_list N buf (r + 1) w"
    and "bounded r w \<Longrightarrow> bounded (r + 1) w"
proof -
  have s: "r + of_nat (Suc k) = r + 1 + of_nat k" for k by simp
  have "[0..<Suc n] = 0 # map Suc [0..<n]" for n by (simp add: upt_conv_Cons map_Suc_upt del: upt_Suc)
  then show "ring_list N buf r w = buf (unat r mod N) # ring_list N buf (r + 1) w"
    unfolding ring_list_def step_down [OF assms] by (simp only: list.map map_map comp_def s) simp
  show "bounded r w \<Longrightarrow> bounded (r + 1) w" using step_down [OF assms] by (simp add: bounded_def)
qed

lemma unput:
  assumes "r \<noteq> w"
  shows "ring_list N buf r (w - 1) = butlast (ring_list N buf r (w :: 'a word))"
    and "bounded r w \<Longrightarrow> bounded r (w - 1)"
    and "last (ring_list N buf r w) = buf (unat (w - 1) mod N)"
proof -
  have "w - r \<noteq> 0" using assms by simp
  then have n: "unat (w - r) = Suc (unat (w - 1 - r))"
    using unat_minus_one [of "w - r"] unat_gt_0 [of "w - r"] by (simp add: diff_right_commute)
  then show "ring_list N buf r (w - 1) = butlast (ring_list N buf r w)" by (simp add: ring_list_def butlast_append)
  have "r + of_nat (unat (w - 1 - r)) = w - 1" by simp
  then show "last (ring_list N buf r w) = buf (unat (w - 1) mod N)" using n by (simp add: ring_list_def)
  show "bounded r w \<Longrightarrow> bounded r (w - 1)" using n by (simp add: bounded_def)
qed

end

end
