(* ===== verification/Pipe_Run.thy ===== *)
theory Pipe_Run
  imports Sample_File Ring Ubyte
begin

text \<open>
  Pipes are FIFO queues: the buffer of \<open>kernel/pipe.c\<close> as the list of the bytes written and not yet read,
  and what \<open>piperead\<close> and \<open>pipewrite\<close> do to that list.
\<close>

interpretation pipe_ring: ring PIPESIZE "TYPE(32)"
  by unfold_locales (simp_all add: PIPESIZE_def)

definition pipe_list :: "pipe \<Rightarrow> u8 list" where
  "pipe_list p = ring_list PIPESIZE (p_data p) (p_nread p) (p_nwrite p)"

definition pipe_ok :: "pipe \<Rightarrow> bool" where
  "pipe_ok p \<longleftrightarrow> length (pipe_list p) \<le> PIPESIZE"

lemma pipe_ok_iff: "pipe_ok p \<longleftrightarrow> pipe_ring.bounded (p_nread p) (p_nwrite p)"
  by (simp add: pipe_ok_def pipe_list_def pipe_ring.bounded_def)

lemma pipe_empty_iff: "p_nread p = p_nwrite p \<longleftrightarrow> pipe_list p = []"
  by (simp add: pipe_list_def pipe_ring.ring_empty_iff)

lemma pipe_full_iff: "pipe_ok p \<Longrightarrow> p_nwrite p = p_nread p + of_nat PIPESIZE \<longleftrightarrow> length (pipe_list p) = PIPESIZE"
  using pipe_ring.full_iff by (simp add: pipe_ok_iff pipe_list_def)

text \<open>One byte in, one byte out.\<close>

definition pipe_put :: "u8 \<Rightarrow> pipe \<Rightarrow> pipe" where
  "pipe_put b p = p\<lparr>p_data := (p_data p)(unat (p_nwrite p) mod PIPESIZE := b), p_nwrite := p_nwrite p + 1\<rparr>"

definition pipe_get :: "pipe \<Rightarrow> pipe" where
  "pipe_get p = p\<lparr>p_nread := p_nread p + 1\<rparr>"

lemma pipe_put_list:
  assumes "length (pipe_list p) < PIPESIZE"
  shows "pipe_list (pipe_put b p) = pipe_list p @ [b]" "pipe_ok (pipe_put b p)"
  using assms pipe_ring.put(1) [of "p_nwrite p" "p_nread p" "p_data p" b] pipe_ring.put(2) [of "p_nwrite p" "p_nread p"]
  by (simp_all add: pipe_put_def pipe_list_def pipe_ok_iff)

lemma pipe_get_list:
  assumes "pipe_list p = b # bs"
  shows "pipe_list (pipe_get p) = bs" "p_data p (unat (p_nread p) mod PIPESIZE) = b" "pipe_ok p \<Longrightarrow> pipe_ok (pipe_get p)"
    "p_nread p \<noteq> p_nwrite p"
proof -
  have ne: "p_nread p \<noteq> p_nwrite p" using assms pipe_empty_iff [of p] by auto
  note g = pipe_ring.get(1) [OF ne, of "p_data p"] pipe_ring.get(2) [OF ne]
  show "pipe_list (pipe_get p) = bs" "p_data p (unat (p_nread p) mod PIPESIZE) = b"
    using g(1) assms by (simp_all add: pipe_list_def pipe_get_def)
  show "pipe_ok p \<Longrightarrow> pipe_ok (pipe_get p)" using g(2) by (simp add: pipe_ok_iff pipe_get_def)
  show "p_nread p \<noteq> p_nwrite p" by (rule ne)
qed

lemma pipe_flags [simp]:
  "p_readopen (pipe_put b p) = p_readopen p" "p_writeopen (pipe_put b p) = p_writeopen p"
  "p_readopen (pipe_get p) = p_readopen p" "p_writeopen (pipe_get p) = p_writeopen p"
  by (simp_all add: pipe_put_def pipe_get_def)

subsection \<open>The copy loops\<close>

text \<open>A process whose user memory is mapped as \<open>aspace\<close> says.\<close>

definition proc_space :: "'z proc_state_scheme \<Rightarrow> pslot \<Rightarrow> u64 list \<Rightarrow> nat set \<Rightarrow> bool" where
  "proc_space s p ps M \<longleftrightarrow> aspace s (pagetable (procs s p)) ps M"

text \<open>
  The pipe loses its first bytes, and they are found at the destination; all other user memory of the
  process is unchanged.
\<close>

definition moved_out :: "u64 \<Rightarrow> pslot \<Rightarrow> u64 list \<Rightarrow> nat set \<Rightarrow> u64 \<Rightarrow> nat \<Rightarrow> 'z file_state_scheme \<Rightarrow> 'z file_state_scheme \<Rightarrow> bool" where
  "moved_out pi pr ps M addr k s s' \<longleftrightarrow> (\<exists>m p. s' = s\<lparr>mem := m, pipes := (pipes s)(pi := p)\<rparr> \<and>
     pipe_list p = drop k (pipe_list (pipes s pi)) \<and> pipe_ok p \<and> p_readopen p = p_readopen (pipes s pi) \<and>
     p_writeopen p = p_writeopen (pipes s pi) \<and> proc_space s' pr ps M \<and>
     (let root = pagetable (procs s pr) in uaccess m root M = uaccess (mem s) root M \<and>
      (\<forall>va. uaccess (mem s) root M va \<longrightarrow> ubyte m root va =
         (if unat (va - addr) < k then pipe_list (pipes s pi) ! unat (va - addr) else ubyte (mem s) root va))))"


lemma moved_out_refl:
  "proc_space s pr ps M \<Longrightarrow> pipe_ok (pipes s pi) \<Longrightarrow> moved_out pi pr ps M addr 0 s s"
  by (auto simp: moved_out_def Let_def intro!: exI [of _ "mem s"] exI [of _ "pipes s pi"])

lemma moved_out_first:
  assumes sp: "proc_space s pr ps M" and ac: "uaccess (mem s) (pagetable (procs s pr)) M va"
    and l: "pipe_list (pipes s pi) = b # bs" and k: "k < 2 ^ 64 - 1" "k \<le> length bs"
    and m: "moved_out pi pr ps M (va + 1) k
       (s\<lparr>pipes := (pipes s)(pi := pipe_get (pipes s pi)), mem := uset (mem s) (pagetable (procs s pr)) va b\<rparr>) s'"
  shows "moved_out pi pr ps M va (Suc k) s s'"
proof -
  let ?root = "pagetable (procs s pr)"
  have as: "aspace s ?root ps M" using sp by (simp add: proc_space_def)
  note us = uset_space [OF as ac]
  have byte: "(if unat (va' - (va + 1)) < k then bs ! unat (va' - (va + 1)) else if va' = va then b else x)
      = (if unat (va' - va) < Suc k then (b # bs) ! unat (va' - va) else x)" for va' x
  proof (cases "va' = va")
    case True
    then have "va' - (va + 1) = - 1" by simp
    then have "unat (va' - (va + 1)) = 2 ^ 64 - 1" using unat_neg64 [of 1] by (simp only:) simp
    then show ?thesis using True k(1) by simp
  next
    case False
    then have "va' - va \<noteq> 0" by simp
    then have "unat (va' - va - 1) = unat (va' - va) - 1" "0 < unat (va' - va)" by (simp_all add: unat_minus_one unat_gt_0)
    moreover have "va' - (va + 1) = va' - va - 1" by simp
    ultimately have "unat (va' - va) = Suc (unat (va' - (va + 1)))" by (simp only:)
    then show ?thesis using False by simp
  qed
  let ?s = "s\<lparr>pipes := (pipes s)(pi := pipe_get (pipes s pi)), mem := uset (mem s) ?root va b\<rparr>"
  from m obtain m' p where s': "s' = ?s\<lparr>mem := m', pipes := (pipes ?s)(pi := p)\<rparr>"
    and p: "pipe_list p = drop k (pipe_list (pipes ?s pi))" "pipe_ok p" "p_readopen p = p_readopen (pipes ?s pi)"
      "p_writeopen p = p_writeopen (pipes ?s pi)" "proc_space s' pr ps M"
    and u: "uaccess m' ?root M = uaccess (mem ?s) ?root M"
      "\<And>va'. uaccess (mem ?s) ?root M va' \<Longrightarrow> ubyte m' ?root va' =
         (if unat (va' - (va + 1)) < k then pipe_list (pipes ?s pi) ! unat (va' - (va + 1)) else ubyte (mem ?s) ?root va')"
    unfolding moved_out_def Let_def by auto
  have "ubyte m' ?root va' = (if unat (va' - va) < Suc k then pipe_list (pipes s pi) ! unat (va' - va) else ubyte (mem s) ?root va')"
    if "uaccess (mem s) ?root M va'" for va'
  proof -
    have "ubyte m' ?root va' = (if unat (va' - (va + 1)) < k then bs ! unat (va' - (va + 1))
        else if va' = va then b else ubyte (mem s) ?root va')"
      using u(2) [of va'] that by (simp add: us(3,5) pipe_get_list(1) [OF l])
    then show ?thesis unfolding byte l .
  qed
  moreover have "s' = s\<lparr>mem := m', pipes := (pipes s)(pi := p)\<rparr>" using s' by simp
  ultimately show ?thesis
    using p u(1) us(3) [of b] unfolding moved_out_def Let_def
    by (intro exI [of _ m'] exI [of _ p]) (simp add: pipe_get_list(1) [OF l] l)
qed

lemma piperead_loop_run:
  assumes "proc_space s pr ps M" and "pipe_ok (pipes s pi)"
    and "urange (mem s) (pagetable (procs s pr)) M (addr + of_nat i) n" and "n < 2 ^ 64"
  shows "\<exists>s'. piperead_loop n pi pr addr i e s = Ok (i + min n (length (pipe_list (pipes s pi)))) e s'
     \<and> moved_out pi pr ps M (addr + of_nat i) (min n (length (pipe_list (pipes s pi)))) s s'"
  using assms
proof (induction n arbitrary: i s)
  case 0
  then show ?case using moved_out_refl by auto
next
  case (Suc n)
  let ?root = "pagetable (procs s pr)" and ?p = "pipes s pi"
  show ?case
  proof (cases "pipe_list ?p")
    case Nil
    then show ?thesis using Suc.prems pipe_empty_iff [of ?p] moved_out_refl by auto
  next
    case (Cons b bs)
    note g = pipe_get_list [OF Cons]
    let ?va = "addr + of_nat i"
    have sp: "aspace s ?root ps M" using Suc.prems(1) by (simp add: proc_space_def)
    have ac: "uaccess (mem s) ?root M ?va"
      using Suc.prems(3) [unfolded urange_uaccess, rule_format, of 0] by simp
    let ?m = "uset (mem s) ?root ?va b"
    let ?s = "s\<lparr>pipes := (pipes s)(pi := pipe_get ?p), mem := ?m\<rparr>"
    have ps: "aspace (s\<lparr>pipes := (pipes s)(pi := pipe_get ?p)\<rparr>) ?root ps M"
      using sp aspace_cong [of "s\<lparr>pipes := (pipes s)(pi := pipe_get ?p)\<rparr>" s] by simp
    have "aspace ?s ?root ps M"
      using uset_space(1) [OF sp ac, of b] aspace_cong [of ?s "s\<lparr>mem := ?m\<rparr>"] by simp
    moreover have "urange ?m ?root M (addr + of_nat (Suc i)) n"
      unfolding urange_uaccess uset_space(3) [OF sp ac]
    proof (intro allI impI)
      fix j assume "j < n"
      then have "uaccess (mem s) ?root M (?va + of_nat (Suc j))"
        using Suc.prems(3) [unfolded urange_uaccess, rule_format, of "Suc j"] by simp
      then show "uaccess (mem s) ?root M (addr + of_nat (Suc i) + of_nat j)" by (simp add: algebra_simps)
    qed
    ultimately obtain s' where s': "piperead_loop n pi pr addr (Suc i) e ?s = Ok (Suc i + min n (length bs)) e s'"
      "moved_out pi pr ps M (addr + of_nat (Suc i)) (min n (length bs)) ?s s'"
      using Suc.IH [of ?s "Suc i"] Suc.prems(2,4) g by (simp add: proc_space_def) blast
    have nxt: "addr + of_nat (Suc i) = ?va + 1" by simp
    have "piperead_loop (Suc n) pi pr addr i e s = Ok (i + min (Suc n) (length (pipe_list ?p))) e s'"
      using s'(1) g copyout_byte [OF ps, of ?va "\<lambda>_. b" e] ac Cons
      by (simp add: pipe_get_def)
    moreover have "moved_out pi pr ps M ?va (Suc (min n (length bs))) s s'"
      using moved_out_first [OF Suc.prems(1) ac Cons, of "min n (length bs)" s'] s'(2) [unfolded nxt] Suc.prems(4)
      by simp
    ultimately show ?thesis using Cons by auto
  qed
qed


lemma pipewrite_loop_run:
  assumes "proc_space s pr ps M" and "pipe_ok (pipes s pi)" and "p_readopen (pipes s pi)" and "\<not> killed (procs s pr)"
    and "urange (mem s) (pagetable (procs s pr)) M (addr + of_nat i) k"
    and "length (pipe_list (pipes s pi)) + k \<le> PIPESIZE" and "k < fuel" and "n = i + k"
  shows "\<exists>p. pipewrite_loop fuel pi pr addr n i e s = Ok (Some n) e (s\<lparr>pipes := (pipes s)(pi := p)\<rparr>)
     \<and> pipe_list p = pipe_list (pipes s pi) @ map (\<lambda>j. ubyte (mem s) (pagetable (procs s pr)) (addr + of_nat i + of_nat j)) [0..<k]
     \<and> pipe_ok p \<and> p_readopen p = p_readopen (pipes s pi) \<and> p_writeopen p = p_writeopen (pipes s pi)"
  using assms
proof (induction k arbitrary: i s fuel)
  case 0
  then show ?case by (intro exI [of _ "pipes s pi"]) (cases fuel; simp)
next
  case (Suc k)
  let ?root = "pagetable (procs s pr)" and ?p = "pipes s pi" and ?va = "addr + of_nat i"
  let ?b = "ubyte (mem s) ?root ?va" let ?s = "s\<lparr>pipes := (pipes s)(pi := pipe_put ?b ?p)\<rparr>"
  obtain f where f: "fuel = Suc f" using Suc.prems(7) by (cases fuel) auto
  have sp: "aspace s ?root ps M" using Suc.prems(1) by (simp add: proc_space_def)
  have ac: "uaccess (mem s) ?root M ?va"
    using Suc.prems(5) [unfolded urange_uaccess, rule_format, of 0] by simp
  have room: "length (pipe_list ?p) < PIPESIZE" using Suc.prems(6) by simp
  note put = pipe_put_list [OF room, of ?b]
  have r1: "proc_space ?s pr ps M" using sp aspace_cong [of ?s s] by (simp add: proc_space_def)
  have r5: "urange (mem ?s) (pagetable (procs ?s pr)) M (addr + of_nat (Suc i)) k"
    unfolding urange_uaccess
  proof (intro allI impI)
    fix j assume "j < k"
    then have "uaccess (mem s) ?root M (?va + of_nat (Suc j))"
      using Suc.prems(5) [unfolded urange_uaccess, rule_format, of "Suc j"] by simp
    then show "uaccess (mem ?s) (pagetable (procs ?s pr)) M (addr + of_nat (Suc i) + of_nat j)" by (simp add: algebra_simps)
  qed
  have r: "pipe_ok (pipes ?s pi)" "p_readopen (pipes ?s pi)" "\<not> killed (procs ?s pr)"
    "length (pipe_list (pipes ?s pi)) + k \<le> PIPESIZE" "k < f" "n = Suc i + k"
    using Suc.prems f put by simp_all
  from Suc.IH [OF r1 r(1-3) r5 r(4-6)] obtain p where
    p: "pipewrite_loop f pi pr addr n (Suc i) e ?s = Ok (Some n) e (?s\<lparr>pipes := (pipes ?s)(pi := p)\<rparr>)"
    "pipe_list p = pipe_list (pipes ?s pi) @ map (\<lambda>j. ubyte (mem ?s) (pagetable (procs ?s pr)) (addr + of_nat (Suc i) + of_nat j)) [0..<k]"
    "pipe_ok p" "p_readopen p = p_readopen (pipes ?s pi)" "p_writeopen p = p_writeopen (pipes ?s pi)" by blast
  have "\<not> p_nwrite ?p = p_nread ?p + of_nat PIPESIZE" using pipe_full_iff [OF Suc.prems(2)] room by simp
  then have "pipewrite_loop fuel pi pr addr n i e s = Ok (Some n) e (s\<lparr>pipes := (pipes s)(pi := p)\<rparr>)"
    using p(1) Suc.prems(3,4,8) copyin_byte [OF sp ac, of "\<lambda>_. 0" e] by (simp add: f pipe_put_def)
  moreover have "?b # map (\<lambda>j. ubyte (mem s) ?root (addr + of_nat (Suc i) + of_nat j)) [0..<k]
      = map (\<lambda>j. ubyte (mem s) ?root (?va + of_nat j)) [0..<Suc k]"
  proof -
    have "[0..<Suc k] = 0 # map Suc [0..<k]" by (simp add: upt_conv_Cons map_Suc_upt del: upt_Suc)
    then show ?thesis by (simp add: comp_def algebra_simps)
  qed
  ultimately show ?case using p(2-5) put(1)
    by (intro exI [of _ p]) (simp del: fun_upd_apply upt_Suc add: fun_upd_same)
qed


subsection \<open>The operations\<close>

text \<open>The bytes of a user buffer.\<close>

definition ubytes :: "'z proc_state_scheme \<Rightarrow> pslot \<Rightarrow> u64 \<Rightarrow> nat \<Rightarrow> u8 list" where
  "ubytes s p addr n = map (\<lambda>j. ubyte (mem s) (pagetable (procs s p)) (addr + of_nat j)) [0..<n]"

definition user_buffer :: "'z proc_state_scheme \<Rightarrow> pslot \<Rightarrow> nat set \<Rightarrow> u64 \<Rightarrow> nat \<Rightarrow> bool" where
  "user_buffer s p M addr n \<longleftrightarrow> urange (mem s) (pagetable (procs s p)) M addr n"

text \<open>
  C19. Writing to a pipe: if the pipe has a reader and room for \<open>n\<close> bytes, \<open>pipewrite\<close> of an accessible
  user buffer returns \<open>n\<close> and has appended exactly the bytes of the buffer, in order, to the contents of
  the pipe. It leaves memory and every other pipe alone, and the readers asleep on the pipe are runnable.
\<close>

theorem pipewrite_appends:
  assumes "all_free (lk s)" and "my_proc s = Some pr" and "proc_space s pr ps M" and "user_buffer s pr M addr n"
    and "pipe_ok (pipes s pi)" and "p_readopen (pipes s pi)" and "\<not> killed (procs s pr)"
    and "length (pipe_list (pipes s pi)) + n \<le> PIPESIZE"
  shows "\<exists>p. pipewrite pi addr (int n) e s = Ok (int n) e (s\<lparr>procs := woken (Some (ChPipeR pi)) (my_thread s) (procs s),
         pipes := (pipes s)(pi := p)\<rparr>)
     \<and> pipe_list p = pipe_list (pipes s pi) @ ubytes s pr addr n \<and> pipe_ok p
     \<and> p_readopen p = p_readopen (pipes s pi) \<and> p_writeopen p = p_writeopen (pipes s pi)"
proof -
  let ?s = "s\<lparr>lk := lk_acq (PipeLock pi) (lk s)\<rparr>"
  have "proc_space ?s pr ps M"
    using assms(1,3) aspace_locks [of s _ ps M ?s] by (simp add: proc_space_def)
  moreover have "urange (mem ?s) (pagetable (procs ?s pr)) M (addr + of_nat 0) n"
    using assms(4) by (simp add: user_buffer_def)
  ultimately obtain p where p: "pipewrite_loop (Suc (n + length e)) pi pr addr n 0 e ?s = Ok (Some n) e (?s\<lparr>pipes := (pipes ?s)(pi := p)\<rparr>)"
    "pipe_list p = pipe_list (pipes ?s pi) @ map (\<lambda>j. ubyte (mem ?s) (pagetable (procs ?s pr)) (addr + of_nat 0 + of_nat j)) [0..<n]"
    "pipe_ok p" "p_readopen p = p_readopen (pipes ?s pi)" "p_writeopen p = p_writeopen (pipes ?s pi)"
    using pipewrite_loop_run [of ?s pr ps M pi addr 0 n "Suc (n + length e)" n e] assms(5-8) by auto
  then have "pipewrite pi addr (int n) e s = Ok (int n) e (s\<lparr>procs := woken (Some (ChPipeR pi)) (my_thread s) (procs s),
      pipes := (pipes s)(pi := p)\<rparr>)"
    using assms(1,2) by (simp add: pipewrite_def lock_run wakeup_acq del: pipewrite_loop.simps)
  with p show ?thesis by (intro exI [of _ p]) (simp add: ubytes_def)
qed

text \<open>A process with three pages of memory writes six bytes, across a page boundary, to an empty pipe.\<close>

lemma pipe_sample:
  "\<exists>s :: file_state. \<exists>ps. lk s = sample_lk \<and> proc_space s 0 ps {..<3} \<and> user_buffer s 0 {..<3} 0xFFE 6 \<and>
     pipes s = (\<lambda>_. sample_pipe) \<and> \<not> killed (procs s 0)"
proof -
  obtain m f root ps where a: "\<And>s :: file_state. mem s = m \<Longrightarrow> freelist s = f \<Longrightarrow> img s = sample_img \<Longrightarrow> lk s = sample_lk \<Longrightarrow>
      aspace s root ps {..<3}" "fresh_pages root {..<3} m"
    using booted_any by metis
  let ?s = "(sample_file ())\<lparr>mem := m, freelist := f, procs := (\<lambda>_. running_proc\<lparr>pagetable := root\<rparr>)\<rparr>"
  have sp: "aspace ?s root ps {..<3}" by (rule a(1)) simp_all
  with booted_range [OF sp] a(2) have "user_buffer ?s 0 {..<3} 0xFFE 6" "proc_space ?s 0 ps {..<3}"
    by (simp_all add: user_buffer_def proc_space_def)
  then show ?thesis by (intro exI [of _ ?s] exI [of _ ps]) (simp add: running_proc_def sample_proc_def)
qed

lemma sample_pipe_facts [simp]:
  "pipe_list sample_pipe = []" "pipe_ok sample_pipe" "p_readopen sample_pipe" "p_writeopen sample_pipe"
  by (simp_all add: pipe_list_def pipe_ok_def ring_list_def sample_pipe_def)

theorem pipewrite_appends_witness:
  "\<exists>(s :: file_state) s'. pipewrite 0x81000000 0xFFE 6 [] s = Ok 6 [] s' \<and>
     pipe_list (pipes s' 0x81000000) = ubytes s 0 0xFFE 6"
proof -
  obtain s :: file_state and ps where s: "lk s = sample_lk" "proc_space s 0 ps {..<3}" "user_buffer s 0 {..<3} 0xFFE 6"
    "pipes s = (\<lambda>_. sample_pipe)" "\<not> killed (procs s 0)"
    using pipe_sample by blast
  have "\<exists>s'. pipewrite 0x81000000 0xFFE (int 6) [] s = Ok (int 6) [] s' \<and> pipe_list (pipes s' 0x81000000) = ubytes s 0 0xFFE 6"
    using pipewrite_appends [OF _ _ s(2,3) _ _ s(5), where pi = "0x81000000" and e = "[]"] s(1,4) by (auto simp: PIPESIZE_def)
  then show ?thesis by auto
qed

text \<open>
  C20. Reading from a pipe: if the pipe is not empty or has no writer left, \<open>piperead\<close> into an accessible
  user buffer returns the number \<open>k\<close> of bytes it moved, the smaller of \<open>n\<close> and the bytes there are.
  The buffer then holds the first \<open>k\<close> bytes of the pipe, the pipe the rest, and all other
  user memory of the process is unchanged. So bytes come out in the order in which they went in,
  each exactly once, and the end of the file is reported only when the pipe is empty.
\<close>

theorem piperead_takes:
  assumes "all_free (lk s)" and "my_proc s = Some pr" and "proc_space s pr ps M" and "user_buffer s pr M addr n"
    and "pipe_ok (pipes s pi)" and "pipe_list (pipes s pi) \<noteq> [] \<or> \<not> p_writeopen (pipes s pi)" and "n < 2 ^ 31"
  shows "\<exists>m p. let k = min n (length (pipe_list (pipes s pi))); root = pagetable (procs s pr) in
     piperead pi addr (int n) e s = Ok (int k) e (s\<lparr>mem := m, procs := woken (Some (ChPipeW pi)) (my_thread s) (procs s),
         pipes := (pipes s)(pi := p)\<rparr>)
     \<and> pipe_list p = drop k (pipe_list (pipes s pi)) \<and> pipe_ok p
     \<and> (\<forall>va. uaccess (mem s) root M va \<longrightarrow> ubyte m root va =
         (if unat (va - addr) < k then pipe_list (pipes s pi) ! unat (va - addr) else ubyte (mem s) root va))"
proof -
  let ?s = "s\<lparr>lk := lk_acq (PipeLock pi) (lk s)\<rparr>" and ?k = "min n (length (pipe_list (pipes s pi)))"
  have "proc_space ?s pr ps M"
    using assms(1,3) aspace_locks [of s _ ps M ?s] by (simp add: proc_space_def)
  moreover have "urange (mem ?s) (pagetable (procs ?s pr)) M (addr + of_nat 0) n"
    using assms(4) by (simp add: user_buffer_def)
  ultimately obtain s' where s': "piperead_loop n pi pr addr 0 e ?s = Ok ?k e s'" "moved_out pi pr ps M addr ?k ?s s'"
    using piperead_loop_run [of ?s pr ps M pi addr 0 n e] assms(5,7) by auto
  then obtain m p where mp: "s' = ?s\<lparr>mem := m, pipes := (pipes s)(pi := p)\<rparr>"
    "pipe_list p = drop ?k (pipe_list (pipes s pi))" "pipe_ok p"
    "\<forall>va. uaccess (mem s) (pagetable (procs s pr)) M va \<longrightarrow> ubyte m (pagetable (procs s pr)) va =
         (if unat (va - addr) < ?k then pipe_list (pipes s pi) ! unat (va - addr) else ubyte (mem s) (pagetable (procs s pr)) va)"
    unfolding moved_out_def Let_def by auto
  have "piperead pi addr (int n) e s = Ok (int ?k) e (s\<lparr>mem := m, procs := woken (Some (ChPipeW pi)) (my_thread s) (procs s),
         pipes := (pipes s)(pi := p)\<rparr>)"
    using assms(1,2,6) s'(1) mp(1) pipe_empty_iff [of "pipes s pi"]
    by (auto simp: piperead_def lock_run sleep_loop_def wakeup_acq simp del: piperead_loop.simps)
  with mp(2-4) show ?thesis unfolding Let_def by blast
qed


text \<open>The same process reads six bytes from a pipe that holds two, into the same buffer.\<close>

theorem piperead_takes_witness:
  "\<exists>(s :: file_state) s'. piperead 0x81000000 0xFFE 6 [] s = Ok 2 [] s' \<and>
     pipe_list (pipes s' 0x81000000) = [] \<and> ubyte (mem s') (pagetable (procs s 0)) 0xFFF = 8"
proof -
  obtain s0 :: file_state and ps where s0: "lk s0 = sample_lk" "proc_space s0 0 ps {..<3}" "user_buffer s0 0 {..<3} 0xFFE 6"
    using pipe_sample by blast
  let ?p = "pipe_put 8 (pipe_put 7 sample_pipe)"
  let ?s = "s0\<lparr>pipes := (\<lambda>_. ?p)\<rparr>"
  have p: "pipe_list ?p = [7, 8]" "pipe_ok ?p"
    using pipe_put_list [of "pipe_put 7 sample_pipe" 8] pipe_put_list [of sample_pipe 7] by (simp_all add: PIPESIZE_def)
  have sp: "proc_space ?s 0 ps {..<3}" "user_buffer ?s 0 {..<3} 0xFFE 6"
    using s0(2,3) aspace_cong [of ?s s0] by (simp_all add: proc_space_def user_buffer_def)
  have ac: "uaccess (mem s0) (pagetable (procs s0 0)) {..<3} (0xFFE + of_nat 1)"
    using s0(3) [unfolded user_buffer_def urange_uaccess, rule_format, of 1] by simp
  have "\<exists>s'. piperead 0x81000000 0xFFE (int 6) [] ?s = Ok (int 2) [] s' \<and>
     pipe_list (pipes s' 0x81000000) = [] \<and> ubyte (mem s') (pagetable (procs ?s 0)) 0xFFF = 8"
    using piperead_takes [OF _ _ sp, where pi = "0x81000000" and e = "[]"] s0(1) p ac by (auto simp: Let_def)
  then show ?thesis by - (rule exI [of _ ?s], simp)
qed

end
