(* ===== verification/Console_Run.thy ===== *)
theory Console_Run
  imports Printf_Run Pipe_Run
begin

text \<open>
  The console input buffer of \<open>kernel/console.c\<close> as two lists, the characters of complete lines and the line
  being edited; \<open>consoleintr\<close> is a line editor on them.
\<close>

interpretation cons_ring: ring INPUT_BUF "TYPE(32)"
  by unfold_locales (simp_all add: INPUT_BUF_def)

subsection \<open>The abstraction\<close>

definition cons_chars :: "'z tty_state_scheme \<Rightarrow> u8 list" where
  "cons_chars s = ring_list INPUT_BUF (cons_buf s) (cons_r s) (cons_e s)"

definition cons_abs :: "'z tty_state_scheme \<Rightarrow> u8 list \<times> u8 list" where
  "cons_abs s = (take (unat (cons_w s - cons_r s)) (cons_chars s), drop (unat (cons_w s - cons_r s)) (cons_chars s))"

definition cons_inv :: "'z tty_state_scheme \<Rightarrow> bool" where
  "cons_inv s \<longleftrightarrow> unat (cons_w s - cons_r s) \<le> length (cons_chars s) \<and> length (cons_chars s) \<le> INPUT_BUF"

lemma length_cons_chars: "length (cons_chars s) = unat (cons_e s - cons_r s)"
  by (simp add: cons_chars_def)

lemma cons_abs_append: "cons_abs s = (L, E) \<Longrightarrow> cons_chars s = L @ E"
  by (auto simp: cons_abs_def)

lemma editing_empty_iff:
  assumes "cons_inv s" and "cons_abs s = (L, E)"
  shows "cons_e s = cons_w s \<longleftrightarrow> E = []"
proof -
  have "E = [] \<longleftrightarrow> unat (cons_e s - cons_r s) \<le> unat (cons_w s - cons_r s)"
    using assms(2) by (auto simp: cons_abs_def length_cons_chars)
  also have "\<dots> \<longleftrightarrow> unat (cons_e s - cons_r s) = unat (cons_w s - cons_r s)"
    using assms(1) by (auto simp: cons_inv_def length_cons_chars)
  also have "\<dots> \<longleftrightarrow> cons_e s - cons_r s = cons_w s - cons_r s" by (simp only: word_unat_eq_iff)
  finally show ?thesis by auto
qed

subsection \<open>The three updates\<close>

definition cons_put :: "u8 \<Rightarrow> 'z tty_state_scheme \<Rightarrow> 'z tty_state_scheme" where
  "cons_put c s = s\<lparr>cons_buf := (cons_buf s)(unat (cons_e s) mod INPUT_BUF := c), cons_e := cons_e s + 1\<rparr>"

lemma cons_put_abs:
  assumes "cons_inv s" and "cons_abs s = (L, E)" and "length L + length E < INPUT_BUF"
  shows "cons_inv (cons_put c s)" "cons_abs (cons_put c s) = (L, E @ [c])"
proof -
  let ?n = "unat (cons_w s - cons_r s)"
  have "unat (cons_e s - cons_r s) < INPUT_BUF"
    using assms(3) cons_abs_append [OF assms(2)] length_cons_chars [of s] by simp
  then have "cons_chars (cons_put c s) = cons_chars s @ [c]"
    using cons_ring.put(1) by (simp add: cons_chars_def cons_put_def)
  moreover have "?n \<le> length (cons_chars s)" using assms(1) by (simp add: cons_inv_def)
  moreover have "cons_w (cons_put c s) = cons_w s" "cons_r (cons_put c s) = cons_r s" by (simp_all add: cons_put_def)
  ultimately show "cons_inv (cons_put c s)" "cons_abs (cons_put c s) = (L, E @ [c])"
    using assms cons_abs_append [OF assms(2)] by (auto simp: cons_inv_def cons_abs_def)
qed

lemma cons_commit_abs:
  assumes "cons_inv s" and "cons_abs s = (L, E)"
  shows "cons_inv (s\<lparr>cons_w := cons_e s\<rparr>)" "cons_abs (s\<lparr>cons_w := cons_e s\<rparr>) = (L @ E, [])"
proof -
  have "cons_chars (s\<lparr>cons_w := cons_e s\<rparr>) = L @ E"
    using cons_abs_append [OF assms(2)] by (simp add: cons_chars_def)
  moreover have "unat (cons_e s - cons_r s) = length (L @ E)"
    using cons_abs_append [OF assms(2)] length_cons_chars [of s] by simp
  ultimately show "cons_inv (s\<lparr>cons_w := cons_e s\<rparr>)" "cons_abs (s\<lparr>cons_w := cons_e s\<rparr>) = (L @ E, [])"
    using assms(1) cons_abs_append [OF assms(2)] by (simp_all add: cons_inv_def cons_abs_def)
qed

lemma cons_back_abs:
  assumes "cons_inv s" and "cons_abs s = (L, E)" and "E \<noteq> []"
  shows "cons_inv (s\<lparr>cons_e := cons_e s - 1\<rparr>)" "cons_abs (s\<lparr>cons_e := cons_e s - 1\<rparr>) = (L, butlast E)"
    "cons_buf s (unat (cons_e s - 1) mod INPUT_BUF) = last E"
proof -
  let ?n = "unat (cons_w s - cons_r s)"
  have ch: "cons_chars s = L @ E" by (rule cons_abs_append [OF assms(2)])
  then have ne: "cons_r s \<noteq> cons_e s" using assms(3) length_cons_chars [of s] by auto
  have b: "cons_chars (s\<lparr>cons_e := cons_e s - 1\<rparr>) = L @ butlast E"
    using cons_ring.unput(1) [OF ne, of "cons_buf s"] ch assms(3) by (simp add: cons_chars_def butlast_append)
  moreover have "length L = ?n" using assms(1,2) by (auto simp: cons_abs_def cons_inv_def)
  ultimately show "cons_inv (s\<lparr>cons_e := cons_e s - 1\<rparr>)" "cons_abs (s\<lparr>cons_e := cons_e s - 1\<rparr>) = (L, butlast E)"
    using assms(1) ch by (auto simp: cons_inv_def cons_abs_def)
  show "cons_buf s (unat (cons_e s - 1) mod INPUT_BUF) = last E"
    using cons_ring.unput(3) [OF ne, of "cons_buf s"] ch assms(3) by (simp add: cons_chars_def)
qed


subsection \<open>The line editor\<close>

definition erase_line :: "u8 list \<Rightarrow> u8 list" where
  "erase_line E = rev (dropWhile (\<lambda>c. c \<noteq> 10) (rev E))"

definition line_edit :: "u8 \<Rightarrow> u8 list \<times> u8 list \<Rightarrow> u8 list \<times> u8 list" where
  "line_edit c = (\<lambda>(L, E).
     if c = Control 80 then (L, E)
     else if c = Control 85 then (L, erase_line E)
     else if c = Control 72 \<or> c = 127 then (L, butlast E)
     else if c = 0 \<or> INPUT_BUF \<le> length L + length E then (L, E)
     else let c' = (if c = 13 then 10 else c); E' = E @ [c'] in
       if c' = 10 \<or> c' = Control 68 \<or> length L + length E' = INPUT_BUF then (L @ E', []) else (L, E'))"

lemma erase_line_step:
  "erase_line [] = []" "E \<noteq> [] \<Longrightarrow> last E = 10 \<Longrightarrow> erase_line E = E" "E \<noteq> [] \<Longrightarrow> last E \<noteq> 10 \<Longrightarrow> erase_line E = erase_line (butlast E)"
proof -
  show "erase_line [] = []" by (simp add: erase_line_def)
  show "erase_line E = E" if "E \<noteq> []" "last E = 10" using that
    by (cases E rule: rev_cases) (simp_all add: erase_line_def)
  show "erase_line E = erase_line (butlast E)" if "E \<noteq> []" "last E \<noteq> 10"
    using that by (cases E rule: rev_cases) (simp_all add: erase_line_def)
qed

text \<open>Characters sent to the screen do not touch the buffer.\<close>

lemma sent_cons [simp]:
  "cons_abs (sent out s) = cons_abs s" "cons_inv (sent out s) = cons_inv s" "cons_e (sent out s) = cons_e s"
  "cons_w (sent out s) = cons_w s" "cons_r (sent out s) = cons_r s" "cons_buf (sent out s) = cons_buf s"
  "(sent out s)\<lparr>cons_e := x\<rparr> = sent out (s\<lparr>cons_e := x\<rparr>)" "(sent out s)\<lparr>cons_w := y\<rparr> = sent out (s\<lparr>cons_w := y\<rparr>)"
  "cons_put c (sent out s) = sent out (cons_put c s)" "procs (sent out s) = procs s"
  "(sent out s)\<lparr>lk := k\<rparr> = sent out (s\<lparr>lk := k\<rparr>)" "(sent out s)\<lparr>procs := P\<rparr> = sent out (s\<lparr>procs := P\<rparr>)"
  by (simp_all add: sent_def cons_abs_def cons_chars_def cons_inv_def cons_put_def)

lemma cons_abs_cong [simp]:
  "cons_abs (s\<lparr>lk := k\<rparr>) = cons_abs s" "cons_inv (s\<lparr>lk := k\<rparr>) = cons_inv s"
  "cons_abs (s\<lparr>procs := P\<rparr>) = cons_abs s" "cons_inv (s\<lparr>procs := P\<rparr>) = cons_inv s"
  by (simp_all add: cons_abs_def cons_chars_def cons_inv_def)

lemma backspace_run: "console_up s \<Longrightarrow> consputc None e s = Ok () e (sent [8, 32, 8] s)"
  by (simp add: consputc_def uartputc_sync_run)

lemma kill_line_run:
  assumes "console_up s" and "cons_inv s" and "cons_abs s = (L, E)" and "length E < f"
  shows "\<exists>out x. kill_line f e s = Ok () e (sent out (s\<lparr>cons_e := x\<rparr>)) \<and> cons_inv (s\<lparr>cons_e := x\<rparr>)
     \<and> cons_abs (s\<lparr>cons_e := x\<rparr>) = (L, erase_line E)"
  using assms
proof (induction f arbitrary: s E)
  case (Suc f)
  show ?case
  proof (cases "E = [] \<or> last E = 10")
    case True
    then have "\<not> (cons_e s \<noteq> cons_w s \<and> cons_buf s (unat (cons_e s - 1) mod INPUT_BUF) \<noteq> 10)"
      using editing_empty_iff [OF Suc.prems(2,3)] cons_back_abs(3) [OF Suc.prems(2,3)] by auto
    moreover have "erase_line E = E" using True erase_line_step(1) erase_line_step(2) [of E] by (cases "E = []") auto
    ultimately show ?thesis using Suc.prems by (intro exI [of _ "[]"] exI [of _ "cons_e s"]) auto
  next
    case False
    let ?s = "s\<lparr>cons_e := cons_e s - 1\<rparr>" let ?t = "sent [8, 32, 8] ?s"
    note b = cons_back_abs [OF Suc.prems(2,3)]
    have "console_up ?t" using Suc.prems(1) by (simp add: console_up_def)
    moreover have "cons_inv ?t" "cons_abs ?t = (L, butlast E)" using b False by simp_all
    moreover have "length (butlast E) < f" using Suc.prems(4) False by (cases E) auto
    ultimately obtain out x where o: "kill_line f e ?t = Ok () e (sent out (?t\<lparr>cons_e := x\<rparr>))"
      "cons_inv (?t\<lparr>cons_e := x\<rparr>)" "cons_abs (?t\<lparr>cons_e := x\<rparr>) = (L, erase_line (butlast E))"
      using Suc.IH [of ?t "butlast E"] by blast
    have "console_up ?s" using Suc.prems(1) by (simp add: console_up_def)
    then have "kill_line (Suc f) e s = Ok () e (sent ([8, 32, 8] @ out) (s\<lparr>cons_e := x\<rparr>))"
      using o(1) b(3) editing_empty_iff [OF Suc.prems(2,3)] False by (simp add: backspace_run)
    with o(2,3) erase_line_step(3) [of E] False show ?thesis
      by (intro exI [of _ "[8, 32, 8] @ out"] exI [of _ x]) simp
  qed
qed simp

lemma procdump_run:
  assumes "console_up s" and "lock_free PrLock (lk s)"
  shows "\<exists>out. procdump e s = Ok () e (sent out s)"
proof -
  have "outputs (lock_free PrLock) procdump"
    unfolding procdump_def getp_def
    by (intro outputs_intros) (simp_all add: cstr_def)
  with assms show ?thesis unfolding outputs_def by blast
qed


lemma length_editing:
  assumes "cons_inv s" and "cons_abs s = (L, E)"
  shows "length E = unat (cons_e s - cons_w s)" "length L + length E = unat (cons_e s - cons_r s)"
proof -
  have "cons_e s - cons_w s = (cons_e s - cons_r s) - (cons_w s - cons_r s)" by simp
  moreover have "cons_w s - cons_r s \<le> cons_e s - cons_r s"
    using assms(1) by (simp add: cons_inv_def length_cons_chars word_le_nat_alt)
  ultimately have "unat (cons_e s - cons_w s) = unat (cons_e s - cons_r s) - unat (cons_w s - cons_r s)"
    by (simp only: unat_sub)
  then show "length E = unat (cons_e s - cons_w s)" using assms(2) by (auto simp: cons_abs_def length_cons_chars)
  show "length L + length E = unat (cons_e s - cons_r s)"
    using cons_abs_append [OF assms(2)] length_cons_chars [of s] by simp
qed

text \<open>The effect of an ordinary character, before the lock is released.\<close>

definition cons_accept :: "u8 \<Rightarrow> u8 list \<times> u8 list \<Rightarrow> 'z tty_state_scheme \<Rightarrow> 'z tty_state_scheme" where
  "cons_accept c LE s = (let t = cons_put c s in
     if c = 10 \<or> c = Control 68 \<or> length (fst LE) + length (snd LE) + 1 = INPUT_BUF
     then t\<lparr>cons_w := cons_e t, procs := woken (Some ChCons) (my_thread s) (procs s)\<rparr> else t)"

lemma cons_accept_abs:
  assumes "cons_inv s" and "cons_abs s = (L, E)" and "length L + length E < INPUT_BUF"
  shows "cons_inv (cons_accept c (L, E) s)" and "lk (cons_accept c (L, E) s) = lk s"
    and "cons_abs (cons_accept c (L, E) s) = (if c = 10 \<or> c = Control 68 \<or> length L + length E + 1 = INPUT_BUF
       then (L @ E @ [c], []) else (L, E @ [c]))"
    and "procs (cons_accept c (L, E) s) = (if c = 10 \<or> c = Control 68 \<or> length L + length E + 1 = INPUT_BUF
       then woken (Some ChCons) (my_thread s) (procs s) else procs s)"
  using cons_put_abs [OF assms, of c] cons_commit_abs [OF cons_put_abs [OF assms, of c]]
  by (auto simp: cons_accept_def Let_def cons_put_def)

lemma cons_full_iff:
  assumes "cons_inv s" and "cons_abs s = (L, E)" and "length L + length E < INPUT_BUF"
  shows "cons_e (cons_put c s) = cons_r (cons_put c s) + of_nat INPUT_BUF \<longleftrightarrow> length L + length E + 1 = INPUT_BUF"
proof -
  note p = cons_put_abs [OF assms, of c]
  have "cons_ring.bounded (cons_r (cons_put c s)) (cons_e (cons_put c s))"
    using p(1) by (simp add: cons_ring.bounded_def cons_inv_def length_cons_chars)
  from cons_ring.full_iff [OF this] show ?thesis using length_editing(2) [OF p] by simp
qed

lemma consoleintr_char:
  assumes "all_free (lk s)" and "\<not> panicked s" and "cons_inv s" and "cons_abs s = (L, E)" and "length L + length E < INPUT_BUF"
    and "c \<noteq> Control 80" "c \<noteq> Control 85" "c \<noteq> Control 72" "c \<noteq> 127" "c \<noteq> 0" and d: "d = (if c = 13 then 10 else c)"
  shows "consoleintr c e s = Ok () e (sent [d] (cons_accept d (L, E) s))"
proof -
  let ?s = "s\<lparr>lk := lk_acq ConsLock (lk s)\<rparr>"
  have up: "console_up ?s" using assms(1,2) by (simp add: console_up_def)
  have full: "cons_e s + 1 = cons_r s + of_nat INPUT_BUF \<longleftrightarrow> length L + length E + 1 = INPUT_BUF"
    using cons_full_iff [OF assms(3-5), of d] by (simp add: cons_put_def)
  have room: "unat (cons_e s - cons_r s) < INPUT_BUF" using length_editing(2) [OF assms(3,4)] assms(5) by simp
  have put: "(sent [d] ?s)\<lparr>cons_buf := (cons_buf s)(unat (cons_e s) mod INPUT_BUF := d), cons_e := cons_e s + 1\<rparr> = sent [d] (cons_put d ?s)"
    by (simp add: sent_def cons_put_def)
  show ?thesis
    using assms(1,6-10) full room
    by (simp add: consoleintr_def lock_run Let_def d [symmetric] consputc_run [OF up] put wakeup_acq cons_accept_def)
      (auto simp: cons_put_def wakeup_acq lock_run)
qed

text \<open>
  C21. Console input is a line editor: for every character \<open>consoleintr\<close> terminates and changes the
  two lists, the committed characters and the line being edited, exactly as \<open>line_edit\<close> says:
  backspace removes the last character of the line, \<open>^U\<close> the line, a carriage return
  becomes a newline, a newline, \<open>^D\<close> or a full buffer commits the line, and a character that does not fit is
  dropped. Committed characters are never erased and the buffer never overflows; the readers are woken
  exactly when a line is committed.
\<close>

theorem consoleintr_edits:
  assumes "all_free (lk s)" and "\<not> panicked s" and "cons_inv s"
  shows "\<exists>s'. consoleintr c e s = Ok () e s' \<and> cons_inv s' \<and> cons_abs s' = line_edit c (cons_abs s) \<and> lk s' = lk s
    \<and> procs s' = (if fst (cons_abs s') = fst (cons_abs s) then procs s else woken (Some ChCons) (my_thread s) (procs s))"
proof -
  obtain L E where LE: "cons_abs s = (L, E)" by fastforce
  let ?s = "s\<lparr>lk := lk_acq ConsLock (lk s)\<rparr>"
  have up: "console_up ?s" using assms(1,2) by (simp add: console_up_def)
  have i: "cons_inv ?s" "cons_abs ?s = (L, E)" using assms(3) LE by simp_all
  note len = length_editing [OF assms(3) LE]
  consider (dump) "c = Control 80" | (kill) "c = Control 85" | (bs) "c = Control 72 \<or> c = 127"
    | (drop) "c \<noteq> Control 80" "c \<noteq> Control 85" "c \<noteq> Control 72" "c \<noteq> 127" "c = 0 \<or> INPUT_BUF \<le> length L + length E"
    | (char) "c \<noteq> Control 80" "c \<noteq> Control 85" "c \<noteq> Control 72" "c \<noteq> 127" "c \<noteq> 0" "length L + length E < INPUT_BUF"
    by linarith
  then show ?thesis
  proof cases
    case dump
    obtain out where "procdump e ?s = Ok () e (sent out ?s)" using procdump_run [OF up] assms(1) by auto
    then have "consoleintr c e s = Ok () e (sent out s)" using dump assms(1) by (simp add: consoleintr_def lock_run)
    then show ?thesis using dump assms LE by (simp add: line_edit_def)
  next
    case kill
    have "length E < Suc (unat (cons_e ?s - cons_w ?s))" using len(1) by simp
    from kill_line_run [OF up i this, of e] obtain out x where
      k: "kill_line (Suc (unat (cons_e s - cons_w s))) e ?s = Ok () e (sent out (?s\<lparr>cons_e := x\<rparr>))"
        "cons_inv (?s\<lparr>cons_e := x\<rparr>)" "cons_abs (?s\<lparr>cons_e := x\<rparr>) = (L, erase_line E)" by auto
    have "Control 85 \<noteq> Control 80" by (simp add: Control_def)
    then have "consoleintr c e s = Ok () e (sent out (s\<lparr>cons_e := x\<rparr>))"
      using kill k(1) assms(1) by (simp add: consoleintr_def lock_run del: kill_line.simps)
    moreover have "cons_inv (s\<lparr>cons_e := x\<rparr>)" "cons_abs (s\<lparr>cons_e := x\<rparr>) = (L, erase_line E)"
      using k(2,3) by (simp_all add: cons_inv_def cons_abs_def cons_chars_def)
    ultimately show ?thesis using kill LE \<open>Control 85 \<noteq> Control 80\<close> by (simp add: line_edit_def)
  next
    case bs
    have ne: "c \<noteq> Control 80" "c \<noteq> Control 85" using bs by (auto simp: Control_def)
    show ?thesis
    proof (cases "E = []")
      case True
      then have "consoleintr c e s = Ok () e s"
        using bs ne assms(1) editing_empty_iff [OF assms(3) LE] by (simp add: consoleintr_def lock_run)
      then show ?thesis using bs ne LE True assms by (simp add: line_edit_def)
    next
      case False
      have "console_up (?s\<lparr>cons_e := cons_e s - 1\<rparr>)" using up by (simp add: console_up_def)
      then have "consoleintr c e s = Ok () e (sent [8, 32, 8] (s\<lparr>cons_e := cons_e s - 1\<rparr>))"
        using bs ne assms(1) editing_empty_iff [OF assms(3) LE] False by (simp add: consoleintr_def lock_run backspace_run)
      then show ?thesis using bs ne LE cons_back_abs(1,2) [OF assms(3) LE False] by (simp add: line_edit_def)
    qed
  next
    case drop
    then have "consoleintr c e s = Ok () e s" using assms(1) len(2) by (auto simp: consoleintr_def lock_run)
    then show ?thesis using drop LE assms by (auto simp: line_edit_def)
  next
    case char
    let ?c = "if c = 13 then 10 else c"
    note ac = cons_accept_abs [OF assms(3) LE char(6), of ?c]
    have "consoleintr c e s = Ok () e (sent [?c] (cons_accept ?c (L, E) s))"
      using consoleintr_char [OF assms LE char(6,1-5) refl] .
    moreover have "line_edit c (L, E) = cons_abs (cons_accept ?c (L, E) s)"
      using char unfolding ac(3) by (simp add: line_edit_def Let_def)
    moreover have "L @ E @ [?c] \<noteq> L" by simp
    ultimately show ?thesis
      using ac LE by (intro exI [of _ "sent [?c] (cons_accept ?c (L, E) s)"]) simp
  qed
qed


text \<open>A carriage return completes the line of one character.\<close>

theorem consoleintr_edits_witness:
  "\<exists>s' :: file_state. consoleintr 13 [] (cons_put 108 (sample_file ())) = Ok () [] s' \<and> cons_abs s' = ([108, 10], [])"
proof -
  let ?s = "sample_file () :: file_state"
  have 0: "cons_inv ?s" "cons_abs ?s = ([], [])"
    by (simp_all add: cons_inv_def cons_abs_def cons_chars_def ring_list_def sample_file_def)
  have "length ([] :: u8 list) + length ([] :: u8 list) < INPUT_BUF" by (simp add: INPUT_BUF_def)
  note p = cons_put_abs [OF 0 this, of 108]
  have "all_free (lk (cons_put 108 ?s))" "\<not> panicked (cons_put 108 ?s)" by (simp_all add: cons_put_def)
  from consoleintr_edits [OF this p(1), of 13 "[]"] p(2) show ?thesis
    by (auto simp: line_edit_def Control_def INPUT_BUF_def)
qed

end
