(* ===== verification/Block_Bytes.thy ===== *)
theory Block_Bytes
  imports Log
begin

text \<open>Round trips of the integer fields that the structures on the disk have in a block.\<close>

lemma u32_of_eq: "u32_of b = ucast (b 0) OR push_bit 8 (ucast (b 1)) OR push_bit 16 (ucast (b 2)) OR push_bit 24 (ucast (b 3))"
proof -
  have "load_le 4 (\<lambda>a. b (unat a)) 0 = (load_le (Suc (Suc (Suc (Suc 0)))) (\<lambda>a. b (unat a)) 0 :: u32)" by (simp add: numeral_eq_Suc)
  also have "\<dots> = ucast (b 0) OR push_bit 8 (ucast (b 1)) OR push_bit 16 (ucast (b 2)) OR push_bit 24 (ucast (b 3))"
    by (simp add: push_bit_or or.assoc)
  finally show ?thesis by (simp add: u32_of_def)
qed

lemma u32_bytes: "ucast (ucast v :: u8) OR push_bit 8 (ucast (ucast (drop_bit 8 v) :: u8))
   OR push_bit 16 (ucast (ucast (drop_bit 16 v) :: u8)) OR push_bit 24 (ucast (ucast (drop_bit 24 v) :: u8)) = (v :: u32)"
proof (rule bit_word_eqI)
  fix n assume "n < LENGTH(32)"
  then have "n < 32" by simp
  then consider "n < 8" | "8 \<le> n \<and> n < 16" | "16 \<le> n \<and> n < 24" | "24 \<le> n \<and> n < 32" by linarith
  then show "bit (ucast (ucast v :: u8) OR push_bit 8 (ucast (ucast (drop_bit 8 v) :: u8))
   OR push_bit 16 (ucast (ucast (drop_bit 16 v) :: u8)) OR push_bit 24 (ucast (ucast (drop_bit 24 v) :: u8)) :: u32) n = bit v n"
    by cases (auto simp: bit_simps)
qed

lemma u16_bytes: "ucast (ucast v :: u8) OR push_bit 8 (ucast (ucast (drop_bit 8 v) :: u8)) = (v :: u16)"
proof (rule bit_word_eqI)
  fix n assume "n < LENGTH(16)"
  then have "n < 16" by simp
  then consider "n < 8" | "8 \<le> n \<and> n < 16" by linarith
  then show "bit (ucast (ucast v :: u8) OR push_bit 8 (ucast (ucast (drop_bit 8 v) :: u8)) :: u16) n = bit v n"
    by cases (auto simp: bit_simps)
qed

lemma get32_put32 [simp]: "get32 (put32 off v d) off = v"
  unfolding get32_def u32_of_eq put32_def bytes32_def by (simp add: u32_bytes)

lemma get32_other: "off' + 4 \<le> off \<or> off + 4 \<le> off' \<Longrightarrow> get32 (put32 off v d) off' = get32 d off'"
  unfolding get32_def u32_of_eq put32_def by auto

lemma get16_put16 [simp]: "get16 (put16 off v d) off = v"
  unfolding get16_def put16_def by (simp add: u16_bytes)

lemma get16_other: "off' + 2 \<le> off \<or> off + 2 \<le> off' \<Longrightarrow> get16 (put16 off v d) off' = get16 d off'"
  unfolding get16_def put16_def by auto

lemma get16_put32: "off' + 2 \<le> off \<or> off + 4 \<le> off' \<Longrightarrow> get16 (put32 off v d) off' = get16 d off'"
  unfolding get16_def put32_def by auto

lemma get32_put16: "off' + 4 \<le> off \<or> off + 2 \<le> off' \<Longrightarrow> get32 (put16 off v d) off' = get32 d off'"
  unfolding get32_def u32_of_eq put16_def by auto

text \<open>An array of integers at offset \<open>4\<close>, as in the header of the log.\<close>

definition put_array :: "nat \<Rightarrow> (nat \<Rightarrow> u32) \<Rightarrow> nat \<Rightarrow> bytes \<Rightarrow> bytes" where
  "put_array off f n d = fold (\<lambda>i. put32 (off + 4 * i) (f i)) [0..<n] d"

lemma put_array_Suc: "put_array off f (Suc n) d = put32 (off + 4 * n) (f n) (put_array off f n d)"
  by (simp add: put_array_def)

lemma get_put_array: "get32 (put_array off f n d) (off + 4 * i) = (if i < n then f i else get32 d (off + 4 * i))"
proof (induction n)
  case 0
  then show ?case by (simp add: put_array_def)
next
  case (Suc n)
  then show ?case
  proof (cases "i = n")
    case True
    then show ?thesis by (simp add: put_array_Suc)
  next
    case False
    then have "get32 (put_array off f (Suc n) d) (off + 4 * i) = get32 (put_array off f n d) (off + 4 * i)"
      unfolding put_array_Suc by (intro get32_other) auto
    with Suc False show ?thesis by auto
  qed
qed

lemma get_below_array: "off' + 4 \<le> off \<Longrightarrow> get32 (put_array off f n d) off' = get32 d off'"
  by (induction n) (simp_all add: put_array_def get32_other)

end
