(* ===== verification/File_Bytes.thy ===== *)
theory File_Bytes
  imports Fs Block_Bytes
begin

text \<open>
  The bytes of a file on the disk, as a function of the contents of the blocks and of the addresses in the inode. The
  addresses are numbered as slots: those of the inode, of which the last one is the block of indirect addresses, then
  the ones in that block.
\<close>

definition NSLOTS :: nat where "NSLOTS = NDIRECT + 1 + NINDIRECT"

definition slot :: "(u32 \<Rightarrow> bytes) \<Rightarrow> (nat \<Rightarrow> u32) \<Rightarrow> nat \<Rightarrow> u32" where
  "slot D a k = (if k \<le> NDIRECT then a k else if a NDIRECT = 0 then 0 else get32 (D (a NDIRECT)) (4 * (k - NDIRECT - 1)))"

definition data_slot :: "nat \<Rightarrow> nat" where
  "data_slot fbn = (if fbn < NDIRECT then fbn else fbn + 1)"

definition file_byte :: "(u32 \<Rightarrow> bytes) \<Rightarrow> (nat \<Rightarrow> u32) \<Rightarrow> nat \<Rightarrow> u8" where
  "file_byte D a k = D (slot D a (data_slot (k div BSIZE))) (k mod BSIZE)"

definition file_bytes :: "(u32 \<Rightarrow> bytes) \<Rightarrow> (nat \<Rightarrow> u32) \<Rightarrow> nat \<Rightarrow> u8 list" where
  "file_bytes D a n = map (file_byte D a) [0..<n]"

text \<open>Every block of the file below the given size has an address.\<close>

definition allocated :: "(u32 \<Rightarrow> bytes) \<Rightarrow> (nat \<Rightarrow> u32) \<Rightarrow> nat \<Rightarrow> bool" where
  "allocated D a n \<longleftrightarrow> n \<le> MAXFILE * BSIZE \<and> (\<forall>fbn. fbn * BSIZE < n \<longrightarrow> slot D a (data_slot fbn) \<noteq> 0)"

lemma slot_NDIRECT [simp]: "slot D a NDIRECT = a NDIRECT"
  by (simp add: slot_def)

lemma BSIZE_pos [simp]: "0 < BSIZE"
  by (simp add: BSIZE_def)

lemma data_slot_inj [simp]: "data_slot f = data_slot g \<longleftrightarrow> f = g"
  by (auto simp: data_slot_def)

lemma data_slot_not_indirect [simp]: "data_slot f \<noteq> NDIRECT" "NDIRECT \<noteq> data_slot f"
  by (auto simp: data_slot_def)

lemma data_slot_less: "f < MAXFILE \<Longrightarrow> data_slot f < NSLOTS"
  by (auto simp: data_slot_def MAXFILE_def NSLOTS_def)

lemma length_file_bytes [simp]: "length (file_bytes D a n) = n"
  by (simp add: file_bytes_def)

subsection \<open>Slots after an update\<close>

lemma slot_data: "x \<noteq> a NDIRECT \<or> a NDIRECT = 0 \<Longrightarrow> slot (D(x := v)) a k = slot D a k"
  by (auto simp: slot_def)

lemma slot_direct: "f < NDIRECT \<Longrightarrow> slot D (a(f := b)) k = ((slot D a)(f := b)) k"
  by (auto simp: slot_def)

lemma get32_zero [simp]: "get32 (\<lambda>_. 0) off = 0"
  by (simp add: get32_def u32_of_eq)

lemma slot_indirect: "a NDIRECT = 0 \<Longrightarrow> D b = (\<lambda>_. 0) \<Longrightarrow> slot D (a(NDIRECT := b)) k = ((slot D a)(NDIRECT := b)) k"
  by (auto simp: slot_def)

lemma slot_entry:
  assumes "a NDIRECT \<noteq> 0" "v = put32 (4 * j) b (D (a NDIRECT))"
  shows "slot (D(a NDIRECT := v)) a k = ((slot D a)(NDIRECT + 1 + j := b)) k"
proof (cases "k = NDIRECT + 1 + j")
  case False
  then have "4 * (k - NDIRECT - 1) + 4 \<le> 4 * j \<or> 4 * j + 4 \<le> 4 * (k - NDIRECT - 1) \<or> k \<le> NDIRECT" by auto
  then show ?thesis using False assms by (auto simp: slot_def get32_other)
qed (use assms in \<open>simp add: slot_def\<close>)

lemma file_byte_cong:
  assumes "k div BSIZE = fbn" "slot D' a' (data_slot fbn) = slot D a (data_slot fbn)"
    "D' (slot D a (data_slot fbn)) = D (slot D a (data_slot fbn))"
  shows "file_byte D' a' k = file_byte D a k"
  using assms by (simp add: file_byte_def)

lemma file_bytes_cong: "(\<And>k. k < n \<Longrightarrow> file_byte D' a' k = file_byte D a k) \<Longrightarrow> file_bytes D' a' n = file_bytes D a n"
  by (auto simp: file_bytes_def)

lemma file_bytes_append:
  assumes "\<And>k. k < n \<Longrightarrow> file_byte D' a' k = file_byte D a k" "\<And>k. k < length p \<Longrightarrow> file_byte D' a' (n + k) = p ! k"
  shows "file_bytes D' a' (n + length p) = file_bytes D a n @ p"
proof (intro nth_equalityI)
  fix i assume "i < length (file_bytes D' a' (n + length p))"
  then show "file_bytes D' a' (n + length p) ! i = (file_bytes D a n @ p) ! i"
    using assms(1) [of i] assms(2) [of "i - n"] by (auto simp: file_bytes_def nth_append)
qed simp

lemma allocated_slot:
  assumes "allocated D a n" "k < n"
  shows "slot D a (data_slot (k div BSIZE)) \<noteq> 0" "data_slot (k div BSIZE) < NSLOTS"
proof -
  have "k div BSIZE * BSIZE < n" using assms(2) by (metis div_times_less_eq_dividend order.strict_trans1)
  then show "slot D a (data_slot (k div BSIZE)) \<noteq> 0" "data_slot (k div BSIZE) < NSLOTS"
    using assms by (auto simp: allocated_def less_mult_imp_div_less intro!: data_slot_less)
qed

lemma allocated_cong:
  assumes "allocated D a n" "\<And>k. k < NSLOTS \<Longrightarrow> slot D' a' k = slot D a k"
  shows "allocated D' a' n"
  unfolding allocated_def
proof (intro conjI allI impI)
  show "n \<le> MAXFILE * BSIZE" using assms(1) by (simp add: allocated_def)
  fix fbn assume "fbn * BSIZE < n"
  then show "slot D' a' (data_slot fbn) \<noteq> 0" using allocated_slot [OF assms(1), of "fbn * BSIZE"] assms(2) by simp
qed

text \<open>The bytes of a file from an offset to the end of its block lie side by side.\<close>

lemma file_byte_block:
  assumes "off mod BSIZE + j < BSIZE"
  shows "file_byte D a (off + j) = D (slot D a (data_slot (off div BSIZE))) (off mod BSIZE + j)"
proof -
  define r where "r = off mod BSIZE + j"
  have "off + j = off div BSIZE * BSIZE + r" unfolding r_def by simp
  then have "(off + j) div BSIZE = off div BSIZE" "(off + j) mod BSIZE = r" using assms unfolding r_def [symmetric] by simp_all
  then show ?thesis by (simp add: file_byte_def r_def)
qed

end
