(* ===== verification/Sleeplock_Run.thy ===== *)
theory Sleeplock_Run
  imports Sample_File
begin

text \<open>
  Correctness of the sleep locks of \<open>kernel/sleeplock.c\<close>, and what their users need to know of them: the
  processes they may wake up.
\<close>

subsection \<open>Processes up to wakeups\<close>

text \<open>The process table may differ in the threads of the processes only.\<close>

definition no_threads :: "proc \<Rightarrow> proc" where
  "no_threads pr = pr\<lparr>threads := (\<lambda>_. sample_thread)\<rparr>"

definition woken_only :: "(pslot \<Rightarrow> proc) \<Rightarrow> (pslot \<Rightarrow> proc) \<Rightarrow> bool" where
  "woken_only P P' \<longleftrightarrow> (\<forall>p. no_threads (P' p) = no_threads (P p))"

lemma woken_only_refl [simp]: "woken_only P P"
  by (simp add: woken_only_def)

lemma woken_only_trans: "woken_only P Q \<Longrightarrow> woken_only Q R \<Longrightarrow> woken_only P R"
  by (simp add: woken_only_def)

lemma woken_only_woken [simp]: "woken_only P (woken ch me P)"
  by (simp add: woken_only_def woken_def wake_proc_def no_threads_def)

lemma no_threads_simps:
  "pid (no_threads pr) = pid pr" "pagetable (no_threads pr) = pagetable pr" "killed (no_threads pr) = killed pr"
  "sz (no_threads pr) = sz pr" "ofile (no_threads pr) = ofile pr" "cwd (no_threads pr) = cwd pr"
  by (simp_all add: no_threads_def)

lemma woken_only_simps:
  assumes "woken_only P P'"
  shows "pid (P' p) = pid (P p)" "pagetable (P' p) = pagetable (P p)" "killed (P' p) = killed (P p)" "sz (P' p) = sz (P p)"
    "ofile (P' p) = ofile (P p)" "cwd (P' p) = cwd (P p)"
proof -
  have e: "no_threads (P' p) = no_threads (P p)" using assms by (simp add: woken_only_def)
  show "pid (P' p) = pid (P p)" "pagetable (P' p) = pagetable (P p)" "killed (P' p) = killed (P p)" "sz (P' p) = sz (P p)"
    "ofile (P' p) = ofile (P p)" "cwd (P' p) = cwd (P p)"
    unfolding no_threads_simps [of "P' p", symmetric] no_threads_simps [of "P p", symmetric] e by (rule refl)+
qed

subsection \<open>The operations when no thread waits\<close>

lemma set_sleeplock_run [simp]: "set_sleeplock l v e s = Ok () e (s\<lparr>sleeplocks := (sleeplocks s)(l := v)\<rparr>)"
  by (simp add: set_sleeplock_def)

definition my_pid :: "'z proc_state_scheme \<Rightarrow> int" where
  "my_pid s = pid (procs s (the (my_proc s)))"

lemma acquiresleep_free:
  assumes "all_free (lk s)" and "my_proc s \<noteq> None" and "\<not> sl_locked (sleeplocks s l)"
  shows "acquiresleep l e s = Ok () e (s\<lparr>sleeplocks := (sleeplocks s)(l := \<lparr>sl_locked = True, sl_pid = my_pid s\<rparr>)\<rparr>)"
  using assms by (auto simp: acquiresleep_def sleep_loop_def lock_run my_pid_def)

lemma releasesleep_run:
  assumes "all_free (lk s)" and "\<And>p. l \<noteq> ProcLock p"
  shows "releasesleep l e s = Ok () e (s\<lparr>sleeplocks := (sleeplocks s)(l := \<lparr>sl_locked = False, sl_pid = 0\<rparr>),
     procs := woken (Some (ChSleeplock l)) (my_thread s) (procs s)\<rparr>)"
  using assms by (simp add: releasesleep_def lock_run wakeup_acq)

lemma holdingsleep_run:
  assumes "all_free (lk s)" and "my_proc s \<noteq> None"
  shows "holdingsleep l e s = Ok (sl_locked (sleeplocks s l) \<and> sl_pid (sleeplocks s l) = my_pid s) e s"
  using assms by (auto simp: holdingsleep_def lock_run my_pid_def)


subsection \<open>Waiting\<close>



end
