(* ===== verification/Lru.thy ===== *)
theory Lru
  imports Sleeplock_Run
begin

text \<open>
  The list of buffers of \<open>kernel/bio.c\<close>: a circular doubly linked list through \<open>bcache.head\<close> that holds every
  buffer exactly once. The two searches of \<open>bget\<close> visit it in its two directions, and \<open>brelse\<close>
  moves a buffer to its front.
\<close>

definition lru :: "(nat \<Rightarrow> buf) \<Rightarrow> nat list \<Rightarrow> bool" where
  "lru B bs \<longleftrightarrow> map (\<lambda>b. b_next (B b)) (bhead # bs) = bs @ [bhead] \<and> map (\<lambda>b. b_prev (B b)) (bs @ [bhead]) = bhead # bs
     \<and> distinct bs \<and> set bs = {..<NBUF}"

lemma lru_facts:
  assumes "lru B bs"
  shows "distinct bs" "set bs = {..<NBUF}" "bhead \<notin> set bs" "length bs = NBUF"
  using assms distinct_card [of bs] by (auto simp: lru_def bhead_def)

text \<open>Only the two links matter.\<close>

lemma lru_cong:
  assumes "\<And>b. b_next (B' b) = b_next (B b)" "\<And>b. b_prev (B' b) = b_prev (B b)"
  shows "lru B' bs = lru B bs"
  using assms by (simp add: lru_def)

subsection \<open>The searches\<close>

lemma bfind_next_run:
  assumes "map (\<lambda>b. b_next (bufs s b)) xs = tl (xs @ [bhead])" and "bhead \<notin> set xs" and "length xs < n"
  shows "bfind_next n (hd (xs @ [bhead])) dev blockno e s
     = Ok (List.find (\<lambda>b. b_dev (bufs s b) = dev \<and> b_blockno (bufs s b) = blockno) xs) e s"
  using assms
proof (induction xs arbitrary: n)
  case Nil
  then show ?case by (cases n) simp_all
next
  case (Cons x xs)
  then obtain m where n: "n = Suc m" by (cases n) auto
  have nx: "b_next (bufs s x) = hd (xs @ [bhead])" "map (\<lambda>b. b_next (bufs s b)) xs = tl (xs @ [bhead])"
    using Cons.prems(1) by (cases xs; simp)+
  from Cons.IH [OF nx(2), of m] Cons.prems n nx(1) show ?case by simp
qed

lemma bfind_prev_run:
  assumes "map (\<lambda>b. b_prev (bufs s b)) xs = butlast (bhead # xs)" and "bhead \<notin> set xs" and "length xs < n"
  shows "bfind_prev n (last (bhead # xs)) e s = Ok (List.find (\<lambda>b. b_refcnt (bufs s b) = 0) (rev xs)) e s"
  using assms
proof (induction xs arbitrary: n rule: rev_induct)
  case Nil
  then show ?case by (cases n) simp_all
next
  case (snoc x xs)
  then obtain m where n: "n = Suc m" by (cases n) auto
  have pv: "b_prev (bufs s x) = last (bhead # xs)" "map (\<lambda>b. b_prev (bufs s b)) xs = butlast (bhead # xs)"
    using snoc.prems(1) by (cases xs rule: rev_cases; simp add: butlast_append)+
  from snoc.IH [OF pv(2), of m] snoc.prems n pv(1) show ?case by simp
qed

lemma lru_next:
  assumes "lru (bufs s) bs"
  shows "bfind_next (Suc NBUF) (b_next (bufs s bhead)) dev blockno e s
     = Ok (List.find (\<lambda>b. b_dev (bufs s b) = dev \<and> b_blockno (bufs s b) = blockno) bs) e s"
proof -
  have m: "b_next (bufs s bhead) # map (\<lambda>b. b_next (bufs s b)) bs = bs @ [bhead]" using assms by (simp add: lru_def)
  then have "b_next (bufs s bhead) = hd (bs @ [bhead])" "map (\<lambda>b. b_next (bufs s b)) bs = tl (bs @ [bhead])"
    by (metis list.sel)+
  then show ?thesis using bfind_next_run [of s bs "Suc NBUF" dev blockno e] lru_facts [OF assms] by simp
qed

lemma lru_prev:
  assumes "lru (bufs s) bs"
  shows "bfind_prev (Suc NBUF) (b_prev (bufs s bhead)) e s = Ok (List.find (\<lambda>b. b_refcnt (bufs s b) = 0) (rev bs)) e s"
proof -
  have m: "map (\<lambda>b. b_prev (bufs s b)) bs @ [b_prev (bufs s bhead)] = bhead # bs" using assms by (simp add: lru_def)
  then have "b_prev (bufs s bhead) = last (bhead # bs)" "map (\<lambda>b. b_prev (bufs s b)) bs = butlast (bhead # bs)"
    by (metis butlast_snoc last_snoc)+
  then show ?thesis using bfind_prev_run [of s bs "Suc NBUF" e] lru_facts [OF assms] by simp
qed


subsection \<open>Moving a buffer to the front\<close>

definition upd :: "nat \<Rightarrow> (buf \<Rightarrow> buf) \<Rightarrow> (nat \<Rightarrow> buf) \<Rightarrow> nat \<Rightarrow> buf" where
  "upd b f B = B(b := f (B b))"

text \<open>The six assignments of \<open>brelse\<close>.\<close>

definition to_front :: "nat \<Rightarrow> (nat \<Rightarrow> buf) \<Rightarrow> nat \<Rightarrow> buf" where
  "to_front b B = (let n = b_next (B b); p = b_prev (B b);
     B = upd n (\<lambda>x. x\<lparr>b_prev := p\<rparr>) B; B = upd p (\<lambda>x. x\<lparr>b_next := n\<rparr>) B;
     B = upd b (\<lambda>x. x\<lparr>b_next := b_next (B bhead), b_prev := bhead\<rparr>) B;
     B = upd (b_next (B bhead)) (\<lambda>x. x\<lparr>b_prev := b\<rparr>) B in
     upd bhead (\<lambda>x. x\<lparr>b_next := b\<rparr>) B)"

text \<open>Only links change.\<close>

definition same_data :: "(nat \<Rightarrow> buf) \<Rightarrow> (nat \<Rightarrow> buf) \<Rightarrow> bool" where
  "same_data B B' \<longleftrightarrow> (\<forall>b. b_valid (B' b) = b_valid (B b) \<and> b_disk (B' b) = b_disk (B b) \<and> b_dev (B' b) = b_dev (B b) \<and>
     b_blockno (B' b) = b_blockno (B b) \<and> b_refcnt (B' b) = b_refcnt (B b) \<and> b_data (B' b) = b_data (B b))"

definition nxt :: "(nat \<Rightarrow> buf) \<Rightarrow> nat \<Rightarrow> nat" where "nxt B = (\<lambda>b. b_next (B b))"
definition prv :: "(nat \<Rightarrow> buf) \<Rightarrow> nat \<Rightarrow> nat" where "prv B = (\<lambda>b. b_prev (B b))"

lemma link_upd:
  "nxt (upd a (\<lambda>x. x\<lparr>b_prev := p\<rparr>) B) = nxt B" "nxt (upd a (\<lambda>x. x\<lparr>b_next := n\<rparr>) B) = (nxt B)(a := n)"
  "nxt (upd a (\<lambda>x. x\<lparr>b_next := n, b_prev := p\<rparr>) B) = (nxt B)(a := n)"
  "prv (upd a (\<lambda>x. x\<lparr>b_prev := p\<rparr>) B) = (prv B)(a := p)" "prv (upd a (\<lambda>x. x\<lparr>b_next := n\<rparr>) B) = prv B"
  "prv (upd a (\<lambda>x. x\<lparr>b_next := n, b_prev := p\<rparr>) B) = (prv B)(a := p)"
  by (simp_all add: nxt_def prv_def upd_def fun_eq_iff)

lemma same_data_trans: "same_data A B \<Longrightarrow> same_data B C \<Longrightarrow> same_data A C"
  by (simp add: same_data_def)

lemma same_data_upd:
  "same_data A B \<Longrightarrow> same_data A (upd a (\<lambda>x. x\<lparr>b_prev := p\<rparr>) B)" "same_data A B \<Longrightarrow> same_data A (upd a (\<lambda>x. x\<lparr>b_next := n\<rparr>) B)"
  "same_data A B \<Longrightarrow> same_data A (upd a (\<lambda>x. x\<lparr>b_next := n, b_prev := p\<rparr>) B)"
  by (simp_all add: same_data_def upd_def)

lemma to_front_same: "same_data B (to_front b B)"
  unfolding to_front_def Let_def by (intro same_data_upd) (simp add: same_data_def)

lemma to_front_links:
  assumes "b \<noteq> bhead"
  shows "nxt (to_front b B) = (let N = (nxt B)(prv B b := nxt B b) in N(b := N bhead, bhead := b))"
    and "prv (to_front b B) = (let N = (nxt B)(prv B b := nxt B b) in (prv B)(nxt B b := prv B b, b := bhead, N bhead := b))"
proof -
  have e: "b_next (A x) = nxt A x" "b_prev (A x) = prv A x" for A x by (simp_all add: nxt_def prv_def)
  show "nxt (to_front b B) = (let N = (nxt B)(prv B b := nxt B b) in N(b := N bhead, bhead := b))"
    unfolding to_front_def Let_def e link_upd ..
  show "prv (to_front b B) = (let N = (nxt B)(prv B b := nxt B b) in (prv B)(nxt B b := prv B b, b := bhead, N bhead := b))"
    unfolding to_front_def Let_def e link_upd using assms by simp
qed


lemma map_upd_hd: "distinct zs \<Longrightarrow> zs \<noteq> [] \<Longrightarrow> map (f(hd zs := v)) zs = v # tl (map f zs)"
  by (cases zs) simp_all

lemma map_upd_last: "distinct zs \<Longrightarrow> zs \<noteq> [] \<Longrightarrow> map (f(last zs := v)) zs = butlast (map f zs) @ [v]"
  by (cases zs rule: rev_cases) simp_all

lemma lru_to_front:
  assumes "lru B (xs @ b # ys)"
  shows "lru (to_front b B) (b # xs @ ys)"
proof -
  let ?N = "nxt B" and ?P = "prv B" let ?L = "bhead # xs" and ?R = "ys @ [bhead]"
  let ?h = "hd (xs @ ?R)"
  note f = lru_facts [OF assms]
  have d: "distinct ?L" "distinct ?R" "distinct (xs @ ?R)" "distinct (?L @ ys)" "b \<notin> set xs" "b \<notin> set ys" "b \<noteq> bhead"
    using f(1,3) by auto
  have "map ?N (?L @ b # ys) = xs @ b # ?R" "map ?P (xs @ b # ?R) = ?L @ b # ys"
    using assms by (simp_all add: lru_def nxt_def prv_def)
  then have n: "map ?N ?L = xs @ [b]" "?N b # map ?N ys = ?R" and p: "map ?P xs @ [?P b] = ?L" "map ?P ?R = b # ys"
    using append_eq_append_conv [of "map ?N ?L" "xs @ [b]" "?N b # map ?N ys" ?R]
      append_eq_append_conv [of "map ?P xs @ [?P b]" ?L "map ?P ?R" "b # ys"] by auto
  have Nb: "?N b = hd ?R" "map ?N ys = tl ?R" using n(2) by (metis list.sel)+
  have Pb: "?P b = last ?L" "map ?P xs = butlast ?L" using p(1) by (metis last_snoc butlast_snoc)+
  let ?N2 = "?N(?P b := ?N b)"
  have "map ?N2 ?L = xs @ [?N b]" 
    unfolding Pb(1) map_upd_last [OF d(1) list.distinct(2)] n(1) by simp
  moreover have "last ?L \<notin> set ys" using d(4) by (cases xs rule: rev_cases) auto
  then have "map ?N2 ys = tl ?R" using Nb(2) Pb(1) by simp
  moreover have R: "hd ?R # tl ?R = ?R" by (rule list.collapse) simp
  ultimately have m2: "map ?N2 (?L @ ys) = xs @ ?R" unfolding map_append Nb(1) by (metis append_Cons append_Nil append_assoc)
  moreover have "map ?N2 (?L @ ys) = ?N2 bhead # map ?N2 (xs @ ys)" by (simp only: append_Cons list.map)
  ultimately have h: "?N2 bhead = ?h" "map ?N2 (xs @ ys) = tl (xs @ ?R)" by (metis list.sel)+
  have "map (nxt (to_front b B)) (bhead # b # xs @ ys) = b # xs @ ?R"
    using to_front_links(1) [OF d(7), of B] d h m2 f(3) by (auto simp: Let_def)
  moreover have "map (prv (to_front b B)) (b # xs @ ?R) = bhead # b # xs @ ys"
  proof -
    let ?Q = "?P(?N b := ?P b)"
    have "hd ?R \<notin> set xs" using d(3) by (cases ys) auto
    then have "map ?Q xs = butlast ?L" using Pb(2) Nb(1) by simp
    moreover have "map ?Q ?R = last ?L # ys"
      unfolding Nb(1) Pb(1) map_upd_hd [OF d(2) snoc_eq_iff_butlast [THEN iffD1, THEN conjunct1, OF refl]] p(2) by simp
    ultimately have q: "map ?Q (xs @ ?R) = ?L @ ys" by (simp only: map_append) (simp add: append_butlast_last_id)
    have "b \<noteq> ?h" using d by (cases xs; cases ys) auto
    have "map (prv (to_front b B)) (xs @ ?R) = map (?Q(?h := b)) (xs @ ?R)"
      using d(5-7) unfolding to_front_links(2) [OF d(7)] Let_def h(1) by auto
    also have "\<dots> = b # tl (map ?Q (xs @ ?R))" using d(3) by (intro map_upd_hd) auto
    finally have "map (prv (to_front b B)) (xs @ ?R) = b # xs @ ys" unfolding q by simp
    moreover have "prv (to_front b B) b = bhead"
      unfolding to_front_links(2) [OF d(7)] Let_def h(1) using \<open>b \<noteq> ?h\<close> by simp
    ultimately show ?thesis by simp
  qed
  ultimately show ?thesis using f by (auto simp: lru_def nxt_def prv_def)
qed


subsection \<open>binit\<close>

definition links :: "(nat \<Rightarrow> buf) \<Rightarrow> nat list \<Rightarrow> bool" where
  "links B bs \<longleftrightarrow> map (nxt B) (bhead # bs) = bs @ [bhead] \<and> map (prv B) (bs @ [bhead]) = bhead # bs"

lemma lru_links: "lru B bs \<longleftrightarrow> links B bs \<and> distinct bs \<and> set bs = {..<NBUF}"
  by (auto simp: lru_def links_def nxt_def prv_def)

definition push_front :: "nat \<Rightarrow> (nat \<Rightarrow> buf) \<Rightarrow> nat \<Rightarrow> buf" where
  "push_front b B = (let B = upd b (\<lambda>x. x\<lparr>b_next := b_next (B bhead), b_prev := bhead\<rparr>) B;
     B = upd (b_next (B bhead)) (\<lambda>x. x\<lparr>b_prev := b\<rparr>) B in upd bhead (\<lambda>x. x\<lparr>b_next := b\<rparr>) B)"

lemma push_front_links:
  assumes "links B bs" and "b \<notin> set bs" and "b \<noteq> bhead" and "distinct bs" and "bhead \<notin> set bs"
  shows "links (push_front b B) (b # bs)"
proof -
  let ?h = "hd (bs @ [bhead])"
  have e: "b_next (A x) = nxt A x" for A x by (simp add: nxt_def)
  have n: "nxt B bhead = ?h" "map (nxt B) bs = tl (bs @ [bhead])"
    using assms(1) unfolding links_def by (metis list.sel list.map(2))+
  have p: "map (prv B) (bs @ [bhead]) = bhead # bs" using assms(1) by (simp add: links_def)
  have bh: "b \<noteq> ?h" using assms(2,3) by (cases bs) auto
  have N: "nxt (push_front b B) = (nxt B)(b := ?h, bhead := b)"
    unfolding push_front_def Let_def e link_upd using n(1) assms(3) by simp
  have P: "prv (push_front b B) = (prv B)(b := bhead, ?h := b)"
    unfolding push_front_def Let_def e link_upd using n(1) assms(3) by simp
  have "map (nxt (push_front b B)) bs = map (nxt B) bs" unfolding N using assms(2,5) by simp
  moreover have "?h # tl (bs @ [bhead]) = bs @ [bhead]" by (rule list.collapse) simp
  ultimately have 1: "map (nxt (push_front b B)) (bhead # b # bs) = b # bs @ [bhead]"
    using n(2) assms(3) unfolding N by simp
  have "map (prv (push_front b B)) (bs @ [bhead]) = map ((prv B)(?h := b)) (bs @ [bhead])"
    unfolding P using assms(2,3) by auto
  also have "\<dots> = b # bs" using map_upd_hd [of "bs @ [bhead]" "prv B" b] assms(4,5) p by simp
  finally have "map (prv (push_front b B)) (b # bs @ [bhead]) = bhead # b # bs" using bh unfolding P by simp
  with 1 show ?thesis by (simp add: links_def)
qed

lemma push_front_same: "same_data B (push_front b B)"
  unfolding push_front_def Let_def by (intro same_data_upd) (simp add: same_data_def)


lemma initlock_run:
  "initlock l e s = Ok () e (s\<lparr>lk := (lk s)\<lparr>locks := (locks (lk s))(l := \<lparr>locked = False, lcpu = None\<rparr>)\<rparr>\<rparr>)"
  by (simp add: initlock_def set_lock_def)

lemma setb_upd: "setb b f e s = Ok () e (s\<lparr>bufs := upd b f (bufs s)\<rparr>)"
  by (simp add: upd_def)

lemma binit_buf_run:
  "binit_buf b e s = Ok () e (s\<lparr>lk := (lk s)\<lparr>locks := (locks (lk s))(BufLock b := \<lparr>locked = False, lcpu = None\<rparr>)\<rparr>,
     sleeplocks := (sleeplocks s)(BufLock b := \<lparr>sl_locked = False, sl_pid = 0\<rparr>), bufs := push_front b (bufs s)\<rparr>)"
  by (simp add: binit_buf_def initsleeplock_def initlock_run setb_upd push_front_def Let_def del: setb_run)

definition buf_locks_free :: "nat \<Rightarrow> 'z sl_state_scheme \<Rightarrow> bool" where
  "buf_locks_free n s \<longleftrightarrow> lock_free BcacheLock (lk s) \<and>
     (\<forall>b < n. lock_free (BufLock b) (lk s) \<and> \<not> sl_locked (sleeplocks s (BufLock b)))"

lemma binit_loop:
  assumes "links (bufs s) []" and "lock_free BcacheLock (lk s)" and "n \<le> NBUF"
  shows "\<exists>s'. for_each [0..<n] binit_buf e s = Ok () e s'
     \<and> links (bufs s') (rev [0..<n]) \<and> same_data (bufs s) (bufs s') \<and> buf_locks_free n s'"
  using assms(3)
proof (induction n)
  case 0
  then show ?case using assms by (auto simp: same_data_def buf_locks_free_def)
next
  case (Suc n)
  then obtain s1 where s1: "for_each [0..<n] binit_buf e s = Ok () e s1"
    "links (bufs s1) (rev [0..<n])" "same_data (bufs s) (bufs s1)" "buf_locks_free n s1" by auto
  let ?s = "s1\<lparr>lk := (lk s1)\<lparr>locks := (locks (lk s1))(BufLock n := \<lparr>locked = False, lcpu = None\<rparr>)\<rparr>,
     sleeplocks := (sleeplocks s1)(BufLock n := \<lparr>sl_locked = False, sl_pid = 0\<rparr>), bufs := push_front n (bufs s1)\<rparr>"
  have "links (bufs ?s) (rev [0..<Suc n])"
    using push_front_links [OF s1(2), of n] Suc.prems by (auto simp: bhead_def)
  moreover have "same_data (bufs s) (bufs ?s)" using same_data_trans [OF s1(3) push_front_same] by simp
  moreover have "buf_locks_free (Suc n) ?s" using s1(4) by (auto simp: buf_locks_free_def lock_free_def less_Suc_eq)
  ultimately show ?case using s1(1)
    by (intro exI [of _ ?s]) (simp add: for_each_append binit_buf_run [of n e s1])
qed

text \<open>
  C23. Boot of the buffer cache: \<open>binit\<close> terminates with all buffers linked, each exactly once and in both
  directions, into the circular list, with every buffer lock free and no buffer's contents touched.
\<close>

theorem binit_links_all:
  "\<exists>s'. binit e s = Ok () e s' \<and> lru (bufs s') (rev [0..<NBUF]) \<and> same_data (bufs s) (bufs s') \<and> buf_locks_free NBUF s'"
proof -
  let ?s = "s\<lparr>lk := (lk s)\<lparr>locks := (locks (lk s))(BcacheLock := \<lparr>locked = False, lcpu = None\<rparr>)\<rparr>,
     bufs := (bufs s)(bhead := (bufs s bhead)\<lparr>b_prev := bhead, b_next := bhead\<rparr>)\<rparr>"
  have "links (bufs ?s) []" "lock_free BcacheLock (lk ?s)" "same_data (bufs s) (bufs ?s)"
    by (simp_all add: links_def nxt_def prv_def lock_free_def same_data_def)
  from binit_loop [OF this(1,2) order_refl, of e] same_data_trans [OF this(3)] show ?thesis
    by (auto simp: binit_def initlock_run lru_links)
qed

end
