(* ===== verification/Bio_Run.thy ===== *)
theory Bio_Run
  imports Lru
begin

text \<open>
  The contract of the buffer cache of \<open>kernel/bio.c\<close>. The blocks of the device, as the file system sees them
  through the cache, are the function \<open>view\<close>: the contents of the valid buffer of a block if there is one,
  and of the disk otherwise. \<open>bread\<close>, \<open>bwrite\<close> and \<open>brelse\<close> never change it.
\<close>

subsection \<open>The invariant\<close>

definition cached_in :: "u32 \<Rightarrow> (nat \<Rightarrow> buf) \<Rightarrow> u32 \<Rightarrow> nat \<Rightarrow> bool" where
  "cached_in d B n b \<longleftrightarrow> b < NBUF \<and> b_dev (B b) = d \<and> b_blockno (B b) = n"

text \<open>A block has at most one buffer; a buffer that nobody uses and that is valid agrees with the disk.\<close>

definition cache_ok :: "u32 \<Rightarrow> (nat \<Rightarrow> buf) \<Rightarrow> (u32 \<Rightarrow> bytes) \<Rightarrow> bool" where
  "cache_ok d B D \<longleftrightarrow>
     (\<forall>n b b'. cached_in d B n b \<longrightarrow> cached_in d B n b' \<longrightarrow> b = b') \<and>
     (\<forall>n b. cached_in d B n b \<longrightarrow> b_valid (B b) \<longrightarrow> b_refcnt (B b) = 0 \<longrightarrow> b_data (B b) = D n)"

definition locked_buf :: "'z sl_state_scheme \<Rightarrow> nat \<Rightarrow> bool" where
  "locked_buf s b \<longleftrightarrow> sl_locked (sleeplocks s (BufLock b))"

definition bio_inv :: "u32 \<Rightarrow> 'z bio_state_scheme \<Rightarrow> bool" where
  "bio_inv d s \<longleftrightarrow> all_free (lk s) \<and> my_proc s \<noteq> None \<and> (\<exists>bs. lru (bufs s) bs) \<and> cache_ok d (bufs s) (disk s) \<and>
     (\<forall>b < NBUF. locked_buf s b \<longrightarrow> b_refcnt (bufs s b) \<noteq> 0)"

lemma cache_uniq: "cache_ok d B D \<Longrightarrow> cached_in d B n b \<Longrightarrow> cached_in d B n b' \<Longrightarrow> b = b'"
  unfolding cache_ok_def by blast

lemma cache_clean: "cache_ok d B D \<Longrightarrow> cached_in d B n b \<Longrightarrow> b_valid (B b) \<Longrightarrow> b_refcnt (B b) = 0 \<Longrightarrow> b_data (B b) = D n"
  unfolding cache_ok_def by blast

lemma bio_invD:
  assumes "bio_inv d s"
  shows "all_free (lk s)" "my_proc s \<noteq> None" "cache_ok d (bufs s) (disk s)"
    "b < NBUF \<Longrightarrow> locked_buf s b \<Longrightarrow> b_refcnt (bufs s b) \<noteq> 0"
  using assms unfolding bio_inv_def by blast+

subsection \<open>The buffer of a block\<close>

definition bslot :: "u32 \<Rightarrow> (nat \<Rightarrow> buf) \<Rightarrow> u32 \<Rightarrow> nat option" where
  "bslot d B n = List.find (cached_in d B n) [0..<NBUF]"

lemma find_SomeD: "List.find P xs = Some x \<Longrightarrow> x \<in> set xs \<and> P x"
  by (induction xs) (auto split: if_splits)

lemma find_unique:
  assumes "P b" and "b \<in> set xs" and "\<And>b'. P b' \<Longrightarrow> b' = b"
  shows "List.find P xs = Some b"
  using assms(2)
proof (induction xs)
  case (Cons x xs)
  then show ?case using assms(1) assms(3) [of x] by (cases "P x") auto
qed simp

lemma bslot_Some:
  assumes "cache_ok d B D"
  shows "bslot d B n = Some b \<longleftrightarrow> cached_in d B n b"
proof
  assume "bslot d B n = Some b"
  then show "cached_in d B n b" unfolding bslot_def by (rule find_upt_SomeD(2))
next
  assume b: "cached_in d B n b"
  show "bslot d B n = Some b" unfolding bslot_def
  proof (rule find_unique)
    show "b \<in> set [0..<NBUF]" using b by (simp add: cached_in_def)
  qed (rule b, rule cache_uniq [OF assms _ b])
qed

lemma bslot_None: "bslot d B n = None \<longleftrightarrow> (\<forall>b. \<not> cached_in d B n b)"
  unfolding bslot_def find_upt_None_iff by (auto simp: cached_in_def)

text \<open>The search along the list finds it.\<close>

lemma find_lru:
  assumes "cache_ok d B D" and "lru B bs"
  shows "List.find (\<lambda>b. b_dev (B b) = d \<and> b_blockno (B b) = n) bs = bslot d B n"
proof (cases "bslot d B n")
  case None
  then have "find (\<lambda>b. b_dev (B b) = d \<and> b_blockno (B b) = n) bs = None"
    using lru_facts(2) [OF assms(2)] by (auto simp: bslot_None find_None_iff cached_in_def)
  with None show ?thesis by simp
next
  case (Some b)
  then have b: "cached_in d B n b" by (simp add: bslot_Some [OF assms(1)])
  have "b_dev (B b) = d \<and> b_blockno (B b) = n" "b \<in> set bs" using b lru_facts(2) [OF assms(2)] by (auto simp: cached_in_def)
  moreover have "find (\<lambda>b. b_dev (B b) = d \<and> b_blockno (B b) = n) bs = find (cached_in d B n) bs"
    by (rule find_cong) (use lru_facts(2) [OF assms(2)] in \<open>auto simp: cached_in_def\<close>)
  moreover have "find (cached_in d B n) bs = Some b"
    by (rule find_unique [where P = "cached_in d B n", OF b calculation(2)]) (rule cache_uniq [OF assms(1) _ b])
  ultimately show ?thesis using Some by simp
qed

subsection \<open>The cache as its clients see it\<close>

text \<open>
  The contents of the blocks through the cache, the disk and the writes to it, the number of references
  to each block, the blocks whose buffer is locked, and the number of buffers in use.
\<close>

record bcache =
  bc_view :: "u32 \<Rightarrow> bytes"
  bc_disk :: "u32 \<Rightarrow> bytes"
  bc_writes :: "(u32 \<times> bytes) list"
  bc_refs :: "u32 \<Rightarrow> u32"
  bc_held :: "u32 set"
  bc_busy :: nat

definition view :: "u32 \<Rightarrow> 'z bio_state_scheme \<Rightarrow> u32 \<Rightarrow> bytes" where
  "view d s n = (case bslot d (bufs s) n of
     Some b \<Rightarrow> if b_valid (bufs s b) then b_data (bufs s b) else disk s n | None \<Rightarrow> disk s n)"

definition refs :: "u32 \<Rightarrow> (nat \<Rightarrow> buf) \<Rightarrow> u32 \<Rightarrow> u32" where
  "refs d B n = (case bslot d B n of Some b \<Rightarrow> b_refcnt (B b) | None \<Rightarrow> 0)"

definition held :: "u32 \<Rightarrow> 'z bio_state_scheme \<Rightarrow> u32 set" where
  "held d s = {n. \<exists>b. bslot d (bufs s) n = Some b \<and> locked_buf s b}"

definition busy :: "(nat \<Rightarrow> buf) \<Rightarrow> nat" where
  "busy B = length (filter (\<lambda>b. b_refcnt (B b) \<noteq> 0) [0..<NBUF])"

definition cache_of :: "u32 \<Rightarrow> 'z bio_state_scheme \<Rightarrow> bcache" where
  "cache_of d s = \<lparr>bc_view = view d s, bc_disk = disk s, bc_writes = writes s, bc_refs = refs d (bufs s),
     bc_held = held d s, bc_busy = busy (bufs s)\<rparr>"

text \<open>Relinking the buffers changes nothing.\<close>

lemma same_data_refl: "same_data B B"
  by (simp add: same_data_def)

lemma same_dataD:
  assumes "same_data B B'"
  shows "b_valid (B' b) = b_valid (B b)" "b_dev (B' b) = b_dev (B b)" "b_blockno (B' b) = b_blockno (B b)"
    "b_refcnt (B' b) = b_refcnt (B b)" "b_data (B' b) = b_data (B b)"
  using assms unfolding same_data_def by blast+

lemma same_data_cache:
  assumes "same_data B B'"
  shows "cached_in d B' = cached_in d B" "cache_ok d B' D = cache_ok d B D" "bslot d B' = bslot d B" "refs d B' = refs d B" "busy B' = busy B"
proof -
  show c: "cached_in d B' = cached_in d B" by (simp only: cached_in_def fun_eq_iff same_dataD [OF assms] simp_thms)
  then show "cache_ok d B' D = cache_ok d B D" by (simp only: cache_ok_def same_dataD [OF assms])
  show b: "bslot d B' = bslot d B" by (simp only: bslot_def c fun_eq_iff simp_thms)
  show "refs d B' = refs d B" by (simp only: refs_def b same_dataD [OF assms] fun_eq_iff simp_thms)
  show "busy B' = busy B" by (simp only: busy_def same_dataD [OF assms])
qed

text \<open>What the operations do to it.\<close>

definition bc_read :: "u32 \<Rightarrow> bcache \<Rightarrow> bcache" where
  "bc_read n c = c\<lparr>bc_refs := (bc_refs c)(n := bc_refs c n + 1), bc_held := insert n (bc_held c),
     bc_busy := bc_busy c + (if bc_refs c n = 0 then 1 else 0)\<rparr>"

definition bc_set :: "u32 \<Rightarrow> bytes \<Rightarrow> bcache \<Rightarrow> bcache" where
  "bc_set n v c = c\<lparr>bc_view := (bc_view c)(n := v)\<rparr>"

definition bc_write :: "u32 \<Rightarrow> bcache \<Rightarrow> bcache" where
  "bc_write n c = c\<lparr>bc_disk := (bc_disk c)(n := bc_view c n), bc_writes := bc_writes c @ [(n, bc_view c n)]\<rparr>"

definition bc_pin :: "u32 \<Rightarrow> bcache \<Rightarrow> bcache" where
  "bc_pin n c = c\<lparr>bc_refs := (bc_refs c)(n := bc_refs c n + 1)\<rparr>"

definition bc_unpin :: "u32 \<Rightarrow> bcache \<Rightarrow> bcache" where
  "bc_unpin n c = c\<lparr>bc_refs := (bc_refs c)(n := bc_refs c n - 1)\<rparr>"

definition bc_relse :: "u32 \<Rightarrow> bcache \<Rightarrow> bcache" where
  "bc_relse n c = c\<lparr>bc_refs := (bc_refs c)(n := bc_refs c n - 1), bc_held := bc_held c - {n},
     bc_busy := bc_busy c - (if bc_refs c n = 1 then 1 else 0)\<rparr>"

text \<open>Outside the cache and its locks an operation changes the threads it wakes up only.\<close>

definition rest :: "'z bio_state_scheme \<Rightarrow> 'z bio_state_scheme" where
  "rest s = s\<lparr>procs := (\<lambda>_. sample_proc), sleeplocks := (\<lambda>_. \<lparr>sl_locked = False, sl_pid = 0\<rparr>),
     bufs := (\<lambda>_. sample_buf), disk := (\<lambda>_ _. 0), writes := []\<rparr>"

definition touches :: "'z bio_state_scheme \<Rightarrow> 'z bio_state_scheme \<Rightarrow> bool" where
  "touches s s' \<longleftrightarrow> rest s' = rest s \<and> woken_only (procs s) (procs s')"

lemma rest_upd [simp]:
  "rest (s\<lparr>procs := P\<rparr>) = rest s" "rest (s\<lparr>sleeplocks := L\<rparr>) = rest s" "rest (s\<lparr>bufs := B\<rparr>) = rest s"
  "rest (s\<lparr>disk := D\<rparr>) = rest s" "rest (s\<lparr>writes := W\<rparr>) = rest s"
  by (simp_all add: rest_def)

lemma touches_refl [simp]: "touches s s"
  by (simp add: touches_def)

lemma touches_trans [trans]: "touches s t \<Longrightarrow> touches t u \<Longrightarrow> touches s u"
  unfolding touches_def using woken_only_trans by auto

lemma rest_simps: "lk (rest s) = lk s" "img (rest s) = img s" "mem (rest s) = mem s" "bio_state.more (rest s) = bio_state.more s"
  by (simp_all add: rest_def)

text \<open>The caller has locked buffer \<open>b\<close>, which holds block \<open>n\<close>.\<close>

definition buf_at :: "u32 \<Rightarrow> 'z bio_state_scheme \<Rightarrow> u32 \<Rightarrow> nat \<Rightarrow> bool" where
  "buf_at d s n b \<longleftrightarrow> cached_in d (bufs s) n b \<and> b_valid (bufs s b)
     \<and> sleeplocks s (BufLock b) = \<lparr>sl_locked = True, sl_pid = my_pid s\<rparr>"

subsection \<open>Storing into one buffer\<close>

text \<open>The buffer has block \<open>n\<close> or, if no buffer has it, is free to get it.\<close>

definition buf_for :: "u32 \<Rightarrow> (nat \<Rightarrow> buf) \<Rightarrow> u32 \<Rightarrow> nat \<Rightarrow> bool" where
  "buf_for d B n b \<longleftrightarrow> b < NBUF \<and> (bslot d B n = Some b \<or> bslot d B n = None \<and> b_refcnt (B b) = 0)"

lemma cached_upd:
  assumes "b < NBUF" and "b_dev x = d" and "b_blockno x = n"
  shows "cached_in d (B(b := x)) m b' \<longleftrightarrow> (if b' = b then m = n else cached_in d B m b')"
  using assms by (auto simp: cached_in_def)

lemma cache_ok_upd:
  assumes c: "cache_ok d B D" and b: "buf_for d B n b" and x: "b_dev x = d" "b_blockno x = n"
    and v: "b_valid x \<Longrightarrow> b_refcnt x = 0 \<Longrightarrow> b_data x = D' n" and D: "\<And>m. m \<noteq> n \<Longrightarrow> D' m = D m"
  shows "cache_ok d (B(b := x)) D'"
proof -
  have n: "b < NBUF" and u: "cached_in d B n b' \<Longrightarrow> b' = b" for b'
    using b bslot_Some [OF c, of n b'] by (auto simp: buf_for_def)
  note cu = cached_upd [OF n x, of B]
  have "b1 = b2" if "cached_in d (B(b := x)) m b1" "cached_in d (B(b := x)) m b2" for m b1 b2
    using that u [of b1] u [of b2] cache_uniq [OF c, of m b1 b2] by (auto simp: cu split: if_splits)
  moreover have "b_data ((B(b := x)) b1) = D' m"
    if h: "cached_in d (B(b := x)) m b1" "b_valid ((B(b := x)) b1)" "b_refcnt ((B(b := x)) b1) = 0" for m b1
  proof (cases "b1 = b")
    case True
    then show ?thesis using h v by (simp add: cu)
  next
    case False
    then have "cached_in d B m b1" using h(1) by (simp add: cu)
    moreover from this have "m \<noteq> n" using u False by blast
    ultimately show ?thesis using h False cache_clean [OF c] D by simp
  qed
  ultimately show ?thesis unfolding cache_ok_def by blast
qed

lemma option_ext: "(\<And>x. a = Some x \<longleftrightarrow> b = Some x) \<Longrightarrow> a = b"
  by (metis not_Some_eq)

lemma bslot_upd:
  assumes c: "cache_ok d B D" and b: "buf_for d B n b" and x: "b_dev x = d" "b_blockno x = n"
  shows "bslot d (B(b := x)) m = (if m = n then Some b else if bslot d B m = Some b then None else bslot d B m)"
proof -
  have n: "b < NBUF" using b by (simp add: buf_for_def)
  have c': "cache_ok d (B(b := x\<lparr>b_refcnt := 1\<rparr>)) D" by (rule cache_ok_upd [OF c b]) (simp_all add: x)
  have "cached_in d (B(b := x)) m = cached_in d (B(b := x\<lparr>b_refcnt := 1\<rparr>)) m" for m by (simp add: fun_eq_iff cached_in_def)
  then have e: "bslot d (B(b := x)) m = bslot d (B(b := x\<lparr>b_refcnt := 1\<rparr>)) m" for m unfolding bslot_def by (rule arg_cong)
  have cu: "cached_in d (B(b := x\<lparr>b_refcnt := 1\<rparr>)) m b' \<longleftrightarrow> (if b' = b then m = n else cached_in d B m b')" for m b'
    by (rule cached_upd) (simp_all add: n x)
  have "bslot d (B(b := x)) m = Some b' \<longleftrightarrow> (if b' = b then m = n else bslot d B m = Some b')" for b'
    unfolding e bslot_Some [OF c'] cu bslot_Some [OF c] by simp
  then show ?thesis using b unfolding buf_for_def by (intro option_ext) (auto split: if_splits)
qed

lemma busy_upd:
  assumes "b < NBUF"
  shows "busy (B(b := x)) + (if b_refcnt (B b) \<noteq> 0 then 1 else 0) = busy B + (if b_refcnt x \<noteq> 0 then 1 else 0)"
proof -
  let ?f = "\<lambda>B. filter (\<lambda>b. b_refcnt (B b) \<noteq> 0)"
  have u: "[0..<NBUF] = [0..<b] @ b # [Suc b..<NBUF]" using assms upt_add_eq_append [of 0 b "NBUF - b"] by (simp add: upt_conv_Cons)
  have "?f (B(b := x)) [0..<b] = ?f B [0..<b]" "?f (B(b := x)) [Suc b..<NBUF] = ?f B [Suc b..<NBUF]"
    by (auto intro!: filter_cong)
  then show ?thesis unfolding busy_def u filter_append by simp
qed

text \<open>
  The effect on the cache of a step that stores \<open>x\<close> into the buffer \<open>b\<close>, may relink the buffers, and may change
  the lock of \<open>b\<close> and the contents of block \<open>n\<close> on the disk.
\<close>

definition stored :: "u32 \<Rightarrow> u32 \<Rightarrow> nat \<Rightarrow> buf \<Rightarrow> 'z bio_state_scheme \<Rightarrow> 'z bio_state_scheme \<Rightarrow> bool" where
  "stored d n b x s s' \<longleftrightarrow> buf_for d (bufs s) n b \<and> b_dev x = d \<and> b_blockno x = n
     \<and> same_data ((bufs s)(b := x)) (bufs s') \<and> (\<exists>bs. lru (bufs s') bs) \<and> (\<forall>m. m \<noteq> n \<longrightarrow> disk s' m = disk s m)
     \<and> (\<forall>b'. b' \<noteq> b \<longrightarrow> sleeplocks s' (BufLock b') = sleeplocks s (BufLock b')) \<and> touches s s'
     \<and> (b_valid x \<longrightarrow> b_refcnt x = 0 \<longrightarrow> b_data x = disk s' n) \<and> (locked_buf s' b \<longrightarrow> b_refcnt x \<noteq> 0)"

lemma touchesD:
  assumes "touches s s'"
  shows "lk s' = lk s" "img s' = img s" "mem s' = mem s" "bio_state.more s' = bio_state.more s" "my_proc s' = my_proc s" "my_pid s' = my_pid s"
proof -
  have r: "rest s' = rest s" and w: "woken_only (procs s) (procs s')" using assms by (simp_all add: touches_def)
  show l: "lk s' = lk s" "img s' = img s" "mem s' = mem s" "bio_state.more s' = bio_state.more s"
    unfolding rest_simps [of s', symmetric] rest_simps [of s, symmetric] r by (rule refl)+
  then show "my_proc s' = my_proc s" by simp
  then show "my_pid s' = my_pid s" using woken_only_simps(1) [OF w] by (simp add: my_pid_def)
qed

lemma stored_inv:
  assumes i: "bio_inv d s" and st: "stored d n b x s s'"
  shows "bio_inv d s'"
proof -
  have st': "buf_for d (bufs s) n b" "b_dev x = d" "b_blockno x = n" "same_data ((bufs s)(b := x)) (bufs s')" "\<exists>bs. lru (bufs s') bs"
    "\<And>m. m \<noteq> n \<Longrightarrow> disk s' m = disk s m" "\<And>b'. b' \<noteq> b \<Longrightarrow> sleeplocks s' (BufLock b') = sleeplocks s (BufLock b')"
    "touches s s'" "b_valid x \<Longrightarrow> b_refcnt x = 0 \<Longrightarrow> b_data x = disk s' n" "locked_buf s' b \<Longrightarrow> b_refcnt x \<noteq> 0"
    using st by (simp_all add: stored_def)
  have "cache_ok d ((bufs s)(b := x)) (disk s')"
    by (rule cache_ok_upd [OF bio_invD(3) [OF i] st'(1-3)]) (use st'(6,9) in simp_all)
  then have "cache_ok d (bufs s') (disk s')" unfolding same_data_cache(2) [OF st'(4)] .
  moreover have "b_refcnt (bufs s' b') \<noteq> 0" if "b' < NBUF" "locked_buf s' b'" for b'
    using that st'(7,10) bio_invD(4) [OF i that(1)] same_dataD(4) [OF st'(4), of b'] by (cases "b' = b") (simp_all add: locked_buf_def)
  ultimately show ?thesis
    using i st'(5) touchesD [OF st'(8)] unfolding bio_inv_def by simp
qed

lemma stored_parts:
  assumes i: "bio_inv d s" and st: "stored d n b x s s'"
  shows "view d s' = (view d s)(n := if b_valid x then b_data x else disk s' n)"
    and "refs d (bufs s') = (refs d (bufs s))(n := b_refcnt x)"
    and "held d s' = (if locked_buf s' b then insert n (held d s) else held d s - {n})"
    and "busy (bufs s') = busy (bufs s) + (if b_refcnt x \<noteq> 0 then 1 else 0) - (if b_refcnt (bufs s b) \<noteq> 0 then 1 else 0)"
proof -
  let ?B = "(bufs s)(b := x)"
  note c = bio_invD(3) [OF i]
  have st': "buf_for d (bufs s) n b" "b_dev x = d" "b_blockno x = n" "same_data ?B (bufs s')"
    "\<And>m. m \<noteq> n \<Longrightarrow> disk s' m = disk s m" "\<And>b'. b' \<noteq> b \<Longrightarrow> locked_buf s' b' = locked_buf s b'"
    using st by (simp_all add: stored_def locked_buf_def)
  note sl = bslot_upd [OF c st'(1-3)]
  have b: "bslot d ?B n = Some b" by (simp add: sl)
  have o: "bslot d ?B m = (if bslot d (bufs s) m = Some b then None else bslot d (bufs s) m)" if "m \<noteq> n" for m
    using that by (simp add: sl)
  have old: "b_refcnt (bufs s b) = 0 \<and> cached_in d (bufs s) m b" if "m \<noteq> n" "bslot d (bufs s) m = Some b" for m
  proof -
    have "cached_in d (bufs s) m b" using that(2) by (simp add: bslot_Some [OF c])
    then have "bslot d (bufs s) n \<noteq> Some b" using that(1) by (auto simp: bslot_Some [OF c] cached_in_def)
    with \<open>cached_in d (bufs s) m b\<close> show ?thesis using st'(1) by (simp add: buf_for_def)
  qed
  show "view d s' = (view d s)(n := if b_valid x then b_data x else disk s' n)"
  proof
    fix m
    show "view d s' m = ((view d s)(n := if b_valid x then b_data x else disk s' n)) m"
    proof (cases "m = n")
      case True
      then show ?thesis by (simp add: view_def same_data_cache(3) [OF st'(4)] same_dataD [OF st'(4)] b)
    next
      case False
      then show ?thesis using old [OF False] cache_clean [OF c, of m b]
        by (auto simp: view_def same_data_cache(3) [OF st'(4)] same_dataD [OF st'(4)] o [OF False] st'(5) split: option.split)
    qed
  qed
  show "refs d (bufs s') = (refs d (bufs s))(n := b_refcnt x)"
  proof
    fix m
    show "refs d (bufs s') m = ((refs d (bufs s))(n := b_refcnt x)) m"
      unfolding same_data_cache(4) [OF st'(4)]
      using old [of m] by (cases "m = n") (auto simp: refs_def b o split: option.split)
  qed
  have "n \<in> held d s' \<longleftrightarrow> locked_buf s' b" by (simp add: held_def same_data_cache(3) [OF st'(4)] b)
  moreover have "m \<in> held d s' \<longleftrightarrow> m \<in> held d s" if m: "m \<noteq> n" for m
  proof -
    have "\<not> locked_buf s b" if "bslot d (bufs s) m = Some b"
      using old [OF m that] bio_invD(4) [OF i, of b] by (auto simp: cached_in_def)
    then show ?thesis using st'(6) by (auto simp: held_def same_data_cache(3) [OF st'(4)] o [OF m])
  qed
  ultimately have "m \<in> held d s' \<longleftrightarrow> (if m = n then locked_buf s' b else m \<in> held d s)" for m by (cases "m = n") simp_all
  then show "held d s' = (if locked_buf s' b then insert n (held d s) else held d s - {n})"
    by (cases "locked_buf s' b") (simp_all add: set_eq_iff)
  show "busy (bufs s') = busy (bufs s) + (if b_refcnt x \<noteq> 0 then 1 else 0) - (if b_refcnt (bufs s b) \<noteq> 0 then 1 else 0)"
    using busy_upd [of b "bufs s" x] st'(1) unfolding same_data_cache(5) [OF st'(4)] by (simp add: buf_for_def split: if_splits)
qed

text \<open>Other locked buffers stay as they are.\<close>

lemma stored_others:
  assumes i: "bio_inv d s" and st: "stored d n b x s s'" and "m \<noteq> n" and "buf_at d s m b'"
  shows "buf_at d s' m b'"
proof -
  have "locked_buf s b'" "b' < NBUF" using assms(4) by (simp_all add: buf_at_def locked_buf_def cached_in_def)
  then have r: "b_refcnt (bufs s b') \<noteq> 0" using bio_invD(4) [OF i] by simp
  have "b' \<noteq> b"
    using assms(3,4) r st bslot_Some [OF bio_invD(3) [OF i], of n b]
    by (auto simp: buf_at_def stored_def buf_for_def cached_in_def)
  then show ?thesis
    using assms(4) st same_dataD [of "(bufs s)(b := x)" "bufs s'" b'] same_data_cache(1) [of "(bufs s)(b := x)" "bufs s'" d] touchesD(6) [of s s']
    by (simp add: buf_at_def stored_def cached_in_def)
qed

text \<open>A step of a client of the cache.\<close>

definition bio_step :: "u32 \<Rightarrow> 'z bio_state_scheme \<Rightarrow> bcache \<Rightarrow> 'z bio_state_scheme \<Rightarrow> bool" where
  "bio_step d s c s' \<longleftrightarrow> bio_inv d s' \<and> cache_of d s' = c \<and> touches s s'
     \<and> (\<forall>m b'. m \<in> bc_held c \<longrightarrow> buf_at d s m b' \<longrightarrow> buf_at d s' m b')"

definition stored_cache :: "u32 \<Rightarrow> u32 \<Rightarrow> nat \<Rightarrow> buf \<Rightarrow> 'z bio_state_scheme \<Rightarrow> 'z bio_state_scheme \<Rightarrow> bcache" where
  "stored_cache d n b x s s' = \<lparr>bc_view = (view d s)(n := if b_valid x then b_data x else disk s' n), bc_disk = disk s',
     bc_writes = writes s', bc_refs = (refs d (bufs s))(n := b_refcnt x),
     bc_held = (if locked_buf s' b then insert n (held d s) else held d s - {n}),
     bc_busy = busy (bufs s) + (if b_refcnt x \<noteq> 0 then 1 else 0) - (if b_refcnt (bufs s b) \<noteq> 0 then 1 else 0)\<rparr>"

lemma stored_step:
  assumes i: "bio_inv d s" and st: "stored d n b x s s'"
    and own: "n \<in> held d s' \<Longrightarrow> buf_at d s n b \<Longrightarrow> buf_at d s' n b"
    and c: "stored_cache d n b x s s' = c"
  shows "bio_step d s c s'"
proof -
  have "cache_of d s' = c" unfolding c [symmetric] by (simp add: cache_of_def stored_cache_def stored_parts [OF i st])
  moreover have "buf_at d s' m b'" if "m \<in> bc_held c" "buf_at d s m b'" for m b'
  proof (cases "m = n")
    case True
    moreover have "b' = b" if "m = n"
      using \<open>buf_at d s m b'\<close> that st bslot_Some [OF bio_invD(3) [OF i], of n b'] by (auto simp: buf_at_def stored_def buf_for_def)
    ultimately show ?thesis using own that \<open>cache_of d s' = c\<close> by (auto simp: cache_of_def)
  qed (rule stored_others [OF i st _ that(2)])
  ultimately show ?thesis using stored_inv [OF i st] st by (simp add: bio_step_def stored_def)
qed

lemma lru_upd_links: "(\<And>x. b_next (f x) = b_next x \<and> b_prev (f x) = b_prev x) \<Longrightarrow> lru (upd b f B) bs = lru B bs"
  by (rule lru_cong) (simp_all add: upd_def)

lemma buf_atD:
  assumes "bio_inv d s" and "buf_at d s n b"
  shows "b < NBUF" "b_dev (bufs s b) = d" "b_blockno (bufs s b) = n" "b_valid (bufs s b)" "locked_buf s b"
    "bslot d (bufs s) n = Some b" "b_refcnt (bufs s b) \<noteq> 0" "b_data (bufs s b) = view d s n" "b_refcnt (bufs s b) = refs d (bufs s) n" "n \<in> held d s"
    "buf_for d (bufs s) n b"
proof -
  show a: "b < NBUF" "b_dev (bufs s b) = d" "b_blockno (bufs s b) = n" "b_valid (bufs s b)" "locked_buf s b"
    using assms(2) by (simp_all add: buf_at_def cached_in_def locked_buf_def)
  show b: "bslot d (bufs s) n = Some b"
    unfolding bslot_Some [OF bio_invD(3) [OF assms(1)]] using assms(2) by (simp add: buf_at_def)
  show "b_refcnt (bufs s b) \<noteq> 0" using bio_invD(4) [OF assms(1) a(1,5)] .
  show "b_data (bufs s b) = view d s n" "b_refcnt (bufs s b) = refs d (bufs s) n" "n \<in> held d s" "buf_for d (bufs s) n b"
    using a b by (simp_all add: view_def refs_def held_def buf_for_def)
qed

subsection \<open>The operations\<close>

text \<open>Changing the contents, writing them, pinning and unpinning.\<close>

lemmas buf_at_simps = buf_at_def cached_in_def my_pid_def locked_buf_def upd_def

lemma set_data_step:
  assumes i: "bio_inv d s" and b: "buf_at d s n b"
  shows "\<exists>s'. setb b (\<lambda>x. x\<lparr>b_data := v\<rparr>) e s = Ok () e s' \<and> bio_step d s (bc_set n v (cache_of d s)) s'"
proof -
  note a = buf_atD [OF i b]
  let ?x = "(bufs s b)\<lparr>b_data := v\<rparr>" and ?s = "s\<lparr>bufs := upd b (\<lambda>x. x\<lparr>b_data := v\<rparr>) (bufs s)\<rparr>"
  have "\<exists>bs. lru (bufs ?s) bs" using i by (simp add: bio_inv_def lru_upd_links)
  then have st: "stored d n b ?x s ?s" using a by (simp add: stored_def upd_def same_data_def touches_def)
  have "locked_buf ?s b" using a(5) by (simp add: locked_buf_def)
  then have "stored_cache d n b ?x s ?s = bc_set n v (cache_of d s)"
    using a(4,9,10) by (simp add: stored_cache_def bc_set_def cache_of_def insert_absorb)
  from stored_step [OF i st _ this] b show ?thesis by (simp add: setb_upd buf_at_simps)
qed

lemma bwrite_step:
  assumes i: "bio_inv d s" and b: "buf_at d s n b"
  shows "\<exists>s'. bwrite b e s = Ok () e s' \<and> bio_step d s (bc_write n (cache_of d s)) s'"
proof -
  note a = buf_atD [OF i b]
  let ?s = "s\<lparr>disk := (disk s)(n := view d s n), writes := writes s @ [(n, view d s n)]\<rparr>"
  have "\<exists>bs. lru (bufs ?s) bs" using i by (simp add: bio_inv_def)
  then have st: "stored d n b (bufs s b) s ?s" using a by (simp add: stored_def same_data_def touches_def)
  have "locked_buf ?s b" using a(5) by (simp add: locked_buf_def)
  then have "stored_cache d n b (bufs s b) s ?s = bc_write n (cache_of d s)"
    using a(4,8,9,10) by (simp add: stored_cache_def bc_write_def cache_of_def insert_absorb)
  from stored_step [OF i st _ this] b have "bio_step d s (bc_write n (cache_of d s)) ?s" by (simp add: buf_at_simps)
  moreover have "bwrite b e s = Ok () e ?s"
    using a b bio_invD(1,2) [OF i] by (simp add: bwrite_def holdingsleep_run disk_rw_def buf_at_def)
  ultimately show ?thesis by blast
qed

text \<open>A change of the reference count that does not make it 0.\<close>

lemma set_refcnt_step:
  assumes i: "bio_inv d s" and b: "buf_at d s n b" and r: "r \<noteq> 0"
  shows "bio_step d s ((cache_of d s)\<lparr>bc_refs := (refs d (bufs s))(n := r)\<rparr>) (s\<lparr>bufs := upd b (\<lambda>x. x\<lparr>b_refcnt := r\<rparr>) (bufs s)\<rparr>)"
proof -
  note a = buf_atD [OF i b]
  let ?x = "(bufs s b)\<lparr>b_refcnt := r\<rparr>" and ?s = "s\<lparr>bufs := upd b (\<lambda>x. x\<lparr>b_refcnt := r\<rparr>) (bufs s)\<rparr>"
  have "\<exists>bs. lru (bufs ?s) bs" using i by (simp add: bio_inv_def lru_upd_links)
  then have st: "stored d n b ?x s ?s" using a r by (simp add: stored_def upd_def same_data_def touches_def)
  have "locked_buf ?s b" using a(5) by (simp add: locked_buf_def)
  then have "stored_cache d n b ?x s ?s = (cache_of d s)\<lparr>bc_refs := (refs d (bufs s))(n := r)\<rparr>"
    using a(4,7,8,10) r by (simp add: stored_cache_def cache_of_def insert_absorb)
  from stored_step [OF i st _ this] b show ?thesis by (simp add: buf_at_simps)
qed

lemma bpin_step:
  assumes i: "bio_inv d s" and b: "buf_at d s n b" and r: "refs d (bufs s) n + 1 \<noteq> 0"
  shows "\<exists>s'. bpin b e s = Ok () e s' \<and> bio_step d s (bc_pin n (cache_of d s)) s'"
  using set_refcnt_step [OF i b r] bio_invD(1) [OF i] buf_atD(9) [OF i b]
  by (simp add: bpin_def lock_run upd_def bc_pin_def cache_of_def)

lemma bunpin_step:
  assumes i: "bio_inv d s" and b: "buf_at d s n b" and r: "refs d (bufs s) n \<noteq> 1"
  shows "\<exists>s'. bunpin b e s = Ok () e s' \<and> bio_step d s (bc_unpin n (cache_of d s)) s'"
proof -
  have "refs d (bufs s) n - 1 \<noteq> 0" using r by auto
  from set_refcnt_step [OF i b this] show ?thesis using bio_invD(1) [OF i] buf_atD(9) [OF i b]
    by (simp add: bunpin_def lock_run upd_def bc_unpin_def cache_of_def)
qed

text \<open>\<open>bread\<close>: the buffer of the block, or the first free one from the back of the list, is locked and filled.\<close>

definition read_buf :: "u32 \<Rightarrow> u32 \<Rightarrow> 'z bio_state_scheme \<Rightarrow> nat \<Rightarrow> buf" where
  "read_buf d n s b = (bufs s b)\<lparr>b_dev := d, b_blockno := n, b_refcnt := b_refcnt (bufs s b) + 1,
     b_data := view d s n, b_valid := True\<rparr>"

definition got_buf :: "u32 \<Rightarrow> u32 \<Rightarrow> nat \<Rightarrow> 'z bio_state_scheme \<Rightarrow> 'z bio_state_scheme" where
  "got_buf d n b s = s\<lparr>bufs := (bufs s)(b := if bslot d (bufs s) n = None
       then (bufs s b)\<lparr>b_dev := d, b_blockno := n, b_valid := False, b_refcnt := 1\<rparr>
       else (bufs s b)\<lparr>b_refcnt := b_refcnt (bufs s b) + 1\<rparr>),
     sleeplocks := (sleeplocks s)(BufLock b := \<lparr>sl_locked = True, sl_pid = my_pid s\<rparr>)\<rparr>"

lemma bget_run:
  assumes i: "bio_inv d s" and h: "n \<notin> held d s" and l: "lru (bufs s) bs"
  shows "bget d n e s = (case (case bslot d (bufs s) n of Some b \<Rightarrow> Some b
       | None \<Rightarrow> List.find (\<lambda>b. b_refcnt (bufs s b) = 0) (rev bs)) of
     Some b \<Rightarrow> Ok b e (got_buf d n b s) | None \<Rightarrow> Panic ''bget: no buffers'')"
proof -
  note k = bio_invD(1,2) [OF i] and c = bio_invD(3) [OF i]
  let ?s = "s\<lparr>lk := lk_acq BcacheLock (lk s)\<rparr>"
  have n: "bfind_next (Suc NBUF) (b_next (bufs s bhead)) d n e ?s = Ok (bslot d (bufs s) n) e ?s"
    using lru_next [of ?s bs d n e] l find_lru [OF c l, of n] by simp
  have p: "bfind_prev (Suc NBUF) (b_prev (bufs s bhead)) e ?s = Ok (List.find (\<lambda>b. b_refcnt (bufs s b) = 0) (rev bs)) e ?s"
    using lru_prev [of ?s bs e] l by simp
  show ?thesis
  proof (cases "bslot d (bufs s) n")
    case (Some b)
    then have "\<not> sl_locked (sleeplocks s (BufLock b))" using h by (simp add: held_def locked_buf_def)
    then show ?thesis using Some n k
      by (simp add: bget_def lock_run acquiresleep_free got_buf_def my_pid_def del: bfind_next.simps bfind_prev.simps)
  next
    case None
    show ?thesis
    proof (cases "List.find (\<lambda>b. b_refcnt (bufs s b) = 0) (rev bs)")
      case r: None
      then show ?thesis using None n p k by (simp add: bget_def lock_run del: bfind_next.simps bfind_prev.simps)
    next
      case r: (Some b)
      then have "b \<in> set bs" "b_refcnt (bufs s b) = 0" using find_SomeD [OF r] by simp_all
      then have "\<not> sl_locked (sleeplocks s (BufLock b))"
        using bio_invD(4) [OF i, of b] lru_facts(2) [OF l] by (auto simp: locked_buf_def)
      then show ?thesis using None r n p k
        by (simp add: bget_def lock_run acquiresleep_free got_buf_def my_pid_def del: bfind_next.simps bfind_prev.simps)
    qed
  qed
qed

lemma bread_stored:
  assumes i: "bio_inv d s" and b: "buf_for d (bufs s) n b" and g: "bget d n e s = Ok b e (got_buf d n b s)"
    and r: "b_refcnt (bufs s b) + 1 \<noteq> 0"
  shows "\<exists>s'. bread d n e s = Ok b e s' \<and> stored d n b (read_buf d n s b) s s' \<and> disk s' = disk s \<and> writes s' = writes s
     \<and> sleeplocks s' (BufLock b) = \<lparr>sl_locked = True, sl_pid = my_pid s\<rparr>"
proof -
  let ?L = "(sleeplocks s)(BufLock b := \<lparr>sl_locked = True, sl_pid = my_pid s\<rparr>)"
  have s: "stored d n b (read_buf d n s b) s s'" if "bufs s' = (bufs s)(b := read_buf d n s b)"
    "disk s' = disk s" "sleeplocks s' = ?L" "touches s s'" for s'
  proof -
    obtain bs where "lru (bufs s) bs" using i unfolding bio_inv_def by blast
    then have "lru (bufs s') bs"
      unfolding that(1) by (subst lru_cong [of _ "bufs s"]) (simp_all add: read_buf_def)
    then show ?thesis using b r that by (auto simp: stored_def same_data_def read_buf_def)
  qed
  have blk: "(bufs s b)\<lparr>b_dev := d, b_blockno := n\<rparr> = bufs s b" if "bslot d (bufs s) n = Some b"
    using that by (simp add: bslot_Some [OF bio_invD(3) [OF i]] cached_in_def)
  let ?s = "\<lambda>B. s\<lparr>sleeplocks := ?L, bufs := B\<rparr>"
  have t: "touches s (?s B)" for B by (simp add: touches_def)
  show ?thesis
  proof (cases "bslot d (bufs s) n")
    case None
    then have "view d s n = disk s n" "b_refcnt (bufs s b) = 0" using b by (simp_all add: view_def buf_for_def)
    then have "bread d n e s = Ok b e (?s ((bufs s)(b := read_buf d n s b)))"
      using g None by (simp add: bread_def got_buf_def disk_rw_def read_buf_def)
    then show ?thesis using s [of "?s ((bufs s)(b := read_buf d n s b))"] t by simp
  next
    case (Some b')
    with b have sb: "bslot d (bufs s) n = Some b" by (simp add: buf_for_def)
    show ?thesis
    proof (cases "b_valid (bufs s b)")
      case True
      then have "view d s n = b_data (bufs s b)" using sb by (simp add: view_def)
      moreover from this have "(bufs s)(b := read_buf d n s b) = (bufs s)(b := (bufs s b)\<lparr>b_refcnt := b_refcnt (bufs s b) + 1\<rparr>)"
        unfolding read_buf_def blk [OF sb] using True by (intro arg_cong [where f = "fun_upd _ _"] buf.equality) simp_all
      ultimately show ?thesis using g sb True s [of "got_buf d n b s"]
        by (simp add: bread_def got_buf_def touches_def)
    next
      case False
      have bn: "b_blockno (bufs s b) = n" using sb by (simp add: bslot_Some [OF bio_invD(3) [OF i]] cached_in_def)
      have "view d s n = disk s n" using sb False by (simp add: view_def)
      then have "bread d n e s = Ok b e (?s ((bufs s)(b := read_buf d n s b)))"
        unfolding read_buf_def blk [OF sb] using g sb False bn by (simp add: bread_def got_buf_def disk_rw_def)
      then show ?thesis using s [of "?s ((bufs s)(b := read_buf d n s b))"] t by simp
    qed
  qed
qed

lemma bread_step:
  assumes i: "bio_inv d s" and h: "n \<notin> held d s" and r: "refs d (bufs s) n + 1 \<noteq> 0" and f: "refs d (bufs s) n \<noteq> 0 \<or> busy (bufs s) < NBUF"
  shows "\<exists>b s'. bread d n e s = Ok b e s' \<and> bio_step d s (bc_read n (cache_of d s)) s' \<and> buf_at d s' n b"
proof -
  obtain bs where l: "lru (bufs s) bs" using i unfolding bio_inv_def by blast
  note g = bget_run [OF i h l, of e]
  have "\<exists>b. buf_for d (bufs s) n b \<and> bget d n e s = Ok b e (got_buf d n b s) \<and> b_refcnt (bufs s b) = refs d (bufs s) n"
  proof (cases "bslot d (bufs s) n")
    case (Some b)
    then have "b < NBUF" by (simp add: bslot_Some [OF bio_invD(3) [OF i]] cached_in_def)
    then show ?thesis using Some g by (simp add: buf_for_def refs_def)
  next
    case None
    then have "busy (bufs s) < NBUF" using f by (simp add: refs_def)
    then have "\<exists>b. b < NBUF \<and> b_refcnt (bufs s b) = 0"
      unfolding busy_def using length_filter_less [of _ "[0..<NBUF]"] filter_id_conv
      by (metis (mono_tags, lifting) atLeast0LessThan diff_zero filter_True length_upt lessThan_iff nat_neq_iff set_upt)
    then have "List.find (\<lambda>b. b_refcnt (bufs s b) = 0) (rev bs) \<noteq> None"
      using lru_facts(2) [OF l] by (auto simp: find_None_iff)
    then obtain b where "List.find (\<lambda>b. b_refcnt (bufs s b) = 0) (rev bs) = Some b" by blast
    moreover from find_SomeD [OF this] have "b < NBUF" "b_refcnt (bufs s b) = 0" using lru_facts(2) [OF l] by auto
    ultimately show ?thesis using None g by (intro exI [of _ b]) (simp add: buf_for_def refs_def)
  qed
  then obtain b where b: "buf_for d (bufs s) n b" "bget d n e s = Ok b e (got_buf d n b s)" "b_refcnt (bufs s b) = refs d (bufs s) n"
    by blast
  with bread_stored [OF i b(1,2)] r obtain s' where s': "bread d n e s = Ok b e s'" "stored d n b (read_buf d n s b) s s'"
    "disk s' = disk s" "writes s' = writes s" "sleeplocks s' (BufLock b) = \<lparr>sl_locked = True, sl_pid = my_pid s\<rparr>" by auto
  have t: "touches s s'" "same_data ((bufs s)(b := read_buf d n s b)) (bufs s')" using s'(2) by (simp_all add: stored_def)
  have at: "buf_at d s' n b"
    using s'(5) b(1) touchesD(6) [OF t(1)] same_dataD [OF t(2), of b] by (simp add: buf_at_def cached_in_def buf_for_def read_buf_def)
  have "stored_cache d n b (read_buf d n s b) s s' = bc_read n (cache_of d s)"
    using s'(3-5) b(3) r by (simp add: stored_cache_def read_buf_def locked_buf_def bc_read_def cache_of_def)
  with stored_step [OF i s'(2)] at s'(1) show ?thesis by blast
qed

text \<open>With all buffers in use and the block in none of them there is no way to go on.\<close>

lemma bread_panics:
  assumes i: "bio_inv d s" and "bslot d (bufs s) n = None" and "\<forall>b < NBUF. b_refcnt (bufs s b) \<noteq> 0"
  shows "bread d n e s = Panic ''bget: no buffers''"
proof -
  obtain bs where l: "lru (bufs s) bs" using i unfolding bio_inv_def by blast
  have "List.find (\<lambda>b. b_refcnt (bufs s b) = 0) (rev bs) = None"
    using assms(3) lru_facts(2) [OF l] by (auto simp: find_None_iff)
  moreover have "n \<notin> held d s" using assms(2) by (simp add: held_def)
  ultimately show ?thesis using bget_run [OF i _ l, of n e] assms(2) by (simp add: bread_def)
qed

text \<open>\<open>brelse\<close>: the buffer is unlocked and, when nobody uses it any more, becomes the most recently used.\<close>

definition released :: "nat \<Rightarrow> (nat \<Rightarrow> buf) \<Rightarrow> nat \<Rightarrow> buf" where
  "released b B = (let B' = upd b (\<lambda>x. x\<lparr>b_refcnt := b_refcnt x - 1\<rparr>) B in if b_refcnt (B b) = 1 then to_front b B' else B')"

lemma upd_same: "upd b f B b = f (B b)"
  by (simp add: upd_def)

lemma brelse_run:
  assumes i: "bio_inv d s" and b: "buf_at d s n b"
  shows "brelse b e s = Ok () e (s\<lparr>sleeplocks := (sleeplocks s)(BufLock b := \<lparr>sl_locked = False, sl_pid = 0\<rparr>),
     procs := woken (Some (ChSleeplock (BufLock b))) (my_thread s) (procs s), bufs := released b (bufs s)\<rparr>)"
proof -
  have r: "(b_refcnt (bufs s b) - 1 = 0) = (b_refcnt (bufs s b) = 1)" by auto
  have "holdingsleep (BufLock b) e s = Ok True e s"
    using b bio_invD(1,2) [OF i] by (simp add: holdingsleep_run buf_at_def)
  then show ?thesis using bio_invD(1) [OF i]
    by (simp add: brelse_def releasesleep_run lock_run setb_upd released_def to_front_def Let_def upd_same r del: setb_run)
qed

lemma lru_released:
  assumes "lru B bs" and "b < NBUF"
  shows "\<exists>bs. lru (released b B) bs"
proof -
  let ?B = "upd b (\<lambda>x. x\<lparr>b_refcnt := b_refcnt x - 1\<rparr>) B"
  have l: "lru ?B bs" using assms(1) by (simp add: lru_upd_links)
  obtain xs ys where "bs = xs @ b # ys" using assms(2) lru_facts(2) [OF assms(1)] split_list [of b bs] by auto
  then have "\<exists>bs. lru (to_front b ?B) bs" using l lru_to_front by blast
  then show ?thesis using l by (auto simp: released_def Let_def)
qed

lemma brelse_step:
  assumes i: "bio_inv d s" and b: "buf_at d s n b" and c: "refs d (bufs s) n = 1 \<Longrightarrow> view d s n = disk s n"
  shows "\<exists>s'. brelse b e s = Ok () e s' \<and> bio_step d s (bc_relse n (cache_of d s)) s'"
proof -
  note a = buf_atD [OF i b]
  let ?x = "(bufs s b)\<lparr>b_refcnt := b_refcnt (bufs s b) - 1\<rparr>"
  let ?s = "s\<lparr>sleeplocks := (sleeplocks s)(BufLock b := \<lparr>sl_locked = False, sl_pid = 0\<rparr>),
     procs := woken (Some (ChSleeplock (BufLock b))) (my_thread s) (procs s), bufs := released b (bufs s)\<rparr>"
  have sd: "same_data ((bufs s)(b := ?x)) (released b (bufs s))"
    by (simp only: released_def Let_def upd_def to_front_same same_data_refl split: if_split) simp
  have l: "\<exists>bs. lru (released b (bufs s)) bs" using i lru_released a(1) unfolding bio_inv_def by blast
  have u: "\<not> locked_buf ?s b" by (simp add: locked_buf_def)
  have r: "(b_refcnt (bufs s b) - 1 = 0) = (refs d (bufs s) n = 1)" using a(9) by auto
  have st: "stored d n b ?x s ?s"
    using a(2,3,8,9,11) c sd l u r by (simp add: stored_def touches_def)
  have "stored_cache d n b ?x s ?s = bc_relse n (cache_of d s)"
    using a(4,7,8,9) r u by (simp add: stored_cache_def bc_relse_def cache_of_def)
  moreover have "n \<notin> held d ?s" using u by (simp add: stored_parts(3) [OF i st])
  ultimately show ?thesis using brelse_run [OF i b, of e] stored_step [OF i st] by blast
qed

subsection \<open>The contract\<close>

text \<open>The state \<open>s\<close> implements the abstract cache \<open>c\<close>; and a step from it to one that implements \<open>c'\<close>.\<close>

definition cache_at :: "u32 \<Rightarrow> 'z bio_state_scheme \<Rightarrow> bcache \<Rightarrow> bool" where
  "cache_at d s c \<longleftrightarrow> bio_inv d s \<and> cache_of d s = c"

definition to_cache :: "u32 \<Rightarrow> 'z bio_state_scheme \<Rightarrow> bcache \<Rightarrow> 'z bio_state_scheme \<Rightarrow> bool" where
  "to_cache d s c' s' \<longleftrightarrow> cache_at d s' c' \<and> touches s s' \<and> (\<forall>m b. m \<in> bc_held c' \<longrightarrow> buf_at d s m b \<longrightarrow> buf_at d s' m b)"

lemma to_cacheD:
  assumes "to_cache d s c' s'"
  shows "cache_at d s' c'" "touches s s'" "m \<in> bc_held c' \<Longrightarrow> buf_at d s m b \<Longrightarrow> buf_at d s' m b"
  using assms by (simp_all add: to_cache_def)

lemma bio_step_to: "bio_step d s c' s' \<longleftrightarrow> to_cache d s c' s'"
  by (auto simp: bio_step_def to_cache_def cache_at_def)

lemma cache_atD:
  assumes "cache_at d s c"
  shows "bio_inv d s" "cache_of d s = c" "bc_view c = view d s" "bc_disk c = disk s" "bc_writes c = writes s"
    "bc_refs c = refs d (bufs s)" "bc_held c = held d s" "bc_busy c = busy (bufs s)"
  using assms by (auto simp: cache_at_def cache_of_def)

lemma buf_at_data: "cache_at d s c \<Longrightarrow> buf_at d s n b \<Longrightarrow> b_data (bufs s b) = bc_view c n"
  using buf_atD(8) cache_atD(1,3) by metis

lemma bread_rule:
  assumes "cache_at d s c" and "n \<notin> bc_held c" and "bc_refs c n + 1 \<noteq> 0" and "bc_refs c n \<noteq> 0 \<or> bc_busy c < NBUF"
  shows "\<exists>b s'. bread d n e s = Ok b e s' \<and> to_cache d s (bc_read n c) s' \<and> buf_at d s' n b \<and> b_data (bufs s' b) = bc_view c n"
proof -
  note c = cache_atD [OF assms(1)]
  obtain b s' where s': "bread d n e s = Ok b e s'" "to_cache d s (bc_read n c) s'" "buf_at d s' n b"
    using bread_step [OF c(1), of n e] assms(2-4) c by (auto simp: bio_step_to)
  then show ?thesis using buf_at_data [OF to_cacheD(1) [OF s'(2)] s'(3)] by (auto simp: bc_read_def)
qed

lemma set_data_rule:
  assumes "cache_at d s c" and "buf_at d s n b"
  shows "\<exists>s'. setb b (\<lambda>x. x\<lparr>b_data := v\<rparr>) e s = Ok () e s' \<and> to_cache d s (bc_set n v c) s'"
  using set_data_step [OF cache_atD(1) [OF assms(1)] assms(2)] cache_atD(2) [OF assms(1)] by (simp add: bio_step_to)

lemma bwrite_rule:
  assumes "cache_at d s c" and "buf_at d s n b"
  shows "\<exists>s'. bwrite b e s = Ok () e s' \<and> to_cache d s (bc_write n c) s'"
  using bwrite_step [OF cache_atD(1) [OF assms(1)] assms(2)] cache_atD(2) [OF assms(1)] by (simp add: bio_step_to)

lemma bpin_rule:
  assumes "cache_at d s c" and "buf_at d s n b" and "bc_refs c n + 1 \<noteq> 0"
  shows "\<exists>s'. bpin b e s = Ok () e s' \<and> to_cache d s (bc_pin n c) s'"
  using bpin_step [OF cache_atD(1) [OF assms(1)] assms(2)] assms(3) cache_atD(2,6) [OF assms(1)] by (simp add: bio_step_to)

lemma bunpin_rule:
  assumes "cache_at d s c" and "buf_at d s n b" and "bc_refs c n \<noteq> 1"
  shows "\<exists>s'. bunpin b e s = Ok () e s' \<and> to_cache d s (bc_unpin n c) s'"
  using bunpin_step [OF cache_atD(1) [OF assms(1)] assms(2)] assms(3) cache_atD(2,6) [OF assms(1)] by (simp add: bio_step_to)

lemma brelse_rule:
  assumes "cache_at d s c" and "buf_at d s n b" and "bc_refs c n = 1 \<Longrightarrow> bc_view c n = bc_disk c n"
  shows "\<exists>s'. brelse b e s = Ok () e s' \<and> to_cache d s (bc_relse n c) s'"
  using brelse_step [OF cache_atD(1) [OF assms(1)] assms(2)] assms(3) cache_atD(2,3,4,6) [OF assms(1)] by (simp add: bio_step_to)

text \<open>
  C24. The buffer cache refines its abstraction. \<open>bread\<close> of a block that is not locked returns, unless every
  buffer is in use, a buffer that the caller has locked and that holds the current contents of the block;
  the contents of all blocks, the disk and the buffers the caller holds already are unchanged. \<open>bwrite\<close> of a
  locked buffer writes exactly its block; \<open>bpin\<close> and \<open>bunpin\<close> count references; \<open>brelse\<close> unlocks the buffer
  and the contents of no block change, provided that a buffer nobody else refers to has been written. If
  every buffer is in use and none holds the block, \<open>bread\<close> panics.
\<close>

theorem bcache_refines:
  assumes "cache_at d s c"
  shows "(n \<notin> bc_held c \<and> bc_refs c n + 1 \<noteq> 0 \<and> (bc_refs c n \<noteq> 0 \<or> bc_busy c < NBUF) \<longrightarrow>
      (\<exists>b s'. bread d n e s = Ok b e s' \<and> to_cache d s (bc_read n c) s' \<and> buf_at d s' n b \<and> b_data (bufs s' b) = bc_view c n))
    \<and> (buf_at d s n b \<longrightarrow> (\<exists>s'. bwrite b e s = Ok () e s' \<and> to_cache d s (bc_write n c) s'))
    \<and> (buf_at d s n b \<and> bc_refs c n + 1 \<noteq> 0 \<longrightarrow> (\<exists>s'. bpin b e s = Ok () e s' \<and> to_cache d s (bc_pin n c) s'))
    \<and> (buf_at d s n b \<and> bc_refs c n \<noteq> 1 \<longrightarrow> (\<exists>s'. bunpin b e s = Ok () e s' \<and> to_cache d s (bc_unpin n c) s'))
    \<and> (buf_at d s n b \<and> (bc_refs c n = 1 \<longrightarrow> bc_view c n = bc_disk c n) \<longrightarrow>
      (\<exists>s'. brelse b e s = Ok () e s' \<and> to_cache d s (bc_relse n c) s'))
    \<and> (bslot d (bufs s) n = None \<and> (\<forall>b < NBUF. b_refcnt (bufs s b) \<noteq> 0) \<longrightarrow> bread d n e s = Panic ''bget: no buffers'')"
  using bread_rule [OF assms] bwrite_rule [OF assms] bpin_rule [OF assms] bunpin_rule [OF assms] brelse_rule [OF assms]
    bread_panics [OF cache_atD(1) [OF assms]] by blast

text \<open>A state with an empty cache.\<close>

definition fresh_bufs :: "nat \<Rightarrow> buf" where
  "fresh_bufs b = sample_buf\<lparr>b_next := (if b = NBUF then 0 else b + 1), b_prev := (if b = 0 then NBUF else b - 1)\<rparr>"

lemma lru_fresh: "lru fresh_bufs [0..<NBUF]"
proof -
  have "[0..<NBUF] @ [NBUF] = [0..<Suc NBUF]" by simp
  also have "\<dots> = 0 # [Suc 0..<Suc NBUF]" by (rule upt_conv_Cons) simp
  finally have u: "[0..<NBUF] @ [NBUF] = 0 # map Suc [0..<NBUF]" by (simp only: map_Suc_upt)
  have "map (\<lambda>b. b_next (fresh_bufs b)) [0..<NBUF] = map Suc [0..<NBUF]" by (simp add: fresh_bufs_def)
  moreover have "map (\<lambda>b. b_prev (fresh_bufs b)) (map Suc [0..<NBUF]) = [0..<NBUF]"
    unfolding map_map by (intro map_idI) (simp add: fresh_bufs_def)
  moreover have "b_next (fresh_bufs NBUF) = 0" "b_prev (fresh_bufs 0) = NBUF" by (simp_all add: fresh_bufs_def)
  ultimately show ?thesis unfolding lru_def bhead_def by (auto simp: u)
qed

definition fresh_cache :: "(u32 \<Rightarrow> bytes) \<Rightarrow> bcache" where
  "fresh_cache D = \<lparr>bc_view = D, bc_disk = D, bc_writes = [], bc_refs = (\<lambda>_. 0), bc_held = {}, bc_busy = 0\<rparr>"

lemma cache_fresh:
  assumes "all_free (lk s)" and "my_proc s \<noteq> None" and "bufs s = fresh_bufs" and "d \<noteq> 0" and "\<forall>b. \<not> locked_buf s b" and "writes s = []"
  shows "cache_at d s (fresh_cache (disk s))"
proof -
  have n: "\<not> cached_in d fresh_bufs n b" for n b using assms(4) by (auto simp: cached_in_def fresh_bufs_def sample_buf_def)
  then have b: "bslot d fresh_bufs n = None" for n by (simp add: bslot_None)
  have "busy fresh_bufs = 0" by (simp add: busy_def fresh_bufs_def sample_buf_def)
  with b have "cache_of d s = fresh_cache (disk s)"
    by (simp add: assms(3,6) cache_of_def fresh_cache_def view_def refs_def held_def fun_eq_iff)
  moreover have "cache_ok d fresh_bufs (disk s)" using n by (simp add: cache_ok_def)
  then have "bio_inv d s" using assms lru_fresh by (auto simp: bio_inv_def)
  ultimately show ?thesis by (simp add: cache_at_def)
qed

definition sample_bio :: "(u32 \<Rightarrow> bytes) \<Rightarrow> file_state" where
  "sample_bio D = (sample_file ())\<lparr>bufs := fresh_bufs, disk := D\<rparr>"

lemma sample_bio_cache: "cache_at 1 (sample_bio D) (fresh_cache D)"
proof -
  have "cache_at 1 (sample_bio D) (fresh_cache (disk (sample_bio D)))"
    by (rule cache_fresh) (simp_all add: sample_bio_def locked_buf_def)
  then show ?thesis by (simp add: sample_bio_def)
qed

theorem bcache_refines_witness:
  "\<exists>b s'. bread 1 7 [] (sample_bio (\<lambda>n _. ucast n)) = Ok b [] s' \<and> b_data (bufs s' b) 5 = 7"
proof -
  let ?c = "fresh_cache (\<lambda>n _. ucast n)"
  have "7 \<notin> bc_held ?c \<and> bc_refs ?c 7 + 1 \<noteq> 0 \<and> (bc_refs ?c 7 \<noteq> 0 \<or> bc_busy ?c < NBUF)"
    by (simp add: fresh_cache_def NBUF_def MAXOPBLOCKS_def)
  with bcache_refines [OF sample_bio_cache, of 7 "\<lambda>n _. ucast n" "[]"]
  obtain b s' where "bread 1 7 [] (sample_bio (\<lambda>n _. ucast n)) = Ok b [] s'" "b_data (bufs s' b) = bc_view ?c 7" by blast
  then show ?thesis by (auto simp: fresh_cache_def)
qed

end
