(* ===== verification/Log_Run.thy ===== *)
theory Log_Run
  imports Bio_Run Block_Bytes
begin

text \<open>
  Correctness of the write-ahead log of \<open>kernel/log.c\<close> on top of the contract of the buffer cache: what the
  parts of a commit and of the recovery do to the disk, and that a crash at any point of a commit or of a
  recovery leaves either none or all of the transaction.
\<close>

subsection \<open>Copying one block\<close>

text \<open>The net effect of reading a block, changing it, writing it and releasing it.\<close>

definition bc_put :: "u32 \<Rightarrow> bytes \<Rightarrow> bcache \<Rightarrow> bcache" where
  "bc_put n v c = c\<lparr>bc_view := (bc_view c)(n := v), bc_disk := (bc_disk c)(n := v), bc_writes := bc_writes c @ [(n, v)]\<rparr>"

lemmas bc_defs = bc_read_def bc_set_def bc_write_def bc_pin_def bc_unpin_def bc_relse_def bc_put_def

lemma touches_log: "touches s s' \<Longrightarrow> the_log s' = the_log (s :: 'z log_state_scheme)"
proof -
  assume "touches s s'"
  then have "rest s' = rest s" by (simp add: touches_def)
  moreover have "the_log (rest u) = the_log u" for u :: "'z log_state_scheme" by (simp add: rest_def)
  ultimately show ?thesis by metis
qed

definition log_blockno :: "logst \<Rightarrow> nat \<Rightarrow> u32" where
  "log_blockno l i = log_start l + of_nat i + 1"

lemma write_log_block_run:
  assumes c: "cache_at d s c" and l: "log_dev (the_log s) = d" "i < LOGSIZE" and n: "n = log_blockno (the_log s) i" "m = log_block (the_log s) i" "n \<noteq> m"
    and h: "bc_held c = {}" and r: "bc_refs c n = 0" "bc_busy c < NBUF" "bc_refs c m \<noteq> 0" "bc_refs c m + 1 \<noteq> 0"
  shows "\<exists>s'. write_log_block i e s = Ok () e s' \<and> cache_at d s' (bc_put n (bc_view c m) c) \<and> touches s s'"
proof -
  obtain b1 s1 where s1: "bread d n e s = Ok b1 e s1" "to_cache d s (bc_read n c) s1" "buf_at d s1 n b1"
    using bread_rule [OF c, of n e] h r by auto
  note c1 = to_cacheD [OF s1(2)]
  obtain b2 s2 where s2: "bread d m e s1 = Ok b2 e s2" "to_cache d s1 (bc_read m (bc_read n c)) s2" "buf_at d s2 m b2" "b_data (bufs s2 b2) = bc_view c m"
    using bread_rule [OF c1(1), of m e] h r n(3) by (auto simp: bc_read_def)
  note c2 = to_cacheD [OF s2(2)]
  have b1: "buf_at d s2 n b1" by (rule c2(3) [OF _ s1(3)]) (simp add: bc_read_def)
  obtain s3 where s3: "setb b1 (\<lambda>x. x\<lparr>b_data := bc_view c m\<rparr>) e s2 = Ok () e s3" "to_cache d s2 (bc_set n (bc_view c m) (bc_read m (bc_read n c))) s3"
    using set_data_rule [OF c2(1) b1, of "bc_view c m" e] by blast
  note c3 = to_cacheD [OF s3(2)]
  have b: "buf_at d s3 n b1" "buf_at d s3 m b2" by (rule c3(3) [OF _ b1] c3(3) [OF _ s2(3)], simp add: bc_defs)+
  obtain s4 where s4: "bwrite b1 e s3 = Ok () e s4" "to_cache d s3 (bc_write n (bc_set n (bc_view c m) (bc_read m (bc_read n c)))) s4"
    using bwrite_rule [OF c3(1) b(1), of e] by blast
  note c4 = to_cacheD [OF s4(2)]
  have b': "buf_at d s4 n b1" "buf_at d s4 m b2" by (rule c4(3) [OF _ b(1)] c4(3) [OF _ b(2)], simp add: bc_defs)+
  obtain s5 where s5: "brelse b2 e s4 = Ok () e s5"
    "to_cache d s4 (bc_relse m (bc_write n (bc_set n (bc_view c m) (bc_read m (bc_read n c))))) s5"
    using brelse_rule [OF c4(1) b'(2), of e] n(3) r(3) by (auto simp: bc_defs)
  note c5 = to_cacheD [OF s5(2)]
  have b5: "buf_at d s5 n b1" by (rule c5(3) [OF _ b'(1)]) (simp add: bc_defs n(3))
  obtain s6 where s6: "brelse b1 e s5 = Ok () e s6"
    "to_cache d s5 (bc_relse n (bc_relse m (bc_write n (bc_set n (bc_view c m) (bc_read m (bc_read n c)))))) s6"
    using brelse_rule [OF c5(1) b5, of e] n(3) by (auto simp: bc_defs)
  have "bc_relse n (bc_relse m (bc_write n (bc_set n (bc_view c m) (bc_read m (bc_read n c))))) = bc_put n (bc_view c m) c"
    using n(3) h r by (intro bcache.equality) (auto simp: bc_defs fun_eq_iff)
  moreover have "touches s s6" using c1(2) c2(2) c3(2) c4(2) c5(2) to_cacheD(2) [OF s6(2)] by (blast intro: touches_trans)
  moreover have "write_log_block i e s = Ok () e s6"
    using s1(1) s2(1,4) s3(1) s4(1) s5(1) s6(1) l n touches_log [OF c1(2)]
    by (simp add: write_log_block_def log_blockno_def get_lh_block_def del: setb_run)
  ultimately show ?thesis using to_cacheD(1) [OF s6(2)] by auto
qed

lemma unused_clean:
  assumes "cache_at d s c" and "bc_refs c n = 0"
  shows "bc_view c n = bc_disk c n"
proof (cases "bslot d (bufs s) n")
  case (Some b)
  note k = cache_atD [OF assms(1)] and ok = bio_invD(3) [OF cache_atD(1) [OF assms(1)]]
  have "cached_in d (bufs s) n b" using Some by (simp add: bslot_Some [OF ok])
  moreover have "b_refcnt (bufs s b) = 0" using assms(2) Some by (simp add: k(6) refs_def)
  ultimately show ?thesis using Some cache_clean [OF ok] by (simp add: k(3,4) view_def)
qed (use cache_atD [OF assms(1)] in \<open>simp add: view_def\<close>)

text \<open>After an installation outside of recovery the block is no longer pinned.\<close>

definition bc_install :: "bool \<Rightarrow> u32 \<Rightarrow> bytes \<Rightarrow> bcache \<Rightarrow> bcache" where
  "bc_install recovering m v c = (let c = bc_put m v c in if recovering then c else
     c\<lparr>bc_refs := (bc_refs c)(m := bc_refs c m - 1), bc_busy := bc_busy c - (if bc_refs c m = 1 then 1 else 0)\<rparr>)"

lemma install_block_run:
  assumes c: "cache_at d s c" and l: "log_dev (the_log s) = d" "i < LOGSIZE" and n: "n = log_blockno (the_log s) i" "m = log_block (the_log s) i" "n \<noteq> m"
    and h: "bc_held c = {}" and r: "bc_refs c n = 0" "bc_busy c < NBUF" "bc_refs c m + 1 \<noteq> 0" "bc_refs c m \<noteq> 0 \<or> recovering \<and> bc_busy c + 1 < NBUF"
  shows "\<exists>s'. install_block recovering i e s = Ok () e s' \<and> cache_at d s' (bc_install recovering m (bc_view c n) c) \<and> touches s s'"
proof -
  obtain b1 s1 where s1: "bread d n e s = Ok b1 e s1" "to_cache d s (bc_read n c) s1" "buf_at d s1 n b1"
    using bread_rule [OF c, of n e] h r by auto
  note c1 = to_cacheD [OF s1(2)]
  obtain b2 s2 where s2: "bread d m e s1 = Ok b2 e s2" "to_cache d s1 (bc_read m (bc_read n c)) s2" "buf_at d s2 m b2"
    using bread_rule [OF c1(1), of m e] h r n(3) by (auto simp: bc_read_def)
  note c2 = to_cacheD [OF s2(2)]
  have b1: "buf_at d s2 n b1" by (rule c2(3) [OF _ s1(3)]) (simp add: bc_read_def)
  have v: "b_data (bufs s2 b1) = bc_view c n" using buf_at_data [OF c2(1) b1] by (simp add: bc_read_def)
  let ?c3 = "bc_write m (bc_set m (bc_view c n) (bc_read m (bc_read n c)))"
  obtain s3 where s3: "setb b2 (\<lambda>x. x\<lparr>b_data := bc_view c n\<rparr>) e s2 = Ok () e s3" "to_cache d s2 (bc_set m (bc_view c n) (bc_read m (bc_read n c))) s3"
    using set_data_rule [OF c2(1) s2(3), of "bc_view c n" e] by blast
  note c3 = to_cacheD [OF s3(2)]
  have b: "buf_at d s3 n b1" "buf_at d s3 m b2" by (rule c3(3) [OF _ b1] c3(3) [OF _ s2(3)], simp add: bc_defs)+
  obtain s4 where s4: "bwrite b2 e s3 = Ok () e s4" "to_cache d s3 ?c3 s4"
    using bwrite_rule [OF c3(1) b(2), of e] by blast
  note c4 = to_cacheD [OF s4(2)]
  have b': "buf_at d s4 n b1" "buf_at d s4 m b2" by (rule c4(3) [OF _ b(1)] c4(3) [OF _ b(2)], simp add: bc_defs)+
  let ?c4 = "if recovering then ?c3 else bc_unpin m ?c3"
  have "\<exists>s5. whenM (\<not> recovering) (bunpin b2) e s4 = Ok () e s5 \<and> to_cache d s4 ?c4 s5"
    using bunpin_rule [OF c4(1) b'(2), of e] c4(1) r(3,4) by (cases recovering) (auto simp: to_cache_def bc_defs n(3))
  then obtain s5 where s5: "whenM (\<not> recovering) (bunpin b2) e s4 = Ok () e s5" "to_cache d s4 ?c4 s5" by blast
  note c5 = to_cacheD [OF s5(2)]
  have b5: "buf_at d s5 n b1" "buf_at d s5 m b2" by (rule c5(3) [OF _ b'(1)] c5(3) [OF _ b'(2)], simp add: bc_defs)+
  have cl: "bc_view ?c4 n = bc_disk ?c4 n" "bc_view (bc_relse n ?c4) m = bc_disk (bc_relse n ?c4) m"
    using n(3) unused_clean [OF c r(1)] by (auto simp: bc_defs)
  obtain s6 where s6: "brelse b1 e s5 = Ok () e s6" "to_cache d s5 (bc_relse n ?c4) s6"
    using brelse_rule [OF c5(1) b5(1) cl(1), of e] by blast
  note c6 = to_cacheD [OF s6(2)]
  have b6: "buf_at d s6 m b2" by (rule c6(3) [OF _ b5(2)]) (use n(3) in \<open>simp add: bc_defs\<close>)
  obtain s7 where s7: "brelse b2 e s6 = Ok () e s7" "to_cache d s6 (bc_relse m (bc_relse n ?c4)) s7"
    using brelse_rule [OF c6(1) b6 cl(2), of e] by blast
  have "bc_relse m (bc_relse n ?c4) = bc_install recovering m (bc_view c n) c"
    using n(3) h r by (intro bcache.equality) (auto simp: bc_defs bc_install_def fun_eq_iff)
  moreover have "touches s s7" using c1(2) c2(2) c3(2) c4(2) c5(2) c6(2) to_cacheD(2) [OF s7(2)] by (blast intro: touches_trans)
  moreover have "install_block recovering i e s = Ok () e s7"
    using s1(1) s2(1) v s3(1) s4(1) s5(1) s6(1) s7(1) l n touches_log [OF c1(2)]
    by (simp add: install_block_def log_blockno_def get_lh_block_def del: setb_run whenM_run)
  ultimately show ?thesis using to_cacheD(1) [OF s7(2)] by auto
qed

subsection \<open>The header\<close>

lemma upd_data_rule:
  assumes "cache_at d s c" and "buf_at d s n b"
  shows "\<exists>s'. setb b (\<lambda>x. x\<lparr>b_data := f (b_data x)\<rparr>) e s = Ok () e s' \<and> to_cache d s (bc_set n (f (bc_view c n)) c) s'"
  using set_data_rule [OF assms, of "f (bc_view c n)" e] buf_at_data [OF assms] by simp

lemma to_cache_trans:
  assumes "to_cache d s c1 s1" and "to_cache d s1 c2 s2" and "bc_held c2 \<subseteq> bc_held c1"
  shows "to_cache d s c2 s2"
  using assms by (auto simp: to_cache_def intro: touches_trans)

definition head_bytes :: "logst \<Rightarrow> bytes \<Rightarrow> bytes" where
  "head_bytes l v = put_array 4 (log_block l) (nat (log_n l)) (put32 0 (word_of_int (log_n l)) v)"

lemma put_blocks_run:
  assumes "cache_at d s c" and "buf_at d s n b" and "n \<in> bc_held c" and "k \<le> LOGSIZE"
  shows "\<exists>s'. for_each [0..<k] (write_head_entry b) e s = Ok () e s'
     \<and> to_cache d s (bc_set n (put_array 4 (log_block (the_log s)) k (bc_view c n)) c) s'"
  using assms(4)
proof (induction k)
  case 0
  have "bc_set n (bc_view c n) c = c" by (simp add: bc_set_def)
  then show ?case using assms(1) by (simp add: put_array_def to_cache_def)
next
  case (Suc k)
  let ?v = "put_array 4 (log_block (the_log s)) k (bc_view c n)"
  from Suc obtain s1 where s1: "for_each [0..<k] (write_head_entry b) e s
    = Ok () e s1" "to_cache d s (bc_set n ?v c) s1" by auto
  note c1 = to_cacheD [OF s1(2)]
  have b: "buf_at d s1 n b" by (rule c1(3) [OF _ assms(2)]) (simp add: bc_set_def assms(3))
  obtain s2 where s2: "setb b (\<lambda>x. x\<lparr>b_data := put32 (4 + 4 * k) (log_block (the_log s) k) (b_data x)\<rparr>) e s1 = Ok () e s2"
    "to_cache d s1 (bc_set n (put32 (4 + 4 * k) (log_block (the_log s) k) ?v) (bc_set n ?v c)) s2"
    using upd_data_rule [OF c1(1) b, of "put32 (4 + 4 * k) (log_block (the_log s) k)" e] by (auto simp: bc_set_def)
  have "to_cache d s (bc_set n (put_array 4 (log_block (the_log s)) (Suc k) (bc_view c n)) c) s2"
    using to_cache_trans [OF s1(2) s2(2)] by (simp add: bc_set_def put_array_Suc)
  moreover have "write_head_entry b k e s1 = Ok () e s2"
    using s2(1) Suc.prems touches_log [OF c1(2)] by (simp add: write_head_entry_def get_lh_block_def del: setb_run)
  ultimately show ?case using s1(1) by (auto simp: for_each_append)
qed

lemma write_head_run:
  assumes c: "cache_at d s c" and l: "log_dev (the_log s) = d" "log_n (the_log s) \<le> int LOGSIZE" and n: "n = log_start (the_log s)"
    and h: "bc_held c = {}" and r: "bc_refs c n = 0" "bc_busy c < NBUF"
  shows "\<exists>s'. write_head e s = Ok () e s' \<and> cache_at d s' (bc_put n (head_bytes (the_log s) (bc_view c n)) c) \<and> touches s s'"
proof -
  let ?k = "nat (log_n (the_log s))" and ?w = "word_of_int (log_n (the_log s))"
  let ?hd = "put32 0 ?w (bc_view c n)" let ?v = "put_array 4 (log_block (the_log s)) ?k ?hd"
  obtain b s1 where s1: "bread d n e s = Ok b e s1" "to_cache d s (bc_read n c) s1" "buf_at d s1 n b"
    using bread_rule [OF c, of n e] h r by auto
  note c1 = to_cacheD [OF s1(2)]
  obtain s2 where s2: "setb b (\<lambda>x. x\<lparr>b_data := put32 0 ?w (b_data x)\<rparr>) e s1 = Ok () e s2" "to_cache d s1 (bc_set n ?hd (bc_read n c)) s2"
    using upd_data_rule [OF c1(1) s1(3), of "put32 0 ?w" e] by (auto simp: bc_read_def)
  note c2 = to_cacheD [OF s2(2)]
  have b2: "buf_at d s2 n b" by (rule c2(3) [OF _ s1(3)]) (simp add: bc_defs)
  have t2: "the_log s2 = the_log s" using touches_log [OF c1(2)] touches_log [OF c2(2)] by simp
  have "n \<in> bc_held (bc_set n ?hd (bc_read n c))" "?k \<le> LOGSIZE" using l(2) by (simp_all add: bc_defs)
  then obtain s3 where s3: "for_each [0..<?k] (write_head_entry b) e s2 = Ok () e s3"
    "to_cache d s2 (bc_set n ?v (bc_read n c)) s3"
    using put_blocks_run [OF c2(1) b2, of ?k e] t2 by (auto simp: bc_set_def)
  note c3 = to_cacheD [OF s3(2)]
  have b3: "buf_at d s3 n b" by (rule c3(3) [OF _ b2]) (simp add: bc_defs)
  obtain s4 where s4: "bwrite b e s3 = Ok () e s4" "to_cache d s3 (bc_write n (bc_set n ?v (bc_read n c))) s4"
    using bwrite_rule [OF c3(1) b3, of e] by blast
  note c4 = to_cacheD [OF s4(2)]
  have b4: "buf_at d s4 n b" by (rule c4(3) [OF _ b3]) (simp add: bc_defs)
  have cl: "bc_view (bc_write n (bc_set n ?v (bc_read n c))) n = bc_disk (bc_write n (bc_set n ?v (bc_read n c))) n" by (simp add: bc_defs)
  obtain s5 where s5: "brelse b e s4 = Ok () e s5" "to_cache d s4 (bc_relse n (bc_write n (bc_set n ?v (bc_read n c)))) s5"
    using brelse_rule [OF c4(1) b4 cl, of e] by blast
  have "bc_relse n (bc_write n (bc_set n ?v (bc_read n c))) = bc_put n (head_bytes (the_log s) (bc_view c n)) c"
    using h r by (intro bcache.equality) (simp_all add: bc_defs head_bytes_def fun_upd_idem)
  moreover have "touches s s5" using c1(2) c2(2) c3(2) c4(2) to_cacheD(2) [OF s5(2)] by (blast intro: touches_trans)
  moreover have "write_head e s = Ok () e s5"
    using s1(1) s2(1) s3(1) s4(1) s5(1) l n touches_log [OF c1(2)] by (simp add: write_head_def del: setb_run)
  ultimately show ?thesis using to_cacheD(1) [OF s5(2)] by auto
qed

text \<open>Reading it back.\<close>

lemma log_upd [simp]:
  "cache_at d (s\<lparr>the_log := l\<rparr>) c = cache_at d s c" "buf_at d (s\<lparr>the_log := l\<rparr>) n b = buf_at d s n b"
proof -
  have "view d (s\<lparr>the_log := l\<rparr>) = view d s" by (intro ext) (simp add: view_def split: option.split)
  then show "cache_at d (s\<lparr>the_log := l\<rparr>) c = cache_at d s c"
    by (simp add: cache_at_def bio_inv_def locked_buf_def cache_of_def held_def)
qed (simp add: buf_at_def my_pid_def)

lemma touches_set_log: "touches s s' \<Longrightarrow> touches (s\<lparr>the_log := l\<rparr>) (s'\<lparr>the_log := l\<rparr>)"
proof -
  assume t: "touches s s'"
  have "rest (u\<lparr>the_log := l\<rparr>) = (rest u)\<lparr>the_log := l\<rparr>" for u :: "'a log_state_scheme" by (simp add: rest_def)
  with t show ?thesis by (simp add: touches_def)
qed

definition head_log :: "bytes \<Rightarrow> logst \<Rightarrow> logst" where
  "head_log v l = (let n = sint (get32 v 0) in
     l\<lparr>log_n := n, log_block := (\<lambda>i. if i < nat n then get32 v (4 + 4 * i) else log_block l i)\<rparr>)"

lemma read_entries_run:
  assumes "k \<le> LOGSIZE" and "b_data (bufs s b) = v" and "the_log s = l"
  shows "for_each [0..<k] (read_head_entry b) e s
     = Ok () e (s\<lparr>the_log := l\<lparr>log_block := (\<lambda>i. if i < k then get32 v (4 + 4 * i) else log_block l i)\<rparr>\<rparr>)"
  using assms
proof (induction k)
  case (Suc k)
  then show ?case
    by (simp add: for_each_append read_head_entry_def set_lh_block_def less_Suc_eq)
      (intro arg_cong [where f = "\<lambda>x. s\<lparr>the_log := l\<lparr>log_block := x\<rparr>\<rparr>"], auto simp: fun_eq_iff)
qed simp

lemma read_head_run:
  assumes c: "cache_at d s c" and l: "log_dev (the_log s) = d" and n: "n = log_start (the_log s)" "sint (get32 (bc_view c n) 0) \<le> int LOGSIZE"
    and h: "bc_held c = {}" and r: "bc_refs c n = 0" "bc_busy c < NBUF"
  shows "\<exists>s'. read_head e s = Ok () e s' \<and> cache_at d s' c \<and> touches (s\<lparr>the_log := head_log (bc_view c n) (the_log s)\<rparr>) s'"
proof -
  obtain b s1 where s1: "bread d n e s = Ok b e s1" "to_cache d s (bc_read n c) s1" "buf_at d s1 n b" "b_data (bufs s1 b) = bc_view c n"
    using bread_rule [OF c, of n e] h r by auto
  note c1 = to_cacheD [OF s1(2)]
  let ?l = "head_log (bc_view c n) (the_log s)" let ?s = "s1\<lparr>the_log := ?l\<rparr>"
  have t: "touches (s\<lparr>the_log := ?l\<rparr>) ?s" by (rule touches_set_log [OF c1(2)])
  have cl: "bc_view (bc_read n c) n = bc_disk (bc_read n c) n" using unused_clean [OF c r(1)] by (simp add: bc_read_def)
  have "cache_at d ?s (bc_read n c)" "buf_at d ?s n b" using c1(1) s1(3) by simp_all
  from brelse_rule [OF this cl] obtain s2 where s2: "brelse b e ?s = Ok () e s2" "to_cache d ?s (bc_relse n (bc_read n c)) s2" by blast
  have "bc_relse n (bc_read n c) = c" using h r by (intro bcache.equality) (simp_all add: bc_defs fun_upd_idem)
  moreover have "read_head e s = Ok () e s2"
  proof -
    have "nat (sint (get32 (bc_view c n) 0)) \<le> LOGSIZE" using n(2) by simp
    then show ?thesis
      using s1(1,4) s2(1) l n(1) touches_log [OF c1(2)]
      by (simp add: read_head_def head_log_def Let_def read_entries_run [where v = "bc_view c (log_start (the_log s))"] cong: if_cong)
  qed
  ultimately show ?thesis using to_cacheD [OF s2(2)] touches_trans [OF t] by auto
qed

end
