(* ===== verification/Log_Crash.thy ===== *)
theory Log_Crash
  imports Log_Run
begin

text \<open>
  The writes of a commit and of a recovery, and crash safety: after a crash at any point of either, recovery
  brings the disk to the state before or to the state after the transaction.
\<close>

subsection \<open>Sequences of writes\<close>

definition overlay :: "(u32 \<times> bytes) list \<Rightarrow> (u32 \<Rightarrow> bytes) \<Rightarrow> u32 \<Rightarrow> bytes" where
  "overlay ws D = fold (\<lambda>(n, v) D. D(n := v)) ws D"

lemma overlay_simps [simp]:
  "overlay [] D = D" "overlay ((n, v) # ws) D = overlay ws (D(n := v))" "overlay (ws @ ws') D = overlay ws' (overlay ws D)"
  by (simp_all add: overlay_def)

lemma overlay_other: "m \<notin> fst ` set ws \<Longrightarrow> overlay ws D m = D m"
proof (induction ws arbitrary: D)
  case (Cons w ws)
  then show ?case by (cases w) simp
qed simp

lemma overlay_map:
  assumes "inj_on a {..<n}" and "i < n"
  shows "overlay (map (\<lambda>i. (a i, f i)) [0..<n]) D (a i) = f i"
  using assms
proof (induction n)
  case (Suc n)
  then show ?case by (cases "i = n") (auto simp: lessThan_Suc inj_on_def)
qed simp

definition bc_puts :: "(u32 \<times> bytes) list \<Rightarrow> bcache \<Rightarrow> bcache" where
  "bc_puts ws c = c\<lparr>bc_view := overlay ws (bc_view c), bc_disk := overlay ws (bc_disk c), bc_writes := bc_writes c @ ws\<rparr>"

lemma bc_put_puts: "bc_put n v c = bc_puts [(n, v)] c"
  by (simp add: bc_put_def bc_puts_def)

lemma bc_puts_Nil [simp]: "bc_puts [] c = c"
  by (simp add: bc_puts_def)

lemma bc_puts_append [simp]: "bc_puts ws' (bc_puts ws c) = bc_puts (ws @ ws') c"
  by (simp add: bc_puts_def)

lemma bc_puts_simps [simp]:
  "bc_view (bc_puts ws c) = overlay ws (bc_view c)" "bc_disk (bc_puts ws c) = overlay ws (bc_disk c)" "bc_writes (bc_puts ws c) = bc_writes c @ ws"
  "bc_refs (bc_puts ws c) = bc_refs c" "bc_held (bc_puts ws c) = bc_held c" "bc_busy (bc_puts ws c) = bc_busy c"
  by (simp_all add: bc_puts_def)

subsection \<open>The layout of the log\<close>

definition log_area :: "u32 \<Rightarrow> u32 set" where
  "log_area st = {st + of_nat j |j. j \<le> LOGSIZE}"

lemma log_area_start [simp]: "st \<in> log_area st"
  unfolding log_area_def by (rule CollectI, rule exI [of _ 0]) simp

lemma log_area_block [simp]: "i < LOGSIZE \<Longrightarrow> log_blockno l i \<in> log_area (log_start l)"
  unfolding log_area_def log_blockno_def by (rule CollectI, rule exI [of _ "Suc i"]) (simp add: add.commute)

lemma of_nat_small: "i < 2 ^ 32 \<Longrightarrow> j < 2 ^ 32 \<Longrightarrow> (of_nat i :: u32) = of_nat j \<longleftrightarrow> i = j"
  by (simp add: word_of_nat_eq_iff take_bit_nat_eq_self)

lemma LOGSIZE_less: "LOGSIZE < 2 ^ 32"
  by (simp add: LOGSIZE_def MAXOPBLOCKS_def)

lemma log_blockno_inj: "inj_on (log_blockno l) {..<LOGSIZE}"
proof (rule inj_onI)
  fix i j assume "i \<in> {..<LOGSIZE}" "j \<in> {..<LOGSIZE}" "log_blockno l i = log_blockno l j"
  then show "i = j" using of_nat_small [of i j] LOGSIZE_less by (simp add: log_blockno_def)
qed

lemma log_blockno_start: "i < LOGSIZE \<Longrightarrow> log_blockno l i \<noteq> log_start l"
proof
  assume i: "i < LOGSIZE" and "log_blockno l i = log_start l"
  then have "of_nat (Suc i) = (of_nat 0 :: u32)" by (simp add: log_blockno_def algebra_simps)
  then show False using of_nat_small [of "Suc i" 0] i LOGSIZE_less by simp
qed

text \<open>The blocks of the transaction are distinct and lie outside of the log.\<close>

definition log_ok :: "logst \<Rightarrow> bool" where
  "log_ok l \<longleftrightarrow> 0 \<le> log_n l \<and> log_n l \<le> int LOGSIZE \<and> inj_on (log_block l) {..<nat (log_n l)}
     \<and> (\<forall>i < nat (log_n l). log_block l i \<notin> log_area (log_start l))"

lemma log_okD:
  assumes "log_ok l"
  shows "nat (log_n l) \<le> LOGSIZE" "log_n l \<le> int LOGSIZE" "inj_on (log_block l) {..<nat (log_n l)}"
    "i < nat (log_n l) \<Longrightarrow> log_block l i \<notin> log_area (log_start l)"
  using assms by (auto simp: log_ok_def nat_le_iff)

definition log_home :: "logst \<Rightarrow> u32 set" where
  "log_home l = log_block l ` {..<nat (log_n l)}"

subsection \<open>Copying the transaction to the log\<close>

definition log_writes :: "logst \<Rightarrow> (u32 \<Rightarrow> bytes) \<Rightarrow> nat \<Rightarrow> (u32 \<times> bytes) list" where
  "log_writes l V k = map (\<lambda>i. (log_blockno l i, V (log_block l i))) [0..<k]"

lemma log_writes_Suc: "log_writes l V (Suc k) = log_writes l V k @ [(log_blockno l k, V (log_block l k))]"
  by (simp add: log_writes_def)

lemma log_writes_area: "k \<le> LOGSIZE \<Longrightarrow> m \<notin> log_area (log_start l) \<Longrightarrow> overlay (log_writes l V k) D m = D m"
  by (rule overlay_other) (auto simp: log_writes_def)

lemma write_log_loop:
  assumes c: "cache_at d s c" and l: "log_dev (the_log s) = d" "log_ok (the_log s)" and h: "bc_held c = {}"
    and r: "\<And>m. m \<in> log_area (log_start (the_log s)) \<Longrightarrow> bc_refs c m = 0" "\<And>m. m \<in> log_home (the_log s) \<Longrightarrow> bc_refs c m \<noteq> 0 \<and> bc_refs c m + 1 \<noteq> 0"
    and k: "bc_busy c < NBUF" "k \<le> nat (log_n (the_log s))"
  shows "\<exists>s'. for_each [0..<k] write_log_block e s = Ok () e s' \<and> cache_at d s' (bc_puts (log_writes (the_log s) (bc_view c) k) c) \<and> touches s s'"
  using k(2)
proof (induction k)
  case 0
  show ?case using c by (simp add: log_writes_def)
next
  case (Suc k)
  let ?l = "the_log s" let ?c = "bc_puts (log_writes ?l (bc_view c) k) c"
  from Suc obtain s1 where s1: "for_each [0..<k] write_log_block e s = Ok () e s1" "cache_at d s1 ?c" "touches s s1" by auto
  have t: "the_log s1 = ?l" by (rule touches_log [OF s1(3)])
  have k: "k < LOGSIZE" "k < nat (log_n ?l)" using Suc.prems l(2) by (auto simp: log_ok_def)
  have m: "log_block ?l k \<in> log_home ?l" "log_block ?l k \<notin> log_area (log_start ?l)" using l(2) k by (auto simp: log_home_def log_ok_def)
  have "log_blockno ?l k \<noteq> log_block ?l k" using m(2) log_area_block [OF k(1), of ?l] by metis
  then obtain s2 where s2: "write_log_block k e s1 = Ok () e s2"
    "cache_at d s2 (bc_put (log_blockno ?l k) (bc_view ?c (log_block ?l k)) ?c)" "touches s1 s2"
    using write_log_block_run [OF s1(2), of k "log_blockno ?l k" "log_block ?l k" e] l(1) t h r(1) [of "log_blockno ?l k"] r(2) [OF m(1)] k assms(7) by auto
  have "bc_view ?c (log_block ?l k) = bc_view c (log_block ?l k)" using log_writes_area [OF _ m(2)] k(1) by simp
  then have "cache_at d s2 (bc_puts (log_writes ?l (bc_view c) (Suc k)) c)" using s2(2) by (simp add: bc_put_puts log_writes_Suc)
  then show ?case using s1(1,3) s2(1,3) by (auto simp: for_each_append intro: touches_trans)
qed

subsection \<open>Copying the log to the home locations\<close>

definition home_writes :: "logst \<Rightarrow> (u32 \<Rightarrow> bytes) \<Rightarrow> nat \<Rightarrow> (u32 \<times> bytes) list" where
  "home_writes l V k = map (\<lambda>i. (log_block l i, V (log_blockno l i))) [0..<k]"

lemma home_writes_Suc: "home_writes l V (Suc k) = home_writes l V k @ [(log_block l k, V (log_blockno l k))]"
  by (simp add: home_writes_def)

lemma home_writes_area:
  assumes "\<And>i. i < k \<Longrightarrow> log_block l i \<notin> log_area (log_start l)" and "m \<in> log_area (log_start l)"
  shows "overlay (home_writes l V k) D m = D m"
  by (rule overlay_other) (use assms in \<open>auto simp: home_writes_def\<close>)

text \<open>Outside of recovery every round also unpins its block.\<close>

definition installed :: "bool \<Rightarrow> logst \<Rightarrow> nat \<Rightarrow> bcache \<Rightarrow> bcache \<Rightarrow> bool" where
  "installed recovering l k c c' \<longleftrightarrow> (let ws = home_writes l (bc_view c) k in
     bc_view c' = overlay ws (bc_view c) \<and> bc_disk c' = overlay ws (bc_disk c) \<and> bc_writes c' = bc_writes c @ ws
     \<and> bc_held c' = bc_held c \<and> bc_busy c' \<le> bc_busy c
     \<and> (\<forall>m. bc_refs c' m = (if \<not> recovering \<and> m \<in> log_block l ` {..<k} then bc_refs c m - 1 else bc_refs c m)))"

lemma installed_Suc:
  assumes "installed recovering l k c c1" and "bc_view c1 (log_blockno l k) = bc_view c (log_blockno l k)"
    and "\<not> recovering \<Longrightarrow> log_block l k \<notin> log_block l ` {..<k}"
  shows "installed recovering l (Suc k) c (bc_install recovering (log_block l k) (bc_view c1 (log_blockno l k)) c1)"
  using assms unfolding installed_def Let_def
  by (auto simp: home_writes_Suc bc_install_def bc_put_def lessThan_Suc Let_def)

lemma install_loop:
  assumes c: "cache_at d s c" and l: "log_dev (the_log s) = d" and h: "bc_held c = {}"
    and n: "\<And>i. i < k \<Longrightarrow> log_block (the_log s) i \<notin> log_area (log_start (the_log s))" "k \<le> LOGSIZE"
    and r: "\<And>m. m \<in> log_area (log_start (the_log s)) \<Longrightarrow> bc_refs c m = 0"
    and b: "if recovering then bc_busy c + 1 < NBUF \<and> (\<forall>m. bc_refs c m = 0) else bc_busy c < NBUF
      \<and> (\<forall>i < k. bc_refs c (log_block (the_log s) i) \<noteq> 0 \<and> bc_refs c (log_block (the_log s) i) + 1 \<noteq> 0) \<and> inj_on (log_block (the_log s)) {..<k}"
  shows "\<exists>s' c'. for_each [0..<k] (install_block recovering) e s = Ok () e s' \<and> cache_at d s' c' \<and> installed recovering (the_log s) k c c' \<and> touches s s'"
  using n b
proof (induction k)
  case 0
  show ?case using c by (auto simp: installed_def home_writes_def)
next
  case (Suc k)
  let ?l = "the_log s"
  have inj: "\<not> recovering \<Longrightarrow> log_block ?l k \<notin> log_block ?l ` {..<k}" using Suc.prems(3) by (auto simp: lessThan_Suc)
  have "if recovering then bc_busy c + 1 < NBUF \<and> (\<forall>m. bc_refs c m = 0) else bc_busy c < NBUF
      \<and> (\<forall>i < k. bc_refs c (log_block ?l i) \<noteq> 0 \<and> bc_refs c (log_block ?l i) + 1 \<noteq> 0) \<and> inj_on (log_block ?l) {..<k}"
    using Suc.prems(3) by (cases recovering) (auto simp: lessThan_Suc)
  from Suc.IH [OF _ _ this] Suc.prems(1,2) obtain s1 c1 where s1: "for_each [0..<k] (install_block recovering) e s = Ok () e s1" "cache_at d s1 c1" "installed recovering ?l k c c1" "touches s s1"
    by auto
  have t: "the_log s1 = ?l" by (rule touches_log [OF s1(4)])
  have k: "k < LOGSIZE" "log_block ?l k \<notin> log_area (log_start ?l)" using Suc.prems by auto
  have m: "log_blockno ?l k \<noteq> log_block ?l k" using k(2) log_area_block [OF k(1), of ?l] by metis
  have "log_blockno ?l k \<notin> log_block ?l ` {..<k}" using Suc.prems(1) log_area_block [OF k(1), of ?l] by (metis imageE lessThan_iff less_Suc_eq)
  then have r1: "bc_refs c1 (log_blockno ?l k) = 0" "bc_refs c1 (log_block ?l k) = bc_refs c (log_block ?l k)" "bc_held c1 = {}" "bc_busy c1 \<le> bc_busy c"
    using s1(3) inj h r [of "log_blockno ?l k"] log_area_block [OF k(1), of ?l] by (auto simp: installed_def Let_def)
  have v: "bc_view c1 (log_blockno ?l k) = bc_view c (log_blockno ?l k)"
    using s1(3) home_writes_area [of k ?l "log_blockno ?l k" "bc_view c" "bc_view c"] Suc.prems(1) k(1) by (auto simp: installed_def Let_def)
  have q: "bc_busy c1 < NBUF" "bc_refs c1 (log_block ?l k) + 1 \<noteq> 0" "bc_refs c1 (log_block ?l k) \<noteq> 0 \<or> recovering \<and> bc_busy c1 + 1 < NBUF"
    using Suc.prems(3) r1(4) unfolding r1(2) by (cases recovering; simp)+
  obtain s2 where s2: "install_block recovering k e s1 = Ok () e s2"
    "cache_at d s2 (bc_install recovering (log_block ?l k) (bc_view c1 (log_blockno ?l k)) c1)" "touches s1 s2"
    using install_block_run [OF s1(2) _ k(1) _ _ m r1(3,1) q] l t by auto
  from installed_Suc [OF s1(3) v inj] s1(1,4) s2 show ?case by (auto simp: for_each_append intro: touches_trans)
qed

lemma installedD:
  assumes "installed recovering l k c c'"
  shows "bc_view c' = overlay (home_writes l (bc_view c) k) (bc_view c)" "bc_disk c' = overlay (home_writes l (bc_view c) k) (bc_disk c)"
    "bc_writes c' = bc_writes c @ home_writes l (bc_view c) k" "bc_held c' = bc_held c" "bc_busy c' \<le> bc_busy c"
    "bc_refs c' m = (if \<not> recovering \<and> m \<in> log_block l ` {..<k} then bc_refs c m - 1 else bc_refs c m)"
  using assms by (simp_all add: installed_def Let_def)

subsection \<open>The whole commit\<close>

definition commit_writes :: "logst \<Rightarrow> (u32 \<Rightarrow> bytes) \<Rightarrow> (u32 \<times> bytes) list" where
  "commit_writes l V = (let n = nat (log_n l); h = head_bytes l (V (log_start l)) in
     log_writes l V n @ [(log_start l, h)] @ map (\<lambda>i. (log_block l i, V (log_block l i))) [0..<n] @ [(log_start l, put32 0 0 h)])"

text \<open>At a commit exactly the blocks of the transaction are referred to, once each.\<close>

definition log_pinned :: "logst \<Rightarrow> bcache \<Rightarrow> bool" where
  "log_pinned l c \<longleftrightarrow> bc_held c = {} \<and> (\<forall>m. bc_refs c m = (if m \<in> log_home l then 1 else 0)) \<and> bc_busy c < NBUF"

lemma head_bytes_0: "head_bytes (l\<lparr>log_n := 0\<rparr>) v = put32 0 0 v"
  by (simp add: head_bytes_def put_array_def)

lemma log_copy:
  assumes "log_ok l" and "i < nat (log_n l)"
  shows "overlay (log_writes l V (nat (log_n l))) D (log_blockno l i) = V (log_block l i)"
proof -
  have "inj_on (log_blockno l) {..<nat (log_n l)}" using log_okD(1) [OF assms(1)] by (intro inj_on_subset [OF log_blockno_inj]) auto
  then show ?thesis unfolding log_writes_def by (rule overlay_map [OF _ assms(2)])
qed

lemma start_not_logged: "n \<le> LOGSIZE \<Longrightarrow> overlay (log_writes l V n) D (log_start l) = D (log_start l)"
proof (rule overlay_other)
  assume "n \<le> LOGSIZE"
  show "log_start l \<notin> fst ` set (log_writes l V n)"
  proof
    assume "log_start l \<in> fst ` set (log_writes l V n)"
    then obtain i where "i < n" "log_blockno l i = log_start l" by (auto simp: log_writes_def)
    with log_blockno_start [of i l] \<open>n \<le> LOGSIZE\<close> show False by simp
  qed
qed

lemma commit_run:
  assumes c: "cache_at d s c" and l: "log_dev (the_log s) = d" "log_ok (the_log s)" "0 < log_n (the_log s)" and p: "log_pinned (the_log s) c"
  shows "\<exists>s' c'. commit e s = Ok () e s' \<and> cache_at d s' c' \<and> touches (s\<lparr>the_log := (the_log s)\<lparr>log_n := 0\<rparr>\<rparr>) s'
     \<and> bc_disk c' = overlay (commit_writes (the_log s) (bc_view c)) (bc_disk c) \<and> bc_view c' = overlay (commit_writes (the_log s) (bc_view c)) (bc_view c)
     \<and> bc_writes c' = bc_writes c @ commit_writes (the_log s) (bc_view c) \<and> bc_held c' = {} \<and> (\<forall>m. bc_refs c' m = 0) \<and> bc_busy c' < NBUF"
proof -
  let ?l = "the_log s" let ?n = "nat (log_n ?l)" and ?st = "log_start ?l" and ?V = "bc_view c"
  let ?h = "head_bytes ?l (?V ?st)"
  note n = log_okD(1,2) [OF l(2)]
  have home: "m \<in> log_home ?l \<Longrightarrow> m \<notin> log_area ?st" for m using log_okD(4) [OF l(2)] by (auto simp: log_home_def)
  have pc: "bc_held c = {}" "bc_busy c < NBUF" "bc_refs c m = (if m \<in> log_home ?l then 1 else 0)" for m using p by (auto simp: log_pinned_def)
  have "\<exists>s'. for_each [0..<?n] write_log_block e s = Ok () e s' \<and> cache_at d s' (bc_puts (log_writes ?l ?V ?n) c) \<and> touches s s'"
    by (rule write_log_loop [OF c l(1,2) pc(1)]) (use pc home in auto)
  then obtain s1 where s1: "write_log e s = Ok () e s1" "cache_at d s1 (bc_puts (log_writes ?l ?V ?n) c)" "touches s s1"
    by (auto simp: write_log_def)
  have t1: "the_log s1 = ?l" by (rule touches_log [OF s1(3)])
  let ?c2 = "bc_puts (log_writes ?l ?V ?n @ [(?st, ?h)]) c"
  have "\<exists>s'. write_head e s1 = Ok () e s' \<and> cache_at d s' (bc_put ?st (head_bytes (the_log s1) (bc_view (bc_puts (log_writes ?l ?V ?n) c) ?st)) (bc_puts (log_writes ?l ?V ?n) c)) \<and> touches s1 s'"
    by (rule write_head_run [OF s1(2)]) (use l(1) n t1 pc home [of ?st] in auto)
  then obtain s2 where s2: "write_head e s1 = Ok () e s2" "cache_at d s2 ?c2" "touches s1 s2"
    using start_not_logged [OF n(1), of ?l] by (auto simp: t1 bc_put_puts)
  have t2: "the_log s2 = ?l" using touches_log [OF s2(3)] t1 by simp
  have r: "m \<in> log_area (log_start (the_log s2)) \<Longrightarrow> bc_refs ?c2 m = 0" for m using pc(3) home t2 by auto
  have b: "if False then bc_busy ?c2 + 1 < NBUF \<and> (\<forall>m. bc_refs ?c2 m = 0) else bc_busy ?c2 < NBUF
      \<and> (\<forall>i < ?n. bc_refs ?c2 (log_block (the_log s2) i) \<noteq> 0 \<and> bc_refs ?c2 (log_block (the_log s2) i) + 1 \<noteq> 0) \<and> inj_on (log_block (the_log s2)) {..<?n}"
    using pc l(2) t2 by (auto simp: log_ok_def log_home_def)
  obtain s3 c3 where s3: "for_each [0..<?n] (install_block False) e s2 = Ok () e s3" "cache_at d s3 c3" "installed False ?l ?n ?c2 c3" "touches s2 s3"
    using install_loop [OF s2(2) _ _ _ n(1) r b, of e] l(1,2) t2 pc(1) by (auto simp: log_ok_def)
  have t3: "the_log s3 = ?l" using touches_log [OF s3(4)] t2 by simp
  note i3 = installedD [OF s3(3)]
  have cp: "overlay (log_writes ?l ?V ?n @ [(?st, ?h)]) ?V (log_blockno ?l i) = ?V (log_block ?l i)" if "i < ?n" for i
    using log_copy [OF l(2) that, of ?V ?V] log_blockno_start [of i ?l] that n(1) by simp
  then have hw: "home_writes ?l (bc_view ?c2) ?n = map (\<lambda>i. (log_block ?l i, ?V (log_block ?l i))) [0..<?n]"
    by (auto simp: home_writes_def)
  have st3: "bc_view c3 ?st = ?h"
    unfolding i3(1) by (subst home_writes_area) (use l(2) in \<open>auto simp: log_ok_def\<close>)
  have ref3: "bc_refs c3 m = 0" for m using i3(6) [of m] pc(3) [of m] by (auto simp: log_home_def)
  have "\<exists>s'. write_head e (s3\<lparr>the_log := ?l\<lparr>log_n := 0\<rparr>\<rparr>) = Ok () e s' \<and> cache_at d s' (bc_put ?st (head_bytes (?l\<lparr>log_n := 0\<rparr>) (bc_view c3 ?st)) c3)
      \<and> touches (s3\<lparr>the_log := ?l\<lparr>log_n := 0\<rparr>\<rparr>) s'"
    using write_head_run [of d "s3\<lparr>the_log := ?l\<lparr>log_n := 0\<rparr>\<rparr>" c3 ?st e] s3(2) l(1) ref3 i3(4,5) pc(1,2) by simp
  then obtain s4 where s4: "write_head e (s3\<lparr>the_log := ?l\<lparr>log_n := 0\<rparr>\<rparr>) = Ok () e s4" "cache_at d s4 (bc_puts [(?st, put32 0 0 ?h)] c3)"
    "touches (s3\<lparr>the_log := ?l\<lparr>log_n := 0\<rparr>\<rparr>) s4"
    by (auto simp: st3 head_bytes_0 bc_put_puts)
  have "touches (s\<lparr>the_log := ?l\<lparr>log_n := 0\<rparr>\<rparr>) s4"
    using touches_set_log [of s s3] touches_trans [OF touches_trans [OF s1(3) s2(3)] s3(4)] s4(3) by (blast intro: touches_trans)
  moreover have "commit e s = Ok () e s4"
    using l(3) s1(1) s2(1) s3(1) s4(1) t2 t3 by (simp add: commit_def install_trans_def)
  moreover have "bc_disk (bc_puts [(?st, put32 0 0 ?h)] c3) = overlay (commit_writes ?l ?V) (bc_disk c)"
    "bc_view (bc_puts [(?st, put32 0 0 ?h)] c3) = overlay (commit_writes ?l ?V) ?V"
    "bc_writes (bc_puts [(?st, put32 0 0 ?h)] c3) = bc_writes c @ commit_writes ?l ?V"
    unfolding commit_writes_def Let_def by (simp_all add: i3(1-3) [unfolded hw])
  moreover have "bc_held c3 = {}" "bc_busy c3 < NBUF" using i3(4,5) pc(1,2) by simp_all
  ultimately show ?thesis using s4(2) ref3 by (intro exI [of _ s4] exI [of _ "bc_puts [(?st, put32 0 0 ?h)] c3"]) simp
qed

subsection \<open>Recovery\<close>

text \<open>What recovery writes, read off the disk it starts from.\<close>

definition disk_n :: "u32 \<Rightarrow> (u32 \<Rightarrow> bytes) \<Rightarrow> nat" where
  "disk_n st D = nat (sint (get32 (D st) 0))"

definition disk_home :: "u32 \<Rightarrow> (u32 \<Rightarrow> bytes) \<Rightarrow> (u32 \<times> bytes) list" where
  "disk_home st D = map (\<lambda>i. (get32 (D st) (4 + 4 * i), D (st + of_nat i + 1))) [0..<disk_n st D]"

definition recover_writes :: "u32 \<Rightarrow> (u32 \<Rightarrow> bytes) \<Rightarrow> (u32 \<times> bytes) list" where
  "recover_writes st D = disk_home st D @ [(st, put32 0 0 (D st))]"

definition sane_head :: "u32 \<Rightarrow> (u32 \<Rightarrow> bytes) \<Rightarrow> bool" where
  "sane_head st D \<longleftrightarrow> disk_n st D \<le> LOGSIZE \<and> (\<forall>i < disk_n st D. get32 (D st) (4 + 4 * i) \<notin> log_area st)"

text \<open>A state after a reboot with the disk \<open>D\<close>: no buffer is in use.\<close>

definition rebooted :: "u32 \<Rightarrow> u32 \<Rightarrow> (u32 \<Rightarrow> bytes) \<Rightarrow> 'z log_state_scheme \<Rightarrow> bool" where
  "rebooted d st D s \<longleftrightarrow> bio_inv d s \<and> disk s = D \<and> held d s = {} \<and> (\<forall>m. refs d (bufs s) m = 0) \<and> busy (bufs s) = 0
     \<and> log_dev (the_log s) = d \<and> log_start (the_log s) = st"

lemma recover_run:
  assumes b: "rebooted d st D s" and n: "sane_head st D"
  shows "\<exists>s' c'. recover_from_log e s = Ok () e s' \<and> cache_at d s' c' \<and> bc_disk c' = overlay (recover_writes st D) D
     \<and> bc_writes c' = writes s @ recover_writes st D"
proof -
  define c where "c = cache_of d s"
  have c: "cache_at d s c" using b by (simp add: cache_at_def c_def rebooted_def)
  have bc: "bc_disk c = D" "bc_held c = {}" "bc_refs c m = 0" "bc_busy c = 0" "bc_writes c = writes s" for m
    using b by (simp_all add: c_def cache_of_def rebooted_def)
  have v: "bc_view c = D" using unused_clean [OF c bc(3)] bc(1) by (simp add: fun_eq_iff)
  have l: "log_dev (the_log s) = d" "log_start (the_log s) = st" using b by (simp_all add: rebooted_def)
  define l1 where "l1 = head_log (D st) (the_log s)"
  have l1: "log_dev l1 = d" "log_start l1 = st" "nat (log_n l1) = disk_n st D" "\<And>i. i < disk_n st D \<Longrightarrow> log_block l1 i = get32 (D st) (4 + 4 * i)"
    using l by (simp_all add: l1_def head_log_def Let_def disk_n_def)
  have k: "0 < NBUF" "0 + 1 < NBUF" by (simp_all add: NBUF_def MAXOPBLOCKS_def)
  have "sint (get32 (bc_view c st) 0) \<le> int LOGSIZE" using n by (simp add: v sane_head_def disk_n_def nat_le_iff)
  from read_head_run [OF c l(1) l(2) [symmetric] this bc(2,3), of e] k(1) bc(4) obtain s1 where
    s1: "read_head e s = Ok () e s1" "cache_at d s1 c" "touches (s\<lparr>the_log := l1\<rparr>) s1" by (auto simp: v l1_def)
  have t1: "the_log s1 = l1" using touches_log [OF s1(3)] by simp
  have "disk_n st D \<le> LOGSIZE" using n by (simp add: sane_head_def)
  from install_loop [OF s1(2) _ bc(2) _ this, of True e] n t1 l1 bc k obtain s2 c2 where
    s2: "for_each [0..<disk_n st D] (install_block True) e s1 = Ok () e s2" "cache_at d s2 c2" "installed True l1 (disk_n st D) c c2" "touches s1 s2"
    by (auto simp: sane_head_def)
  have t2: "the_log s2 = l1" using touches_log [OF s2(4)] t1 by simp
  note i2 = installedD [OF s2(3)]
  have hw: "home_writes l1 D (disk_n st D) = disk_home st D"
    unfolding home_writes_def disk_home_def using l1 by (auto simp: log_blockno_def)
  have "st \<notin> fst ` set (disk_home st D)" using n by (auto simp: disk_home_def sane_head_def)
  then have st: "bc_view c2 st = D st" unfolding i2(1) v hw by (rule overlay_other)
  have "\<exists>s'. write_head e (s2\<lparr>the_log := l1\<lparr>log_n := 0\<rparr>\<rparr>) = Ok () e s' \<and> cache_at d s' (bc_put st (head_bytes (l1\<lparr>log_n := 0\<rparr>) (bc_view c2 st)) c2)
      \<and> touches (s2\<lparr>the_log := l1\<lparr>log_n := 0\<rparr>\<rparr>) s'"
    using write_head_run [of d "s2\<lparr>the_log := l1\<lparr>log_n := 0\<rparr>\<rparr>" c2 st e] s2(2) l1 i2(4-6) bc k by simp
  then obtain s3 where s3: "write_head e (s2\<lparr>the_log := l1\<lparr>log_n := 0\<rparr>\<rparr>) = Ok () e s3" "cache_at d s3 (bc_puts [(st, put32 0 0 (D st))] c2)"
    by (auto simp: head_bytes_0 bc_put_puts st)
  have "recover_from_log e s = Ok () e s3"
    using s1(1) s2(1) s3(1) t1 t2 l1(3) by (simp add: recover_from_log_def install_trans_def)
  moreover have "bc_disk (bc_puts [(st, put32 0 0 (D st))] c2) = overlay (recover_writes st D) D"
    "bc_writes (bc_puts [(st, put32 0 0 (D st))] c2) = writes s @ recover_writes st D"
    using bc(1,5) by (simp_all add: i2(2,3) v hw recover_writes_def)
  ultimately show ?thesis using s3(2) by blast
qed

subsection \<open>Crash safety\<close>

lemma overlay_absorb: "fst ` set ws' \<subseteq> fst ` set ws \<Longrightarrow> overlay ws (overlay ws' D) = overlay ws D"
proof -
  have eq: "overlay ws D m = overlay ws D' m" if "m \<in> fst ` set ws \<or> D m = D' m" for m D D'
    using that
  proof (induction ws arbitrary: D D')
    case (Cons w ws)
    then show ?case by (cases w) (auto intro!: Cons.IH)
  qed simp
  assume sub: "fst ` set ws' \<subseteq> fst ` set ws"
  show ?thesis
  proof
    fix m
    have "m \<in> fst ` set ws \<or> overlay ws' D m = D m" using sub overlay_other [of m ws' D] by blast
    then show "overlay ws (overlay ws' D) m = overlay ws D m" by (rule eq)
  qed
qed

lemma disk_n_0 [simp]: "get32 (D st) 0 = 0 \<Longrightarrow> disk_n st D = 0"
  by (simp add: disk_n_def)

lemma recover_empty:
  assumes "get32 (D st) 0 = 0"
  shows "sane_head st D" and "m \<noteq> st \<Longrightarrow> overlay (recover_writes st D) D m = D m"
  using assms by (simp_all add: sane_head_def recover_writes_def disk_home_def)

text \<open>The disk before the header is written, and after it.\<close>

definition tx_home :: "logst \<Rightarrow> (u32 \<Rightarrow> bytes) \<Rightarrow> (u32 \<times> bytes) list" where
  "tx_home l V = map (\<lambda>i. (log_block l i, V (log_block l i))) [0..<nat (log_n l)]"

definition logged :: "logst \<Rightarrow> (u32 \<Rightarrow> bytes) \<Rightarrow> (u32 \<Rightarrow> bytes) \<Rightarrow> u32 \<Rightarrow> bytes" where
  "logged l V D = (overlay (log_writes l V (nat (log_n l))) D)(log_start l := head_bytes l (V (log_start l)))"

lemma tx_home_fst: "fst ` set (tx_home l V) = log_home l"
  unfolding tx_home_def log_home_def set_map image_image fst_conv by (auto simp: atLeast0LessThan)

lemma tx_home_area:
  assumes "log_ok l" and "m \<in> log_area (log_start l)"
  shows "overlay (take j (tx_home l V)) D m = D m"
proof (rule overlay_other)
  have "fst ` set (take j (tx_home l V)) \<subseteq> log_home l" using set_take_subset [of j "tx_home l V"] tx_home_fst [of l V] by blast
  then show "m \<notin> fst ` set (take j (tx_home l V))" using log_okD(4) [OF assms(1)] assms(2) by (auto simp: log_home_def)
qed

lemma tx_home_at:
  assumes "log_ok l"
  shows "overlay (tx_home l V) D m = (if m \<in> log_home l then V m else D m)"
proof (cases "m \<in> log_home l")
  case True
  then obtain i where "i < nat (log_n l)" "m = log_block l i" by (auto simp: log_home_def)
  with True show ?thesis unfolding tx_home_def by (simp add: overlay_map [OF log_okD(3) [OF assms]])
next
  case False
  then show ?thesis using overlay_other [of m "tx_home l V" D] by (simp add: tx_home_fst)
qed

lemma recover_logged:
  assumes l: "log_ok l" and D: "D = overlay (take j (tx_home l V)) (logged l V D0)"
  shows "sane_head (log_start l) D" and "m \<notin> log_area (log_start l) \<Longrightarrow> overlay (recover_writes (log_start l) D) D m = overlay (tx_home l V) D0 m"
proof -
  let ?st = "log_start l" let ?n = "nat (log_n l)"
  note n = log_okD(1) [OF l]
  have st: "D ?st = head_bytes l (V ?st)" unfolding D tx_home_area [OF l log_area_start] by (simp add: logged_def)
  have "get32 (D ?st) 0 = word_of_int (log_n l)" unfolding st head_bytes_def by (simp add: get_below_array)
  moreover have "sint (word_of_int (log_n l) :: u32) = log_n l"
    using l by (simp add: log_ok_def LOGSIZE_def MAXOPBLOCKS_def signed_of_int signed_take_bit_int_eq_self)
  ultimately have dn: "disk_n ?st D = ?n" by (simp add: disk_n_def)
  have blk: "get32 (D ?st) (4 + 4 * i) = log_block l i" if "i < ?n" for i
    unfolding st head_bytes_def using that by (simp add: get_put_array)
  show "sane_head ?st D" using n dn blk log_okD(4) [OF l] by (simp add: sane_head_def)
  have "D (log_blockno l i) = V (log_block l i)" if "i < ?n" for i
  proof -
    have i: "i < LOGSIZE" using that n by simp
    show ?thesis unfolding D tx_home_area [OF l log_area_block [OF i]]
      using log_copy [OF l that] log_blockno_start [OF i, of l] by (simp add: logged_def)
  qed
  then have dh: "disk_home ?st D = tx_home l V"
    unfolding disk_home_def tx_home_def dn by (auto simp: blk log_blockno_def)
  show "overlay (recover_writes ?st D) D m = overlay (tx_home l V) D0 m" if m: "m \<notin> log_area ?st"
  proof -
    have "overlay (tx_home l V) D = overlay (tx_home l V) (logged l V D0)"
      unfolding D by (rule overlay_absorb) (use set_take_subset [of j "tx_home l V"] in blast)
    moreover have "logged l V D0 m = D0 m" using m log_writes_area [OF n m] by (auto simp: logged_def)
    ultimately show ?thesis using m by (auto simp: recover_writes_def dh tx_home_at [OF l])
  qed
qed

lemma commit_writes_eq:
  "commit_writes l V = log_writes l V (nat (log_n l)) @ (log_start l, head_bytes l (V (log_start l))) # tx_home l V
     @ [(log_start l, put32 0 0 (head_bytes l (V (log_start l))))]"
  by (simp add: commit_writes_def tx_home_def Let_def)

text \<open>The disk after the first \<open>k\<close> writes of a commit.\<close>

lemma crash_early:
  assumes "k \<le> nat (log_n l)" and l: "log_ok l" and "m \<notin> log_area (log_start l) \<or> m = log_start l"
  shows "overlay (take k (commit_writes l V)) D m = D m"
proof -
  have "take k (commit_writes l V) = take k (log_writes l V (nat (log_n l)))" using assms(1) by (simp add: commit_writes_eq log_writes_def)
  also have "\<dots> = log_writes l V k" using assms(1) by (simp add: log_writes_def take_map)
  finally have e: "take k (commit_writes l V) = log_writes l V k" .
  have "k \<le> LOGSIZE" using assms(1) log_okD(1) [OF l] by simp
  then show ?thesis unfolding e using assms(3) log_writes_area start_not_logged by blast
qed

lemma crash_late:
  assumes "nat (log_n l) < k" and "k \<le> length (commit_writes l V)"
  shows "overlay (take k (commit_writes l V)) D = overlay (take (k - nat (log_n l) - 1) (tx_home l V)) (logged l V D)
    \<or> overlay (take k (commit_writes l V)) D = (overlay (tx_home l V) (logged l V D))(log_start l := put32 0 0 (head_bytes l (V (log_start l))))"
proof -
  let ?n = "nat (log_n l)"
  obtain j where k: "k = Suc (?n + j)" using assms(1) less_iff_Suc_add by blast
  have len: "length (log_writes l V ?n) = ?n" "length (tx_home l V) = ?n" by (simp_all add: log_writes_def tx_home_def)
  show ?thesis
  proof (cases "j \<le> ?n")
    case True
    then show ?thesis using len by (simp add: commit_writes_eq k logged_def)
  next
    case False
    then have "j = Suc ?n" using assms(2) len by (simp add: commit_writes_eq k)
    then show ?thesis using len by (simp add: commit_writes_eq k logged_def)
  qed
qed


text \<open>A state in which a transaction of one block, number 100, waits to be committed.\<close>

definition dirty_buf :: buf where
  "dirty_buf = (fresh_bufs 0)\<lparr>b_dev := 1, b_blockno := 100, b_refcnt := 1, b_data := (\<lambda>_. 9), b_valid := True\<rparr>"

definition sample_tx :: file_state where
  "sample_tx = (sample_bio (\<lambda>_ _. 0))\<lparr>bufs := fresh_bufs(0 := dirty_buf), the_log := sample_log\<lparr>log_n := 1, log_block := (\<lambda>_. 100)\<rparr>\<rparr>"

lemma sample_tx_cache:
  "cache_at 1 sample_tx (fresh_cache (\<lambda>_ _. 0)\<lparr>bc_view := (\<lambda>_ _. 0)(100 := \<lambda>_. 9), bc_refs := (\<lambda>_. 0)(100 := 1), bc_busy := 1\<rparr>)"
proof -
  let ?s = "sample_bio (\<lambda>_ _. 0)" and ?s1 = "(sample_bio (\<lambda>_ _. 0))\<lparr>bufs := fresh_bufs(0 := dirty_buf)\<rparr>"
  note c = cache_atD [OF sample_bio_cache [of "\<lambda>_ _. 0"]]
  have b: "bufs ?s = fresh_bufs" "\<not> locked_buf ?s1 0" by (simp_all add: sample_bio_def locked_buf_def)
  have r: "refs 1 fresh_bufs 100 = 0" using fun_cong [OF c(6), of 100] b by (simp add: fresh_cache_def)
  have "bslot 1 fresh_bufs 100 = None" unfolding bslot_None by (simp add: cached_in_def fresh_bufs_def sample_buf_def)
  moreover have "lru (fresh_bufs(0 := dirty_buf)) [0..<NBUF]"
    using lru_fresh by (subst lru_cong [of _ fresh_bufs]) (simp_all add: dirty_buf_def)
  ultimately have st: "stored 1 100 0 dirty_buf ?s ?s1"
    using b by (auto simp: stored_def buf_for_def dirty_buf_def same_data_refl touches_def NBUF_def MAXOPBLOCKS_def fresh_bufs_def sample_buf_def)
  have "stored_cache 1 100 0 dirty_buf ?s ?s1
      = fresh_cache (\<lambda>_ _. 0)\<lparr>bc_view := (\<lambda>_ _. 0)(100 := \<lambda>_. 9), bc_refs := (\<lambda>_. 0)(100 := 1), bc_busy := 1\<rparr>"
    using c(3-8) b by (simp add: stored_cache_def fresh_cache_def dirty_buf_def fresh_bufs_def sample_buf_def)
  with stored_step [OF c(1) st] b(2) have "to_cache 1 ?s (fresh_cache (\<lambda>_ _. 0)\<lparr>bc_view := (\<lambda>_ _. 0)(100 := \<lambda>_. 9), bc_refs := (\<lambda>_. 0)(100 := 1), bc_busy := 1\<rparr>) ?s1"
    by (simp add: bio_step_to buf_at_def locked_buf_def sample_bio_def)
  then show ?thesis by (simp add: to_cache_def sample_tx_def)
qed

lemma log_area_2: "100 \<notin> log_area 2"
proof
  assume "100 \<in> log_area 2"
  then obtain j where j: "(100 :: u32) = 2 + of_nat j" "j \<le> LOGSIZE" by (auto simp: log_area_def)
  then have "(of_nat 98 :: u32) = of_nat j" by (simp add: algebra_simps)
  then show False using of_nat_small [of 98 j] j(2) by (simp add: LOGSIZE_def MAXOPBLOCKS_def)
qed


end
