(* ===== verification/Log_Tx.thy ===== *)
theory Log_Tx
  imports Log_Crash
begin

text \<open>
  Transactions of the write-ahead log: \<open>log_write\<close> collects the blocks of a transaction and pins their buffers,
  \<open>begin_op\<close> reserves room in the log, the last \<open>end_op\<close> commits; and recovery after a crash during recovery.
\<close>

subsection \<open>Collecting blocks\<close>

definition add_block :: "u32 \<Rightarrow> logst \<Rightarrow> logst" where
  "add_block n l = (if n \<in> log_home l then l
     else l\<lparr>log_block := (log_block l)(nat (log_n l) := n), log_n := log_n l + 1\<rparr>)"

lemma log_home_add: "0 \<le> log_n l \<Longrightarrow> log_home (add_block n l) = insert n (log_home l)"
  by (auto simp: log_home_def add_block_def nat_add_distrib lessThan_Suc)

lemma log_ok_add:
  assumes "log_ok l" and "n \<notin> log_area (log_start l)" and "log_n l < int LOGSIZE"
  shows "log_ok (add_block n l)"
proof (cases "n \<in> log_home l")
  case False
  have "nat (log_n l + 1) = Suc (nat (log_n l))" using assms(1) unfolding log_ok_def by (simp add: nat_add_distrib)
  moreover have "inj_on ((log_block l)(nat (log_n l) := n)) {..<Suc (nat (log_n l))}"
    using False log_okD(3) [OF assms(1)] unfolding lessThan_Suc by (auto simp: inj_on_def log_home_def)
  moreover have "((log_block l)(nat (log_n l) := n)) i \<notin> log_area (log_start l)" if "i < Suc (nat (log_n l))" for i
    using that assms(2) log_okD(4) [OF assms(1), of i] by (cases "i = nat (log_n l)") auto
  ultimately show ?thesis using assms False by (simp add: log_ok_def add_block_def)
qed (simp add: add_block_def assms(1))

text \<open>Between operations, the references are the pins of the transaction and the buffers the caller has locked.\<close>

definition tx_inv :: "logst \<Rightarrow> bcache \<Rightarrow> bool" where
  "tx_inv l c \<longleftrightarrow> log_ok l
     \<and> (\<forall>m. bc_refs c m = (if m \<in> log_home l then 1 else 0) + (if m \<in> bc_held c then 1 else 0))"

lemma find_block_run:
  assumes "k \<le> LOGSIZE"
  shows "for_until [0..<k] (\<lambda>i. bnd (get_lh_block i) (\<lambda>v. return (if v = n then Some i else None))) e s
     = Ok (List.find (\<lambda>i. log_block (the_log s) i = n) [0..<k]) e s"
proof -
  have "for_until [0..<k] (\<lambda>i. bnd (get_lh_block i) (\<lambda>v. return (if v = n then Some i else None))) e s
      = (case List.find (\<lambda>i. log_block (the_log s) i = n) [0..<k] of None \<Rightarrow> Ok None e s | Some i \<Rightarrow> Ok (Some i) e s)"
    by (rule for_until_find) (use assms in \<open>auto simp: get_lh_block_def\<close>)
  then show ?thesis by (simp split: option.split)
qed

lemma find_block:
  assumes "List.find (\<lambda>i. log_block l i = n) [0..<nat (log_n l)] = r"
  shows "n \<in> log_home l \<longleftrightarrow> r \<noteq> None" and "r = Some i \<Longrightarrow> i < nat (log_n l) \<and> log_block l i = n"
proof -
  have "r = None \<longleftrightarrow> (\<forall>i < nat (log_n l). log_block l i \<noteq> n)" unfolding assms [symmetric] find_upt_None_iff ..
  then show "n \<in> log_home l \<longleftrightarrow> r \<noteq> None" unfolding log_home_def by blast
  show "i < nat (log_n l) \<and> log_block l i = n" if "r = Some i" using assms that find_upt_SomeD(1,2) by blast
qed

lemma log_write_run:
  assumes c: "cache_at d s c" and b: "buf_at d s n b" "n \<in> bc_held c" and l: "log_ok (the_log s)" "log_n (the_log s) < int LOGSIZE" "log_n (the_log s) < log_size (the_log s) - 1"
    "1 \<le> log_outstanding (the_log s)" and r: "bc_refs c n + 1 \<noteq> 0"
  shows "\<exists>s'. log_write b e s = Ok () e s' \<and> cache_at d s' (if n \<in> log_home (the_log s) then c else bc_pin n c)
     \<and> touches (s\<lparr>the_log := add_block n (the_log s)\<rparr>) s' \<and> buf_at d s' n b"
proof -
  let ?l = "the_log s" let ?s = "s\<lparr>lk := lk_acq LogLock (lk s)\<rparr>"
  let ?r = "List.find (\<lambda>i. log_block ?l i = n) [0..<nat (log_n ?l)]"
  note i = cache_atD(1) [OF c] and f = bio_invD(1) [OF cache_atD(1) [OF c]]
  have n0: "0 \<le> log_n ?l" "nat (log_n ?l) \<le> LOGSIZE" "\<not> int LOGSIZE \<le> log_n ?l" "\<not> log_size ?l - 1 \<le> log_n ?l" "\<not> log_outstanding ?l < 1"
    using l log_okD(1) [OF l(1)] by (auto simp: log_ok_def)
  have bn: "b_blockno (bufs s b) = n" using buf_atD(3) [OF i b(1)] .
  show ?thesis
  proof (cases ?r)
    case (Some j)
    have h: "n \<in> log_home ?l" "j < nat (log_n ?l)" "log_block ?l j = n" using find_block [OF Some] by auto
    have "int j \<noteq> log_n ?l" "j < LOGSIZE" using h(2) n0(2) by auto
    then have "log_write b e s = Ok () e s"
      using f n0 bn Some h find_block_run [OF n0(2), of n e ?s]
      by (simp add: log_write_def lock_run set_lh_block_def fun_upd_idem)
    then show ?thesis using h(1) c b by (simp add: add_block_def)
  next
    case None
    then have h: "n \<notin> log_home ?l" using find_block(1) [OF None] by simp
    have "log_write b e s = Ok () e (s\<lparr>bufs := upd b (\<lambda>x. x\<lparr>b_refcnt := b_refcnt x + 1\<rparr>) (bufs s), the_log := add_block n ?l\<rparr>)"
      using f n0 bn None h find_block_run [OF n0(2), of n e ?s] l(2)
      by (simp add: log_write_def lock_run set_lh_block_def bpin_def setb_upd add_block_def Let_def nat_less_iff del: setb_run)
    moreover from set_refcnt_step [OF i b(1), of "bc_refs c n + 1"] r have
      "to_cache d s (bc_pin n c) (s\<lparr>bufs := upd b (\<lambda>x. x\<lparr>b_refcnt := b_refcnt x + 1\<rparr>) (bufs s)\<rparr>)"
      using cache_atD(2,6) [OF c] buf_atD(9) [OF i b(1)] by (simp add: bio_step_to upd_def bc_pin_def)
    ultimately show ?thesis using h b touches_set_log to_cacheD by (auto simp: to_cache_def bc_pin_def)
  qed
qed



subsection \<open>Ending an operation\<close>

lemma view_cong: "bufs s' = bufs s \<Longrightarrow> disk s' = disk s \<Longrightarrow> view d s' = view d s"
  by (intro ext) (simp add: view_def split: option.split)

lemma tx_inv_log: "tx_inv (l\<lparr>log_outstanding := k, log_committing := b\<rparr>) c = tx_inv l c"
  by (simp add: tx_inv_def log_ok_def log_home_def)

text \<open>The commit of a transaction that may be empty.\<close>

lemma commit_all:
  assumes c: "cache_at d s c" and l: "log_dev (the_log s) = d" "tx_inv (the_log s) c" and h: "bc_held c = {}" "bc_busy c < NBUF"
  shows "\<exists>s' c'. commit e s = Ok () e s' \<and> cache_at d s' c' \<and> touches (s\<lparr>the_log := (the_log s)\<lparr>log_n := 0\<rparr>\<rparr>) s'
     \<and> (\<forall>m. m \<notin> log_area (log_start (the_log s)) \<longrightarrow> bc_disk c' m = bc_view c m \<and> bc_view c' m = bc_view c m)
     \<and> bc_held c' = {} \<and> (\<forall>m. bc_refs c' m = 0)"
proof -
  let ?l = "the_log s"
  have ok: "log_ok ?l" "bc_refs c m = (if m \<in> log_home ?l then 1 else 0)" for m using l(2) h(1) by (simp_all add: tx_inv_def)
  have clean: "m \<notin> log_home ?l \<Longrightarrow> bc_disk c m = bc_view c m" for m using unused_clean [OF c, of m] ok(2) by simp
  show ?thesis
  proof (cases "0 < log_n ?l")
    case True
    let ?W = "commit_writes ?l (bc_view c)"
    have p: "log_pinned ?l c" using ok(2) h by (simp add: log_pinned_def)
    from commit_run [OF c l(1) ok(1) True p, of e] obtain s' c' where s': "commit e s = Ok () e s'" "cache_at d s' c'"
      "touches (s\<lparr>the_log := ?l\<lparr>log_n := 0\<rparr>\<rparr>) s'" "bc_disk c' = overlay ?W (bc_disk c)" "bc_view c' = overlay ?W (bc_view c)"
      "bc_held c' = {}" "\<forall>m. bc_refs c' m = 0" by blast
    have "overlay ?W D m = (if m \<in> log_home ?l then bc_view c m else D m)" if "m \<notin> log_area (log_start ?l)" for D m
      using that log_writes_area [OF log_okD(1) [OF ok(1)] that] log_area_start [of "log_start ?l"]
      by (auto simp: commit_writes_eq tx_home_at [OF ok(1)])
    then show ?thesis using s' clean by (intro exI [of _ s'] exI [of _ c']) auto
  next
    case False
    then have "log_n ?l = 0" using ok(1) by (simp add: log_ok_def)
    then have "log_home ?l = {}" "s\<lparr>the_log := ?l\<lparr>log_n := 0\<rparr>\<rparr> = s" by (simp_all add: log_home_def)
    moreover have "commit e s = Ok () e s" using False by (simp add: commit_def)
    ultimately show ?thesis using c h clean ok(2) by (intro exI [of _ s] exI [of _ c]) auto
  qed
qed



subsection \<open>Beginning an operation\<close>



subsection \<open>Crashes during recovery\<close>

lemma recover_writes_partial:
  assumes "sane_head st D" and "k \<le> disk_n st D" and D': "D' = overlay (take k (disk_home st D)) D"
  shows "recover_writes st D' = recover_writes st D" and "overlay (disk_home st D) D' = overlay (disk_home st D) D" and "sane_head st D'"
proof -
  have "fst ` set (take k (disk_home st D)) \<subseteq> fst ` set (disk_home st D)" using set_take_subset [of k "disk_home st D"] by blast
  moreover have "fst ` set (disk_home st D) \<inter> log_area st = {}" using assms(1) by (auto simp: disk_home_def sane_head_def)
  ultimately have same: "D' m = D m" if "m \<in> log_area st" for m unfolding D' using that by (intro overlay_other) blast
  have st: "D' st = D st" by (rule same) simp
  then have n: "disk_n st D' = disk_n st D" by (simp add: disk_n_def)
  have "D' (st + of_nat i + 1) = D (st + of_nat i + 1)" if "i < disk_n st D" for i
  proof (rule same)
    have "i < LOGSIZE" using that assms(1) by (simp add: sane_head_def)
    then show "st + of_nat i + 1 \<in> log_area st" using log_area_block [of i "sample_log\<lparr>log_start := st\<rparr>"] by (simp add: log_blockno_def)
  qed
  then have "disk_home st D' = disk_home st D" by (simp add: disk_home_def n st)
  then show "recover_writes st D' = recover_writes st D" by (simp add: recover_writes_def st)
  show "overlay (disk_home st D) D' = overlay (disk_home st D) D"
    unfolding D' by (rule overlay_absorb) (use set_take_subset [of k "disk_home st D"] in blast)
  show "sane_head st D'" using assms(1) by (simp add: sane_head_def n st)
qed



end
