(* ===== verification/Fs_Read.thy ===== *)
theory Fs_Read
  imports File_Bytes Log_Tx
begin

text \<open>Reading files: \<open>bmap\<close> and \<open>readi\<close> of \<open>kernel/fs.c\<close> over the contents that the buffer cache promises.\<close>

lemma touches_fs: "touches s s' \<Longrightarrow> itable s' = itable s \<and> sb s' = sb (s :: 'z fs_state_scheme)"
proof -
  assume "touches s s'"
  then have "rest s' = rest s" by (simp add: touches_def)
  moreover have "itable (rest u) = itable u \<and> sb (rest u) = sb u" for u :: "'z fs_state_scheme" by (simp add: rest_def)
  ultimately show ?thesis by metis
qed

text \<open>No buffer is locked, one is free, and no reference count is at its largest value.\<close>

definition quiet :: "bcache \<Rightarrow> bool" where
  "quiet c \<longleftrightarrow> bc_held c = {} \<and> bc_busy c < NBUF \<and> (\<forall>n. bc_refs c n + 1 \<noteq> 0)"

lemma bread_brelse:
  assumes c: "cache_at d s c" and q: "quiet c"
  obtains b s1 where "bread d n e s = Ok b e s1" "b_data (bufs s1 b) = bc_view c n" "touches s s1" "all_free (lk s1)"
    "\<exists>s2. brelse b e s1 = Ok () e s2 \<and> cache_at d s2 c \<and> touches s s2"
proof -
  obtain b s1 where s1: "bread d n e s = Ok b e s1" "to_cache d s (bc_read n c) s1" "buf_at d s1 n b" "b_data (bufs s1 b) = bc_view c n"
    using bread_rule [OF c, of n e] q by (auto simp: quiet_def)
  note c1 = to_cacheD [OF s1(2)]
  have cl: "bc_refs (bc_read n c) n = 1 \<Longrightarrow> bc_view (bc_read n c) n = bc_disk (bc_read n c) n"
    using unused_clean [OF c, of n] by (simp add: bc_defs)
  obtain s2 where s2: "brelse b e s1 = Ok () e s2" "to_cache d s1 (bc_relse n (bc_read n c)) s2"
    using brelse_rule [OF c1(1) s1(3) cl, of e] by blast
  have "bc_relse n (bc_read n c) = c"
    using q by (intro bcache.equality) (auto simp: bc_defs quiet_def fun_eq_iff)
  then have "cache_at d s2 c" "touches s s2" using to_cacheD(1,2) [OF s2(2)] c1(2) by (auto intro: touches_trans)
  moreover have "all_free (lk s1)" using bio_invD(1) [OF cache_atD(1) [OF c1(1)]] .
  ultimately show thesis using s1 s2(1) c1(2) by (intro that [of b s1]) blast+
qed

lemma bmap_finds:
  assumes c: "cache_at d s c" and q: "quiet c" and i: "i_dev (itable s ip) = d"
    and f: "unat bn < MAXFILE" and a: "slot (bc_view c) (i_addrs (itable s ip)) (data_slot (unat bn)) \<noteq> 0"
  shows "\<exists>s'. bmap ip bn e s = Ok (slot (bc_view c) (i_addrs (itable s ip)) (data_slot (unat bn))) e s'
     \<and> cache_at d s' c \<and> touches s s'"
proof (cases "unat bn < NDIRECT")
  case True
  then show ?thesis using a c by (intro exI [of _ s]) (simp add: bmap_def slot_def data_slot_def)
next
  case False
  let ?a = "i_addrs (itable s ip)" and ?k = "unat bn - NDIRECT"
  have k: "?k < NINDIRECT" using f False by (simp add: MAXFILE_def)
  have ind: "?a NDIRECT \<noteq> 0" "slot (bc_view c) ?a (data_slot (unat bn)) = get32 (bc_view c (?a NDIRECT)) (4 * ?k)"
    using a False by (auto simp: slot_def data_slot_def split: if_splits)
  obtain b s1 where s1: "bread d (?a NDIRECT) e s = Ok b e s1" "b_data (bufs s1 b) = bc_view c (?a NDIRECT)"
    "\<exists>s2. brelse b e s1 = Ok () e s2 \<and> cache_at d s2 c \<and> touches s s2"
    by (rule bread_brelse [OF c q])
  then obtain s2 where s2: "brelse b e s1 = Ok () e s2" "cache_at d s2 c" "touches s s2" by blast
  show ?thesis using False k ind s1(1,2) s2 i a by (intro exI [of _ s2]) (simp add: bmap_def Let_def)
qed

text \<open>One round: the bytes up to the end of the block, or of the request.\<close>

definition local_upd :: "bytes \<Rightarrow> nat \<Rightarrow> bytes \<Rightarrow> nat \<Rightarrow> bytes" where
  "local_upd b k src len = (\<lambda>i. if k \<le> i \<and> i < k + len then src (i - k) else b i)"

lemma local_upd_cong: "(\<And>j. j < len \<Longrightarrow> f j = g j) \<Longrightarrow> local_upd b k f len = local_upd b k g len"
  by (auto simp: local_upd_def fun_eq_iff)

lemma readi_round:
  assumes c: "cache_at d s c" and q: "quiet c" and i: "i_dev (itable s ip) = d"
    and al: "allocated (bc_view c) (i_addrs (itable s ip)) len" and o: "unat off < len" and t: "tot < n"
    and m: "m = min (n - tot) (of_nat BSIZE - off mod of_nat BSIZE)"
  shows "\<exists>s'. readi_loop (Suc fuel) ip (AtLocal b k) off n tot e s
       = readi_loop fuel ip (AtLocal (local_upd b k (\<lambda>j. file_byte (bc_view c) (i_addrs (itable s ip)) (unat off + j)) (unat m)) (k + unat m))
           (off + m) n (tot + m) e s' \<and> cache_at d s' c \<and> touches s s'"
proof -
  let ?a = "i_addrs (itable s ip)" and ?fbn = "off div of_nat BSIZE"
  have u: "unat ?fbn = unat off div BSIZE" "unat (off mod of_nat BSIZE) = unat off mod BSIZE"
    "unat (of_nat BSIZE - off mod of_nat BSIZE) = BSIZE - unat off mod BSIZE"
    by (simp_all add: unat_div unat_mod BSIZE_def unat_sub_if')
  let ?x = "slot (bc_view c) ?a (data_slot (unat off div BSIZE))"
  have f: "unat ?fbn < MAXFILE" using al o by (auto simp: u allocated_def less_mult_imp_div_less)
  have x: "?x \<noteq> 0" using allocated_slot(1) [OF al o] .
  obtain s1 where s1: "bmap ip ?fbn e s = Ok ?x e s1" "cache_at d s1 c" "touches s s1"
    using bmap_finds [OF c q i f] x unfolding u by blast
  obtain bp s2 where s2: "bread d ?x e s1 = Ok bp e s2" "b_data (bufs s2 bp) = bc_view c ?x" "all_free (lk s2)"
    "\<exists>s3. brelse bp e s2 = Ok () e s3 \<and> cache_at d s3 c \<and> touches s1 s3"
    by (rule bread_brelse [OF s1(2) q])
  then obtain s3 where s3: "brelse bp e s2 = Ok () e s3" "cache_at d s3 c" "touches s1 s3" by blast
  have mm: "unat m \<le> BSIZE - unat off mod BSIZE" unfolding m u(3) [symmetric] by (simp add: word_le_nat_alt [symmetric])
  have "local_upd b k (\<lambda>j. bc_view c ?x (unat off mod BSIZE + j)) (unat m) = local_upd b k (\<lambda>j. file_byte (bc_view c) ?a (unat off + j)) (unat m)"
    using mm by (intro local_upd_cong) (simp add: file_byte_block)
  then show ?thesis
    using s1 s2(1-3) s3 t i by (intro exI [of _ s3]) (auto simp: Let_def m [symmetric] u lock_run either_copyout_def xaddr_add_def
      local_upd_def intro: touches_trans)
qed

lemma local_upd_append: "local_upd (local_upd b k f m) (k + m) (\<lambda>j. f (m + j)) r = local_upd b k f (m + r)"
  by (auto simp: local_upd_def fun_eq_iff)

lemma local_upd_none [simp]: "local_upd b k f 0 = b"
  by (auto simp: local_upd_def fun_eq_iff)

lemma readi_loop_reads:
  assumes "cache_at d s c" "quiet c" "i_dev (itable s ip) = d" "allocated (bc_view c) (i_addrs (itable s ip)) len"
    "tot \<le> n" "unat n - unat tot < fuel" "unat off + (unat n - unat tot) \<le> len"
  shows "\<exists>s'. readi_loop fuel ip (AtLocal b k) off n tot e s
       = Ok (n, AtLocal (local_upd b k (\<lambda>j. file_byte (bc_view c) (i_addrs (itable s ip)) (unat off + j)) (unat n - unat tot))
           (k + (unat n - unat tot))) e s' \<and> cache_at d s' c \<and> touches s s'"
  using assms
proof (induction fuel arbitrary: s b k off tot)
  case (Suc fuel)
  let ?f = "\<lambda>j. file_byte (bc_view c) (i_addrs (itable s ip)) (unat off + j)"
  show ?case
  proof (cases "tot < n")
    case False
    then show ?thesis using Suc.prems by (intro exI [of _ s]) simp
  next
    case True
    define m where "m = min (n - tot) (of_nat BSIZE - off mod of_nat BSIZE)"
    have nt: "unat (n - tot) = unat n - unat tot" using True by (simp add: unat_sub)
    have tn: "unat tot < unat n" using True by (simp add: word_less_nat_alt)
    have mb: "unat m \<le> unat n - unat tot" unfolding nt [symmetric] m_def by (simp add: word_le_nat_alt [symmetric])
    have "0 < of_nat BSIZE - off mod (of_nat BSIZE :: u32)" by (simp add: word_less_nat_alt unat_sub_if' unat_mod BSIZE_def)
    moreover have "0 < n - tot" using tn nt by (simp add: word_less_nat_alt)
    ultimately have mp: "0 < unat m" by (simp add: m_def min_def unat_gt_0 word_neq_0_conv)
    have len: "len \<le> MAXFILE * BSIZE" using Suc.prems(4) by (simp add: allocated_def)
    have uo: "unat (off + m) = unat off + unat m"
      using Suc.prems(7) mb len by (intro unat_add_lem [THEN iffD1]) (simp add: MAXFILE_def NDIRECT_def NINDIRECT_def BSIZE_def)
    have "unat tot + unat m \<le> unat n" using mb tn by linarith
    moreover have "unat n < 2 ^ 32" using unsigned_less [of n] by simp
    ultimately have ut: "unat (tot + m) = unat tot + unat m" "tot + m \<le> n"
      by (auto simp: unat_word_ariths word_le_nat_alt)
    have o: "unat off < len" using Suc.prems(7) tn by linarith
    obtain s1 where s1: "readi_loop (Suc fuel) ip (AtLocal b k) off n tot e s
        = readi_loop fuel ip (AtLocal (local_upd b k ?f (unat m)) (k + unat m)) (off + m) n (tot + m) e s1"
      "cache_at d s1 c" "touches s s1"
      using readi_round [OF Suc.prems(1-4) o True m_def] by blast
    have it: "itable s1 ip = itable s ip" using touches_fs [OF s1(3)] by simp
    define r where "r = unat n - unat (tot + m)"
    have r: "unat m + r = unat n - unat tot" "r < fuel" "unat (off + m) + r \<le> len"
      using mb tn Suc.prems(6,7) mp by (simp_all add: r_def ut uo)
    obtain s2 where s2: "readi_loop fuel ip (AtLocal (local_upd b k ?f (unat m)) (k + unat m)) (off + m) n (tot + m) e s1
        = Ok (n, AtLocal (local_upd (local_upd b k ?f (unat m)) (k + unat m) (\<lambda>j. ?f (unat m + j)) r) (k + unat m + r)) e s2"
      "cache_at d s2 c" "touches s1 s2"
      using Suc.IH [OF s1(2) Suc.prems(2), of "tot + m" "off + m" "local_upd b k ?f (unat m)" "k + unat m"] Suc.prems(3,4) it ut(2) r
      by (auto simp: r_def [symmetric] uo add.assoc)
    have "local_upd (local_upd b k ?f (unat m)) (k + unat m) (\<lambda>j. ?f (unat m + j)) r = local_upd b k ?f (unat n - unat tot)"
      unfolding r(1) [symmetric] by (rule local_upd_append)
    moreover have "k + unat m + r = k + (unat n - unat tot)" using r(1) by simp
    ultimately have "readi_loop (Suc fuel) ip (AtLocal b k) off n tot e s
        = Ok (n, AtLocal (local_upd b k ?f (unat n - unat tot)) (k + (unat n - unat tot))) e s2"
      unfolding s1(1) s2(1) by (simp only:)
    then show ?thesis using touches_trans [OF s1(3) s2(3)] s2(2) by blast
  qed
qed simp

declare readi_loop.simps [simp del]

lemma readi_run:
  assumes c: "cache_at d s c" and q: "quiet c" and i: "i_dev (itable s ip) = d"
    and al: "allocated (bc_view c) (i_addrs (itable s ip)) (unat (i_size (itable s ip)))"
    and o: "off \<le> i_size (itable s ip)" "off \<le> off + n"
  defines "m \<equiv> min (unat n) (unat (i_size (itable s ip)) - unat off)"
  shows "\<exists>s'. readi ip (AtLocal b 0) off n e s
      = Ok (int m, AtLocal (local_upd b 0 (\<lambda>j. file_byte (bc_view c) (i_addrs (itable s ip)) (unat off + j)) m) m) e s'
     \<and> cache_at d s' c \<and> touches s s'"
proof -
  let ?size = "i_size (itable s ip)"
  define n' where "n' = (if ?size < off + n then ?size - off else n)"
  have un: "unat (off + n) = unat off + unat n" using o(2) by (simp add: unat_plus_simple)
  have us: "unat (?size - off) = unat ?size - unat off" using o(1) by (simp add: unat_sub)
  have m: "unat n' = m" using un us o(1) by (auto simp: n'_def m_def min_def word_less_nat_alt)
  have "unat ?size \<le> MAXFILE * BSIZE" using al by (simp add: allocated_def)
  moreover have "m \<le> unat ?size" by (simp add: m_def)
  ultimately have "m < 2 ^ 31" by (simp add: MAXFILE_def NDIRECT_def NINDIRECT_def BSIZE_def)
  then have sn: "sint n' = int m" using m
    by (simp add: sint_uint uint_nat signed_take_bit_int_eq_self)
  have l: "unat off + (unat n' - unat (0 :: u32)) \<le> unat ?size" using m o(1) by (auto simp: m_def word_le_nat_alt)
  obtain s' where "readi_loop (Suc (unat n')) ip (AtLocal b 0) off n' 0 e s
      = Ok (n', AtLocal (local_upd b 0 (\<lambda>j. file_byte (bc_view c) (i_addrs (itable s ip)) (unat off + j)) m) m) e s'"
    "cache_at d s' c" "touches s s'"
    using readi_loop_reads [OF c q i al _ _ l, of "Suc (unat n')" b 0 e] m by auto
  moreover have "\<not> ?size < off" "\<not> off + n < off" using o by (simp_all add: not_less)
  ultimately show ?thesis using sn by (intro exI [of _ s']) (simp add: readi_def n'_def [symmetric])
qed

text \<open>
  C36. \<open>readi\<close> returns the bytes of the file: reading \<open>n\<close> bytes at an offset within it puts the bytes of the file
  from that offset on into the destination, as many as there are up to the end of the file, and returns their
  number. They are read through the direct and the indirect blocks across block boundaries; the loop ends, no block
  changes its contents and every buffer is released. An offset behind the end, and one that wraps around, read
  nothing. The destination is a variable of the kernel, as in the code that reads directories and program headers.
\<close>

theorem readi_reads:
  assumes "cache_at d s c" "quiet c" "i_dev (itable s ip) = d"
    "allocated (bc_view c) (i_addrs (itable s ip)) (unat (i_size (itable s ip)))"
  shows "(off \<le> i_size (itable s ip) \<and> off \<le> off + n \<longrightarrow>
      (\<exists>s' b' m. readi ip (AtLocal b 0) off n e s = Ok (int m, AtLocal b' m) e s' \<and> cache_at d s' c \<and> touches s s'
         \<and> m = min (unat n) (unat (i_size (itable s ip)) - unat off)
         \<and> map b' [0..<m] = take m (drop (unat off) (file_bytes (bc_view c) (i_addrs (itable s ip)) (unat (i_size (itable s ip)))))))
    \<and> (i_size (itable s ip) < off \<or> off + n < off \<longrightarrow> readi ip (AtLocal b 0) off n e s = Ok (0, AtLocal b 0) e s)"
proof (intro conjI impI)
  assume o: "off \<le> i_size (itable s ip) \<and> off \<le> off + n"
  let ?m = "min (unat n) (unat (i_size (itable s ip)) - unat off)"
  let ?b = "local_upd b 0 (\<lambda>j. file_byte (bc_view c) (i_addrs (itable s ip)) (unat off + j)) ?m"
  have "map ?b [0..<?m] = take ?m (drop (unat off) (file_bytes (bc_view c) (i_addrs (itable s ip)) (unat (i_size (itable s ip)))))"
    by (intro nth_equalityI) (auto simp: local_upd_def file_bytes_def)
  then show "\<exists>s' b' m. readi ip (AtLocal b 0) off n e s = Ok (int m, AtLocal b' m) e s' \<and> cache_at d s' c \<and> touches s s'
         \<and> m = ?m \<and> map b' [0..<m] = take m (drop (unat off) (file_bytes (bc_view c) (i_addrs (itable s ip)) (unat (i_size (itable s ip)))))"
    using readi_run [OF assms, of off n b e] o by blast
next
  assume "i_size (itable s ip) < off \<or> off + n < off"
  then show "readi ip (AtLocal b 0) off n e s = Ok (0, AtLocal b 0) e s" by (auto simp: readi_def)
qed

text \<open>A cache and a file for the use of the properties: three bytes in block 7.\<close>

definition sample_file_inode :: inode where
  "sample_file_inode = \<lparr>i_dev = 1, i_inum = 5, i_ref = 1, i_valid = True, i_type = T_FILE, i_major = 0, i_minor = 0, i_nlink = 1,
     i_size = 3, i_addrs = (\<lambda>_. 0)(0 := 7)\<rparr>"

lemma cache_at_inode [simp]:
  "cache_at d (s\<lparr>itable := t\<rparr>) c \<longleftrightarrow> cache_at d s c"
  "cache_at d (s\<lparr>sb := b\<rparr>) c \<longleftrightarrow> cache_at d (s :: 'z fs_state_scheme) c"
  by (simp_all add: cache_at_def bio_inv_def cache_of_def view_def [abs_def] held_def locked_buf_def
      cong: option.case_cong if_cong)

lemma quiet_fresh: "quiet (fresh_cache D)"
  by (simp add: quiet_def fresh_cache_def NBUF_def MAXOPBLOCKS_def)

theorem readi_reads_witness:
  "\<exists>s' b'. readi 0 (AtLocal (\<lambda>_. 0) 0) 1 100 [] ((sample_bio (\<lambda>b i. ucast b + of_nat i))\<lparr>itable := (\<lambda>_. sample_file_inode)\<rparr>)
     = Ok (2, AtLocal b' 2) [] s' \<and> map b' [0..<2] = [8, 9]"
proof -
  let ?D = "\<lambda>(b :: u32) i. ucast b + of_nat i :: u8"
  let ?s = "(sample_bio ?D)\<lparr>itable := (\<lambda>_. sample_file_inode)\<rparr>"
  have c: "cache_at 1 ?s (fresh_cache ?D)" by (simp add: sample_bio_cache)
  have al: "allocated (bc_view (fresh_cache ?D)) (i_addrs (itable ?s 0)) (unat (i_size (itable ?s 0)))"
    by (auto simp: allocated_def sample_file_inode_def MAXFILE_def NDIRECT_def NINDIRECT_def BSIZE_def slot_def data_slot_def)
  have d: "i_dev (itable ?s 0) = 1" by (simp add: sample_file_inode_def)
  have z: "unat (i_size (itable ?s 0)) = 3" by (simp add: sample_file_inode_def)
  have f: "file_bytes (bc_view (fresh_cache ?D)) (i_addrs (itable ?s 0)) 3 = [7, 8, 9]"
    by (simp add: file_bytes_def numeral_3_eq_3)
       (simp add: sample_file_inode_def file_byte_def slot_def data_slot_def BSIZE_def NDIRECT_def fresh_cache_def)
  have "1 \<le> i_size (itable ?s 0) \<and> (1 :: u32) \<le> 1 + 100" by (simp add: sample_file_inode_def)
  with readi_reads [OF c quiet_fresh d al, of 1 100 "\<lambda>_. 0" "[]"]
  obtain s' b' m where "readi 0 (AtLocal (\<lambda>_. 0) 0) 1 100 [] ?s = Ok (int m, AtLocal b' m) [] s'"
    "m = min (unat (100 :: u32)) (3 - unat (1 :: u32))" "map b' [0..<m] = take m (drop (unat (1 :: u32)) [7, 8, 9])"
    unfolding z f by blast
  moreover from this(2) have "m = 2" by simp
  ultimately show ?thesis by auto
qed

subsection \<open>Loading an inode\<close>

lemma cache_at_lock: "cache_at d s c \<Longrightarrow> cache_at d (s\<lparr>sleeplocks := (sleeplocks s)(InodeLock ip := x)\<rparr>) c"
  by (simp add: cache_at_def bio_inv_def cache_of_def view_def [abs_def] held_def locked_buf_def
      cong: option.case_cong if_cong)

definition load_inode :: "u32 \<Rightarrow> bytes \<Rightarrow> inode \<Rightarrow> inode" where
  "load_inode inum d i = i\<lparr>i_type := get16 d (dinode_off inum), i_major := get16 d (dinode_off inum + 2),
     i_minor := get16 d (dinode_off inum + 4), i_nlink := get16 d (dinode_off inum + 6), i_size := get32 d (dinode_off inum + 8),
     i_addrs := (\<lambda>k. if k < NDIRECT + 1 then get32 d (dinode_off inum + 12 + 4 * k) else i_addrs i k)\<rparr>"

lemma ilock_loads:
  fixes s :: "'z fs_state_scheme" and ip :: nat
  defines "i \<equiv> itable s ip" and "blk \<equiv> IBLOCK (i_inum (itable s ip)) (sb s)"
  assumes c: "cache_at d s c" and q: "quiet c" and i: "i_dev i = d" "1 \<le> i_ref i" "\<not> i_valid i" "get16 (bc_view c blk) (dinode_off (i_inum i)) \<noteq> 0"
    and l: "\<not> sl_locked (sleeplocks s (InodeLock ip))"
  shows "\<exists>s'. ilock (Some ip) e s = Ok () e s' \<and> cache_at d s' c \<and> sb s' = sb s
     \<and> itable s' ip = (load_inode (i_inum i) (bc_view c blk) i)\<lparr>i_valid := True\<rparr>"
proof -
  let ?s = "s\<lparr>sleeplocks := (sleeplocks s)(InodeLock ip := \<lparr>sl_locked = True, sl_pid = my_pid s\<rparr>)\<rparr>"
  have c1: "cache_at d ?s c" by (rule cache_at_lock [OF c])
  note k = bio_invD(1,2) [OF cache_atD(1) [OF c]]
  obtain b s1 where s1: "bread d blk e ?s = Ok b e s1" "to_cache d ?s (bc_read blk c) s1" "buf_at d s1 blk b" "b_data (bufs s1 b) = bc_view c blk"
    using bread_rule [OF c1, of blk e] q by (auto simp: quiet_def)
  note t1 = to_cacheD [OF s1(2)]
  let ?t = "(itable s)(ip := load_inode (i_inum i) (bc_view c blk) i)"
  let ?s1 = "s1\<lparr>itable := ?t\<rparr>"
  have c2: "cache_at d ?s1 (bc_read blk c)" using t1(1) by simp
  have b2: "buf_at d ?s1 blk b" using s1(3) by (simp add: buf_at_def my_pid_def)
  have cl: "bc_refs (bc_read blk c) blk = 1 \<Longrightarrow> bc_view (bc_read blk c) blk = bc_disk (bc_read blk c) blk"
    using unused_clean [OF c, of blk] by (simp add: bc_defs)
  obtain s2 where s2: "brelse b e ?s1 = Ok () e s2" "to_cache d ?s1 (bc_relse blk (bc_read blk c)) s2"
    using brelse_rule [OF c2 b2 cl, of e] by blast
  note t2 = to_cacheD [OF s2(2)]
  have "bc_relse blk (bc_read blk c) = c" using q by (intro bcache.equality) (auto simp: bc_defs quiet_def fun_eq_iff)
  with t2(1) have c3: "cache_at d s2 c" by simp
  have it: "itable s1 = itable s" "sb s1 = sb s" "itable s2 = ?t" "sb s2 = sb s" using touches_fs [OF t1(2)] touches_fs [OF t2(2)] by auto
  let ?s3 = "s2\<lparr>itable := (itable s2)(ip := (itable s2 ip)\<lparr>i_valid := True\<rparr>)\<rparr>"
  have "ilock (Some ip) e s = Ok () e ?s3"
    using k l i acquiresleep_free [OF k l, of e] s1(1,4) s2(1) it by (simp add: ilock_def load_inode_def i_def blk_def Let_def cong: if_cong)
  moreover have "cache_at d ?s3 c" using c3 by simp
  moreover have "itable ?s3 ip = (load_inode (i_inum i) (bc_view c blk) i)\<lparr>i_valid := True\<rparr>" by (simp add: it)
  ultimately show ?thesis using it by (intro exI [of _ ?s3]) simp
qed

end
