(* ===== verification/Fs_Alloc.thy ===== *)
theory Fs_Alloc
  imports Fs_Read
begin

text \<open>
  Allocating disk blocks: \<open>balloc\<close>, \<open>bfree\<close> and \<open>bzero\<close> of \<open>kernel/fs.c\<close> inside a transaction, over the contents that
  the buffer cache promises and the blocks that the log collects.
\<close>

subsection \<open>Changing a block inside a transaction\<close>

text \<open>The caller is in a transaction, has no buffer locked, and \<open>k\<close> more blocks have room in log and cache.\<close>

definition in_tx :: "u32 \<Rightarrow> 'z log_state_scheme \<Rightarrow> bcache \<Rightarrow> nat \<Rightarrow> bool" where
  "in_tx d s c k \<longleftrightarrow> cache_at d s c \<and> tx_inv (the_log s) c \<and> bc_held c = {} \<and> 1 \<le> log_outstanding (the_log s)
     \<and> log_n (the_log s) + int k \<le> int LOGSIZE \<and> log_n (the_log s) + int k \<le> log_size (the_log s) - 1 \<and> bc_busy c + k \<le> NBUF"

definition changed :: "u32 \<Rightarrow> 'z fs_state_scheme \<Rightarrow> bcache \<Rightarrow> nat \<Rightarrow> (u32 \<Rightarrow> bytes) \<Rightarrow> 'z fs_state_scheme \<Rightarrow> bcache \<Rightarrow> bool" where
  "changed d s c k D s' c' \<longleftrightarrow> in_tx d s' c' k \<and> bc_view c' = D \<and> bc_disk c' = bc_disk c \<and> itable s' = itable s \<and> sb s' = sb s
     \<and> log_start (the_log s') = log_start (the_log s)"

lemma in_tx_quiet: "in_tx d s c (Suc k) \<Longrightarrow> quiet c"
  by (auto simp: in_tx_def quiet_def tx_inv_def)

lemma add_block_simps:
  "log_outstanding (add_block n l) = log_outstanding l" "log_size (add_block n l) = log_size l" "log_start (add_block n l) = log_start l"
  "log_n (add_block n l) = log_n l + (if n \<in> log_home l then 0 else 1)"
  by (simp_all add: add_block_def)

lemma tx_relse:
  assumes t: "tx_inv l c" "bc_held c = {}" and n: "n \<notin> log_area (log_start l)" "log_n l < int LOGSIZE"
    and c': "c' = bc_relse n (if n \<in> log_home l then bc_set n v (bc_read n c) else bc_pin n (bc_set n v (bc_read n c)))"
  shows "tx_inv (add_block n l) c'" "bc_held c' = {}" "bc_view c' = (bc_view c)(n := v)" "bc_disk c' = bc_disk c"
    "bc_busy c' \<le> bc_busy c + (if n \<in> log_home l then 0 else 1)"
proof -
  have l: "log_ok l" "bc_refs c m = (if m \<in> log_home l then 1 else 0)" for m using t by (simp_all add: tx_inv_def)
  have "log_home (add_block n l) = insert n (log_home l)" using l(1) by (intro log_home_add) (simp add: log_ok_def)
  then show "tx_inv (add_block n l) c'" using log_ok_add [OF l(1) n] l(2) t(2) unfolding tx_inv_def c' by (auto simp: bc_defs)
  show "bc_held c' = {}" "bc_view c' = (bc_view c)(n := v)" "bc_disk c' = bc_disk c"
    "bc_busy c' \<le> bc_busy c + (if n \<in> log_home l then 0 else 1)"
    using t(2) l(2) unfolding c' by (auto simp: bc_defs)
qed

lemma tx_store:
  assumes t: "in_tx d s c (Suc k)" and r: "to_cache d s (bc_read n c) s1" "buf_at d s1 n b" and n: "n \<notin> log_area (log_start (the_log s))"
  shows "\<exists>s' c'. seq (setb b (\<lambda>x. x\<lparr>b_data := v\<rparr>)) (seq (log_write b) (brelse b)) e s1 = Ok () e s'
     \<and> changed d s c k ((bc_view c)(n := v)) s' c'"
proof -
  let ?l = "the_log s" and ?c2 = "bc_set n v (bc_read n c)"
  let ?c3 = "if n \<in> log_home (the_log s) then bc_set n v (bc_read n c) else bc_pin n (bc_set n v (bc_read n c))"
  note t' = t [unfolded in_tx_def]
  have l: "log_ok ?l" "bc_refs c m = (if m \<in> log_home ?l then 1 else 0)" "log_n ?l < int LOGSIZE" "log_n ?l < log_size ?l - 1" for m
    using t' by (auto simp: tx_inv_def)
  obtain s2 where s2: "setb b (\<lambda>x. x\<lparr>b_data := v\<rparr>) e s1 = Ok () e s2" "to_cache d s1 ?c2 s2"
    using set_data_rule [OF to_cacheD(1) [OF r(1)] r(2)] by blast
  have h: "n \<in> bc_held ?c2" by (simp add: bc_defs)
  have l2: "the_log s2 = ?l" using touches_log [OF to_cacheD(2) [OF s2(2)]] touches_log [OF to_cacheD(2) [OF r(1)]] by simp
  have r2: "bc_refs ?c2 n + 1 \<noteq> 0" using l(2) by (simp add: bc_defs)
  obtain s3 where s3: "log_write b e s2 = Ok () e s3" "cache_at d s3 ?c3" "touches (s2\<lparr>the_log := add_block n ?l\<rparr>) s3" "buf_at d s3 n b"
    using log_write_run [OF to_cacheD(1) [OF s2(2)] to_cacheD(3) [OF s2(2) h r(2)] h, of e] l t' r2 unfolding l2 by blast
  have "bc_refs ?c3 n \<noteq> 1" using l(2) by (simp add: bc_defs)
  then obtain s4 where s4: "brelse b e s3 = Ok () e s4" "to_cache d s3 (bc_relse n ?c3) s4"
    using brelse_rule [OF s3(2,4), of e] by blast
  note rl = tx_relse [of ?l c n "bc_relse n ?c3" v] and l3 = touches_log [OF s3(3)]
  have l4: "the_log s4 = add_block n ?l" using touches_log [OF to_cacheD(2) [OF s4(2)]] l3 by simp
  have f4: "itable s4 = itable s \<and> sb s4 = sb s"
    using touches_fs [OF to_cacheD(2) [OF r(1)]] touches_fs [OF to_cacheD(2) [OF s2(2)]] touches_fs [OF s3(3)] touches_fs [OF to_cacheD(2) [OF s4(2)]]
    by simp
  have "in_tx d s4 (bc_relse n ?c3) k"
    using to_cacheD(1) [OF s4(2)] rl t' l(3) n unfolding in_tx_def l4 add_block_simps by (cases "n \<in> log_home ?l") auto
  then have "changed d s c k ((bc_view c)(n := v)) s4 (bc_relse n ?c3)"
    using rl t' l(3) n f4 l4 by (auto simp: changed_def add_block_simps)
  then show ?thesis using s2(1) s3(1) s4(1) by auto
qed

lemma tx_update:
  assumes t: "in_tx d s c (Suc k)" and n: "n \<notin> log_area (log_start (the_log s))"
  obtains b s1 where "bread d n e s = Ok b e s1" "b_data (bufs s1 b) = bc_view c n" "sb s1 = sb s"
    "\<And>v. \<exists>s' c'. seq (setb b (\<lambda>x. x\<lparr>b_data := v\<rparr>)) (seq (log_write b) (brelse b)) e s1 = Ok () e s' \<and> changed d s c k ((bc_view c)(n := v)) s' c'"
    "\<exists>s'. brelse b e s1 = Ok () e s' \<and> cache_at d s' c \<and> touches s s'"
proof -
  have c: "cache_at d s c" using t by (simp add: in_tx_def)
  note q = in_tx_quiet [OF t]
  obtain b s1 where s1: "bread d n e s = Ok b e s1" "to_cache d s (bc_read n c) s1" "buf_at d s1 n b" "b_data (bufs s1 b) = bc_view c n"
    using bread_rule [OF c, of n e] q by (auto simp: quiet_def)
  obtain s2 where "brelse b e s1 = Ok () e s2" "cache_at d s2 c" "touches s s2"
    using bread_brelse [OF c q, of n e] s1(1) by auto
  then show thesis using s1 tx_store [OF t s1(2,3) n] touches_fs [OF to_cacheD(2) [OF s1(2)]] by (intro that [of b s1]) blast+
qed

lemma seq3_then: "seq A (seq B C) e s = Ok u e' s' \<Longrightarrow> seq A (seq B (seq C D)) e s = D e' s'"
  by (auto split: outcome.splits)

lemma bzero_run:
  assumes "in_tx d s c (Suc k)" "n \<notin> log_area (log_start (the_log s))"
  shows "\<exists>s' c'. bzero d n e s = Ok () e s' \<and> changed d s c k ((bc_view c)(n := (\<lambda>_. 0))) s' c'"
proof -
  obtain b s1 where b: "bread d n e s = Ok b e s1"
    and v: "\<And>v. \<exists>s' c'. seq (setb b (\<lambda>x. x\<lparr>b_data := v\<rparr>)) (seq (log_write b) (brelse b)) e s1 = Ok () e s' \<and> changed d s c k ((bc_view c)(n := v)) s' c'"
    using tx_update [OF assms, of e] by blast
  show ?thesis using v [of "\<lambda>_. 0"] b unfolding bzero_def by (simp del: setb_run)
qed

subsection \<open>The bitmap\<close>

definition map_block :: "superblock \<Rightarrow> nat \<Rightarrow> u32" where
  "map_block sblk k = of_nat k + sb_bmapstart sblk"

definition used :: "(u32 \<Rightarrow> bytes) \<Rightarrow> superblock \<Rightarrow> nat \<Rightarrow> bool" where
  "used D sblk b = bit (D (map_block sblk (b div BPB)) (b mod BPB div 8)) (b mod 8)"

lemma BPB_pos: "0 < BPB" "BPB mod 8 = 0" "BPB = 8192"
  by (simp_all add: BPB_def BSIZE_def)

lemma BBLOCK_map:
  assumes "b < 2 ^ 32"
  shows "BBLOCK (of_nat b) sblk = map_block sblk (b div BPB)"
proof -
  have "(of_nat b :: u32) div of_nat BPB = of_nat (b div BPB)"
    using assms by (simp add: word_unat_eq_iff unat_div unsigned_of_nat take_bit_nat_eq_self BPB_pos(3) order.strict_trans1 [OF div_le_dividend])
  then show ?thesis by (simp add: BBLOCK_def map_block_def)
qed

lemma mask_test: "(x AND bit_mask i = 0) \<longleftrightarrow> \<not> bit x (i mod 8)"
  using bit_iff_and_push_bit_not_eq_0 [of x "i mod 8"] by (auto simp: bit_mask_def)

lemma mask_set: "m < 8 \<Longrightarrow> bit (x OR bit_mask i) m \<longleftrightarrow> m = i mod 8 \<or> bit x m"
  by (auto simp: bit_mask_def bit_or_iff bit_exp_iff)

lemma mask_clear: "m < 8 \<Longrightarrow> bit (x AND NOT (bit_mask i)) m \<longleftrightarrow> m \<noteq> i mod 8 \<and> bit x m"
  by (auto simp: bit_mask_def bit_and_iff bit_not_iff bit_exp_iff)

text \<open>The position of a block in the bitmap is its own.\<close>

lemma bitmap_position:
  "b div BPB = x div BPB \<and> b mod BPB div 8 = x mod BPB div 8 \<and> b mod 8 = x mod 8 \<longleftrightarrow> b = (x :: nat)"
proof -
  have "b mod 8 = (b mod BPB) mod 8" for b :: nat using BPB_pos(2) by (simp add: mod_mod_cancel mod_0_imp_dvd)
  then show ?thesis by (metis div_mod_decomp)
qed

definition put_bit :: "(u8 \<Rightarrow> u8) \<Rightarrow> (u32 \<Rightarrow> bytes) \<Rightarrow> superblock \<Rightarrow> nat \<Rightarrow> u32 \<Rightarrow> bytes" where
  "put_bit f D sblk b = (let n = map_block sblk (b div BPB); i = b mod BPB div 8 in D(n := (D n)(i := f (D n i))))"

lemma map_block_inj: "k < 2 ^ 32 \<Longrightarrow> j < 2 ^ 32 \<Longrightarrow> map_block sblk k = map_block sblk j \<longleftrightarrow> k = j"
proof -
  assume "k < 2 ^ 32" "j < 2 ^ 32"
  then have "unat (of_nat k :: u32) = k" "unat (of_nat j :: u32) = j" by (simp_all add: unsigned_of_nat take_bit_nat_eq_self)
  then show "map_block sblk k = map_block sblk j \<longleftrightarrow> k = j" unfolding map_block_def add_right_cancel by metis
qed

lemma used_put_bit:
  assumes "b < 2 ^ 32" "x < 2 ^ 32"
  shows "used (put_bit f D sblk b) sblk x = (if b div BPB = x div BPB \<and> b mod BPB div 8 = x mod BPB div 8
     then bit (f (D (map_block sblk (x div BPB)) (x mod BPB div 8))) (x mod 8) else used D sblk x)"
proof -
  have "b div BPB < 2 ^ 32" "x div BPB < 2 ^ 32" using assms order.strict_trans1 [OF div_le_dividend] by blast+
  then show ?thesis by (auto simp: used_def put_bit_def Let_def map_block_inj)
qed

lemma used_set:
  assumes "b < 2 ^ 32" "x < 2 ^ 32"
  shows "used (put_bit (\<lambda>y. y OR bit_mask (b mod BPB)) D sblk b) sblk x \<longleftrightarrow> x = b \<or> used D sblk x"
    and "used (put_bit (\<lambda>y. y AND NOT (bit_mask (b mod BPB))) D sblk b) sblk x \<longleftrightarrow> x \<noteq> b \<and> used D sblk x"
proof -
  have m: "b mod BPB mod 8 = b mod 8" using BPB_pos(2) by (simp add: mod_mod_cancel mod_0_imp_dvd)
  show "used (put_bit (\<lambda>y. y OR bit_mask (b mod BPB)) D sblk b) sblk x \<longleftrightarrow> x = b \<or> used D sblk x"
    "used (put_bit (\<lambda>y. y AND NOT (bit_mask (b mod BPB))) D sblk b) sblk x \<longleftrightarrow> x \<noteq> b \<and> used D sblk x"
    using bitmap_position [of b x] m unfolding used_put_bit [OF assms] by (auto simp: mask_set mask_clear used_def)
qed

text \<open>
  The blocks of the file system: those of the bitmap are not in the log, and a block that is not in use is neither in
  the log nor in the bitmap.
\<close>

definition nmaps :: "superblock \<Rightarrow> nat" where
  "nmaps sblk = (unat (sb_size sblk) + BPB - 1) div BPB"

definition layout :: "(u32 \<Rightarrow> bytes) \<Rightarrow> superblock \<Rightarrow> u32 \<Rightarrow> bool" where
  "layout D sblk st \<longleftrightarrow> unat (sb_size sblk) + BPB < 2 ^ 32 \<and> (\<forall>k < nmaps sblk. map_block sblk k \<notin> log_area st)
     \<and> (\<forall>x < unat (sb_size sblk). \<not> used D sblk x \<longrightarrow>
          of_nat x \<notin> log_area st \<and> (\<forall>k < nmaps sblk. of_nat x \<noteq> map_block sblk k))"

lemma bit_position:
  assumes "k * BPB + i = b" "i < BPB"
  shows "b div BPB = k" "b mod BPB = i"
  using assms BPB_pos(1) by auto

subsection \<open>balloc\<close>

text \<open>The loops of \<open>balloc\<close>: one bit, and one block of the bitmap.\<close>

definition balloc_bit :: "u32 \<Rightarrow> nat \<Rightarrow> nat \<Rightarrow> nat \<Rightarrow> ('z fs_state_scheme, u32 option) M" where
  "balloc_bit dev b bp bi =
     bnd (getb bp (\<lambda>x. b_data x (bi div 8))) (\<lambda>y.
     if y AND bit_mask bi = 0 then
       seq (setb bp (\<lambda>x. x\<lparr>b_data := (b_data x)(bi div 8 := y OR bit_mask bi)\<rparr>)) (
       seq (log_write bp) (
       seq (brelse bp) (
       seq (bzero dev (of_nat (b + bi)))
       (return (Some (of_nat (b + bi)))))))
     else return None)"

definition balloc_block :: "u32 \<Rightarrow> nat \<Rightarrow> nat \<Rightarrow> ('z fs_state_scheme, u32 option) M" where
  "balloc_block dev len k =
     bnd (gets (\<lambda>s. BBLOCK (of_nat (k * BPB)) (sb s))) (\<lambda>blk.
     bnd (bread dev blk) (\<lambda>bp.
     bnd (for_until [0..<min BPB (len - k * BPB)] (balloc_bit dev (k * BPB) bp)) (\<lambda>r.
     case r of Some v \<Rightarrow> return (Some v) | None \<Rightarrow> seq (brelse bp) (return None))))"

lemma scan_bits:
  assumes d: "b_data (bufs s1 p) = D (map_block sblk k)" and k: "\<forall>i < n. used D sblk (k * BPB + i)" "n \<le> BPB"
  shows "for_until ([0..<n] @ ys) (balloc_bit d b p) e s1 = for_until ys (balloc_bit d b p) e s1"
proof (rule for_until_skip)
  fix i assume "i \<in> set [0..<n]"
  then have i: "i < n" "i < BPB" using k(2) by auto
  have "(k * BPB + i) mod 8 = i mod 8"
    using bit_position(2) [OF refl i(2), of k] BPB_pos(2) by (metis mod_mod_cancel mod_0_imp_dvd)
  then have "bit (D (map_block sblk k) (i div 8)) (i mod 8)"
    using k(1) i bit_position [OF refl i(2), of k] by (auto simp: used_def)
  then show "balloc_bit d b p i e s1 = Ok None e s1" using d by (simp add: balloc_bit_def mask_test)
qed

lemma balloc_unfold:
  "balloc dev =
     bnd (gets (\<lambda>s. unat (sb_size (sb s)))) (\<lambda>size.
     bnd (for_until [0..<(size + BPB - 1) div BPB] (balloc_block dev size)) (\<lambda>r.
     case r of Some v \<Rightarrow> return v | None \<Rightarrow> panic ''balloc: out of blocks''))"
  unfolding balloc_def balloc_block_def [abs_def] balloc_bit_def [abs_def] Let_def by (rule refl)

lemma for_until_pass:
  assumes "\<And>x s. x \<in> set xs \<Longrightarrow> I s \<Longrightarrow> \<exists>s'. b x e s = Ok None e s' \<and> I s'" "I s"
  shows "\<exists>s'. for_until (xs @ ys) b e s = for_until ys b e s' \<and> I s'"
  using assms
proof (induction xs arbitrary: s)
  case (Cons x xs)
  obtain s1 where "b x e s = Ok None e s1" "I s1" using Cons.prems(1) [of x s] Cons.prems(2) by auto
  then show ?case using Cons.IH [of s1] Cons.prems(1) by simp
qed auto

lemma in_tx_touches: "in_tx d s c k \<Longrightarrow> cache_at d s' c \<Longrightarrow> touches s s' \<Longrightarrow> in_tx d s' c k"
  using touches_log [of s s'] by (simp add: in_tx_def)

lemma balloc_block_full:
  assumes t: "in_tx d s c (Suc k)" and l: "layout (bc_view c) (sb s) (log_start (the_log s))"
    and j: "j < nmaps (sb s)" "\<forall>x. x div BPB = j \<and> x < unat (sb_size (sb s)) \<longrightarrow> used (bc_view c) (sb s) x"
  shows "\<exists>s'. balloc_block d (unat (sb_size (sb s))) j e s = Ok None e s' \<and> cache_at d s' c \<and> touches s s'"
proof -
  let ?len = "unat (sb_size (sb s))"
  have len: "?len + BPB < 2 ^ 32" using l by (simp add: layout_def)
  have b: "j * BPB < 2 ^ 32"
  proof -
    have "j * BPB \<le> nmaps (sb s) * BPB" using j(1) by simp
    also have "\<dots> \<le> ?len + BPB - 1" unfolding nmaps_def by (rule div_times_less_eq_dividend)
    also have "\<dots> < 2 ^ 32" using len by (rule order.strict_trans1 [OF diff_le_self])
    finally show ?thesis .
  qed
  have m: "BBLOCK (of_nat (j * BPB)) (sb s) = map_block (sb s) j" using BBLOCK_map [OF b] BPB_pos(1) by simp
  have n: "map_block (sb s) j \<notin> log_area (log_start (the_log s))" using l j(1) by (simp add: layout_def)
  obtain p s1 where p: "bread d (map_block (sb s) j) e s = Ok p e s1" "b_data (bufs s1 p) = bc_view c (map_block (sb s) j)"
    "\<exists>s'. brelse p e s1 = Ok () e s' \<and> cache_at d s' c \<and> touches s s'"
    by (rule tx_update [OF t n, of e], rule that)
  have "for_until ([0..<min BPB (?len - j * BPB)] @ []) (balloc_bit d (j * BPB) p) e s1 = for_until [] (balloc_bit d (j * BPB) p) e s1"
    by (rule scan_bits [where D = "bc_view c" and sblk = "sb s" and k = j]) (use p(2) j(2) bit_position(1) in auto)
  then show ?thesis using p(1,3) m by (auto simp: balloc_block_def)
qed

lemma block_in_maps:
  assumes "b < unat (sb_size sblk)"
  shows "b div BPB < nmaps sblk"
proof -
  have "b div BPB * BPB + BPB \<le> unat (sb_size sblk) + BPB - 1" using div_times_less_eq_dividend [of b BPB] assms by linarith
  then have "Suc (b div BPB) * BPB \<le> unat (sb_size sblk) + BPB - 1" unfolding mult_Suc by (simp only: add.commute)
  then have "Suc (b div BPB) \<le> nmaps sblk" unfolding nmaps_def less_eq_div_iff_mult_less_eq [OF BPB_pos(1)] .
  then show ?thesis by (rule Suc_le_lessD)
qed

lemma upt_split: "i < n \<Longrightarrow> [0..<n] = [0..<i] @ i # [Suc i..<n]"
  using upt_add_eq_append [of 0 i "n - i"] upt_conv_Cons [of i n] by simp

lemma balloc_block_hit:
  assumes t: "in_tx d s c (Suc (Suc k))" and l: "layout (bc_view c) (sb s) (log_start (the_log s))"
    and b: "b < unat (sb_size (sb s))" "\<not> used (bc_view c) (sb s) b" "\<forall>x < b. used (bc_view c) (sb s) x"
  shows "\<exists>s' c'. balloc_block d (unat (sb_size (sb s))) (b div BPB) e s = Ok (Some (of_nat b)) e s'
     \<and> changed d s c k ((put_bit (\<lambda>y. y OR bit_mask (b mod BPB)) (bc_view c) (sb s) b)(of_nat b := (\<lambda>_. 0))) s' c'"
proof -
  let ?len = "unat (sb_size (sb s))" and ?j = "b div BPB" and ?i = "b mod BPB"
  let ?n = "map_block (sb s) (b div BPB)"
  have b32: "b < 2 ^ 32" using b(1) l by (simp add: layout_def)
  have j32: "?j * BPB < 2 ^ 32" by (rule order.strict_trans1 [OF div_times_less_eq_dividend b32])
  have j: "?j < nmaps (sb s)" by (rule block_in_maps [OF b(1)])
  have e: "?j * BPB + ?i = b" by (rule div_mult_mod_eq)
  have "?i < ?len - ?j * BPB" using b(1) e by linarith
  then have i: "?i < BPB" "?i < ?len - ?j * BPB" "?j * BPB + ?i = b" using BPB_pos(1) e by (simp_all only: mod_less_divisor)
  have "?j * BPB + x < b" if "x < ?i" for x using that e by linarith
  then have low: "\<forall>x < ?i. used (bc_view c) (sb s) (?j * BPB + x)" using b(3) by blast
  have m: "BBLOCK (of_nat (?j * BPB)) (sb s) = ?n" using BBLOCK_map [OF j32] BPB_pos(1) by simp
  have n: "?n \<notin> log_area (log_start (the_log s))" "of_nat b \<notin> log_area (log_start (the_log s))" using l j b by (auto simp: layout_def)
  let ?v = "(bc_view c ?n)(?i div 8 := bc_view c ?n (?i div 8) OR bit_mask ?i)"
  obtain p s1 where p: "bread d ?n e s = Ok p e s1" "b_data (bufs s1 p) = bc_view c ?n"
    "\<And>v. \<exists>s' c'. seq (setb p (\<lambda>x. x\<lparr>b_data := v\<rparr>)) (seq (log_write p) (brelse p)) e s1 = Ok () e s' \<and> changed d s c (Suc k) ((bc_view c)(?n := v)) s' c'"
    by (rule tx_update [OF t n(1), of e], rule that)
  from p(3) [of ?v] obtain s2 c2 where s2: "seq (setb p (\<lambda>x. x\<lparr>b_data := ?v\<rparr>)) (seq (log_write p) (brelse p)) e s1 = Ok () e s2"
    "changed d s c (Suc k) ((bc_view c)(?n := ?v)) s2 c2" by blast
  note c2 = s2(2) [unfolded changed_def]
  obtain s3 c3 where s3: "bzero d (of_nat b) e s2 = Ok () e s3" "changed d s2 c2 k ((bc_view c2)(of_nat b := (\<lambda>_. 0))) s3 c3"
    using bzero_run [of d s2 c2 k "of_nat b" e] c2 n(2) by auto
  have "[0..<min BPB (?len - ?j * BPB)] = [0..<?i] @ ?i # [Suc ?i..<min BPB (?len - ?j * BPB)]"
    by (rule upt_split) (use i(1,2) in simp)
  moreover have "for_until ([0..<?i] @ ?i # [Suc ?i..<min BPB (?len - ?j * BPB)]) (balloc_bit d (?j * BPB) p) e s1
      = for_until (?i # [Suc ?i..<min BPB (?len - ?j * BPB)]) (balloc_bit d (?j * BPB) p) e s1"
    by (rule scan_bits [where D = "bc_view c" and sblk = "sb s" and k = ?j, OF p(2) low less_imp_le [OF i(1)]])
  moreover have "balloc_bit d (?j * BPB) p ?i e s1 = Ok (Some (of_nat b)) e s3"
  proof -
    let ?R = "seq (log_write p) (seq (brelse p) (seq (bzero d (of_nat b)) (return (Some (of_nat b)))))"
    have "b mod BPB mod 8 = b mod 8" using BPB_pos(2) by (simp add: mod_mod_cancel mod_0_imp_dvd)
    then have z: "bc_view c ?n (?i div 8) AND bit_mask ?i = 0" using b(2) by (simp add: mask_test used_def)
    have "setb p (\<lambda>x. x\<lparr>b_data := (b_data x)(?i div 8 := bc_view c ?n (?i div 8) OR bit_mask ?i)\<rparr>) e s1 = setb p (\<lambda>x. x\<lparr>b_data := ?v\<rparr>) e s1"
      using p(2) by simp
    then have "seq (setb p (\<lambda>x. x\<lparr>b_data := (b_data x)(?i div 8 := bc_view c ?n (?i div 8) OR bit_mask ?i)\<rparr>)) ?R e s1
        = seq (setb p (\<lambda>x. x\<lparr>b_data := ?v\<rparr>)) ?R e s1" by (simp only: seq_run)
    also note seq3_then [OF s2(1), where D = "seq (bzero d (of_nat b)) (return (Some (of_nat b)))"]
    finally show ?thesis using z s3(1) i(3) p(2) by (simp add: balloc_bit_def del: setb_run)
  qed
  ultimately have "balloc_block d ?len ?j e s = Ok (Some (of_nat b)) e s3" using p(1) m by (simp add: balloc_block_def)
  moreover have "changed d s c k ((put_bit (\<lambda>y. y OR bit_mask ?i) (bc_view c) (sb s) b)(of_nat b := (\<lambda>_. 0))) s3 c3"
    using c2 s3(2) by (simp add: changed_def put_bit_def Let_def)
  ultimately show ?thesis by blast
qed

lemma balloc_pass:
  assumes t: "in_tx d s c (Suc k)" and l: "layout (bc_view c) (sb s) (log_start (the_log s))"
    and j: "j \<le> nmaps (sb s)" "\<forall>x < unat (sb_size (sb s)). x div BPB < j \<longrightarrow> used (bc_view c) (sb s) x"
  shows "\<exists>s'. for_until ([0..<j] @ ys) (balloc_block d (unat (sb_size (sb s)))) e s = for_until ys (balloc_block d (unat (sb_size (sb s)))) e s'
     \<and> cache_at d s' c \<and> touches s s'"
proof (rule for_until_pass)
  show "cache_at d s c \<and> touches s s" using t by (simp add: in_tx_def)
  fix i s' assume i: "i \<in> set [0..<j]" and s': "cache_at d s' c \<and> touches s s'"
  have f: "sb s' = sb s" "the_log s' = the_log s" using touches_fs [of s s'] touches_log [of s s'] s' by simp_all
  have "\<exists>s''. balloc_block d (unat (sb_size (sb s'))) i e s' = Ok None e s'' \<and> cache_at d s'' c \<and> touches s' s''"
    by (rule balloc_block_full [OF in_tx_touches [OF t]]) (use s' f l i j in auto)
  then show "\<exists>s''. balloc_block d (unat (sb_size (sb s))) i e s' = Ok None e s'' \<and> cache_at d s'' c \<and> touches s s''"
    using s' touches_trans unfolding f(1) by blast
qed

lemma changed_touches:
  assumes "changed d s1 c k D s' c'" "touches s s1"
  shows "changed d s c k D s' c'"
  using assms touches_fs [OF assms(2)] touches_log [OF assms(2)] by (simp add: changed_def)

lemma balloc_run:
  assumes t: "in_tx d s c (Suc (Suc k))" and l: "layout (bc_view c) (sb s) (log_start (the_log s))"
    and b: "b < unat (sb_size (sb s))" "\<not> used (bc_view c) (sb s) b" "\<forall>x < b. used (bc_view c) (sb s) x"
  shows "\<exists>s' c'. balloc d e s = Ok (of_nat b) e s'
     \<and> changed d s c k ((put_bit (\<lambda>y. y OR bit_mask (b mod BPB)) (bc_view c) (sb s) b)(of_nat b := (\<lambda>_. 0))) s' c'"
proof -
  let ?len = "unat (sb_size (sb s))" and ?j = "b div BPB"
  have j: "?j < nmaps (sb s)" by (rule block_in_maps [OF b(1)])
  have lo: "\<forall>x < ?len. x div BPB < ?j \<longrightarrow> used (bc_view c) (sb s) x"
    using b(3) div_le_mono [of b _ BPB] by (metis leD linorder_le_less_linear)
  obtain s1 where s1: "for_until ([0..<?j] @ ?j # [Suc ?j..<nmaps (sb s)]) (balloc_block d ?len) e s
      = for_until (?j # [Suc ?j..<nmaps (sb s)]) (balloc_block d ?len) e s1" "cache_at d s1 c" "touches s s1"
    using balloc_pass [OF t l less_imp_le [OF j] lo] by blast
  have f: "sb s1 = sb s" "the_log s1 = the_log s" using touches_fs [OF s1(3)] touches_log [OF s1(3)] by simp_all
  obtain s' c' where h: "balloc_block d ?len ?j e s1 = Ok (Some (of_nat b)) e s'"
    "changed d s1 c k ((put_bit (\<lambda>y. y OR bit_mask (b mod BPB)) (bc_view c) (sb s) b)(of_nat b := (\<lambda>_. 0))) s' c'"
    using balloc_block_hit [OF in_tx_touches [OF t s1(2,3)], of b e] l b unfolding f by blast
  have "balloc d e s = Ok (of_nat b) e s'"
    using s1(1) h(1) upt_split [OF j] by (simp add: balloc_unfold nmaps_def)
  then show ?thesis using changed_touches [OF h(2) s1(3)] by blast
qed

lemma balloc_full:
  assumes "in_tx d s c (Suc k)" "layout (bc_view c) (sb s) (log_start (the_log s))" "\<forall>x < unat (sb_size (sb s)). used (bc_view c) (sb s) x"
  shows "balloc d e s = Panic ''balloc: out of blocks''"
  using balloc_pass [OF assms(1,2) order.refl, of "[]" e] assms(3) by (auto simp: balloc_unfold nmaps_def)

subsection \<open>bfree\<close>

lemma bfree_run:
  assumes t: "in_tx d s c (Suc k)" and n: "map_block (sb s) (unat b div BPB) \<notin> log_area (log_start (the_log s))"
  shows "used (bc_view c) (sb s) (unat b) \<Longrightarrow> \<exists>s' c'. bfree d b e s = Ok () e s'
     \<and> changed d s c k (put_bit (\<lambda>y. y AND NOT (bit_mask (unat b mod BPB))) (bc_view c) (sb s) (unat b)) s' c'"
    and "\<not> used (bc_view c) (sb s) (unat b) \<Longrightarrow> bfree d b e s = Panic ''freeing free block''"
proof -
  let ?n = "map_block (sb s) (unat b div BPB)" and ?i = "unat b mod BPB"
  let ?y = "bc_view c ?n (?i div 8)"
  have "unat b < 2 ^ 32" using unsigned_less [of b] by simp
  from BBLOCK_map [OF this] have m: "BBLOCK b (sb s) = ?n" by simp
  have "?i mod 8 = unat b mod 8" using BPB_pos(2) by (simp add: mod_mod_cancel mod_0_imp_dvd)
  then have z: "(?y AND bit_mask ?i = 0) \<longleftrightarrow> \<not> used (bc_view c) (sb s) (unat b)" by (simp add: mask_test used_def)
  obtain p s1 where p: "bread d ?n e s = Ok p e s1" "b_data (bufs s1 p) = bc_view c ?n"
    "\<And>v. \<exists>s' c'. seq (setb p (\<lambda>x. x\<lparr>b_data := v\<rparr>)) (seq (log_write p) (brelse p)) e s1 = Ok () e s' \<and> changed d s c k ((bc_view c)(?n := v)) s' c'"
    by (rule tx_update [OF t n, of e], rule that)
  show "bfree d b e s = Panic ''freeing free block''" if "\<not> used (bc_view c) (sb s) (unat b)"
    using that z p(1,2) m by (simp add: bfree_def Let_def)
  assume u: "used (bc_view c) (sb s) (unat b)"
  let ?v = "(bc_view c ?n)(?i div 8 := ?y AND NOT (bit_mask ?i))"
  obtain s' c' where s': "seq (setb p (\<lambda>x. x\<lparr>b_data := ?v\<rparr>)) (seq (log_write p) (brelse p)) e s1 = Ok () e s'" "changed d s c k ((bc_view c)(?n := ?v)) s' c'"
    using p(3) [of ?v] by blast
  have "bfree d b e s = Ok () e s'" using s'(1) u z p(1,2) m by (simp add: bfree_def Let_def)
  moreover have "changed d s c k (put_bit (\<lambda>y. y AND NOT (bit_mask ?i)) (bc_view c) (sb s) (unat b)) s' c'"
    using s'(2) by (simp add: put_bit_def Let_def)
  ultimately show "\<exists>s' c'. bfree d b e s = Ok () e s'
     \<and> changed d s c k (put_bit (\<lambda>y. y AND NOT (bit_mask ?i)) (bc_view c) (sb s) (unat b)) s' c'" by blast
qed

lemma used_zeroed:
  assumes l: "layout D sblk st" and b: "b < unat (sb_size sblk)" "\<not> used D sblk b" and x: "x < unat (sb_size sblk)"
  shows "used ((put_bit (\<lambda>y. y OR bit_mask (b mod BPB)) D sblk b)(of_nat b := (\<lambda>_. 0))) sblk x \<longleftrightarrow> x = b \<or> used D sblk x"
proof -
  have "map_block sblk (x div BPB) \<noteq> of_nat b" using l b block_in_maps [OF x] unfolding layout_def by metis
  moreover have "b < 2 ^ 32" "x < 2 ^ 32" using l b(1) x by (simp_all add: layout_def)
  ultimately show ?thesis using used_set(1) [of b x D sblk] by (simp add: used_def)
qed

text \<open>
  C39. Block allocation inside a transaction. While a block is not in use, \<open>balloc\<close> returns the first such block, marks
  it and only it as in use and clears it to zeroes; every other block but the one with that part of the bitmap keeps
  its contents, and nothing is written to the disk before the transaction commits. If all blocks are in use it
  panics. \<open>bfree\<close> of a block in use marks it and only it as free and changes nothing else; \<open>bfree\<close> of a free block panics.
\<close>

theorem balloc_bfree:
  assumes t: "in_tx d s c (Suc (Suc k))" and l: "layout (bc_view c) (sb s) (log_start (the_log s))"
    and n: "unat n < unat (sb_size (sb s))"
  shows "((\<exists>b < unat (sb_size (sb s)). \<not> used (bc_view c) (sb s) b) \<longrightarrow>
      (\<exists>b s' c'. b < unat (sb_size (sb s)) \<and> \<not> used (bc_view c) (sb s) b \<and> (\<forall>x < b. used (bc_view c) (sb s) x)
         \<and> balloc d e s = Ok (of_nat b) e s' \<and> in_tx d s' c' k \<and> bc_view c' (of_nat b) = (\<lambda>_. 0)
         \<and> (\<forall>x < unat (sb_size (sb s)). used (bc_view c') (sb s) x \<longleftrightarrow> x = b \<or> used (bc_view c) (sb s) x)
         \<and> (\<forall>m. m \<noteq> of_nat b \<and> m \<noteq> map_block (sb s) (b div BPB) \<longrightarrow> bc_view c' m = bc_view c m) \<and> bc_disk c' = bc_disk c))
    \<and> ((\<forall>b < unat (sb_size (sb s)). used (bc_view c) (sb s) b) \<longrightarrow> balloc d e s = Panic ''balloc: out of blocks'')
    \<and> (used (bc_view c) (sb s) (unat n) \<longrightarrow>
        (\<exists>s' c'. bfree d n e s = Ok () e s' \<and> in_tx d s' c' (Suc k) \<and> bc_disk c' = bc_disk c
           \<and> (\<forall>x < unat (sb_size (sb s)). used (bc_view c') (sb s) x \<longleftrightarrow> x \<noteq> unat n \<and> used (bc_view c) (sb s) x)
           \<and> (\<forall>m. m \<noteq> map_block (sb s) (unat n div BPB) \<longrightarrow> bc_view c' m = bc_view c m)))
    \<and> (\<not> used (bc_view c) (sb s) (unat n) \<longrightarrow> bfree d n e s = Panic ''freeing free block'')"
proof (intro conjI impI)
  let ?len = "unat (sb_size (sb s))" and ?u = "used (bc_view c) (sb s)"
  assume "\<exists>b < ?len. \<not> ?u b"
  then have b: "(LEAST b. b < ?len \<and> \<not> ?u b) < ?len" "\<not> ?u (LEAST b. b < ?len \<and> \<not> ?u b)"
    using LeastI_ex [of "\<lambda>b. b < ?len \<and> \<not> ?u b"] by blast+
  define b where "b = (LEAST b. b < ?len \<and> \<not> ?u b)"
  have lo: "\<forall>x < b. ?u x" using b(1) not_less_Least [of _ "\<lambda>b. b < ?len \<and> \<not> ?u b"] unfolding b_def by (meson less_trans)
  note b = b [folded b_def]
  obtain s' c' where s': "balloc d e s = Ok (of_nat b) e s'"
    "changed d s c k ((put_bit (\<lambda>y. y OR bit_mask (b mod BPB)) (bc_view c) (sb s) b)(of_nat b := (\<lambda>_. 0))) s' c'"
    using balloc_run [OF t l b lo] by blast
  note c' = s'(2) [unfolded changed_def]
  show "\<exists>b s' c'. b < ?len \<and> \<not> ?u b \<and> (\<forall>x < b. ?u x) \<and> balloc d e s = Ok (of_nat b) e s' \<and> in_tx d s' c' k \<and> bc_view c' (of_nat b) = (\<lambda>_. 0)
     \<and> (\<forall>x < ?len. used (bc_view c') (sb s) x \<longleftrightarrow> x = b \<or> ?u x)
     \<and> (\<forall>m. m \<noteq> of_nat b \<and> m \<noteq> map_block (sb s) (b div BPB) \<longrightarrow> bc_view c' m = bc_view c m) \<and> bc_disk c' = bc_disk c"
    using b lo s'(1) c' used_zeroed [OF l b] by (intro exI [of _ b] exI [of _ s'] exI [of _ c']) (simp add: put_bit_def Let_def)
next
  assume "\<forall>b < unat (sb_size (sb s)). used (bc_view c) (sb s) b"
  then show "balloc d e s = Panic ''balloc: out of blocks''" by (rule balloc_full [OF t l])
next
  have m: "map_block (sb s) (unat n div BPB) \<notin> log_area (log_start (the_log s))" using l block_in_maps [OF n] by (simp add: layout_def)
  assume "\<not> used (bc_view c) (sb s) (unat n)"
  then show "bfree d n e s = Panic ''freeing free block''" by (rule bfree_run(2) [OF t m])
next
  have m: "map_block (sb s) (unat n div BPB) \<notin> log_area (log_start (the_log s))" using l block_in_maps [OF n] by (simp add: layout_def)
  assume "used (bc_view c) (sb s) (unat n)"
  then obtain s' c' where s': "bfree d n e s = Ok () e s'"
    "changed d s c (Suc k) (put_bit (\<lambda>y. y AND NOT (bit_mask (unat n mod BPB))) (bc_view c) (sb s) (unat n)) s' c'"
    using bfree_run(1) [OF t m] by blast
  have "x < 2 ^ 32" if "x < unat (sb_size (sb s))" for x using that l by (simp add: layout_def)
  then show "\<exists>s' c'. bfree d n e s = Ok () e s' \<and> in_tx d s' c' (Suc k) \<and> bc_disk c' = bc_disk c
     \<and> (\<forall>x < unat (sb_size (sb s)). used (bc_view c') (sb s) x \<longleftrightarrow> x \<noteq> unat n \<and> used (bc_view c) (sb s) x)
     \<and> (\<forall>m. m \<noteq> map_block (sb s) (unat n div BPB) \<longrightarrow> bc_view c' m = bc_view c m)"
    using s' n used_set(2) [of "unat n" _ "bc_view c" "sb s"] by (intro exI [of _ s'] exI [of _ c']) (auto simp: changed_def put_bit_def Let_def)
qed

text \<open>A disk of 1000 blocks of which the first 48 are in use, in a transaction.\<close>

definition alloc_disk :: "u32 \<Rightarrow> bytes" where
  "alloc_disk n i = (if n = 45 \<and> i < 6 then -1 else 0)"

definition alloc_state :: file_state where
  "alloc_state = (sample_bio alloc_disk)\<lparr>the_log := sample_log\<lparr>log_outstanding := 1\<rparr>\<rparr>"

lemma alloc_state_tx: "in_tx 1 alloc_state (fresh_cache alloc_disk) 2"
proof -
  have "cache_at 1 alloc_state (fresh_cache alloc_disk)" using sample_bio_cache [of alloc_disk] by (simp add: alloc_state_def)
  moreover have "tx_inv (the_log alloc_state) (fresh_cache alloc_disk)"
    by (auto simp: alloc_state_def tx_inv_def log_ok_def log_home_def sample_log_def fresh_cache_def LOGSIZE_def)
  ultimately show ?thesis
    by (simp add: in_tx_def alloc_state_def sample_log_def fresh_cache_def LOGSIZE_def NBUF_def MAXOPBLOCKS_def)
qed

lemma alloc_disk_used: "x < 1000 \<Longrightarrow> used alloc_disk sample_sb x \<longleftrightarrow> x < 48"
  by (auto simp: used_def alloc_disk_def map_block_def sample_sb_def BPB_pos(3) div_less_iff_less_mult)

lemma sample_layout: "layout alloc_disk sample_sb 2"
proof -
  have "of_nat x \<notin> log_area 2" if "33 \<le> x" "x < 1000" for x
  proof
    assume "of_nat x \<in> log_area 2"
    then obtain j where j: "j \<le> LOGSIZE" "(of_nat x :: u32) = of_nat (2 + j)" by (auto simp: log_area_def)
    then have "unat (of_nat x :: u32) = unat (of_nat (2 + j) :: u32)" by simp
    moreover have "j \<le> 30" using j(1) by (simp add: LOGSIZE_def MAXOPBLOCKS_def)
    ultimately show False using that unfolding unsigned_of_nat by (simp add: take_bit_nat_eq_self)
  qed
  moreover from this [of 45] have "(45 :: u32) \<notin> log_area 2" by simp
  moreover have "(of_nat x :: u32) \<noteq> 45" if "48 \<le> x" "x < 1000" for x
  proof
    assume "(of_nat x :: u32) = 45"
    then have "unat (of_nat x :: u32) = 45" by simp
    then show False using that by (simp add: unsigned_of_nat take_bit_nat_eq_self)
  qed
  ultimately show ?thesis using alloc_disk_used
    by (simp add: layout_def nmaps_def map_block_def sample_sb_def BPB_pos(3))
qed

theorem balloc_bfree_witness: "\<exists>s'. balloc 1 [] alloc_state = Ok 48 [] s'"
proof -
  have s: "sb alloc_state = sample_sb" "log_start (the_log alloc_state) = 2" "bc_view (fresh_cache alloc_disk) = alloc_disk"
    "unat (sb_size sample_sb) = 1000"
    by (simp_all add: alloc_state_def sample_bio_def sample_log_def fresh_cache_def sample_sb_def)
  have t: "in_tx 1 alloc_state (fresh_cache alloc_disk) (Suc (Suc 0))" using alloc_state_tx by (simp add: numeral_2_eq_2)
  have "\<exists>b < 1000. \<not> used alloc_disk sample_sb b" using alloc_disk_used [of 48] by (intro exI [of _ 48]) simp
  then obtain b s' where b: "b < 1000" "\<not> used alloc_disk sample_sb b" "\<forall>x < b. used alloc_disk sample_sb x" "balloc 1 [] alloc_state = Ok (of_nat b) [] s'"
    using balloc_bfree [OF t, of 0 "[]"] sample_layout unfolding s by auto
  have "\<not> 48 < b" using b(3) alloc_disk_used [of 48] by auto
  then have "b = 48" using b(1,2) alloc_disk_used [of b] by simp
  then show ?thesis using b(4) by auto
qed

end
