(* ===== verification/Virtio_Run.thy ===== *)
theory Virtio_Run
  imports Virtio Sleeplock_Run Slots
begin

text \<open>
  The disk driver of \<open>kernel/virtio_disk.c\<close>: its descriptors are a first-fit table, a failed attempt to get three of
  them gives back those it has got, the chain that \<open>virtio_disk_rw\<close> posts describes the transfer that was asked for,
  and, with a device that does what the chain says, the call has the effect that the buffer cache relies on.
\<close>

subsection \<open>Descriptors\<close>

lemma alloc_desc_run:
  "alloc_desc e s = (case List.find (vd_free s) [0..<NUM] of None \<Rightarrow> Ok None e s
     | Some i \<Rightarrow> Ok (Some i) e (s\<lparr>vd_free := (vd_free s)(i := False)\<rparr>))"
  unfolding alloc_desc_def by (rule for_until_find) simp_all

interpretation desc: slot_table NUM "\<lambda>_. True" vd_free "\<lambda>i s. s\<lparr>vd_free := (vd_free s)(i := False)\<rparr>" alloc_desc
  by unfold_locales (auto simp: alloc_desc_run)

lemma free_desc_run:
  assumes "lk s = lk_acq VdiskLock k" "all_free k" "i < NUM" "\<not> vd_free s i"
  shows "free_desc i e s = Ok () e (s\<lparr>vd_desc := (vd_desc s)(i := empty_desc), vd_free := (vd_free s)(i := True),
     procs := woken (Some ChDiskFree) (my_thread s) (procs s)\<rparr>)"
  using assms by (simp add: free_desc_def wakeup_acq [where k = k and l = VdiskLock])

text \<open>The driver's view of the state: everything but the process table, in which threads may be woken up.\<close>

definition but_procs :: "'z vdisk_state_scheme \<Rightarrow> 'z vdisk_state_scheme \<Rightarrow> bool" where
  "but_procs s s' \<longleftrightarrow> s' = s\<lparr>procs := procs s'\<rparr> \<and> woken_only (procs s) (procs s')"

lemma free_count_0: "\<forall>j < n. \<not> P j \<Longrightarrow> free_count n P = 0"
  by (simp add: free_count_def)

lemma alloc3_desc_run:
  assumes "lk s = lk_acq VdiskLock k" "all_free k" "\<And>i. vd_free s i \<Longrightarrow> vd_desc s i = empty_desc"
  obtains (none) s' where "alloc3_desc e s = Ok None e s'" "but_procs s s'" "free_count NUM (vd_free s) < 3"
  | (three) i0 i1 i2 where "alloc3_desc e s = Ok (Some (i0, i1, i2)) e
        (s\<lparr>vd_free := (vd_free s)(i0 := False, i1 := False, i2 := False)\<rparr>)"
      "distinct [i0, i1, i2]" "i0 < NUM" "i1 < NUM" "i2 < NUM" "vd_free s i0" "vd_free s i1" "vd_free s i2"
      "3 \<le> free_count NUM (vd_free s)"
proof (cases rule: desc.alloc_total [OF TrueI, of e s])
  case 1
  then show thesis by (intro none [of s]) (auto simp: alloc3_desc_def but_procs_def free_count_0)
next
  case (2 i0)
  let ?s = "s\<lparr>vd_free := (vd_free s)(i0 := False)\<rparr>"
  note n0 = desc.free_count_take [OF 2(2,3)]
  show thesis
  proof (cases rule: desc.alloc_total [OF TrueI, of e ?s])
    case 1
    have "alloc3_desc e s = Ok None e (s\<lparr>procs := woken (Some ChDiskFree) (my_thread s) (procs s)\<rparr>)"
      using assms 2 1(1) by (simp add: alloc3_desc_def free_desc_run [where k = k] fun_upd_idem)
    then show thesis using 1(2) n0 by (intro none) (auto simp: but_procs_def free_count_0)
  next
    case (2 i1)
    let ?t = "s\<lparr>vd_free := (vd_free s)(i0 := False, i1 := False)\<rparr>"
    have i: "i1 \<noteq> i0" "vd_free s i1" using 2(3) by (auto split: if_splits)
    note n1 = desc.free_count_take [OF 2(2,3)]
    show thesis
    proof (cases rule: desc.alloc_total [OF TrueI, of e ?t])
      case 1
      let ?P = "woken (Some ChDiskFree) (my_thread s)"
      have u: "(vd_free s)(i0 := False, i1 := False, i0 := True, i1 := True) = vd_free s"
        "(vd_desc s)(i0 := empty_desc, i1 := empty_desc) = vd_desc s"
        using \<open>vd_free s i0\<close> i assms(3) by (auto simp: fun_eq_iff)
      let ?t1 = "s\<lparr>vd_free := (vd_free s)(i0 := False, i1 := False, i0 := True), vd_desc := (vd_desc s)(i0 := empty_desc),
        procs := ?P (procs s)\<rparr>"
      have "free_desc i0 e ?t = Ok () e ?t1" using free_desc_run [of ?t k i0 e] assms(1,2) \<open>i0 < NUM\<close> by simp
      moreover have "free_desc i1 e ?t1 = Ok () e (s\<lparr>procs := ?P (?P (procs s))\<rparr>)"
        using free_desc_run [of ?t1 k i1 e] assms(1,2) \<open>i1 < NUM\<close> i(1) u by (simp del: fun_upd_apply) simp
      ultimately have "alloc3_desc e s = Ok None e (s\<lparr>procs := ?P (?P (procs s))\<rparr>)"
        using \<open>alloc_desc e s = _\<close> 2(1) 1(1) by (simp add: alloc3_desc_def del: fun_upd_apply)
      moreover have "woken_only (procs s) (?P (?P (procs s)))" using woken_only_trans woken_only_woken by blast
      ultimately show thesis using 1(2) n0 n1 by (intro none) (auto simp: but_procs_def free_count_0)
    next
      case (2 i2)
      have j: "i2 \<noteq> i0" "i2 \<noteq> i1" "vd_free s i2" using 2(3) by (auto split: if_splits)
      have "3 \<le> free_count NUM (vd_free s)" using n0 n1 desc.free_count_take [OF 2(2,3)] by simp
      then show thesis using \<open>alloc_desc e s = _\<close> \<open>alloc_desc e ?s = _\<close> 2 i j \<open>i0 < NUM\<close> \<open>i1 < NUM\<close> \<open>vd_free s i0\<close>
        by (intro three [of i0 i1 i2]) (auto simp: alloc3_desc_def)
    qed
  qed
qed

lemma desc_index: "i < NUM \<Longrightarrow> unat (of_nat i :: u16) = i"
  by (simp add: NUM_def unsigned_of_nat take_bit_nat_eq_self)

text \<open>A chain of three descriptors is freed as a whole.\<close>

lemma free_chain_run:
  assumes "lk s = lk_acq VdiskLock k" "all_free k" "distinct [i0, i1, i2]" "\<forall>i \<in> {i0, i1, i2}. i < NUM \<and> \<not> vd_free s i"
    and "d_next (vd_desc s i0) = of_nat i1" "d_flags (vd_desc s i0) AND VRING_DESC_F_NEXT \<noteq> 0"
    and "d_next (vd_desc s i1) = of_nat i2" "d_flags (vd_desc s i1) AND VRING_DESC_F_NEXT \<noteq> 0"
    and "d_flags (vd_desc s i2) AND VRING_DESC_F_NEXT = 0"
  shows "\<exists>P. free_chain i0 e s = Ok () e (s\<lparr>vd_desc := (vd_desc s)(i0 := empty_desc, i1 := empty_desc, i2 := empty_desc),
     vd_free := (vd_free s)(i0 := True, i1 := True, i2 := True), procs := P\<rparr>) \<and> woken_only (procs s) P"
proof -
  let ?W = "woken (Some ChDiskFree) (my_thread s)"
  obtain m where n: "Suc NUM = Suc (Suc (Suc m))" by (rule that [of 6]) (simp add: NUM_def)
  let ?s1 = "s\<lparr>vd_desc := (vd_desc s)(i0 := empty_desc), vd_free := (vd_free s)(i0 := True), procs := ?W (procs s)\<rparr>"
  let ?s2 = "s\<lparr>vd_desc := (vd_desc s)(i0 := empty_desc, i1 := empty_desc), vd_free := (vd_free s)(i0 := True, i1 := True),
    procs := ?W (?W (procs s))\<rparr>"
  let ?s3 = "s\<lparr>vd_desc := (vd_desc s)(i0 := empty_desc, i1 := empty_desc, i2 := empty_desc),
    vd_free := (vd_free s)(i0 := True, i1 := True, i2 := True), procs := ?W (?W (?W (procs s)))\<rparr>"
  have "free_desc i0 e s = Ok () e ?s1" using free_desc_run [of s k i0 e] assms(1-4) by simp
  moreover have "free_desc i1 e ?s1 = Ok () e ?s2" using free_desc_run [of ?s1 k i1 e] assms(1-4) by simp
  moreover have "free_desc i2 e ?s2 = Ok () e ?s3" using free_desc_run [of ?s2 k i2 e] assms(1-4) by simp
  ultimately have "free_chain i0 e s = Ok () e ?s3"
    using assms(3-) by (simp add: free_chain_def n desc_index)
  moreover have "woken_only (procs s) (?W (?W (?W (procs s))))" using woken_only_trans woken_only_woken by blast
  ultimately show ?thesis by blast
qed

subsection \<open>Completion\<close>

text \<open>The interrupt handler marks the buffer of a completed request as done and wakes the thread that waits for it.\<close>

lemma virtio_disk_intr_run:
  assumes "all_free (lk s)" "vd_dev_used_idx s = vd_used_idx s + 1"
    and "vd_info_status s (unat (vd_used_ring s (unat (vd_used_idx s) mod NUM))) = 0"
    and "vd_info_b s (unat (vd_used_ring s (unat (vd_used_idx s) mod NUM))) = Some b"
  shows "virtio_disk_intr e s = Ok () e (s\<lparr>vd_mmio := (vd_mmio s)(0x064 := vd_mmio s 0x060 AND 3),
     bufs := (bufs s)(b := (bufs s b)\<lparr>b_disk := False\<rparr>),
     procs := woken (Some (ChDiskBuf b)) (my_thread s) (procs s), vd_used_idx := vd_used_idx s + 1\<rparr>)"
proof -
  have "unat (vd_dev_used_idx s - vd_used_idx s) = Suc 0" using assms(2) by simp
  then show ?thesis using assms
    by (simp add: virtio_disk_intr_def lock_run mmio_read_def mmio_write_def deref_def wakeup_acq [where k = "lk s" and l = VdiskLock])
qed

subsection \<open>Transfers\<close>

text \<open>
  What a device reads from the newest entry of the available ring: a chain of the request, the data of a buffer and
  a status byte, as request, buffer, whether the device is to write to the buffer, and the number of the status.
\<close>

definition posted :: "'z vdisk_state_scheme \<Rightarrow> (virtio_blk_req \<times> nat \<times> bool \<times> nat) option" where
  "posted s =
     (let d0 = vd_desc s (unat (vd_avail_ring s (unat (vd_avail_idx s - 1) mod NUM)));
          d1 = vd_desc s (unat (d_next d0)); d2 = vd_desc s (unat (d_next d1)) in
      case (d_addr d0, d_addr d1, d_addr d2) of
        (OpsAt r, DataAt b, StatusAt st) \<Rightarrow>
          if d_len d0 = 16 \<and> d_flags d0 = VRING_DESC_F_NEXT \<and> d_len d1 = of_nat BSIZE \<and> d_flags d1 AND VRING_DESC_F_NEXT \<noteq> 0
            \<and> d_len d2 = 1 \<and> d_flags d2 = VRING_DESC_F_WRITE
          then Some (vd_ops s r, b, d_flags d1 AND VRING_DESC_F_WRITE \<noteq> 0, st) else None
      | _ \<Rightarrow> None)"

text \<open>
  A device that carries a posted request out and has the interrupt handler mark the buffer as done. It transfers the
  block at the sector of the request, in the direction that type and descriptor ask for, and leaves the descriptors to
  the driver.
\<close>

definition completes :: "('z vdisk_state_scheme \<Rightarrow> 'z vdisk_state_scheme) \<Rightarrow> bool" where
  "completes f \<longleftrightarrow> (\<forall>s rq b w st. posted s = Some (rq, b, w, st) \<longrightarrow>
     vd_desc (f s) = vd_desc s \<and> vd_free (f s) = vd_free s
     \<and> (rq_type rq = VIRTIO_BLK_T_OUT \<and> \<not> w \<longrightarrow>
          disk (f s) = (disk s)(ucast (rq_sector rq div 2) := b_data (bufs s b))
          \<and> bufs (f s) = (bufs s)(b := (bufs s b)\<lparr>b_disk := False\<rparr>))
     \<and> (rq_type rq = VIRTIO_BLK_T_IN \<and> w \<longrightarrow>
          disk (f s) = disk s
          \<and> bufs (f s) = (bufs s)(b := (bufs s b)\<lparr>b_data := disk s (ucast (rq_sector rq div 2)), b_disk := False\<rparr>)))"

lemma block_of_sector:
  fixes n :: u32
  assumes "unat n < 2 ^ 31"
  shows "ucast ((ucast (n * of_nat (BSIZE div 512)) :: u64) div 2) = n"
proof -
  have "unat (n * 2) = unat n * 2" using assms by (subst unat_mult_lem [THEN iffD1]) simp_all
  moreover have "take_bit 64 (unat n * 2) = unat n * 2" using assms by (intro take_bit_nat_eq_self) simp
  ultimately have "unat ((ucast (n * 2) :: u64) div 2) = unat n" by (simp add: unat_div unsigned_ucast_eq)
  moreover have "unat n < 2 ^ 32" using assms by simp
  ultimately show ?thesis by (simp add: BSIZE_def word_unat_eq_iff unsigned_ucast_eq take_bit_nat_eq_self)
qed

text \<open>The state in which the driver waits: the chain is written and the device is notified.\<close>

definition request_of :: "nat \<Rightarrow> bool \<Rightarrow> 'z vdisk_state_scheme \<Rightarrow> virtio_blk_req" where
  "request_of b write s = \<lparr>rq_type = (if write then VIRTIO_BLK_T_OUT else VIRTIO_BLK_T_IN), rq_reserved = 0,
     rq_sector = ucast (b_blockno (bufs s b) * of_nat (BSIZE div 512))\<rparr>"

definition chained :: "nat \<times> nat \<times> nat \<Rightarrow> nat \<Rightarrow> bool \<Rightarrow> 'z vdisk_state_scheme \<Rightarrow> 'z vdisk_state_scheme" where
  "chained = (\<lambda>(i0, i1, i2) b write s. s\<lparr>
     vd_free := (vd_free s)(i0 := False, i1 := False, i2 := False),
     vd_ops := (vd_ops s)(i0 := request_of b write s),
     vd_info_status := (vd_info_status s)(i0 := 0xff),
     vd_desc := (vd_desc s)(
       i0 := \<lparr>d_addr = OpsAt i0, d_len = 16, d_flags = VRING_DESC_F_NEXT, d_next = of_nat i1\<rparr>,
       i1 := \<lparr>d_addr = DataAt b, d_len = of_nat BSIZE,
         d_flags = (if write then 0 else VRING_DESC_F_WRITE) OR VRING_DESC_F_NEXT, d_next = of_nat i2\<rparr>,
       i2 := \<lparr>d_addr = StatusAt i0, d_len = 1, d_flags = VRING_DESC_F_WRITE, d_next = 0\<rparr>),
     bufs := (bufs s)(b := (bufs s b)\<lparr>b_disk := True\<rparr>),
     vd_info_b := (vd_info_b s)(i0 := Some b),
     vd_avail_ring := (vd_avail_ring s)(unat (vd_avail_idx s) mod NUM := of_nat i0),
     vd_avail_idx := vd_avail_idx s + 1,
     vd_mmio := (vd_mmio s)(0x050 := 0)\<rparr>)"

lemma posted_chained:
  assumes "distinct [i0, i1, i2]" "i0 < NUM" "i1 < NUM" "i2 < NUM"
  shows "posted (chained (i0, i1, i2) b w s) = Some (request_of b w s, b, \<not> w, i0)"
proof -
  show ?thesis using assms
    by (simp add: posted_def chained_def desc_index VRING_DESC_F_NEXT_def VRING_DESC_F_WRITE_def)
qed

text \<open>The wait for the buffer, and what follows it.\<close>

definition await :: "nat \<Rightarrow> nat \<Rightarrow> ('z vdisk_state_scheme, unit) M" where
  "await b i0 =
     seq (sleep_loop (
       bnd (getb b b_disk) (\<lambda>busy.
       if busy then seq (sleep (ChDiskBuf b) VdiskLock) (return None) else return (Some ())))) (
     seq (modify (\<lambda>s. s\<lparr>vd_info_b := (vd_info_b s)(i0 := None)\<rparr>)) (
     seq (free_chain i0)
     (release VdiskLock)))"

lemma virtio_disk_rw_posts:
  assumes "all_free (lk s)" "\<forall>i. vd_free s i \<longrightarrow> vd_desc s i = empty_desc" "3 \<le> free_count NUM (vd_free s)"
  obtains i0 i1 i2 where
    "virtio_disk_rw b w e s = await b i0 e (chained (i0, i1, i2) b w (s\<lparr>lk := lk_acq VdiskLock (lk s)\<rparr>))"
    "distinct [i0, i1, i2]" "i0 < NUM" "i1 < NUM" "i2 < NUM" "vd_free s i0" "vd_free s i1" "vd_free s i2"
proof -
  let ?s = "s\<lparr>lk := lk_acq VdiskLock (lk s)\<rparr>"
  have l: "lk ?s = lk_acq VdiskLock (lk s)" "\<And>i. vd_free ?s i \<Longrightarrow> vd_desc ?s i = empty_desc" using assms(2) by simp_all
  show thesis
  proof (cases rule: alloc3_desc_run [OF l(1) assms(1) l(2), of e])
    case (2 s')
    then show thesis using assms(3) by simp
  next
    case (3 i0 i1 i2)
    then have "virtio_disk_rw b w e s = await b i0 e (chained (i0, i1, i2) b w ?s)"
      using assms(1) unfolding virtio_disk_rw_def await_def [symmetric]
      by (simp add: lock_run sleep_loop_def chained_def request_of_def mmio_write_def)
    with 3 that show thesis by simp
  qed
qed

lemma await_sleeps:
  "can_sleep s t k VdiskLock \<Longrightarrow> b_disk (bufs s b) \<Longrightarrow> await b i0 [] s = Blocked (asleep (ChDiskBuf b) t k s)"
  by (simp add: await_def sleep_loop_def sleep_run)

lemma await_returns:
  assumes "can_sleep s t k VdiskLock" "resumes t f" "b_disk (bufs s b)" "\<not> b_disk (bufs (f (asleep (ChDiskBuf b) t k s)) b)"
    and "free_chain i0 e (resumed t k VdiskLock (f (asleep (ChDiskBuf b) t k s))
          \<lparr>vd_info_b := (vd_info_b (f (asleep (ChDiskBuf b) t k s)))(i0 := None)\<rparr>) = Ok () e s'" "lk s' = lk_acq VdiskLock k"
  shows "await b i0 (f # e) s = Ok () e (s'\<lparr>lk := k\<rparr>)"
  using assms(2-) sleep_run(2) [OF assms(1,2)] assms(1) can_sleep_def [of s t k VdiskLock]
  by (simp add: await_def sleep_loop_def lock_run resumed_def)

lemma chained_sleeps:
  assumes "all_free (lk s)" "noff (this_cpu (lk s)) = 0" "my_thread s = Some t" "proc_parent (thread_of s t) = Some (fst t)"
  shows "can_sleep (chained i b w (s\<lparr>lk := lk_acq VdiskLock (lk s)\<rparr>)) t (lk s) VdiskLock"
  using assms by (simp add: can_sleep_def chained_def thread_of_def split: prod.split)

lemma posted_asleep:
  assumes "distinct [i0, i1, i2]" "i0 < NUM" "i1 < NUM" "i2 < NUM"
  shows "posted (asleep ch t k (chained (i0, i1, i2) b w (s\<lparr>lk := k'\<rparr>))) = Some (request_of b w s, b, \<not> w, i0)"
proof -
  have "vd_desc (asleep ch t k u) = vd_desc u" "vd_avail_ring (asleep ch t k u) = vd_avail_ring u"
    "vd_avail_idx (asleep ch t k u) = vd_avail_idx u" "vd_ops (asleep ch t k u) = vd_ops u" for u :: "'a vdisk_state_scheme"
    by (simp_all add: asleep_def)
  then have "posted (asleep ch t k u) = posted u" for u :: "'a vdisk_state_scheme" unfolding posted_def by (simp only:)
  moreover have "request_of b w (s\<lparr>lk := k'\<rparr>) = request_of b w s" by (simp add: request_of_def)
  ultimately show ?thesis using posted_chained [OF assms, of b w "s\<lparr>lk := k'\<rparr>"] by simp
qed

lemma virtio_disk_rw_completes:
  assumes lks: "all_free (lk s)" "noff (this_cpu (lk s)) = 0" "my_thread s = Some t" "proc_parent (thread_of s t) = Some (fst t)"
    and free: "\<forall>i. vd_free s i \<longrightarrow> vd_desc s i = empty_desc" "3 \<le> free_count NUM (vd_free s)"
    and blk: "unat (b_blockno (bufs s b)) < 2 ^ 31" "\<not> b_disk (bufs s b)"
    and f: "resumes t f" "completes f"
  shows "\<exists>s' s2. virtio_disk_rw b w (f # e) s = Ok () e s' \<and> disk_rw b w e s = Ok () e s2
     \<and> disk s' = disk s2 \<and> bufs s' = bufs s2 \<and> vd_free s' = vd_free s \<and> vd_desc s' = vd_desc s \<and> lk s' = lk s"
proof -
  let ?s = "s\<lparr>lk := lk_acq VdiskLock (lk s)\<rparr>"
  obtain i0 i1 i2 where i: "distinct [i0, i1, i2]" "i0 < NUM" "i1 < NUM" "i2 < NUM" "vd_free s i0" "vd_free s i1" "vd_free s i2"
    and r: "virtio_disk_rw b w (f # e) s = await b i0 (f # e) (chained (i0, i1, i2) b w ?s)"
    using virtio_disk_rw_posts [OF lks(1) free, of b w "f # e"] by blast
  let ?c = "chained (i0, i1, i2) b w ?s"
  let ?a = "asleep (ChDiskBuf b) t (lk s) ?c"
  let ?u = "(resumed t (lk s) VdiskLock (f ?a))\<lparr>vd_info_b := (vd_info_b (f ?a))(i0 := None)\<rparr>"
  have po: "posted ?a = Some (request_of b w s, b, \<not> w, i0)" by (rule posted_asleep [OF i(1-4)])
  have same: "vd_desc ?u = vd_desc ?c" "vd_free ?u = vd_free ?c" "lk ?u = lk_acq VdiskLock (lk s)"
    using f po by (simp_all add: completes_def resumed_def asleep_def)
  have data: "disk (f ?a) = disk (if w then s\<lparr>disk := (disk s)(b_blockno (bufs s b) := b_data (bufs s b))\<rparr> else s)"
    "bufs (f ?a) = bufs (if w then s else s\<lparr>bufs := (bufs s)(b := (bufs s b)\<lparr>b_data := disk s (b_blockno (bufs s b))\<rparr>)\<rparr>)"
    using f(2) po block_of_sector [OF blk(1)] blk(2) unfolding completes_def
    by (auto simp: request_of_def asleep_def chained_def VIRTIO_BLK_T_IN_def VIRTIO_BLK_T_OUT_def)
  obtain P where fc: "free_chain i0 e ?u = Ok () e (?u\<lparr>vd_desc := (vd_desc ?u)(i0 := empty_desc, i1 := empty_desc, i2 := empty_desc),
     vd_free := (vd_free ?u)(i0 := True, i1 := True, i2 := True), procs := P\<rparr>)"
    using free_chain_run [OF same(3) lks(1) i(1), of e] i same(1,2)
    by (auto simp: chained_def VRING_DESC_F_NEXT_def VRING_DESC_F_WRITE_def)
  let ?v = "?u\<lparr>vd_desc := vd_desc s, vd_free := vd_free s, procs := P\<rparr>"
  have "(vd_desc ?u)(i0 := empty_desc, i1 := empty_desc, i2 := empty_desc) = vd_desc s"
    "(vd_free ?u)(i0 := True, i1 := True, i2 := True) = vd_free s"
    using i free(1) unfolding same(1,2) by (auto simp: chained_def fun_eq_iff)
  then have fc: "free_chain i0 e ?u = Ok () e ?v" using fc by simp
  have b: "b_disk (bufs ?c b)" "\<not> b_disk (bufs (f ?a) b)" using data(2) blk(2) by (simp_all add: chained_def)
  have "await b i0 (f # e) ?c = Ok () e (?v\<lparr>lk := lk s\<rparr>)"
    by (rule await_returns [OF chained_sleeps [OF lks] f(1) b fc]) (use same(3) in simp)
  moreover have "disk (?v\<lparr>lk := lk s\<rparr>) = disk (f ?a)" "bufs (?v\<lparr>lk := lk s\<rparr>) = bufs (f ?a)" by (simp_all add: resumed_def)
  ultimately show ?thesis using r data by (cases w) (auto simp: disk_rw_def)
qed

text \<open>
  C37. The driver does what the buffer cache relies on: if three descriptors are free, \<open>virtio_disk_rw\<close> posts a chain
  that asks for exactly the transfer wanted (type, sector, buffer and direction) and goes to sleep on the buffer; with a
  device that completes the posted request meanwhile, it returns with the buffer and the disk as \<open>disk_rw\<close>, the
  operation that the model of the buffer cache calls, leaves them, and all descriptors are free and cleared as before.
\<close>

theorem virtio_disk_rw_refines:
  assumes lks: "all_free (lk s)" "noff (this_cpu (lk s)) = 0" "my_thread s = Some t" "proc_parent (thread_of s t) = Some (fst t)"
    and free: "\<forall>i. vd_free s i \<longrightarrow> vd_desc s i = empty_desc" "3 \<le> free_count NUM (vd_free s)"
    and blk: "unat (b_blockno (bufs s b)) < 2 ^ 31" "\<not> b_disk (bufs s b)"
    and f: "resumes t f" "completes f"
  shows "(\<exists>s1 i0. virtio_disk_rw b w [] s = Blocked s1 \<and> posted s1 = Some (request_of b w s, b, \<not> w, i0)
        \<and> t_state (thread_of s1 t) = SLEEPING \<and> t_chan (thread_of s1 t) = Some (ChDiskBuf b))
    \<and> (\<exists>s' s2. virtio_disk_rw b w (f # e) s = Ok () e s' \<and> disk_rw b w e s = Ok () e s2
        \<and> disk s' = disk s2 \<and> bufs s' = bufs s2 \<and> vd_free s' = vd_free s \<and> vd_desc s' = vd_desc s \<and> lk s' = lk s)"
proof (intro conjI)
  let ?s = "s\<lparr>lk := lk_acq VdiskLock (lk s)\<rparr>"
  obtain i0 i1 i2 where i: "distinct [i0, i1, i2]" "i0 < NUM" "i1 < NUM" "i2 < NUM"
    and r: "virtio_disk_rw b w [] s = await b i0 [] (chained (i0, i1, i2) b w ?s)"
    using virtio_disk_rw_posts [OF lks(1) free, of b w "[]"] by blast
  have "await b i0 [] (chained (i0, i1, i2) b w ?s) = Blocked (asleep (ChDiskBuf b) t (lk s) (chained (i0, i1, i2) b w ?s))"
    by (rule await_sleeps [OF chained_sleeps [OF lks]]) (simp add: chained_def)
  then show "\<exists>s1 i0. virtio_disk_rw b w [] s = Blocked s1 \<and> posted s1 = Some (request_of b w s, b, \<not> w, i0)
        \<and> t_state (thread_of s1 t) = SLEEPING \<and> t_chan (thread_of s1 t) = Some (ChDiskBuf b)"
    using r posted_asleep [OF i] asleep_simps(2,3) by metis
qed (rule virtio_disk_rw_completes [OF assms])

text \<open>A read of block 7 with a device that carries out whatever is posted.\<close>

definition sample_device :: "vdisk_state \<Rightarrow> vdisk_state" where
  "sample_device s = (case posted s of None \<Rightarrow> s | Some (rq, b, w, st) \<Rightarrow>
     if rq_type rq = VIRTIO_BLK_T_OUT
     then s\<lparr>disk := (disk s)(ucast (rq_sector rq div 2) := b_data (bufs s b)), bufs := (bufs s)(b := (bufs s b)\<lparr>b_disk := False\<rparr>)\<rparr>
     else s\<lparr>bufs := (bufs s)(b := (bufs s b)\<lparr>b_data := disk s (ucast (rq_sector rq div 2)), b_disk := False\<rparr>)\<rparr>)"

lemma sample_device_ok: "completes sample_device" "resumes t sample_device"
  by (auto simp: completes_def resumes_def sample_device_def thread_of_def VIRTIO_BLK_T_IN_def VIRTIO_BLK_T_OUT_def split: option.split)

definition sample_vdisk :: vdisk_state where
  "sample_vdisk = (sample_file \<lparr>vd_desc = (\<lambda>_. empty_desc), vd_avail_idx = 0, vd_avail_ring = (\<lambda>_. 0), vd_dev_used_idx = 0,
     vd_used_ring = (\<lambda>_. 0), vd_free = (\<lambda>i. i < NUM), vd_used_idx = 0, vd_info_b = (\<lambda>_. None), vd_info_status = (\<lambda>_. 0),
     vd_ops = (\<lambda>_. \<lparr>rq_type = 0, rq_reserved = 0, rq_sector = 0\<rparr>), vd_mmio = (\<lambda>_. 0), vd_pages = 0\<rparr>)
     \<lparr>disk := (\<lambda>n _. if n = 7 then 42 else 0), bufs := (\<lambda>_. sample_buf\<lparr>b_blockno := 7\<rparr>)\<rparr>"

theorem virtio_disk_rw_refines_witness:
  "\<exists>s'. virtio_disk_rw 3 False [sample_device] sample_vdisk = Ok () [] s' \<and> b_data (bufs s' 3) = (\<lambda>_. 42)
     \<and> vd_free s' = vd_free sample_vdisk"
proof -
  have "free_count NUM (vd_free sample_vdisk) = 8"
    by (simp add: free_count_def sample_vdisk_def sample_file_def NUM_def Collect_conj_eq [symmetric] lessThan_def [symmetric])
  moreover have "thread_of sample_vdisk (0, 0) = running_thread" "lk sample_vdisk = sample_lk"
    by (simp_all add: sample_vdisk_def thread_of_def running_proc_def)
  moreover have "vd_desc sample_vdisk i = empty_desc" "bufs sample_vdisk 3 = sample_buf\<lparr>b_blockno := 7\<rparr>"
    "disk sample_vdisk 7 = (\<lambda>_. 42)" for i
    by (simp_all add: sample_vdisk_def sample_file_def)
  ultimately show ?thesis
    using virtio_disk_rw_refines [of sample_vdisk "(0, 0)" 3 sample_device False "[]"] sample_device_ok
    by (auto simp: disk_rw_def sample_buf_def)
qed

end
