(* ===== verification/File_Tables.thy ===== *)
theory File_Tables
  imports Sysfile Sleeplock_Run Slots
begin

text \<open>
  The tables of open files are first-fit tables: \<open>ftable\<close> of \<open>kernel/file.c\<close>, whose free entries have the reference
  count 0, and the descriptors \<open>ofile\<close> of a process, which \<open>fdalloc\<close> of \<open>kernel/sysfile.c\<close> hands out.
\<close>

lemma filealloc_run:
  assumes "all_free (lk s)"
  shows "filealloc e s = (case List.find (\<lambda>f. f_ref (ftable s f) = 0) [0..<NFILE] of None \<Rightarrow> Ok None e s
     | Some f \<Rightarrow> Ok (Some f) e (s\<lparr>ftable := (ftable s)(f := (ftable s f)\<lparr>f_ref := 1\<rparr>)\<rparr>))"
proof -
  let ?s = "s\<lparr>lk := lk_acq FtableLock (lk s)\<rparr>"
  have "for_until [0..<NFILE] (\<lambda>f.
       bnd (getf f f_ref) (\<lambda>r.
       if r = 0 then
         seq (setf f (\<lambda>x. x\<lparr>f_ref := 1\<rparr>)) (
         seq (release FtableLock)
         (return (Some f)))
       else return None)) e ?s =
    (case List.find (\<lambda>f. f_ref (ftable s f) = 0) [0..<NFILE] of None \<Rightarrow> Ok None e ?s
      | Some f \<Rightarrow> Ok (Some f) e (s\<lparr>ftable := (ftable s)(f := (ftable s f)\<lparr>f_ref := 1\<rparr>)\<rparr>))"
    by (rule for_until_find) (use assms in \<open>simp_all add: lock_run\<close>)
  then show ?thesis using assms by (simp add: filealloc_def lock_run split: option.split)
qed

interpretation files: slot_table NFILE "\<lambda>s. all_free (lk s)" "\<lambda>s f. f_ref (ftable s f) = 0"
    "\<lambda>f s. s\<lparr>ftable := (ftable s)(f := (ftable s f)\<lparr>f_ref := 1\<rparr>)\<rparr>" filealloc
  by unfold_locales (auto simp: filealloc_run)

lemma fdalloc_run:
  assumes "lk_ok (lk s)" "my_proc s = Some p"
  shows "fdalloc f e s = (case List.find (\<lambda>fd. ofile (procs s p) fd = None) [0..<NOFILE] of None \<Rightarrow> Ok None e s
     | Some fd \<Rightarrow> Ok (Some fd) e (s\<lparr>procs := (procs s)(p := (procs s p)\<lparr>ofile := (ofile (procs s p))(fd := Some f)\<rparr>)\<rparr>))"
proof -
  have "for_until [0..<NOFILE] (\<lambda>fd.
       bnd (getp p (\<lambda>pr. ofile pr fd)) (\<lambda>fo.
       if fo = None then
         seq (setp p (\<lambda>pr. pr\<lparr>ofile := (ofile pr)(fd := Some f)\<rparr>)) (return (Some fd))
       else return None)) e s =
    (case List.find (\<lambda>fd. ofile (procs s p) fd = None) [0..<NOFILE] of None \<Rightarrow> Ok None e s
      | Some fd \<Rightarrow> Ok (Some fd) e (s\<lparr>procs := (procs s)(p := (procs s p)\<lparr>ofile := (ofile (procs s p))(fd := Some f)\<rparr>)\<rparr>))"
    by (rule for_until_find) simp_all
  then show ?thesis using assms by (simp add: fdalloc_def lock_run)
qed

interpretation fds: slot_table NOFILE "\<lambda>s. lk_ok (lk s) \<and> my_proc s = Some p" "\<lambda>s fd. ofile (procs s p) fd = None"
    "\<lambda>fd s. s\<lparr>procs := (procs s)(p := (procs s p)\<lparr>ofile := (ofile (procs s p))(fd := Some f)\<rparr>)\<rparr>" "fdalloc f"
  for p f
  by unfold_locales (auto simp: fdalloc_run)

end
