(* ===== verification/User.thy ===== *)
theory User
  imports Sysfile
begin

text \<open>
  User space: the library \<open>user/ulib.c\<close> and \<open>user/printf.c\<close>. The memory of the process is \<open>umem\<close>. A system call
  enters the kernel through a stub that the build generates from \<open>user/usys.pl\<close>; the calls are the fields of a
  record \<open>usys\<close>, a parameter of every program, over whatever state \<open>kern\<close> the kernel has. A call that returns
  bytes returns them as a list, of the length that is its result; \<open>None\<close> is the result -1. \<open>exit\<close> records the
  status and ends the run in the outcome \<open>Blocked\<close>.

  The strings that programs handle as a whole (arguments, file names, formats) are the lists of their characters
  before the terminating null; the routines of the library work on the memory.
\<close>

record 'k user_state =
  umem :: mem
  exit_status :: "int option"
  kern :: 'k

record 'k usys =
  us_read :: "int \<Rightarrow> nat \<Rightarrow> 'k \<Rightarrow> u8 list option \<times> 'k"
  us_write :: "int \<Rightarrow> u8 list \<Rightarrow> 'k \<Rightarrow> int \<times> 'k"
  us_open :: "u8 list \<Rightarrow> int \<Rightarrow> 'k \<Rightarrow> int \<times> 'k"
  us_close :: "int \<Rightarrow> 'k \<Rightarrow> int \<times> 'k"
  us_fstat :: "int \<Rightarrow> 'k \<Rightarrow> stat option \<times> 'k"
  us_sbrk :: "int \<Rightarrow> 'k \<Rightarrow> u64 \<times> 'k"
  us_fork :: "'k \<Rightarrow> int \<times> 'k"
  us_wait :: "'k \<Rightarrow> int \<times> 'k"
  us_exec :: "u8 list \<Rightarrow> u8 list list \<Rightarrow> 'k \<Rightarrow> int option \<times> 'k"
  us_pipe :: "'k \<Rightarrow> (int \<times> int) option \<times> 'k"
  us_dup :: "int \<Rightarrow> 'k \<Rightarrow> int \<times> 'k"
  us_chdir :: "u8 list \<Rightarrow> 'k \<Rightarrow> int \<times> 'k"
  us_mkdir :: "u8 list \<Rightarrow> 'k \<Rightarrow> int \<times> 'k"
  us_mknod :: "u8 list \<Rightarrow> int \<Rightarrow> int \<Rightarrow> 'k \<Rightarrow> int \<times> 'k"
  us_link :: "u8 list \<Rightarrow> u8 list \<Rightarrow> 'k \<Rightarrow> int \<times> 'k"
  us_unlink :: "u8 list \<Rightarrow> 'k \<Rightarrow> int \<times> 'k"
  us_kill :: "int \<Rightarrow> int \<Rightarrow> 'k \<Rightarrow> int \<times> 'k"
  us_sleep :: "int \<Rightarrow> 'k \<Rightarrow> int \<times> 'k"

type_synonym ('k, 'a) U = "('k user_state, 'a) M"

definition sys :: "('k \<Rightarrow> 'a \<times> 'k) \<Rightarrow> ('k, 'a) U" where
  "sys f = (\<lambda>e s. let (v, k) = f (kern s) in Ok v e (s\<lparr>kern := k\<rparr>))"

definition exit_with :: "int \<Rightarrow> ('k, 'a) U" where
  "exit_with status = (\<lambda>e s. Blocked (s\<lparr>exit_status := Some status\<rparr>))"

lemma sys_run [simp]: "sys f e s = Ok (fst (f (kern s))) e (s\<lparr>kern := snd (f (kern s))\<rparr>)"
  by (simp add: sys_def split: prod.split)

lemma exit_with_run [simp]: "exit_with n e s = Blocked (s\<lparr>exit_status := Some n\<rparr>)"
  by (simp add: exit_with_def)

text \<open>Ending a program that \<open>exec\<close> has replaced: no further step of it is taken.\<close>

definition replaced :: "('k, 'a) U" where
  "replaced = (\<lambda>e s. Blocked s)"

subsection \<open>ulib.c\<close>

partial_function (option) u_strcpy :: "u64 \<Rightarrow> u64 \<Rightarrow> mem \<Rightarrow> mem option" where
  "u_strcpy s t m =
     (let c = m t; m = m(s := c) in if c \<noteq> 0 then u_strcpy (s + 1) (t + 1) m else Some m)"

partial_function (option) u_strcmp :: "u64 \<Rightarrow> u64 \<Rightarrow> mem \<Rightarrow> int option" where
  "u_strcmp p q m =
     (if m p \<noteq> 0 \<and> m p = m q then u_strcmp (p + 1) (q + 1) m else Some (uint (m p) - uint (m q)))"

partial_function (option) u_strlen_from :: "u64 \<Rightarrow> nat \<Rightarrow> mem \<Rightarrow> nat option" where
  "u_strlen_from s n m = (if m (s + of_nat n) \<noteq> 0 then u_strlen_from s (Suc n) m else Some n)"

definition u_strlen :: "u64 \<Rightarrow> mem \<Rightarrow> nat option" where
  "u_strlen s m = u_strlen_from s 0 m"

definition u_memset :: "u64 \<Rightarrow> u8 \<Rightarrow> nat \<Rightarrow> mem \<Rightarrow> mem" where
  "u_memset dst c n m = fold (\<lambda>i m. m(dst + of_nat i := c)) [0..<n] m"

partial_function (option) u_strchr :: "u64 \<Rightarrow> u8 \<Rightarrow> mem \<Rightarrow> u64 option" where
  "u_strchr s c m = (if m s = 0 then Some 0 else if m s = c then Some s else u_strchr (s + 1) c m)"

definition store_byte :: "u64 \<Rightarrow> u8 \<Rightarrow> ('k, unit) U" where
  "store_byte p c = modify (\<lambda>s. s\<lparr>umem := (umem s)(p := c)\<rparr>)"

text \<open>The count of the loop of \<open>gets\<close> is the room that is left for characters.\<close>

primrec gets_loop :: "'k usys \<Rightarrow> u64 \<Rightarrow> nat \<Rightarrow> nat \<Rightarrow> ('k, nat) U" where
  "gets_loop us buf 0 i = return i"
| "gets_loop us buf (Suc k) i =
     bnd (sys (us_read us 0 1)) (\<lambda>r.
     case r of Some (c # cs) \<Rightarrow>
       seq (store_byte (buf + of_nat i) c) (
       if c = 10 \<or> c = 13 then return (Suc i) else gets_loop us buf k (Suc i))
     | _ \<Rightarrow> return i)"

definition gets_line :: "'k usys \<Rightarrow> u64 \<Rightarrow> int \<Rightarrow> ('k, u64) U" where
  "gets_line us buf mx =
     bnd (gets_loop us buf (nat (mx - 1)) 0) (\<lambda>i.
     seq (store_byte (buf + of_nat i) 0)
     (return buf))"

definition u_stat :: "'k usys \<Rightarrow> u8 list \<Rightarrow> ('k, stat option) U" where
  "u_stat us n =
     bnd (sys (us_open us n 0)) (\<lambda>fd.
     if fd < 0 then return None else
     bnd (sys (us_fstat us fd)) (\<lambda>r.
     seq (sys (us_close us fd))
     (return r)))"

partial_function (option) u_atoi_loop :: "u64 \<Rightarrow> u32 \<Rightarrow> mem \<Rightarrow> u32 option" where
  "u_atoi_loop s n m =
     (if 48 \<le> m s \<and> m s \<le> 57 then u_atoi_loop (s + 1) (n * 10 + ucast (m s) - 48) m else Some n)"

definition u_atoi :: "u64 \<Rightarrow> mem \<Rightarrow> u32 option" where
  "u_atoi s m = u_atoi_loop s 0 m"

definition u_memmove :: "u64 \<Rightarrow> u64 \<Rightarrow> int \<Rightarrow> mem \<Rightarrow> mem" where
  "u_memmove vdst vsrc n m =
     (if vdst < vsrc then copy_up (nat n) vdst vsrc m else copy_down (nat n) vdst vsrc m)"

primrec u_memcmp :: "u64 \<Rightarrow> u64 \<Rightarrow> nat \<Rightarrow> mem \<Rightarrow> int" where
  "u_memcmp s1 s2 0 m = 0"
| "u_memcmp s1 s2 (Suc n) m =
     (if m s1 \<noteq> m s2 then uint (m s1) - uint (m s2) else u_memcmp (s1 + 1) (s2 + 1) n m)"

definition u_memcpy :: "u64 \<Rightarrow> u64 \<Rightarrow> u32 \<Rightarrow> mem \<Rightarrow> mem" where
  "u_memcpy dst src n m = u_memmove dst src (sint n) m"

subsection \<open>printf.c\<close>

definition u_digits :: "u8 list" where
  "u_digits = [48, 49, 50, 51, 52, 53, 54, 55, 56, 57, 65, 66, 67, 68, 69, 70]"

definition u_putc :: "'k usys \<Rightarrow> int \<Rightarrow> u8 \<Rightarrow> ('k, unit) U" where
  "u_putc us fd c = seq (sys (us_write us fd [c])) skip"

primrec u_int_digits :: "nat \<Rightarrow> u32 \<Rightarrow> u32 \<Rightarrow> u8 list \<Rightarrow> u8 list option" where
  "u_int_digits 0 x base buf = None"
| "u_int_digits (Suc n) x base buf =
     (let buf' = buf @ [u_digits ! unat (x mod base)]; x' = x div base
      in if x' \<noteq> 0 then u_int_digits n x' base buf' else Some buf')"

definition u_printint :: "'k usys \<Rightarrow> int \<Rightarrow> u32 \<Rightarrow> u32 \<Rightarrow> bool \<Rightarrow> ('k, unit) U" where
  "u_printint us fd xx base sg =
     (let neg = sg \<and> sint xx < 0; x = (if neg then - xx else xx)
      in case u_int_digits 16 x base [] of None \<Rightarrow> fault ''buf'' | Some buf \<Rightarrow>
         if neg \<and> length buf = 16 then fault ''buf'' else
         for_each (rev (if neg then buf @ [45] else buf)) (u_putc us fd))"

primrec u_ptr_digits :: "'k usys \<Rightarrow> int \<Rightarrow> nat \<Rightarrow> u64 \<Rightarrow> ('k, unit) U" where
  "u_ptr_digits us fd 0 x = skip"
| "u_ptr_digits us fd (Suc n) x =
     seq (u_putc us fd (u_digits ! unat (drop_bit 60 x))) (u_ptr_digits us fd n (push_bit 4 x))"

definition u_printptr :: "'k usys \<Rightarrow> int \<Rightarrow> u64 \<Rightarrow> ('k, unit) U" where
  "u_printptr us fd x = seq (u_putc us fd 48) (seq (u_putc us fd 120) (u_ptr_digits us fd 16 x))"

text \<open>
  \<open>vprintf\<close>: the flag is the variable \<open>state\<close>. An argument of the wrong type or a missing one is undefined in C.
\<close>

fun vprintf_loop :: "'k usys \<Rightarrow> int \<Rightarrow> bool \<Rightarrow> u8 list \<Rightarrow> va_arg list \<Rightarrow> ('k, unit) U" where
  "vprintf_loop us fd st [] ap = skip"
| "vprintf_loop us fd False (c # fmt) ap =
     (if c = 37 then vprintf_loop us fd True fmt ap
      else seq (u_putc us fd c) (vprintf_loop us fd False fmt ap))"
| "vprintf_loop us fd True (c # fmt) ap =
     (if c = 100 then (case ap of VaInt v # ap \<Rightarrow> seq (u_printint us fd v 10 True) (vprintf_loop us fd False fmt ap) | _ \<Rightarrow> fault ''va_arg'')
      else if c = 108 then (case ap of VaPtr v # ap \<Rightarrow> seq (u_printint us fd (ucast v) 10 False) (vprintf_loop us fd False fmt ap) | _ \<Rightarrow> fault ''va_arg'')
      else if c = 120 then (case ap of VaInt v # ap \<Rightarrow> seq (u_printint us fd v 16 False) (vprintf_loop us fd False fmt ap) | _ \<Rightarrow> fault ''va_arg'')
      else if c = 112 then (case ap of VaPtr v # ap \<Rightarrow> seq (u_printptr us fd v) (vprintf_loop us fd False fmt ap) | _ \<Rightarrow> fault ''va_arg'')
      else if c = 115 then (case ap of VaStr v # ap \<Rightarrow>
          seq (for_each (case v of None \<Rightarrow> cstr ''(null)'' | Some str \<Rightarrow> str) (u_putc us fd)) (vprintf_loop us fd False fmt ap) | _ \<Rightarrow> fault ''va_arg'')
      else if c = 99 then (case ap of VaInt v # ap \<Rightarrow> seq (u_putc us fd (ucast v)) (vprintf_loop us fd False fmt ap) | _ \<Rightarrow> fault ''va_arg'')
      else if c = 37 then seq (u_putc us fd c) (vprintf_loop us fd False fmt ap)
      else seq (u_putc us fd 37) (seq (u_putc us fd c) (vprintf_loop us fd False fmt ap)))"

definition vprintf :: "'k usys \<Rightarrow> int \<Rightarrow> u8 list \<Rightarrow> va_arg list \<Rightarrow> ('k, unit) U" where
  "vprintf us fd fmt ap = vprintf_loop us fd False fmt ap"

definition u_fprintf :: "'k usys \<Rightarrow> int \<Rightarrow> u8 list \<Rightarrow> va_arg list \<Rightarrow> ('k, unit) U" where
  "u_fprintf us fd fmt ap = vprintf us fd fmt ap"

definition u_printf :: "'k usys \<Rightarrow> u8 list \<Rightarrow> va_arg list \<Rightarrow> ('k, unit) U" where
  "u_printf us fmt ap = vprintf us 1 fmt ap"

subsection \<open>Streams\<close>

text \<open>
  What a program that copies or filters text relies on, as \<open>read\<close> and \<open>write\<close> document it: a read takes at least
  one and at most \<open>n\<close> characters off the input, none only at its end or for \<open>n = 0\<close>; a write to the standard output
  appends all of its characters. The input still to come and the output so far are functions of the kernel's state.
\<close>

definition serves :: "'k usys \<Rightarrow> int \<Rightarrow> ('k \<Rightarrow> u8 list) \<Rightarrow> ('k \<Rightarrow> u8 list) \<Rightarrow> bool" where
  "serves us fd inp out \<longleftrightarrow>
     (\<forall>k n. \<exists>cs k'. us_read us fd n k = (Some cs, k') \<and> inp k = cs @ inp k' \<and> length cs \<le> n
        \<and> (cs = [] \<longrightarrow> n = 0 \<or> inp k = []) \<and> out k' = out k)
   \<and> (\<forall>k xs. \<exists>k'. us_write us 1 xs k = (int (length xs), k') \<and> out k' = out k @ xs \<and> inp k' = inp k)"

lemma serves_read:
  assumes "serves us fd inp out"
  obtains cs k' where "us_read us fd n k = (Some cs, k')" "inp k = cs @ inp k'" "length cs \<le> n"
    "cs = [] \<Longrightarrow> n = 0 \<or> inp k = []" "out k' = out k"
  using assms unfolding serves_def by meson

lemma serves_write:
  assumes "serves us fd inp out"
  obtains k' where "us_write us 1 xs k = (int (length xs), k')" "out k' = out k @ xs" "inp k' = inp k"
  using assms unfolding serves_def by meson

text \<open>A file of which every read returns a bounded part, and an output that keeps what is written.\<close>

definition stream_sys :: "nat \<Rightarrow> (u8 list \<times> u8 list) usys" where
  "stream_sys cz = \<lparr>
     us_read = (\<lambda>fd n (i, ou). (Some (take (min n (Suc cz)) i), (drop (min n (Suc cz)) i, ou))),
     us_write = (\<lambda>fd xs (i, ou). (int (length xs), (i, ou @ xs))),
     us_open = (\<lambda>path mode k. (3, k)), us_close = (\<lambda>fd k. (0, k)), us_fstat = (\<lambda>fd k. (None, k)),
     us_sbrk = (\<lambda>n k. (- 1, k)), us_fork = (\<lambda>k. (- 1, k)), us_wait = (\<lambda>k. (- 1, k)),
     us_exec = (\<lambda>path argv k. (Some (- 1), k)), us_pipe = (\<lambda>k. (None, k)), us_dup = (\<lambda>fd k. (- 1, k)),
     us_chdir = (\<lambda>path k. (- 1, k)), us_mkdir = (\<lambda>path k. (- 1, k)), us_mknod = (\<lambda>path mj mn k. (- 1, k)),
     us_link = (\<lambda>old new k. (- 1, k)), us_unlink = (\<lambda>path k. (- 1, k)), us_kill = (\<lambda>pid sig k. (- 1, k)),
     us_sleep = (\<lambda>n k. (0, k))\<rparr>"

lemma stream_sys_serves: "serves (stream_sys cz) fd fst snd"
  by (auto simp: serves_def stream_sys_def min_def)

end
