(* ===== verification/Grep.thy ===== *)
theory Grep
  imports User
begin

text \<open>
  \<open>user/grep.c\<close>. The pattern, and the text that it is matched against, are the characters before the terminating
  null. The buffer of \<open>grep\<close> is the list of the \<open>m\<close> characters that it holds: \<open>strchr\<close> looks for a newline in the
  part of it before the first null, and \<open>match\<close> sees a line up to the null that replaces its newline. The number of
  reads is bounded by a parameter; a number larger than the length of the input is always enough.
\<close>

subsection \<open>The matcher\<close>

fun matchhere :: "u8 list \<Rightarrow> u8 list \<Rightarrow> bool"
  and matchstar :: "u8 \<Rightarrow> u8 list \<Rightarrow> u8 list \<Rightarrow> bool" where
  "matchhere [] text = True"
| "matchhere (c # re) text =
     (if re \<noteq> [] \<and> hd re = 42 then matchstar c (tl re) text
      else if c = 36 \<and> re = [] then text = []
      else if text \<noteq> [] \<and> (c = 46 \<or> c = hd text) then matchhere re (tl text)
      else False)"
| "matchstar c re text =
     (if matchhere re text then True
      else if text \<noteq> [] \<and> (hd text = c \<or> c = 46) then matchstar c re (tl text)
      else False)"

fun match_from :: "u8 list \<Rightarrow> u8 list \<Rightarrow> bool" where
  "match_from re text =
     (if matchhere re text then True else case text of [] \<Rightarrow> False | _ # text' \<Rightarrow> match_from re text')"

definition match :: "u8 list \<Rightarrow> u8 list \<Rightarrow> bool" where
  "match re text = (case re of c # re' \<Rightarrow> if c = 94 then matchhere re' text else match_from re text | [] \<Rightarrow> match_from re text)"

subsection \<open>The loop over the input\<close>

text \<open>\<open>strchr(p, c)\<close> on the characters from \<open>p\<close>: the position of the first \<open>c\<close> before the first null.\<close>

fun strchr_at :: "u8 \<Rightarrow> u8 list \<Rightarrow> nat option" where
  "strchr_at c [] = None"
| "strchr_at c (x # xs) = (if x = 0 then None else if x = c then Some 0 else map_option Suc (strchr_at c xs))"

lemma strchr_at_less: "strchr_at c xs = Some q \<Longrightarrow> q < length xs"
  by (induction xs arbitrary: q) (auto split: if_splits)

function grep_lines :: "'k usys \<Rightarrow> u8 list \<Rightarrow> u8 list \<Rightarrow> ('k, u8 list) U" where
  "grep_lines us pattern p =
     (case strchr_at 10 p of None \<Rightarrow> return p
      | Some q \<Rightarrow>
        seq (whenM (match pattern (take q p)) (seq (sys (us_write us 1 (take (Suc q) p))) skip))
        (grep_lines us pattern (drop (Suc q) p)))"
  by pat_completeness auto
termination
  by (relation "measure (\<lambda>(us, pattern, p). length p)") (auto dest: strchr_at_less)

declare grep_lines.simps [simp del]

primrec grep_loop :: "'k usys \<Rightarrow> nat \<Rightarrow> u8 list \<Rightarrow> int \<Rightarrow> u8 list \<Rightarrow> ('k, unit) U" where
  "grep_loop us 0 pattern fd buf = fault ''fuel''"
| "grep_loop us (Suc fuel) pattern fd buf =
     bnd (sys (us_read us fd (1024 - length buf - 1))) (\<lambda>r.
     case r of Some (c # cs) \<Rightarrow>
       bnd (grep_lines us pattern (buf @ c # cs)) (\<lambda>rest. grep_loop us fuel pattern fd rest)
     | _ \<Rightarrow> skip)"

definition grep :: "'k usys \<Rightarrow> nat \<Rightarrow> u8 list \<Rightarrow> int \<Rightarrow> ('k, unit) U" where
  "grep us fuel pattern fd = grep_loop us fuel pattern fd []"

definition grep_file :: "'k usys \<Rightarrow> nat \<Rightarrow> u8 list \<Rightarrow> u8 list \<Rightarrow> ('k, unit) U" where
  "grep_file us fuel pattern arg =
     bnd (sys (us_open us arg 0)) (\<lambda>fd.
     if fd < 0 then
       seq (u_printf us (cstr ''grep: cannot open %s'' @ [10]) [VaStr (Some arg)]) (exit_with 1)
     else seq (grep us fuel pattern fd) (seq (sys (us_close us fd)) skip))"

definition grep_main :: "'k usys \<Rightarrow> nat \<Rightarrow> u8 list list \<Rightarrow> ('k, unit) U" where
  "grep_main us fuel argv =
     (if length argv \<le> 1 then
        seq (u_fprintf us 2 (cstr ''usage: grep pattern [file ...]'' @ [10]) []) (exit_with 1)
      else let pattern = argv ! 1 in
        if length argv \<le> 2 then seq (grep us fuel pattern 0) (exit_with 0)
        else seq (for_each (drop 2 argv) (grep_file us fuel pattern)) (exit_with 0))"

subsection \<open>What a pattern means\<close>

text \<open>
  A pattern is an optional anchor \<open>^\<close>, a sequence of single characters and starred characters, and an optional
  anchor \<open>$\<close>. It denotes the strings that some split of the text must have in the middle.
\<close>

datatype atom = One u8 | Starred u8

definition accepts :: "u8 \<Rightarrow> u8 \<Rightarrow> bool" where
  "accepts c t = (c = 46 \<or> t = c)"

fun atoms_of :: "u8 list \<Rightarrow> atom list \<times> bool" where
  "atoms_of [] = ([], False)"
| "atoms_of (c # re) =
     (if re \<noteq> [] \<and> hd re = 42 then apfst (Cons (Starred c)) (atoms_of (tl re))
      else if c = 36 \<and> re = [] then ([], True)
      else apfst (Cons (One c)) (atoms_of re))"

fun atom_lang :: "atom \<Rightarrow> u8 list set" where
  "atom_lang (One c) = {[t] | t. accepts c t}"
| "atom_lang (Starred c) = lists {t. accepts c t}"

primrec re_lang :: "atom list \<Rightarrow> u8 list set" where
  "re_lang [] = {[]}"
| "re_lang (a # as) = {u @ v | u v. u \<in> atom_lang a \<and> v \<in> re_lang as}"

definition anchored :: "u8 list \<Rightarrow> bool" where
  "anchored re = (re \<noteq> [] \<and> hd re = 94)"

definition occurs :: "u8 list \<Rightarrow> u8 list \<Rightarrow> bool" where
  "occurs re text =
     (let (as, fin) = atoms_of (if anchored re then tl re else re)
      in \<exists>p u v. text = p @ u @ v \<and> u \<in> re_lang as \<and> (anchored re \<longrightarrow> p = []) \<and> (fin \<longrightarrow> v = []))"

definition begins :: "u8 list \<Rightarrow> u8 list \<Rightarrow> bool" where
  "begins re tx = (\<exists>u v. tx = u @ v \<and> u \<in> re_lang (fst (atoms_of re)) \<and> (snd (atoms_of re) \<longrightarrow> v = []))"

definition begins_star :: "u8 \<Rightarrow> u8 list \<Rightarrow> u8 list \<Rightarrow> bool" where
  "begins_star c re tx = (\<exists>w tx'. tx = w @ tx' \<and> w \<in> lists {t. accepts c t} \<and> begins re tx')"

lemma begins_Nil [simp]: "begins [] tx"
  by (auto simp: begins_def)

lemma begins_end [simp]: "begins [36] tx = (tx = [])"
  by (auto simp: begins_def)

lemma begins_starred: "re \<noteq> [] \<Longrightarrow> hd re = 42 \<Longrightarrow> begins (c # re) tx = begins_star c (tl re) tx"
  unfolding begins_def begins_star_def by simp (metis append.assoc)

lemma re_lang_one: "w \<in> re_lang (One c # as) \<longleftrightarrow> (\<exists>t u. w = t # u \<and> accepts c t \<and> u \<in> re_lang as)"
  by (auto intro: exI [of _ "[_]"])

lemma begins_one:
  assumes "\<not> (re \<noteq> [] \<and> hd re = 42)" "\<not> (c = 36 \<and> re = [])"
  shows "begins (c # re) tx = (tx \<noteq> [] \<and> accepts c (hd tx) \<and> begins re (tl tx))"
proof -
  have "atoms_of (c # re) = apfst (Cons (One c)) (atoms_of re)" using assms by auto
  then have "begins (c # re) tx = (\<exists>t u v. tx = t # u @ v \<and> accepts c t
      \<and> u \<in> re_lang (fst (atoms_of re)) \<and> (snd (atoms_of re) \<longrightarrow> v = []))"
    unfolding begins_def by (simp add: re_lang_one del: atoms_of.simps re_lang.simps) (metis append_Cons)
  then show ?thesis unfolding begins_def [of re] by (cases tx) auto
qed

lemma begins_star_step:
  "begins_star c re tx = (begins re tx \<or> tx \<noteq> [] \<and> accepts c (hd tx) \<and> begins_star c re (tl tx))"
proof
  assume "begins_star c re tx"
  then obtain w tx' where w: "tx = w @ tx'" "w \<in> lists {t. accepts c t}" "begins re tx'"
    by (auto simp: begins_star_def)
  then show "begins re tx \<or> tx \<noteq> [] \<and> accepts c (hd tx) \<and> begins_star c re (tl tx)"
    by (cases w) (auto simp: begins_star_def)
next
  assume "begins re tx \<or> tx \<noteq> [] \<and> accepts c (hd tx) \<and> begins_star c re (tl tx)"
  then show "begins_star c re tx"
  proof
    assume "begins re tx"
    then show ?thesis unfolding begins_star_def by (intro exI [of _ "[]"] exI [of _ tx]) simp
  next
    assume r: "tx \<noteq> [] \<and> accepts c (hd tx) \<and> begins_star c re (tl tx)"
    then obtain w tx' where "tl tx = w @ tx'" "w \<in> lists {t. accepts c t}" "begins re tx'"
      by (auto simp: begins_star_def)
    with r show ?thesis unfolding begins_star_def
      by (intro exI [of _ "hd tx # w"] exI [of _ tx']) (cases tx; auto)
  qed
qed

lemma matchhere_begins:
  "matchhere re tx = begins re tx"
  "matchstar c re tx = begins_star c re tx"
proof (induction re tx and c re tx rule: matchhere_matchstar.induct)
  case (2 c re tx)
  then show ?case
    by (cases "re \<noteq> [] \<and> hd re = 42"; cases "c = 36 \<and> re = []"; cases "tx \<noteq> [] \<and> accepts c (hd tx)")
       (auto simp: begins_starred begins_one accepts_def)
next
  case (3 c re tx)
  then show ?case by (subst begins_star_step) (auto simp: accepts_def)
qed simp

lemma match_from_begins: "match_from re tx = (\<exists>p q. tx = p @ q \<and> begins re q)"
proof (induction re tx rule: match_from.induct)
  case (1 re tx)
  show ?case
  proof (cases tx)
    case Nil then show ?thesis by (simp add: matchhere_begins)
  next
    case (Cons x xs)
    then show ?thesis using 1 by (cases "begins re tx") (auto simp: matchhere_begins Cons_eq_append_conv)
  qed
qed

lemma occurs_begins:
  "occurs re tx = (if anchored re then begins (tl re) tx else \<exists>p q. tx = p @ q \<and> begins re q)"
  by (auto simp: occurs_def begins_def split: prod.split)

lemma match_is_occurs: "match re tx = occurs re tx"
  by (cases re) (auto simp: match_def occurs_begins anchored_def matchhere_begins match_from_begins simp del: match_from.simps)

text \<open>
  C30. The matcher of \<open>grep\<close> decides the language of the pattern: \<open>match(re, tx)\<close> is true exactly when the tx can
  be split into three parts of which the middle one is a sequence of the characters and repetitions that the pattern
  asks for, the first one is empty if the pattern starts with \<open>^\<close>, and the last one is empty if it ends in \<open>$\<close>. The
  recursion of \<open>matchhere\<close> and \<open>matchstar\<close> ends on every pattern and tx.
\<close>

theorem match_occurs: "match re tx = occurs re tx"
  by (rule match_is_occurs)

subsection \<open>What grep prints\<close>

text \<open>The lines of a text, and what comes after its last newline.\<close>

fun split_lines :: "u8 list \<Rightarrow> u8 list list \<times> u8 list" where
  "split_lines [] = ([], [])"
| "split_lines (x # xs) =
     (if x = 10 then apfst (Cons []) (split_lines xs)
      else case split_lines xs of ([], r) \<Rightarrow> ([], x # r) | (l # ls, r) \<Rightarrow> ((x # l) # ls, r))"

definition matching :: "u8 list \<Rightarrow> u8 list \<Rightarrow> u8 list" where
  "matching re xs = concat (map (\<lambda>l. l @ [10]) (filter (match re) (fst (split_lines xs))))"

lemma split_lines_append:
  "split_lines (a @ b) = apfst (append (fst (split_lines a))) (split_lines (snd (split_lines a) @ b))"
  by (induction a) (auto simp: apfst_def map_prod_def split: prod.splits list.splits)

lemma split_lines_none: "10 \<notin> set xs \<Longrightarrow> split_lines xs = ([], xs)"
  by (induction xs) auto

lemma split_lines_rest: "10 \<notin> set (snd (split_lines xs))"
  by (induction xs) (auto split: prod.splits list.splits)

lemma split_lines_prefix:
  assumes "10 \<notin> set buf" "fst (split_lines (buf @ ys)) \<noteq> []"
  shows "length buf \<le> length (hd (fst (split_lines (buf @ ys))))"
  using assms by (induction buf) (auto split: prod.splits list.splits)

lemma split_lines_line: "10 \<notin> set xs \<Longrightarrow> split_lines (xs @ 10 # ys) = apfst (Cons xs) (split_lines ys)"
  by (induction xs) (auto simp: apfst_def map_prod_def split: prod.splits list.splits)

lemma strchr_at_None: "0 \<notin> set p \<Longrightarrow> strchr_at c p = None \<Longrightarrow> c \<notin> set p"
  by (induction p) (auto split: if_splits)

lemma strchr_at_Some:
  "strchr_at c p = Some q \<Longrightarrow> p = take q p @ c # drop (Suc q) p \<and> c \<notin> set (take q p)
     \<and> take (Suc q) p = take q p @ [c]"
  by (induction p arbitrary: q) (auto split: if_splits)

lemma split_lines_set: "set (snd (split_lines xs)) \<subseteq> set xs"
  by (induction xs) (auto split: prod.splits list.splits)

lemma grep_lines_prints:
  assumes "serves us fd inp out" "0 \<notin> set p"
  shows "\<exists>k'. grep_lines us re p e s = Ok (snd (split_lines p)) e (s\<lparr>kern := k'\<rparr>)
     \<and> out k' = out (kern s) @ matching re p \<and> inp k' = inp (kern s)"
  using assms
proof (induction us re p arbitrary: s rule: grep_lines.induct)
  case (1 us re p)
  show ?case
  proof (cases "strchr_at 10 p")
    case None
    then show ?thesis using strchr_at_None [OF 1(3) None]
      by (intro exI [of _ "kern s"]) (simp add: grep_lines.simps [of us re p] split_lines_none matching_def)
  next
    case (Some q)
    define l r where "l = take q p" and "r = drop (Suc q) p"
    have p: "p = l @ 10 # r" "10 \<notin> set l" "take (Suc q) p = l @ [10]"
      using strchr_at_Some [OF Some] by (simp_all add: l_def r_def)
    obtain k0 where w: "us_write us 1 (l @ [10]) (kern s) = (int (length (l @ [10])), k0)"
      "out k0 = out (kern s) @ l @ [10]" "inp k0 = inp (kern s)"
      by (rule serves_write [OF 1(2)])
    define k1 where "k1 = (if match re l then k0 else kern s)"
    obtain k' where k': "grep_lines us re r e (s\<lparr>kern := k1\<rparr>) = Ok (snd (split_lines r)) e (s\<lparr>kern := k'\<rparr>)"
      "out k' = out k1 @ matching re r" "inp k' = inp k1"
      using 1(1) [OF Some 1(2), of "s\<lparr>kern := k1\<rparr>"] 1(3) p(1) unfolding r_def [symmetric] by auto
    have sp: "split_lines p = apfst (Cons l) (split_lines r)" by (simp add: p(1) split_lines_line [OF p(2)])
    have "grep_lines us re p e s = Ok (snd (split_lines p)) e (s\<lparr>kern := k'\<rparr>)"
      using w(1) k'(1) Some p(3) sp by (subst grep_lines.simps) (auto simp: l_def [symmetric] r_def [symmetric] k1_def)
    moreover have "matching re p = (if match re l then l @ [10] else []) @ matching re r"
      by (simp add: matching_def sp)
    ultimately show ?thesis using k' w by (intro exI [of _ k']) (auto simp: k1_def)
  qed
qed

lemma grep_loop_prints:
  assumes "serves us fd inp out" "length (inp (kern s)) < fuel" "0 \<notin> set (buf @ inp (kern s))" "10 \<notin> set buf"
    "\<forall>l\<in>set (fst (split_lines (buf @ inp (kern s)))). length l \<le> 1022"
  shows "\<exists>k'. grep_loop us fuel re fd buf e s = Ok () e (s\<lparr>kern := k'\<rparr>)
     \<and> out k' = out (kern s) @ matching re (buf @ inp (kern s))"
  using assms(2-)
proof (induction fuel arbitrary: s buf)
  case (Suc fuel)
  obtain cs k1 where r: "us_read us fd (1023 - length buf) (kern s) = (Some cs, k1)" "inp (kern s) = cs @ inp k1"
    "cs = [] \<Longrightarrow> 1023 - length buf = 0 \<or> inp (kern s) = []" "out k1 = out (kern s)"
    using serves_read [OF assms(1)] by metis
  show ?case
  proof (cases cs)
    case Nil
    have "fst (split_lines (buf @ inp (kern s))) = []"
    proof (rule ccontr)
      assume n: "fst (split_lines (buf @ inp (kern s))) \<noteq> []"
      have "inp (kern s) \<noteq> []" using n Suc(4) split_lines_none [of buf] by (metis append_Nil2 fst_conv)
      then have "1023 \<le> length buf" using r(3) Nil by simp
      then show False using split_lines_prefix [OF Suc(4) n] Suc(5) n by (metis hd_in_set le_trans not_less_eq_eq numeral_eq_Suc pred_numeral_simps(3))
    qed
    then show ?thesis using r Nil by (intro exI [of _ k1]) (simp add: matching_def)
  next
    case (Cons c cs')
    define b where "b = snd (split_lines (buf @ cs))"
    have nz: "0 \<notin> set (buf @ cs)" using Suc(3) r(2) by auto
    have sp: "split_lines (buf @ inp (kern s)) = apfst (append (fst (split_lines (buf @ cs)))) (split_lines (b @ inp k1))"
      unfolding r(2) b_def by (subst append_assoc [symmetric], subst split_lines_append) simp
    obtain k2 where g: "grep_lines us re (buf @ cs) e (s\<lparr>kern := k1\<rparr>) = Ok b e (s\<lparr>kern := k2\<rparr>)"
      "out k2 = out k1 @ matching re (buf @ cs)" "inp k2 = inp k1"
      using grep_lines_prints [OF assms(1) nz, of re e "s\<lparr>kern := k1\<rparr>"] unfolding b_def by auto
    have "length (inp k2) < fuel" using Suc(2) r(2) g(3) Cons by simp
    moreover have "0 \<notin> set (b @ inp k2)"
      using split_lines_set [of "buf @ cs"] nz Suc(3) r(2) g(3) unfolding b_def by auto
    moreover have "10 \<notin> set b" unfolding b_def by (rule split_lines_rest)
    moreover have "\<forall>l\<in>set (fst (split_lines (b @ inp k2))). length l \<le> 1022" using Suc(5) sp g(3) by auto
    ultimately obtain k' where "grep_loop us fuel re fd b e (s\<lparr>kern := k2\<rparr>) = Ok () e (s\<lparr>kern := k'\<rparr>)"
      "out k' = out k2 @ matching re (b @ inp k2)"
      using Suc(1) [of "s\<lparr>kern := k2\<rparr>" b] by auto
    then show ?thesis using g r sp Cons by (auto simp: matching_def)
  qed
qed simp

text \<open>
  C31. \<open>grep\<close> prints the lines of its input that match, each with its newline and in order, and nothing else,
  however the reads cut the input into parts. The input has no null characters and no line of more than 1022
  characters before its newline (a longer line fills the buffer, and \<open>grep\<close> stops there); characters after the last
  newline are not a line and are never printed. The loop ends after at most one read more than there are characters.
\<close>

theorem grep_prints_matching:
  assumes "serves us fd inp out" "0 \<notin> set (inp (kern s))"
    "\<forall>l\<in>set (fst (split_lines (inp (kern s)))). length l \<le> 1022" "length (inp (kern s)) < fuel"
  shows "\<exists>k'. grep us fuel re fd e s = Ok () e (s\<lparr>kern := k'\<rparr>)
     \<and> out k' = out (kern s) @ concat (map (\<lambda>l. l @ [10]) (filter (occurs re) (fst (split_lines (inp (kern s))))))"
  using grep_loop_prints [OF assms(1,4), of "[]" re e] assms
  by (simp add: grep_def matching_def match_is_occurs [abs_def])

theorem grep_prints_matching_witness:
  "\<exists>k'. grep (stream_sys 2) 12 [94, 97, 46, 42] 0 [] \<lparr>umem = \<lambda>_. 0, exit_status = None, kern = ([97, 98, 10, 98, 97, 10, 97, 10], [])\<rparr>
     = Ok () [] \<lparr>umem = \<lambda>_. 0, exit_status = None, kern = k'\<rparr> \<and> snd k' = [97, 98, 10, 97, 10]"
  using grep_prints_matching [OF stream_sys_serves [of 2 0],
      of "\<lparr>umem = \<lambda>_. 0, exit_status = None, kern = ([97, 98, 10, 98, 97, 10, 97, 10], [])\<rparr>" 12 "[94, 97, 46, 42]" "[]"]
  by (simp add: match_is_occurs [symmetric, abs_def] match_def)

end
