(* ===== verification/Uprogs.thy ===== *)
theory Uprogs
  imports User
begin

text \<open>
  The small user programs: \<open>cat\<close>, \<open>echo\<close>, \<open>wc\<close>, \<open>ls\<close>, \<open>kill\<close>, \<open>ln\<close>, \<open>mkdir\<close>, \<open>rm\<close>, \<open>zombie\<close> and \<open>init\<close>.
  Arguments are the lists of their characters. A loop over a file, and the loops of \<open>init\<close>, take the number of rounds
  as a parameter. \<open>fork\<close> returns in the process that the run follows: 0 in the child, the child's id in the parent.
\<close>

subsection \<open>cat.c\<close>

primrec cat :: "'k usys \<Rightarrow> nat \<Rightarrow> int \<Rightarrow> ('k, unit) U" where
  "cat us 0 fd = fault ''fuel''"
| "cat us (Suc fuel) fd =
     bnd (sys (us_read us fd 512)) (\<lambda>r.
     case r of None \<Rightarrow> seq (u_fprintf us 2 (cstr ''cat: read error'' @ [10]) []) (exit_with 1)
     | Some [] \<Rightarrow> skip
     | Some buf \<Rightarrow>
       bnd (sys (us_write us 1 buf)) (\<lambda>w.
       if w \<noteq> int (length buf) then seq (u_fprintf us 2 (cstr ''cat: write error'' @ [10]) []) (exit_with 1)
       else cat us fuel fd))"

definition cat_file :: "'k usys \<Rightarrow> nat \<Rightarrow> u8 list \<Rightarrow> ('k, unit) U" where
  "cat_file us fuel arg =
     bnd (sys (us_open us arg 0)) (\<lambda>fd.
     if fd < 0 then seq (u_fprintf us 2 (cstr ''cat: cannot open %s'' @ [10]) [VaStr (Some arg)]) (exit_with 1)
     else seq (cat us fuel fd) (seq (sys (us_close us fd)) skip))"

definition cat_main :: "'k usys \<Rightarrow> nat \<Rightarrow> u8 list list \<Rightarrow> ('k, unit) U" where
  "cat_main us fuel argv =
     (if length argv \<le> 1 then seq (cat us fuel 0) (exit_with 0)
      else seq (for_each (tl argv) (cat_file us fuel)) (exit_with 0))"

subsection \<open>echo.c\<close>

definition echo_arg :: "'k usys \<Rightarrow> u8 list list \<Rightarrow> nat \<Rightarrow> ('k, unit) U" where
  "echo_arg us argv i =
     seq (sys (us_write us 1 (argv ! i)))
     (if i + 1 < length argv then seq (sys (us_write us 1 [32])) skip
      else seq (sys (us_write us 1 [10])) skip)"

definition echo_main :: "'k usys \<Rightarrow> u8 list list \<Rightarrow> ('k, unit) U" where
  "echo_main us argv = seq (for_each [1..<length argv] (echo_arg us argv)) (exit_with 0)"

subsection \<open>wc.c\<close>

record wc_state =
  wc_l :: u32
  wc_w :: u32
  wc_c :: u32
  inword :: bool

definition wc_char :: "u8 \<Rightarrow> wc_state \<Rightarrow> wc_state" where
  "wc_char x st =
     (let st = st\<lparr>wc_c := wc_c st + 1\<rparr>;
          st = (if x = 10 then st\<lparr>wc_l := wc_l st + 1\<rparr> else st)
      in if x \<in> {32, 13, 9, 10, 11} then st\<lparr>inword := False\<rparr>
         else if \<not> inword st then st\<lparr>wc_w := wc_w st + 1, inword := True\<rparr> else st)"

primrec wc_loop :: "'k usys \<Rightarrow> nat \<Rightarrow> int \<Rightarrow> wc_state \<Rightarrow> ('k, wc_state) U" where
  "wc_loop us 0 fd st = fault ''fuel''"
| "wc_loop us (Suc fuel) fd st =
     bnd (sys (us_read us fd 512)) (\<lambda>r.
     case r of None \<Rightarrow> seq (u_printf us (cstr ''wc: read error'' @ [10]) []) (exit_with 1)
     | Some [] \<Rightarrow> return st
     | Some buf \<Rightarrow> wc_loop us fuel fd (fold wc_char buf st))"

definition wc :: "'k usys \<Rightarrow> nat \<Rightarrow> int \<Rightarrow> u8 list \<Rightarrow> ('k, unit) U" where
  "wc us fuel fd nm =
     bnd (wc_loop us fuel fd \<lparr>wc_l = 0, wc_w = 0, wc_c = 0, inword = False\<rparr>) (\<lambda>st.
     u_printf us (cstr ''%d %d %d %s'' @ [10]) [VaInt (wc_l st), VaInt (wc_w st), VaInt (wc_c st), VaStr (Some nm)])"

definition wc_file :: "'k usys \<Rightarrow> nat \<Rightarrow> u8 list \<Rightarrow> ('k, unit) U" where
  "wc_file us fuel arg =
     bnd (sys (us_open us arg 0)) (\<lambda>fd.
     if fd < 0 then seq (u_printf us (cstr ''wc: cannot open %s'' @ [10]) [VaStr (Some arg)]) (exit_with 1)
     else seq (wc us fuel fd arg) (seq (sys (us_close us fd)) skip))"

definition wc_main :: "'k usys \<Rightarrow> nat \<Rightarrow> u8 list list \<Rightarrow> ('k, unit) U" where
  "wc_main us fuel argv =
     (if length argv \<le> 1 then seq (wc us fuel 0 []) (exit_with 0)
      else seq (for_each (tl argv) (wc_file us fuel)) (exit_with 0))"

subsection \<open>ls.c\<close>

definition fmtname :: "u8 list \<Rightarrow> u8 list" where
  "fmtname path =
     (let p = rev (takeWhile (\<lambda>c. c \<noteq> 47) (rev path))
      in if DIRSIZ \<le> length p then p else p @ replicate (DIRSIZ - length p) 32)"

text \<open>
  The line that \<open>ls\<close> prints for a file. \<open>%l\<close> takes the 64-bit size, \<open>%d\<close> the lower half of it, as the calling
  convention passes it.
\<close>

definition ls_line :: "'k usys \<Rightarrow> bool \<Rightarrow> u8 list \<Rightarrow> stat \<Rightarrow> ('k, unit) U" where
  "ls_line us long path st =
     u_printf us (cstr (if long then ''%s %d %d %l'' else ''%s %d %d %d'') @ [10])
       [VaStr (Some (fmtname path)), VaInt (scast (st_type st)), VaInt (st_ino st),
        if long then VaPtr (st_size st) else VaInt (ucast (st_size st))]"

primrec ls_entries :: "'k usys \<Rightarrow> nat \<Rightarrow> int \<Rightarrow> u8 list \<Rightarrow> ('k, unit) U" where
  "ls_entries us 0 fd path = fault ''fuel''"
| "ls_entries us (Suc fuel) fd path =
     bnd (sys (us_read us fd sizeof_dirent)) (\<lambda>r.
     case r of None \<Rightarrow> skip | Some de \<Rightarrow>
     if length de \<noteq> sizeof_dirent then skip
     else if de ! 0 = 0 \<and> de ! 1 = 0 then ls_entries us fuel fd path
     else let nm = path @ 47 # takeWhile (\<lambda>c. c \<noteq> 0) (take DIRSIZ (drop 2 de)) in
       bnd (u_stat us nm) (\<lambda>st.
       seq (case st of None \<Rightarrow> u_printf us (cstr ''ls: cannot stat %s'' @ [10]) [VaStr (Some nm)]
            | Some st \<Rightarrow> ls_line us False nm st)
       (ls_entries us fuel fd path)))"

definition ls :: "'k usys \<Rightarrow> nat \<Rightarrow> u8 list \<Rightarrow> ('k, unit) U" where
  "ls us fuel path =
     bnd (sys (us_open us path 0)) (\<lambda>fd.
     if fd < 0 then u_fprintf us 2 (cstr ''ls: cannot open %s'' @ [10]) [VaStr (Some path)] else
     bnd (sys (us_fstat us fd)) (\<lambda>r.
     case r of None \<Rightarrow>
       seq (u_fprintf us 2 (cstr ''ls: cannot stat %s'' @ [10]) [VaStr (Some path)])
       (seq (sys (us_close us fd)) skip)
     | Some st \<Rightarrow>
       seq (if st_type st = T_FILE then ls_line us True path st
            else if st_type st = T_DIR then
              if 512 < length path + 1 + DIRSIZ + 1 then u_printf us (cstr ''ls: path too long'' @ [10]) []
              else ls_entries us fuel fd path
            else skip)
       (seq (sys (us_close us fd)) skip)))"

definition ls_main :: "'k usys \<Rightarrow> nat \<Rightarrow> u8 list list \<Rightarrow> ('k, unit) U" where
  "ls_main us fuel argv =
     (if length argv < 2 then seq (ls us fuel [46]) (exit_with 0)
      else seq (for_each (tl argv) (ls us fuel)) (exit_with 0))"

subsection \<open>kill.c, ln.c, mkdir.c, rm.c, zombie.c\<close>

text \<open>\<open>atoi\<close> reads an argument in the memory; the argument as a list, with its null, is placed at address 0.\<close>

definition string_mem :: "u8 list \<Rightarrow> mem" where
  "string_mem xs = (\<lambda>a. if unat a < length xs then xs ! unat a else 0)"

definition kill_arg :: "'k usys \<Rightarrow> u8 list \<Rightarrow> ('k, unit) U" where
  "kill_arg us arg =
     (case u_atoi 0 (string_mem arg) of None \<Rightarrow> fault ''atoi''
      | Some n \<Rightarrow> seq (sys (us_kill us (sint n) (int SIGKILL))) skip)"

definition kill_main :: "'k usys \<Rightarrow> u8 list list \<Rightarrow> ('k, unit) U" where
  "kill_main us argv =
     (if length argv < 2 then seq (u_fprintf us 2 (cstr ''usage: kill pid...'' @ [10]) []) (exit_with 1)
      else seq (for_each (tl argv) (kill_arg us)) (exit_with 0))"

definition ln_main :: "'k usys \<Rightarrow> u8 list list \<Rightarrow> ('k, unit) U" where
  "ln_main us argv =
     (if length argv \<noteq> 3 then seq (u_fprintf us 2 (cstr ''Usage: ln old new'' @ [10]) []) (exit_with 1)
      else
        bnd (sys (us_link us (argv ! 1) (argv ! 2))) (\<lambda>r.
        seq (whenM (r < 0) (u_fprintf us 2 (cstr ''link %s %s: failed'' @ [10]) [VaStr (Some (argv ! 1)), VaStr (Some (argv ! 2))]))
        (exit_with 0)))"

text \<open>The loops of \<open>mkdir\<close> and \<open>rm\<close> stop at the first argument that fails.\<close>

definition mkdir_arg :: "'k usys \<Rightarrow> u8 list \<Rightarrow> ('k, unit option) U" where
  "mkdir_arg us arg =
     bnd (sys (us_mkdir us arg)) (\<lambda>r.
     if r < 0 then seq (u_fprintf us 2 (cstr ''mkdir: %s failed to create'' @ [10]) [VaStr (Some arg)]) (return (Some ()))
     else return None)"

definition mkdir_main :: "'k usys \<Rightarrow> u8 list list \<Rightarrow> ('k, unit) U" where
  "mkdir_main us argv =
     (if length argv < 2 then seq (u_fprintf us 2 (cstr ''Usage: mkdir files...'' @ [10]) []) (exit_with 1)
      else seq (for_until (tl argv) (mkdir_arg us)) (exit_with 0))"

definition rm_arg :: "'k usys \<Rightarrow> u8 list \<Rightarrow> ('k, unit option) U" where
  "rm_arg us arg =
     bnd (sys (us_unlink us arg)) (\<lambda>r.
     if r < 0 then seq (u_fprintf us 2 (cstr ''rm: %s failed to delete'' @ [10]) [VaStr (Some arg)]) (return (Some ()))
     else return None)"

definition rm_main :: "'k usys \<Rightarrow> u8 list list \<Rightarrow> ('k, unit) U" where
  "rm_main us argv =
     (if length argv < 2 then seq (u_fprintf us 2 (cstr ''Usage: rm files...'' @ [10]) []) (exit_with 1)
      else seq (for_until (tl argv) (rm_arg us)) (exit_with 0))"

definition zombie_main :: "'k usys \<Rightarrow> ('k, unit) U" where
  "zombie_main us =
     bnd (sys (us_fork us)) (\<lambda>pid.
     seq (whenM (0 < pid) (seq (sys (us_sleep us 5)) skip))
     (exit_with 0))"

subsection \<open>init.c\<close>

primrec init_wait :: "'k usys \<Rightarrow> nat \<Rightarrow> int \<Rightarrow> ('k, unit) U" where
  "init_wait us 0 p = fault ''fuel''"
| "init_wait us (Suc fuel) p =
     bnd (sys (us_wait us)) (\<lambda>wpid.
     if wpid = p then skip
     else if wpid < 0 then seq (u_printf us (cstr ''init: wait returned an error'' @ [10]) []) (exit_with 1)
     else init_wait us fuel p)"

primrec init_loop :: "'k usys \<Rightarrow> nat \<Rightarrow> nat \<Rightarrow> ('k, unit) U" where
  "init_loop us 0 waits = fault ''fuel''"
| "init_loop us (Suc fuel) waits =
     seq (u_printf us (cstr ''init: starting sh'' @ [10]) []) (
     bnd (sys (us_fork us)) (\<lambda>pid.
     if pid < 0 then seq (u_printf us (cstr ''init: fork failed'' @ [10]) []) (exit_with 1)
     else if pid = 0 then
       bnd (sys (us_exec us (cstr ''sh'') [cstr ''sh''])) (\<lambda>r.
       case r of None \<Rightarrow> replaced | Some _ \<Rightarrow>
       seq (u_printf us (cstr ''init: exec sh failed'' @ [10]) []) (exit_with 1))
     else seq (init_wait us waits pid) (init_loop us fuel waits)))"

definition init_main :: "'k usys \<Rightarrow> nat \<Rightarrow> nat \<Rightarrow> ('k, unit) U" where
  "init_main us fuel waits =
     bnd (sys (us_open us (cstr ''console'') (uint O_RDWR))) (\<lambda>fd.
     seq (whenM (fd < 0)
       (seq (sys (us_mknod us (cstr ''console'') (int CONSOLE) 0))
       (seq (sys (us_open us (cstr ''console'') (uint O_RDWR))) skip))) (
     seq (sys (us_dup us 0)) (
     seq (sys (us_dup us 0))
     (init_loop us fuel waits))))"

subsection \<open>What cat and wc compute\<close>

lemma cat_copies:
  assumes "serves us fd inp out" "length (inp (kern s)) < fuel"
  shows "\<exists>k'. cat us fuel fd e s = Ok () e (s\<lparr>kern := k'\<rparr>) \<and> out k' = out (kern s) @ inp (kern s) \<and> inp k' = []"
  using assms(2)
proof (induction fuel arbitrary: s)
  case (Suc fuel)
  obtain cs k1 where r: "us_read us fd 512 (kern s) = (Some cs, k1)" "inp (kern s) = cs @ inp k1"
    "cs = [] \<Longrightarrow> inp (kern s) = []" "out k1 = out (kern s)"
    using serves_read [OF assms(1), of 512 "kern s"] by (metis zero_neq_numeral)
  obtain k2 where w: "us_write us 1 cs k1 = (int (length cs), k2)" "out k2 = out k1 @ cs" "inp k2 = inp k1"
    by (rule serves_write [OF assms(1)])
  show ?case
  proof (cases cs)
    case Nil then show ?thesis using r by (intro exI [of _ k1]) simp
  next
    case (Cons c cs')
    obtain k' where "cat us fuel fd e (s\<lparr>kern := k2\<rparr>) = Ok () e (s\<lparr>kern := k'\<rparr>)" "out k' = out k2 @ inp k2" "inp k' = []"
      using Suc(1) [of "s\<lparr>kern := k2\<rparr>"] Suc(2) r(2) w(3) Cons by auto
    then show ?thesis using r w Cons by (intro exI [of _ k']) simp
  qed
qed simp

text \<open>The words of a text are the longest parts of it without white space.\<close>

definition is_white :: "u8 \<Rightarrow> bool" where
  "is_white x = (x \<in> {32, 13, 9, 10, 11})"

function words :: "u8 list \<Rightarrow> u8 list list" where
  "words xs = (case dropWhile is_white xs of [] \<Rightarrow> []
     | y # ys \<Rightarrow> (y # takeWhile (\<lambda>x. \<not> is_white x) ys) # words (dropWhile (\<lambda>x. \<not> is_white x) ys))"
  by pat_completeness auto
termination
proof (relation "measure length")
  fix xs ys :: "u8 list" and y
  assume "dropWhile is_white xs = y # ys"
  then have "length ys < length xs" using length_dropWhile_le [of is_white xs] by simp
  then show "(dropWhile (\<lambda>x. \<not> is_white x) ys, xs) \<in> measure length"
    using length_dropWhile_le [of "\<lambda>x. \<not> is_white x" ys] by (simp add: order.strict_trans1)
qed simp

declare words.simps [simp del]

lemma words_Nil [simp]: "words [] = []"
  by (simp add: words.simps)

lemma words_white: "is_white x \<Longrightarrow> words (x # xs) = words xs"
  by (simp add: words.simps [of "x # xs"] words.simps [of xs])

lemma words_word: "\<not> is_white x \<Longrightarrow> length (words (x # xs)) = Suc (length (words (dropWhile (\<lambda>x. \<not> is_white x) xs)))"
  by (simp add: words.simps [of "x # xs"])

lemma wc_char_eq:
  "wc_char x st = \<lparr>wc_l = wc_l st + (if x = 10 then 1 else 0), wc_w = wc_w st + (if is_white x \<or> inword st then 0 else 1),
     wc_c = wc_c st + 1, inword = \<not> is_white x\<rparr>"
  by (cases st) (simp add: wc_char_def is_white_def Let_def split: if_split)

lemma wc_chars:
  "fold wc_char xs st =
     \<lparr>wc_l = wc_l st + of_nat (count_list xs 10),
      wc_w = wc_w st + of_nat (length (words (if inword st then dropWhile (\<lambda>x. \<not> is_white x) xs else xs))),
      wc_c = wc_c st + of_nat (length xs),
      inword = (if xs = [] then inword st else \<not> is_white (last xs))\<rparr>"
proof (induction xs arbitrary: st)
  case (Cons x xs)
  show ?case
    by (cases "is_white x"; cases "inword st") (simp_all add: Cons wc_char_eq [of x st] words_white words_word)
qed simp

lemma wc_loop_counts:
  assumes "serves us fd inp out" "length (inp (kern s)) < fuel"
  shows "\<exists>k'. wc_loop us fuel fd st e s = Ok (fold wc_char (inp (kern s)) st) e (s\<lparr>kern := k'\<rparr>) \<and> out k' = out (kern s)"
  using assms(2)
proof (induction fuel arbitrary: s st)
  case (Suc fuel)
  obtain cs k1 where r: "us_read us fd 512 (kern s) = (Some cs, k1)" "inp (kern s) = cs @ inp k1"
    "cs = [] \<Longrightarrow> inp (kern s) = []" "out k1 = out (kern s)"
    using serves_read [OF assms(1), of 512 "kern s"] by (metis zero_neq_numeral)
  show ?case
  proof (cases cs)
    case Nil then show ?thesis using r by (intro exI [of _ k1]) simp
  next
    case (Cons c cs')
    obtain k' where "wc_loop us fuel fd (fold wc_char cs st) e (s\<lparr>kern := k1\<rparr>)
        = Ok (fold wc_char (inp k1) (fold wc_char cs st)) e (s\<lparr>kern := k'\<rparr>)" "out k' = out k1"
      using Suc(1) [of "s\<lparr>kern := k1\<rparr>" "fold wc_char cs st"] Suc(2) r(2) Cons by auto
    then show ?thesis using r Cons by (intro exI [of _ k']) simp
  qed
qed simp

text \<open>
  C34. \<open>wc\<close> counts the newlines, the words and the characters of its input, each modulo \<open>2 ^ 32\<close>, and the counts do
  not depend on how the reads cut the input into parts, not even inside a word. The loop ends after at most one read
  more than there are characters.
\<close>

theorem wc_counts:
  assumes "serves us fd inp out" "length (inp (kern s)) < fuel"
  shows "\<exists>st k'. wc_loop us fuel fd \<lparr>wc_l = 0, wc_w = 0, wc_c = 0, inword = False\<rparr> e s = Ok st e (s\<lparr>kern := k'\<rparr>)
     \<and> wc_l st = of_nat (count_list (inp (kern s)) 10) \<and> wc_w st = of_nat (length (words (inp (kern s))))
     \<and> wc_c st = of_nat (length (inp (kern s)))"
  using wc_loop_counts [OF assms, of "\<lparr>wc_l = 0, wc_w = 0, wc_c = 0, inword = False\<rparr>" e] by (auto simp: wc_chars)

theorem wc_counts_witness:
  "\<exists>st k'. wc_loop (stream_sys 1) 6 0 \<lparr>wc_l = 0, wc_w = 0, wc_c = 0, inword = False\<rparr> []
       \<lparr>umem = \<lambda>_. 0, exit_status = None, kern = ([97, 98, 99, 32, 10], [])\<rparr>
     = Ok st [] \<lparr>umem = \<lambda>_. 0, exit_status = None, kern = k'\<rparr> \<and> wc_l st = 1 \<and> wc_w st = 1 \<and> wc_c st = 5"
  using wc_counts [OF stream_sys_serves [of 1 0], of "\<lparr>umem = \<lambda>_. 0, exit_status = None, kern = ([97, 98, 99, 32, 10], [])\<rparr>" 6 "[]"]
  by (simp add: words.simps is_white_def)

end
