(* ===== verification/Umalloc.thy ===== *)
theory Umalloc
  imports User
begin

text \<open>
  The allocator of user space, \<open>user/umalloc.c\<close>. A \<open>Header\<close> is 16 bytes of the memory of the process, the pointer
  \<open>s.ptr\<close> and, 8 bytes behind it, the 32-bit \<open>s.size\<close>, which counts headers. The variable \<open>freep\<close> is a field of the
  state; the address of the variable \<open>base\<close>, which the linker chooses, is an argument. The system call \<open>sbrk\<close> is
  that of the record of system calls. The loops over the circular free list have fuel.
\<close>

record 'k heap_state = "'k user_state" +
  freep :: u64

type_synonym ('k, 'a) H = "('k heap_state, 'a) M"

definition sizeof_Header :: u64 where "sizeof_Header = 16"

definition s_ptr :: "u64 \<Rightarrow> ('k, u64) H" where
  "s_ptr p = gets (\<lambda>s. load64 (umem s) p)"

definition s_size :: "u64 \<Rightarrow> ('k, u32) H" where
  "s_size p = gets (\<lambda>s. load32 (umem s) (p + 8))"

definition set_ptr :: "u64 \<Rightarrow> u64 \<Rightarrow> ('k, unit) H" where
  "set_ptr p v = modify (\<lambda>s. s\<lparr>umem := store64 p v (umem s)\<rparr>)"

definition set_size :: "u64 \<Rightarrow> u32 \<Rightarrow> ('k, unit) H" where
  "set_size p v = modify (\<lambda>s. s\<lparr>umem := store32 (p + 8) v (umem s)\<rparr>)"

text \<open>Pointer arithmetic on \<open>Header *\<close>.\<close>

definition plus_headers :: "u64 \<Rightarrow> u32 \<Rightarrow> u64" where
  "plus_headers p n = p + ucast n * sizeof_Header"

primrec free_scan :: "nat \<Rightarrow> u64 \<Rightarrow> u64 \<Rightarrow> ('k, u64) H" where
  "free_scan 0 bp p = fault ''fuel''"
| "free_scan (Suc fuel) bp p =
     bnd (s_ptr p) (\<lambda>q.
     if p < bp \<and> bp < q then return p
     else if q \<le> p \<and> (p < bp \<or> bp < q) then return p
     else free_scan fuel bp q)"

definition u_free :: "nat \<Rightarrow> u64 \<Rightarrow> ('k, unit) H" where
  "u_free fuel ap =
     (let bp = ap - sizeof_Header in
     bnd (gets freep) (\<lambda>fp.
     bnd (free_scan fuel bp fp) (\<lambda>p.
     bnd (s_size bp) (\<lambda>n.
     bnd (s_ptr p) (\<lambda>q.
     seq (if plus_headers bp n = q then
            bnd (s_size q) (\<lambda>m.
            seq (set_size bp (n + m))
            (bnd (s_ptr q) (set_ptr bp)))
          else set_ptr bp q) (
     bnd (s_size p) (\<lambda>k.
     seq (if plus_headers p k = bp then
            bnd (s_size bp) (\<lambda>n.
            seq (set_size p (k + n))
            (bnd (s_ptr bp) (set_ptr p)))
          else set_ptr p bp)
     (modify (\<lambda>s. s\<lparr>freep := p\<rparr>)))))))))"

text \<open>The argument of \<open>sbrk\<close> is an \<open>int\<close>, the number of bytes a \<open>size_t\<close>.\<close>

definition sbrk :: "'k usys \<Rightarrow> u64 \<Rightarrow> ('k, u64) H" where
  "sbrk us n = (\<lambda>e s. let (v, k) = us_sbrk us (sint (ucast n :: u32)) (kern s) in Ok v e (s\<lparr>kern := k\<rparr>))"

definition morecore :: "'k usys \<Rightarrow> nat \<Rightarrow> u32 \<Rightarrow> ('k, u64) H" where
  "morecore us fuel nu =
     (let nu = (if nu < 4096 then 4096 else nu) in
     bnd (sbrk us (ucast nu * sizeof_Header)) (\<lambda>p.
     if p = -1 then return 0 else
     seq (set_size p nu) (
     seq (u_free fuel (p + sizeof_Header))
     (gets freep))))"

definition nunits_of :: "u32 \<Rightarrow> u32" where
  "nunits_of nbytes = ucast ((ucast nbytes + sizeof_Header - 1) div sizeof_Header + 1 :: u64)"

primrec malloc_loop :: "'k usys \<Rightarrow> nat \<Rightarrow> u32 \<Rightarrow> u64 \<Rightarrow> u64 \<Rightarrow> ('k, u64) H" where
  "malloc_loop us 0 nunits prevp p = fault ''fuel''"
| "malloc_loop us (Suc fuel) nunits prevp p =
     bnd (s_size p) (\<lambda>sz.
     if nunits \<le> sz then
       bnd (if sz = nunits then
              seq (bnd (s_ptr p) (set_ptr prevp))
              (return p)
            else
              seq (set_size p (sz - nunits)) (
              let p = plus_headers p (sz - nunits) in
              seq (set_size p nunits)
              (return p))) (\<lambda>p.
       seq (modify (\<lambda>s. s\<lparr>freep := prevp\<rparr>))
       (return (p + sizeof_Header)))
     else
       bnd (gets freep) (\<lambda>fp.
       bnd (if p = fp then morecore us fuel nunits else return p) (\<lambda>p'.
       if p = fp \<and> p' = 0 then return 0 else
       bnd (s_ptr p') (\<lambda>q.
       malloc_loop us fuel nunits p' q))))"

definition malloc :: "'k usys \<Rightarrow> u64 \<Rightarrow> nat \<Rightarrow> u32 \<Rightarrow> ('k, u64) H" where
  "malloc us base fuel nbytes =
     (let nunits = nunits_of nbytes in
     bnd (gets freep) (\<lambda>prevp.
     bnd (if prevp = 0 then
            seq (modify (\<lambda>s. s\<lparr>freep := base\<rparr>)) (
            seq (set_ptr base base) (
            seq (set_size base 0)
            (return base)))
          else return prevp) (\<lambda>prevp.
     bnd (s_ptr prevp) (\<lambda>p.
     malloc_loop us fuel nunits prevp p))))"

end
