(* ===== verification/Umalloc_Run.thy ===== *)
theory Umalloc_Run
  imports Umalloc
begin

text \<open>
  Correctness of \<open>user/umalloc.c\<close>. The free list is a circular list in the order of the addresses that starts at
  \<open>base\<close>; its blocks neither overlap nor touch. \<open>free\<close> adds the bytes of a block to those on the list, \<open>malloc\<close> takes
  the bytes of a block off it, and neither writes to any other byte, so that the blocks of a program are separate and
  keep what it has stored in them.
\<close>

subsection \<open>Headers in memory\<close>

abbreviation hptr :: "mem \<Rightarrow> u64 \<Rightarrow> u64" where "hptr m p \<equiv> load64 m p"
abbreviation hsize :: "mem \<Rightarrow> u64 \<Rightarrow> u32" where "hsize m p \<equiv> load32 m (p + 8)"

lemma hdr_run [simp]:
  "s_ptr p e s = Ok (hptr (umem s) p) e s" "s_size p e s = Ok (hsize (umem s) p) e s"
  "set_ptr p v e s = Ok () e (s\<lparr>umem := store64 p v (umem s)\<rparr>)"
  "set_size p n e s = Ok () e (s\<lparr>umem := store32 (p + 8) n (umem s)\<rparr>)"
  by (simp_all add: s_ptr_def s_size_def set_ptr_def set_size_def)

text \<open>Two memories that differ in the given addresses only.\<close>

definition only_in :: "nat set \<Rightarrow> mem \<Rightarrow> mem \<Rightarrow> bool" where
  "only_in A m m' \<longleftrightarrow> (\<forall>a. unat a \<notin> A \<longrightarrow> m' a = m a)"

definition hdr :: "u64 \<Rightarrow> nat set" where
  "hdr p = {unat p..<unat p + 16}"

definition fits :: "u64 \<Rightarrow> bool" where
  "fits p \<longleftrightarrow> unat p + 16 \<le> 2 ^ 64"

lemma only_in_refl [simp]: "only_in A m m"
  by (simp add: only_in_def)

lemma only_in_trans: "only_in A m m' \<Longrightarrow> only_in B m' m'' \<Longrightarrow> only_in (A \<union> B) m m''"
  by (simp add: only_in_def)

lemma only_in_mono: "only_in A m m' \<Longrightarrow> A \<subseteq> B \<Longrightarrow> only_in B m m'"
  by (auto simp: only_in_def)

lemma unat_plus8: "fits p \<Longrightarrow> unat (p + 8) = unat p + 8"
  by (simp add: unat_add64 fits_def)

lemma in_range_unat:
  assumes "in_range a p n" "unat p + n \<le> 2 ^ 64"
  shows "unat p \<le> unat a \<and> unat a < unat p + n"
proof -
  have "unat (p + (a - p)) = unat p + unat (a - p)" using assms unfolding in_range_def by (subst unat_add64) simp
  then show ?thesis using assms(1) by (simp add: in_range_def)
qed

text \<open>The fields of a header lie in it.\<close>

lemma in_fields:
  assumes "fits p"
  shows "in_range a p 8 \<Longrightarrow> unat a \<in> hdr p" "in_range a (p + 8) 4 \<Longrightarrow> unat a \<in> hdr p"
  using assms in_range_unat [of a p 8] in_range_unat [of a "p + 8" 4] unat_plus8 [OF assms]
  by (auto simp: hdr_def fits_def)

lemma only_in_store:
  assumes "fits p"
  shows "only_in (hdr p) m (store64 p v m)" "only_in (hdr p) m (store32 (p + 8) w m)"
  using in_fields [OF assms] store_le_frame [of _ "p + 8" 4 w m] store64_frame [of _ p v m]
  by (auto simp: only_in_def store32_def)

lemma hdr_cong:
  assumes "fits p" "only_in A m m'" "hdr p \<inter> A = {}"
  shows "hptr m' p = hptr m p" "hsize m' p = hsize m p"
proof -
  have "m' a = m a" if "unat a \<in> hdr p" for a using that assms(2,3) by (auto simp: only_in_def)
  then show "hptr m' p = hptr m p" "hsize m' p = hsize m p"
    using in_fields [OF assms(1)] by (auto intro!: load_le_cong simp: load64_def load32_def)
qed

text \<open>The two fields are apart.\<close>

lemma hdr_same [simp]:
  assumes "fits p"
  shows "hsize (store64 p v m) p = hsize m p" "hptr (store32 (p + 8) w m) p = hptr m p"
proof -
  have d: "\<not> in_range a p 8" if "in_range a (p + 8) 4" for a
    using that assms in_range_unat [of a p 8] in_range_unat [of a "p + 8" 4] unat_plus8 [OF assms] by (auto simp: fits_def)
  show "hsize (store64 p v m) p = hsize m p"
    unfolding load32_def by (rule load_le_cong) (use d in \<open>simp add: store64_frame\<close>)
  show "hptr (store32 (p + 8) w m) p = hptr m p"
    unfolding load64_def store32_def by (rule load_le_cong, rule store_le_frame) (use d in blast)
qed

subsection \<open>The free list\<close>

definition fin :: "mem \<Rightarrow> u64 \<Rightarrow> nat" where
  "fin m x = unat x + 16 * max 1 (unat (hsize m x))"

definition before :: "mem \<Rightarrow> u64 \<Rightarrow> u64 \<Rightarrow> bool" where
  "before m x y \<longleftrightarrow> fin m x \<le> unat y \<and> plus_headers x (hsize m x) \<noteq> y"

lemma before_cong: "hsize m' x = hsize m x \<Longrightarrow> before m' x = before m x" "hsize m' x = hsize m x \<Longrightarrow> fin m' x = fin m x"
  by (simp_all add: before_def fin_def fun_eq_iff)

primrec fl_links :: "mem \<Rightarrow> u64 list \<Rightarrow> u64 \<Rightarrow> bool" where
  "fl_links m [] q = True"
| "fl_links m (x # xs) q = (hptr m x = hd (xs @ [q]) \<and> fl_links m xs q)"

lemma fl_links_append: "fl_links m (xs @ ys) q \<longleftrightarrow> fl_links m xs (hd (ys @ [q])) \<and> fl_links m ys q"
  by (induction xs) (auto simp: hd_append)

lemma fl_links_cong: "(\<And>x. x \<in> set xs \<Longrightarrow> hptr m' x = hptr m x) \<Longrightarrow> fl_links m' xs q = fl_links m xs q"
  by (induction xs) auto

text \<open>
  The free list \<open>xs\<close> of a heap in the addresses from \<open>base\<close> to \<open>B\<close>: \<open>base\<close> itself is an empty block. The sum of two
  sizes does not wrap around, because the addresses are small.
\<close>

definition heap_ok :: "u64 \<Rightarrow> nat \<Rightarrow> mem \<Rightarrow> u64 list \<Rightarrow> bool" where
  "heap_ok base B m xs \<longleftrightarrow> (\<exists>ys. xs = base # ys \<and> (\<forall>y \<in> set ys. hsize m y \<noteq> 0)) \<and> fl_links m xs base
     \<and> successively (before m) xs \<and> (\<forall>x \<in> set xs. fin m x \<le> B) \<and> hsize m base = 0 \<and> base \<noteq> 0 \<and> B \<le> 2 ^ 36"

definition span :: "mem \<Rightarrow> u64 \<Rightarrow> nat set" where
  "span m x = {unat x..<unat x + 16 * unat (hsize m x)}"

definition free_bytes :: "mem \<Rightarrow> u64 list \<Rightarrow> nat set" where
  "free_bytes m xs = (\<Union>x \<in> set xs. span m x)"

lemma fin_gt: "unat x + 16 \<le> fin m x"
  by (simp add: fin_def)

lemma sorted_before:
  "successively (before m) xs \<Longrightarrow> sorted_wrt (\<lambda>x y. fin m x \<le> unat y) xs"
proof (induction xs rule: induct_list012)
  case (3 x y zs)
  then have *: "fin m x \<le> unat y" "sorted_wrt (\<lambda>x y. fin m x \<le> unat y) (y # zs)" by (simp_all add: before_def)
  then have "fin m x \<le> unat z" if "z \<in> set zs" for z using that fin_gt [of y m] by fastforce
  with * show ?case by simp
qed auto

lemma heap_okD:
  assumes "heap_ok base B m xs"
  shows "xs \<noteq> []" "hd xs = base" "base \<in> set xs" "fl_links m xs base" "sorted_wrt (\<lambda>x y. fin m x \<le> unat y) xs" "successively (before m) xs"
    "x \<in> set xs \<Longrightarrow> fin m x \<le> B" "x \<in> set xs \<Longrightarrow> fits x" "hsize m base = 0" "base \<noteq> 0" "B \<le> 2 ^ 36"
    "x \<in> set xs \<Longrightarrow> x \<noteq> base \<Longrightarrow> hsize m x \<noteq> 0" "x \<in> set xs \<Longrightarrow> x \<noteq> 0"
    "x \<in> set xs \<Longrightarrow> x \<noteq> base \<Longrightarrow> unat base + 16 \<le> unat x"
proof -
  show *: "xs \<noteq> []" "hd xs = base" "base \<in> set xs" "fl_links m xs base" "sorted_wrt (\<lambda>x y. fin m x \<le> unat y) xs" "successively (before m) xs"
    "hsize m base = 0" "base \<noteq> 0" "B \<le> 2 ^ 36" "x \<in> set xs \<Longrightarrow> fin m x \<le> B" "x \<in> set xs \<Longrightarrow> x \<noteq> base \<Longrightarrow> hsize m x \<noteq> 0"
    using assms sorted_before by (auto simp: heap_ok_def)
  show "x \<in> set xs \<Longrightarrow> fits x" using *(9) *(10) fin_gt [of x m] by (simp add: fits_def)
  show b: "x \<in> set xs \<Longrightarrow> x \<noteq> base \<Longrightarrow> unat base + 16 \<le> unat x"
    using assms *(5) fin_gt [of base m] by (fastforce simp: heap_ok_def)
  then show "x \<in> set xs \<Longrightarrow> x \<noteq> 0" using *(8) by auto
qed

lemma sorted_wrt_total: "sorted_wrt P xs \<Longrightarrow> x \<in> set xs \<Longrightarrow> y \<in> set xs \<Longrightarrow> x \<noteq> y \<Longrightarrow> P x y \<or> P y x"
  by (induction xs) auto

lemma heap_apart:
  assumes "heap_ok base B m xs" "x \<in> set xs" "y \<in> set xs" "x \<noteq> y"
  shows "fin m x \<le> unat y \<or> fin m y \<le> unat x" "hdr x \<inter> hdr y = {}" "span m x \<inter> span m y = {}"
proof -
  show *: "fin m x \<le> unat y \<or> fin m y \<le> unat x" using sorted_wrt_total [OF heap_okD(5) [OF assms(1)] assms(2-4)] by blast
  then show "hdr x \<inter> hdr y = {}" using fin_gt [of x m] fin_gt [of y m] by (auto simp: hdr_def)
  show "span m x \<inter> span m y = {}" using * by (auto simp: span_def fin_def)
qed

lemma sorted_distinct: "sorted_wrt (\<lambda>x y. fin m x \<le> unat y) xs \<Longrightarrow> distinct xs"
proof (induction xs)
  case (Cons x xs)
  then show ?case using fin_gt [of x m] by force
qed simp

lemmas heap_distinct = sorted_distinct [OF heap_okD(5)]

text \<open>A block that is not on the list: where it belongs.\<close>

definition outside :: "mem \<Rightarrow> u64 list \<Rightarrow> u64 \<Rightarrow> nat \<Rightarrow> bool" where
  "outside m xs bp e \<longleftrightarrow> (\<forall>x \<in> set xs. fin m x \<le> unat bp \<or> e \<le> unat x)"

lemma outsideI:
  assumes "heap_ok base B m xs" "unat base + 16 \<le> unat bp" "unat bp < e" "{unat bp..<e} \<inter> free_bytes m xs = {}"
  shows "outside m xs bp e"
  unfolding outside_def
proof
  fix x assume x: "x \<in> set xs"
  show "fin m x \<le> unat bp \<or> e \<le> unat x"
  proof (cases "x = base")
    case True
    then show ?thesis using assms(2) heap_okD(9) [OF assms(1)] by (simp add: fin_def)
  next
    case False
    then have h: "1 \<le> unat (hsize m x)" using heap_okD(12) [OF assms(1) x] by (simp add: Suc_leI unat_gt_0)
    have "{unat bp..<e} \<inter> span m x = {}" using assms(4) x by (auto simp: free_bytes_def)
    then have "max (unat bp) (unat x) \<notin> {unat bp..<e} \<inter> span m x" by simp
    then show ?thesis using assms(3) h by (auto simp: span_def fin_def max_def split: if_splits)
  qed
qed

lemma locate:
  assumes h: "heap_ok base B m xs" and o: "outside m xs bp e" "unat bp < e" "unat base + 16 \<le> unat bp"
  obtains ys p zs where "xs = ys @ p # zs" "\<forall>x \<in> set (ys @ [p]). fin m x \<le> unat bp" "\<forall>z \<in> set zs. e \<le> unat z"
proof -
  let ?A = "takeWhile (\<lambda>x. fin m x \<le> unat bp) xs" and ?Z = "dropWhile (\<lambda>x. fin m x \<le> unat bp) xs"
  have "fin m base \<le> unat bp" using o(3) heap_okD(9) [OF h] by (simp add: fin_def)
  then have "?A \<noteq> []" using h by (auto simp: heap_ok_def)
  then obtain ys p where A: "?A = ys @ [p]" by (metis append_butlast_last_id)
  have "e \<le> unat z" if "z \<in> set ?Z" for z
  proof (cases ?Z)
    case (Cons w ws)
    then have w: "\<not> fin m w \<le> unat bp" by (metis hd_dropWhile list.distinct(1) list.sel(1))
    have "w \<in> set xs" using Cons by (metis list.set_intros(1) set_dropWhileD)
    then have e: "e \<le> unat w" using o(1) w by (auto simp: outside_def)
    have "sorted_wrt (\<lambda>x y. fin m x \<le> unat y) (w # ws)"
      using heap_okD(5) [OF h] Cons by (metis sorted_wrt_append takeWhile_dropWhile_id)
    then show ?thesis using that e fin_gt [of w m] Cons by fastforce
  next
    case Nil
    show ?thesis using that unfolding Nil by simp
  qed
  moreover have "\<forall>x \<in> set (ys @ [p]). fin m x \<le> unat bp" unfolding A [symmetric] by (blast dest: set_takeWhileD)
  moreover have "xs = ys @ p # ?Z" using A takeWhile_dropWhile_id [of "\<lambda>x. fin m x \<le> unat bp" xs] by simp
  ultimately show thesis using that by blast
qed

text \<open>The scan of \<open>free\<close> ends at the block behind which the new one belongs, from wherever it starts.\<close>

lemma free_scan_up:
  assumes "heap_ok base B (umem s) (vs @ us @ p # zs)"
    and "\<forall>x \<in> set (us @ [p]). fin (umem s) x \<le> unat bp" "\<forall>z \<in> set zs. unat bp < unat z" "length us < fuel"
  shows "free_scan fuel bp (hd (us @ [p])) e s = Ok p e s"
  using assms
proof (induction us arbitrary: vs fuel)
  case Nil
  then obtain f where f: "fuel = Suc f" by (cases fuel) auto
  have bp: "p < bp" using Nil(2) fin_gt [of p "umem s"] by (auto simp: word_less_nat_alt)
  have q: "hptr (umem s) p = hd (zs @ [base])" using heap_okD(4) [OF Nil(1)] by (simp add: fl_links_append)
  show ?case
  proof (cases zs)
    case Nil
    have "base \<le> p"
      using heap_okD(14) [OF assms(1), of p] by (cases "p = base") (auto simp: word_le_nat_alt)
    then show ?thesis using Nil bp q f by auto
  next
    case (Cons z ws)
    then show ?thesis using Nil(3) bp q f by (simp add: word_less_nat_alt)
  qed
next
  case (Cons x us)
  then obtain f where f: "fuel = Suc f" by (cases fuel) auto
  have q: "hptr (umem s) x = hd (us @ [p])" using heap_okD(4) [OF Cons(2)] by (cases us) (simp_all add: fl_links_append)
  let ?q = "hd (us @ [p])"
  have qm: "?q \<in> set (us @ [p])" by (cases us) auto
  have "sorted_wrt (\<lambda>x y. fin (umem s) x \<le> unat y) (x # us @ p # zs)"
    using heap_okD(5) [OF Cons(2)] by (simp add: sorted_wrt_append)
  then have "fin (umem s) x \<le> unat ?q" using qm by (cases us) auto
  then have "x < ?q" using fin_gt [of x "umem s"] by (simp add: word_less_nat_alt)
  moreover have "fin (umem s) ?q \<le> unat bp" using Cons(3) qm by (cases us) auto
  then have "?q < bp" using fin_gt [of ?q "umem s"] by (simp add: word_less_nat_alt)
  moreover have "free_scan f bp ?q e s = Ok p e s" using Cons.IH [of "vs @ [x]" f] Cons.prems f by simp
  ultimately show ?case using q f by auto
qed

lemma free_scan_down:
  assumes "heap_ok base B (umem s) (ys @ p # us @ zs)"
    and "\<forall>x \<in> set (ys @ [p]). fin (umem s) x \<le> unat bp" "\<forall>z \<in> set (us @ zs). unat bp < unat z" "length zs + length ys < fuel"
  shows "free_scan fuel bp (hd (zs @ [base])) e s = Ok p e s"
  using assms
proof (induction zs arbitrary: us fuel)
  case Nil
  have "hd (ys @ [p]) = base" using heap_okD(2) [OF Nil(1)] by (cases ys) auto
  then show ?case using free_scan_up [of base B s "[]" ys p us bp fuel] Nil by simp
next
  case (Cons z zs)
  then obtain f where f: "fuel = Suc f" by (cases fuel) auto
  let ?q = "hd (zs @ [base])"
  have q: "hptr (umem s) z = ?q" using heap_okD(4) [OF Cons(2)] by (simp add: fl_links_append)
  have z: "bp < z" using Cons(4) by (simp add: word_less_nat_alt)
  have c: "\<not> (?q \<le> z \<and> bp < ?q)"
  proof (cases zs)
    case Nil
    have "base \<in> set (ys @ [p])" using heap_okD(2) [OF Cons(2)] by (cases ys) auto
    then have "unat base \<le> unat bp" using Cons(3) fin_gt [of base "umem s"] by force
    then show ?thesis using Nil by (simp add: word_less_nat_alt)
  next
    case (Cons w ws)
    have "sorted_wrt (\<lambda>x y. fin (umem s) x \<le> unat y) (z # zs)" using heap_okD(5) [OF Cons.prems(1)] by (simp add: sorted_wrt_append)
    then have "unat z < unat w" using Cons fin_gt [of z "umem s"] by simp
    then show ?thesis using Cons by (simp add: word_le_nat_alt)
  qed
  have "free_scan f bp ?q e s = Ok p e s" using Cons.IH [of "us @ [z]" f] Cons.prems f by simp
  then show ?case using q f by (simp add: c less_not_sym [OF z])
qed

lemma free_scan_run:
  assumes h: "heap_ok base B (umem s) (ys @ p # zs)" and x: "x \<in> set (ys @ p # zs)" and fuel: "length (ys @ p # zs) \<le> fuel"
    and b: "\<forall>x \<in> set (ys @ [p]). fin (umem s) x \<le> unat bp" "\<forall>z \<in> set zs. unat bp < unat z"
  shows "free_scan fuel bp x e s = Ok p e s"
proof -
  consider "x \<in> set (ys @ [p])" | "x \<in> set zs" using x by auto
  then show ?thesis
  proof cases
    case 1
    obtain vs us where u: "ys = vs @ us" "hd (us @ [p]) = x"
    proof (cases "x = p")
      case False
      then obtain vs us where "ys = vs @ x # us" using 1 by (auto dest: split_list)
      then show thesis using that [of vs "x # us"] by simp
    next
      case True
      then show thesis using that [of ys "[]"] by simp
    qed
    have "free_scan fuel bp (hd (us @ [p])) e s = Ok p e s"
      by (rule free_scan_up [where vs = vs and zs = zs and base = base and B = B]) (use h fuel b u(1) in auto)
    then show ?thesis by (simp only: u(2))
  next
    case 2
    then obtain us ws where zs: "zs = us @ x # ws" by (auto dest: split_list)
    have "free_scan fuel bp (hd ((x # ws) @ [base])) e s = Ok p e s"
      by (rule free_scan_down [where ys = ys and us = us and B = B]) (use h fuel b zs in auto)
    then show ?thesis by simp
  qed
qed

subsection \<open>free\<close>

definition join_up :: "mem \<Rightarrow> u64 \<Rightarrow> u64 \<Rightarrow> mem" where
  "join_up m bp q =
     (if plus_headers bp (hsize m bp) = q
      then let m' = store32 (bp + 8) (hsize m bp + hsize m q) m in store64 bp (hptr m' q) m'
      else store64 bp q m)"

definition join_low :: "mem \<Rightarrow> u64 \<Rightarrow> u64 \<Rightarrow> mem" where
  "join_low m p bp =
     (if plus_headers p (hsize m p) = bp
      then let m' = store32 (p + 8) (hsize m p + hsize m bp) m in store64 p (hptr m' bp) m'
      else store64 p bp m)"

lemma u_free_run:
  assumes "free_scan fuel bp (freep s) e s = Ok p e s"
  shows "u_free fuel (bp + sizeof_Header) e s
    = Ok () e (s\<lparr>umem := join_low (join_up (umem s) bp (hptr (umem s) p)) p bp, freep := p\<rparr>)"
  using assms by (simp add: u_free_def join_up_def join_low_def Let_def)

lemma unat_plus_headers:
  assumes "unat p + 16 * unat n \<le> 2 ^ 36"
  shows "unat (plus_headers p n) = unat p + 16 * unat n"
proof -
  have u: "unat (ucast n :: u64) = unat n" by (simp add: unsigned_ucast_eq take_bit_nat_eq_self order.strict_trans [OF unsigned_less])
  have "unat (ucast n * sizeof_Header :: u64) = 16 * unat n"
    using assms unat_mult_lem [of "ucast n :: u64" sizeof_Header] by (simp add: sizeof_Header_def u)
  then show ?thesis using assms by (simp add: plus_headers_def unat_add64)
qed

text \<open>A block with its header, which is not on the list, and the place in the list where it belongs.\<close>

definition placed :: "u64 \<Rightarrow> nat \<Rightarrow> mem \<Rightarrow> u64 list \<Rightarrow> u64 \<Rightarrow> u64 list \<Rightarrow> u64 \<Rightarrow> bool" where
  "placed base B m ys p zs bp \<longleftrightarrow> (\<forall>x \<in> set (ys @ [p]). fin m x \<le> unat bp)
     \<and> (\<forall>z \<in> set zs. fin m bp \<le> unat z) \<and> hsize m bp \<noteq> 0 \<and> fin m bp \<le> B \<and> B \<le> 2 ^ 36"

lemma fin_block: "hsize m x \<noteq> 0 \<Longrightarrow> fin m x = unat x + 16 * unat (hsize m x)"
  by (simp add: fin_def max_def Suc_leI unat_gt_0)

lemma unat_size_add:
  fixes n k :: u32
  assumes "16 * (unat n + unat k) < 2 ^ 36"
  shows "unat (n + k) = unat n + unat k"
  using assms by (subst unat_add_lem [THEN iffD1]) simp_all

lemma placed_fits: "placed base B m ys p zs bp \<Longrightarrow> fits bp"
  using fin_gt [of bp m] by (auto simp: placed_def fits_def)

lemma base_below:
  assumes "heap_ok base B m (ys @ p # zs)" "placed base B m ys p zs bp"
  shows "unat base + 16 \<le> unat bp"
proof -
  have "base \<in> set (ys @ [p])" using heap_okD(2) [OF assms(1)] by (cases ys) auto
  then show ?thesis using assms(2) fin_gt [of base m] unfolding placed_def by (meson order.trans)
qed

lemma sizes_after_join:
  assumes "fits bp" "plus_headers bp (hsize m bp) = q" "hdr q \<inter> hdr bp = {}" "fits q"
  shows "hsize (join_up m bp q) bp = hsize m bp + hsize m q" "hptr (join_up m bp q) bp = hptr m q"
    "only_in (hdr bp) m (join_up m bp q)"
proof -
  let ?m = "store32 (bp + 8) (hsize m bp + hsize m q) m"
  have o: "only_in (hdr bp) m ?m" by (rule only_in_store(2) [OF assms(1)])
  show "hsize (join_up m bp q) bp = hsize m bp + hsize m q" using assms(1,2) by (simp add: join_up_def Let_def)
  show "hptr (join_up m bp q) bp = hptr m q" using assms(2) hdr_cong(1) [OF assms(4) o assms(3)] by (simp add: join_up_def Let_def)
  show "only_in (hdr bp) m (join_up m bp q)"
    using only_in_trans [OF o only_in_store(1) [OF assms(1)]] assms(2) by (simp add: join_up_def Let_def)
qed

lemma join_up_merges:
  assumes h: "heap_ok base B m (ys @ p # q # ws)" and pl: "placed base B m ys p (q # ws) bp"
    and e: "plus_headers bp (hsize m bp) = q"
  shows "only_in (hdr bp) m (join_up m bp q)" "hptr (join_up m bp q) bp = hd (ws @ [base])"
    "unat (hsize (join_up m bp q) bp) = unat (hsize m bp) + unat (hsize m q)" "hsize (join_up m bp q) bp \<noteq> 0"
    "fin (join_up m bp q) bp = fin m q" "plus_headers bp (hsize (join_up m bp q) bp) = plus_headers q (hsize m q)"
    "span (join_up m bp q) bp = span m bp \<union> span m q"
proof -
  have n: "hsize m bp \<noteq> 0" "fin m bp = unat bp + 16 * unat (hsize m bp)" "fin m bp \<le> B" "B \<le> 2 ^ 36"
    using pl fin_block by (auto simp: placed_def)
  have q: "unat q = fin m bp" using unat_plus_headers [of bp "hsize m bp"] n e by simp
  then have "q \<noteq> base" using base_below [OF h pl] n(2) by auto
  then have k: "hsize m q \<noteq> 0" "fin m q \<le> B" "fits q"
    using heap_okD(12) [OF h, of q] heap_okD(7,8) [OF h, of q] by simp_all
  have "hdr q \<inter> hdr bp = {}" using q fin_gt [of bp m] by (auto simp: hdr_def)
  note j = sizes_after_join [OF placed_fits [OF pl] e this k(3)]
  show "only_in (hdr bp) m (join_up m bp q)" by (rule j(3))
  show "hptr (join_up m bp q) bp = hd (ws @ [base])" using heap_okD(4) [OF h] j(2) by (simp add: fl_links_append)
  have f: "fin m q = unat bp + 16 * (unat (hsize m bp) + unat (hsize m q))" using fin_block [OF k(1)] q n(2) by simp
  moreover have "0 < unat bp" using base_below [OF h pl] by simp
  ultimately show u: "unat (hsize (join_up m bp q) bp) = unat (hsize m bp) + unat (hsize m q)"
    using k(2) n(4) unat_size_add [of "hsize m bp" "hsize m q"] j(1) by simp
  then show z: "hsize (join_up m bp q) bp \<noteq> 0" using n(1) by (metis add_is_0 unat_eq_zero)
  show fb: "fin (join_up m bp q) bp = fin m q" using fin_block [OF z] u f by simp
  then show "plus_headers bp (hsize (join_up m bp q) bp) = plus_headers q (hsize m q)"
    using unat_plus_headers [of bp "hsize (join_up m bp q) bp"] unat_plus_headers [of q "hsize m q"] fin_block [OF z]
      fin_block [OF k(1)] k(2) n(4) by (simp add: word_unat_eq_iff)
  show "span (join_up m bp q) bp = span m bp \<union> span m q" using u q n(2) by (auto simp: span_def)
qed

text \<open>
  After the first step of \<open>free\<close> the block is joined to its upper neighbour, if they touch, and points to the rest
  \<open>zs1\<close> of the list; the list up to \<open>p\<close> does not know of it yet.
\<close>

definition joined :: "u64 \<Rightarrow> nat \<Rightarrow> mem \<Rightarrow> mem \<Rightarrow> u64 list \<Rightarrow> u64 list \<Rightarrow> u64 \<Rightarrow> bool" where
  "joined base B m m1 zs zs1 bp \<longleftrightarrow> (\<exists>us. zs = us @ zs1) \<and> only_in (hdr bp) m m1 \<and> hptr m1 bp = hd (zs1 @ [base])
     \<and> hsize m1 bp \<noteq> 0 \<and> unat (hsize m bp) \<le> unat (hsize m1 bp) \<and> fin m1 bp \<le> B
     \<and> (zs1 \<noteq> [] \<longrightarrow> before m1 bp (hd zs1)) \<and> span m1 bp \<union> free_bytes m zs1 = span m bp \<union> free_bytes m zs"

lemma join_up_joins:
  assumes h: "heap_ok base B m (ys @ p # zs)" and pl: "placed base B m ys p zs bp"
  obtains zs1 where "joined base B m (join_up m bp (hd (zs @ [base]))) zs zs1 bp"
proof (cases "plus_headers bp (hsize m bp) = hd (zs @ [base])")
  case True
  have n: "fin m bp = unat bp + 16 * unat (hsize m bp)" "fin m bp \<le> B" "B \<le> 2 ^ 36"
    using pl fin_block by (auto simp: placed_def)
  then have "zs \<noteq> []" using True base_below [OF h pl] unat_plus_headers [of bp "hsize m bp"] by auto
  then obtain q ws where zs: "zs = q # ws" by (cases zs) auto
  note j = join_up_merges [OF h [unfolded zs] pl [unfolded zs] True [unfolded zs, simplified]]
  have "before m q (hd ws)" if "ws \<noteq> []" using heap_okD(6) [OF h] that zs by (cases ws) (auto simp: successively_append_iff)
  then have "ws \<noteq> [] \<longrightarrow> before (join_up m bp q) bp (hd ws)" using j(5,6) by (simp add: before_def)
  moreover have "fin m q \<le> B" using heap_okD(7) [OF h, of q] zs by simp
  ultimately show thesis using j zs by (intro that [of ws]) (auto simp: joined_def free_bytes_def)
next
  case False
  have f: "fits bp" by (rule placed_fits [OF pl])
  have "zs \<noteq> [] \<longrightarrow> before m bp (hd zs)" using False pl by (cases zs) (auto simp: before_def placed_def)
  moreover have "hsize (store64 bp q m) bp = hsize m bp" for q using f by simp
  ultimately show thesis using False pl f only_in_store(1) [OF f]
    by (intro that [of zs]) (auto simp: joined_def join_up_def fin_def span_def before_def placed_def)
qed

text \<open>A free list of which the part from \<open>p\<close> on is replaced.\<close>

lemma successively_split:
  "successively P (ys @ p # rs) \<longleftrightarrow> successively P ys \<and> (ys \<noteq> [] \<longrightarrow> P (last ys) p) \<and> successively P (p # rs)"
  by (auto simp: successively_append_iff)

lemma heap_ok_splice:
  assumes h: "heap_ok base B m (ys @ p # zs)"
    and y: "\<And>x. x \<in> set ys \<Longrightarrow> hptr m' x = hptr m x \<and> hsize m' x = hsize m x"
    and p: "if p = base then hsize m' p = 0 else hsize m' p \<noteq> 0"
    and r: "fl_links m' (p # rs) base" "successively (before m') (p # rs)" "\<And>x. x \<in> set (p # rs) \<Longrightarrow> fin m' x \<le> B"
      "\<And>x. x \<in> set rs \<Longrightarrow> hsize m' x \<noteq> 0"
  shows "heap_ok base B m' (ys @ p # rs)"
proof -
  have b: "before m' x = before m x" "fin m' x = fin m x" if "x \<in> set ys" for x
    using y [OF that] before_cong by blast+
  have s: "successively (before m') ys = successively (before m) ys" by (rule successively_cong) (use b in auto)
  have "successively (before m) ys \<and> (ys \<noteq> [] \<longrightarrow> before m (last ys) p)"
    using heap_okD(6) [OF h] unfolding successively_split by blast
  then have "successively (before m') (ys @ p # rs)" unfolding successively_split using s r(2) b(1) by simp
  moreover have "fl_links m' (ys @ p # rs) base"
    using fl_links_cong [of ys m' m] y heap_okD(4) [OF h] r(1) by (simp add: fl_links_append)
  moreover have "fin m' x \<le> B" if "x \<in> set (ys @ p # rs)" for x
    using that b(2) heap_okD(7) [OF h, of x] r(3) by auto
  moreover have "(\<exists>us. ys @ p # rs = base # us \<and> (\<forall>x \<in> set us. hsize m' x \<noteq> 0)) \<and> hsize m' base = 0"
  proof (cases ys)
    case Nil
    then show ?thesis using heap_okD(2) [OF h] p r(4) by simp
  next
    case (Cons y us)
    then have "y = base" using heap_okD(2) [OF h] by simp
    then have d: "base \<notin> set us" "base \<noteq> p" using heap_distinct [OF h] Cons by auto
    have "hsize m' x \<noteq> 0" if "x \<in> set us" for x
      using that d heap_okD(12) [OF h, of x] assms(2) [of x] Cons by auto
    then show ?thesis using Cons \<open>y = base\<close> d p r(4) assms(2) [of base] heap_okD(9) [OF h] by auto
  qed
  ultimately show ?thesis using heap_okD(10,11) [OF h] by (simp add: heap_ok_def)
qed

text \<open>The second step links the block, or joins it to its lower neighbour.\<close>

lemma joined_headers:
  assumes h: "heap_ok base B m (ys @ p # zs)" and pl: "placed base B m ys p zs bp" and j: "joined base B m m1 zs zs1 bp"
  shows "x \<in> set (ys @ p # zs) \<Longrightarrow> hdr x \<inter> hdr bp = {}"
    and "x \<in> set (ys @ p # zs) \<Longrightarrow> hptr m1 x = hptr m x \<and> hsize m1 x = hsize m x"
    and "fl_links m1 zs1 base" "successively (before m1) zs1" "\<And>x. x \<in> set zs1 \<Longrightarrow> fin m1 x \<le> B"
    and "\<And>x. x \<in> set zs1 \<Longrightarrow> hsize m1 x \<noteq> 0" "set zs1 \<subseteq> set zs"
proof -
  have apart: "hdr x \<inter> hdr bp = {}" if "x \<in> set (ys @ p # zs)" for x
  proof -
    have "fin m x \<le> unat bp \<or> fin m bp \<le> unat x" using that pl by (auto simp: placed_def)
    then show ?thesis using fin_gt [of x m] fin_gt [of bp m] by (auto simp: hdr_def)
  qed
  then show "x \<in> set (ys @ p # zs) \<Longrightarrow> hdr x \<inter> hdr bp = {}" .
  have o: "only_in (hdr bp) m m1" using j by (simp add: joined_def)
  have same: "hptr m1 x = hptr m x \<and> hsize m1 x = hsize m x" if "x \<in> set (ys @ p # zs)" for x
    using hdr_cong [OF heap_okD(8) [OF h that] o apart [OF that]] by simp
  then show "x \<in> set (ys @ p # zs) \<Longrightarrow> hptr m1 x = hptr m x \<and> hsize m1 x = hsize m x" .
  obtain us where us: "zs = us @ zs1" using j by (auto simp: joined_def)
  then show "set zs1 \<subseteq> set zs" by simp
  have fb: "fin m1 x = fin m x" "before m1 x = before m x" if "x \<in> set zs1" for x
    using same [of x] that us by (auto intro!: before_cong)
  show "fl_links m1 zs1 base"
    using fl_links_cong [of zs1 m1 m base] same us heap_okD(4) [OF h] by (simp add: fl_links_append)
  have "successively (before m1) zs1 = successively (before m) zs1" by (rule successively_cong) (use fb in auto)
  moreover have "successively (before m) zs1" using heap_okD(6) [OF h] us by (auto simp: successively_append_iff successively_Cons)
  ultimately show "successively (before m1) zs1" by simp
  show "fin m1 x \<le> B" if "x \<in> set zs1" for x using fb(1) [OF that] heap_okD(7) [OF h, of x] that us by simp
  show "hsize m1 x \<noteq> 0" if "x \<in> set zs1" for x
  proof -
    have "fin m bp \<le> unat x" using pl that us by (simp add: placed_def)
    then have "x \<noteq> base" using base_below [OF h pl] fin_gt [of bp m] by auto
    then show ?thesis using heap_okD(12) [OF h, of x] same [of x] that us by simp
  qed
qed

lemma span_cong: "hsize m' x = hsize m x \<Longrightarrow> span m' x = span m x"
  by (simp add: span_def)

lemma free_bytes_cong: "(\<And>x. x \<in> set xs \<Longrightarrow> hsize m' x = hsize m x) \<Longrightarrow> free_bytes m' xs = free_bytes m xs"
  using span_cong [of m' _ m] by (simp add: free_bytes_def)

lemma free_bytes_append [simp]:
  "free_bytes m (xs @ ys) = free_bytes m xs \<union> free_bytes m ys" "free_bytes m (x # xs) = span m x \<union> free_bytes m xs"
  by (simp_all add: free_bytes_def)

lemma heap_ok_change:
  assumes h: "heap_ok base B m (ys @ p # zs)" and pl: "placed base B m ys p zs bp" and j: "joined base B m m1 zs zs1 bp"
    and o: "only_in (hdr p) m1 m2" and m2: "if p = base then hsize m2 p = 0 else hsize m2 p \<noteq> 0" "fin m2 p \<le> B"
    and rs: "rs = zs1 \<or> rs = bp # zs1" "hptr m2 p = hd (rs @ [base])" "rs \<noteq> [] \<Longrightarrow> before m2 p (hd rs)"
    and sp: "span m2 p \<union> (if rs = zs1 then {} else span m1 bp) = span m p \<union> span m1 bp"
  shows "heap_ok base B m2 (ys @ p # rs)" "free_bytes m2 (ys @ p # rs) = span m bp \<union> free_bytes m (ys @ p # zs)"
    "x \<in> set (bp # zs1) \<Longrightarrow> hsize m2 x = hsize m1 x" "only_in (hdr bp \<union> hdr p) m m2"
proof -
  note jh = joined_headers [OF h pl j]
  have "bp \<notin> set zs1" using jh(1) [of bp] jh(7) by (auto simp: hdr_def)
  then have nb: "rs = bp # zs1 \<Longrightarrow> rs \<noteq> zs1" by auto
  have fp: "fits p" using heap_okD(8) [OF h] by simp
  have a: "hdr x \<inter> hdr p = {}" if "x \<in> set (ys @ bp # zs)" for x
  proof (cases "x = bp")
    case True
    then show ?thesis using jh(1) [of p] by auto
  next
    case False
    then have "x \<in> set (ys @ p # zs)" "x \<noteq> p" using that heap_distinct [OF h] by auto
    then show ?thesis using heap_apart(2) [OF h] by simp
  qed
  have s: "hptr m2 x = hptr m1 x \<and> hsize m2 x = hsize m1 x" if "x \<in> set (ys @ bp # zs1)" for x
  proof -
    have x: "x \<in> set (ys @ bp # zs)" using that jh(7) by auto
    have "fits x" using x heap_okD(8) [OF h, of x] placed_fits [OF pl] by auto
    then show ?thesis using hdr_cong [OF _ o a [OF x]] by simp
  qed
  show "x \<in> set (bp # zs1) \<Longrightarrow> hsize m2 x = hsize m1 x" using s [of x] by auto
  have b: "before m2 x = before m1 x" "fin m2 x = fin m1 x" if "x \<in> set (bp # zs1)" for x
    using s [of x] that by (auto intro!: before_cong)
  have "successively (before m2) zs1 = successively (before m1) zs1" by (rule successively_cong) (use b in auto)
  then have z: "fl_links m2 zs1 base" "successively (before m2) zs1" using fl_links_cong [of zs1 m2 m1 base] s jh(3,4) by simp_all
  have jj: "hptr m1 bp = hd (zs1 @ [base])" "hsize m1 bp \<noteq> 0" "fin m1 bp \<le> B" "zs1 \<noteq> [] \<longrightarrow> before m1 bp (hd zs1)"
    "span m1 bp \<union> free_bytes m zs1 = span m bp \<union> free_bytes m zs" "only_in (hdr bp) m m1"
    using j by (auto simp: joined_def)
  show "heap_ok base B m2 (ys @ p # rs)"
  proof (rule heap_ok_splice [OF h _ m2(1)])
    show "hptr m2 x = hptr m x \<and> hsize m2 x = hsize m x" if "x \<in> set ys" for x using that s [of x] jh(2) [of x] by simp
    show "fl_links m2 (p # rs) base" using rs(1,2) z(1) jj(1) s [of bp] by auto
    show "successively (before m2) (p # rs)"
      using rs(1,3) z(2) jj(4) b(1) [of bp] by (auto simp: successively_Cons)
    show "fin m2 x \<le> B" if "x \<in> set (p # rs)" for x using that m2(2) rs(1) b(2) [of x] jh(5) [of x] jj(3) by auto
    show "hsize m2 x \<noteq> 0" if "x \<in> set rs" for x using that rs(1) s [of x] jh(6) [of x] jj(2) by auto
  qed
  have f: "free_bytes m2 ys = free_bytes m ys" "free_bytes m2 zs1 = free_bytes m zs1" "span m2 bp = span m1 bp"
    using s jh(2,7) by (auto intro!: free_bytes_cong span_cong)
  have "free_bytes m2 rs \<union> span m2 p = (span m p \<union> span m1 bp) \<union> free_bytes m zs1" using rs(1) nb sp f by auto
  then show "free_bytes m2 (ys @ p # rs) = span m bp \<union> free_bytes m (ys @ p # zs)" using f(1) jj(5) by auto
  show "only_in (hdr bp \<union> hdr p) m m2" by (rule only_in_trans [OF jj(6) o])
qed

definition freed :: "u64 \<Rightarrow> nat \<Rightarrow> mem \<Rightarrow> u64 list \<Rightarrow> u64 \<Rightarrow> mem \<Rightarrow> u64 list \<Rightarrow> u64 \<Rightarrow> bool" where
  "freed base B m xs bp m' xs' p \<longleftrightarrow> heap_ok base B m' xs' \<and> p \<in> set xs' \<and> length xs' \<le> Suc (length xs)
     \<and> free_bytes m' xs' = span m bp \<union> free_bytes m xs \<and> only_in (hdr bp \<union> hdr p) m m' \<and> p \<in> set xs
     \<and> (\<exists>x \<in> set xs'. unat (hsize m bp) \<le> unat (hsize m' x))"

lemma join_low_merges:
  assumes h: "heap_ok base B m (ys @ p # zs)" and pl: "placed base B m ys p zs bp" and j: "joined base B m m1 zs zs1 bp"
    and e: "plus_headers p (hsize m1 p) = bp"
  shows "freed base B m (ys @ p # zs) bp (join_low m1 p bp) (ys @ p # zs1) p"
proof -
  let ?m = "store32 (p + 8) (hsize m1 p + hsize m1 bp) m1" and ?m2 = "join_low m1 p bp"
  note jh = joined_headers [OF h pl j]
  have jj: "hptr m1 bp = hd (zs1 @ [base])" "hsize m1 bp \<noteq> 0" "fin m1 bp \<le> B" "zs1 \<noteq> [] \<longrightarrow> before m1 bp (hd zs1)"
    "unat (hsize m bp) \<le> unat (hsize m1 bp)" "only_in (hdr bp) m m1" "length zs1 \<le> length zs"
    using j by (auto simp: joined_def)
  have p: "fits p" "hsize m1 p = hsize m p" "fin m p \<le> B" "B \<le> 2 ^ 36" "p \<noteq> 0"
    using heap_okD(7,8,13) [OF h, of p] heap_okD(11) [OF h] jh(2) [of p] by auto
  have "unat p + 16 * unat (hsize m1 p) \<le> 2 ^ 36" using p(2-4) by (auto simp: fin_def max_def split: if_splits)
  then have bp: "unat bp = unat p + 16 * unat (hsize m1 p)" using unat_plus_headers e by blast
  then have "p \<noteq> base" using base_below [OF h pl] heap_okD(9) [OF h] p(2) by auto
  then have nb: "p \<noteq> base" "hsize m1 p \<noteq> 0" using heap_okD(12) [OF h, of p] p(2) by simp_all
  have f: "fin m1 bp = unat p + 16 * (unat (hsize m1 p) + unat (hsize m1 bp))" using fin_block [OF jj(2)] bp by simp
  have hb: "hptr ?m bp = hptr m1 bp"
    by (rule hdr_cong(1) [OF placed_fits [OF pl] only_in_store(2) [OF p(1)]]) (use jh(1) [of p] in auto)
  then have m2: "hptr ?m2 p = hd (zs1 @ [base])" "hsize ?m2 p = hsize m1 p + hsize m1 bp" "only_in (hdr p) m1 ?m2"
    using e p(1) jj(1) only_in_trans [OF only_in_store(2) only_in_store(1), of p p]
    by (simp_all add: join_low_def Let_def)
  have u: "unat (hsize ?m2 p) = unat (hsize m1 p) + unat (hsize m1 bp)"
    unfolding m2(2) by (rule unat_size_add) (use f jj(3) p(4) unat_gt_0 [of p] p(5) in linarith)
  then have nz: "hsize ?m2 p \<noteq> 0" using nb(2) by (metis add_is_0 unat_eq_zero)
  have fp: "fin ?m2 p = fin m1 bp" using fin_block [OF nz] u f by simp
  then have ph: "plus_headers p (hsize ?m2 p) = plus_headers bp (hsize m1 bp)"
    using unat_plus_headers [of p "hsize ?m2 p"] unat_plus_headers [of bp "hsize m1 bp"] fin_block [OF nz]
      fin_block [OF jj(2)] jj(3) p(4) by (simp add: word_unat_eq_iff)
  have sp: "span ?m2 p = span m p \<union> span m1 bp" using u bp p(2) by (auto simp: span_def)
  note c = heap_ok_change [OF h pl j m2(3), of zs1]
  have "heap_ok base B ?m2 (ys @ p # zs1)" "free_bytes ?m2 (ys @ p # zs1) = span m bp \<union> free_bytes m (ys @ p # zs)"
    "only_in (hdr bp \<union> hdr p) m ?m2"
    by (rule c; use nb(1) nz fp jj(3,4) m2(1) ph sp in \<open>simp add: before_def\<close>)+
  moreover have "unat (hsize m bp) \<le> unat (hsize ?m2 p)" using u jj(5) by simp
  ultimately show ?thesis using jj(7) by (auto simp: freed_def)
qed

lemma join_low_links:
  assumes h: "heap_ok base B m (ys @ p # zs)" and pl: "placed base B m ys p zs bp" and j: "joined base B m m1 zs zs1 bp"
    and e: "plus_headers p (hsize m1 p) \<noteq> bp"
  shows "freed base B m (ys @ p # zs) bp (join_low m1 p bp) (ys @ p # bp # zs1) p"
proof -
  let ?m2 = "join_low m1 p bp"
  note jh = joined_headers [OF h pl j]
  have jj: "unat (hsize m bp) \<le> unat (hsize m1 bp)" "length zs1 \<le> length zs" using j by (auto simp: joined_def)
  have p: "fits p" "hsize m1 p = hsize m p" "fin m p \<le> B" "fin m p \<le> unat bp"
    using heap_okD(7,8) [OF h, of p] jh(2) [of p] pl by (auto simp: placed_def)
  have m2: "hptr ?m2 p = bp" "hsize ?m2 p = hsize m p" "only_in (hdr p) m1 ?m2"
    using e p(1,2) only_in_store(1) [OF p(1)] by (simp_all add: join_low_def)
  have b: "before ?m2 p bp" "fin ?m2 p \<le> B" using e p m2(2) by (simp_all add: before_def fin_def)
  have z: "if p = base then hsize ?m2 p = 0 else hsize ?m2 p \<noteq> 0"
    using heap_okD(9) [OF h] heap_okD(12) [OF h, of p] unfolding m2(2) by auto
  note c = heap_ok_change [OF h pl j m2(3), of "bp # zs1"]
  have "heap_ok base B ?m2 (ys @ p # bp # zs1)" "free_bytes ?m2 (ys @ p # bp # zs1) = span m bp \<union> free_bytes m (ys @ p # zs)"
    "hsize ?m2 bp = hsize m1 bp" "only_in (hdr bp \<union> hdr p) m ?m2"
    by (rule c; use z b m2 span_cong [of ?m2 p m] in simp)+
  then show ?thesis using jj by (auto simp: freed_def)
qed

text \<open>What \<open>free\<close> does to a heap: the bytes of the block become free, and only headers are written.\<close>

lemma u_free_spec:
  assumes h: "heap_ok base B (umem s) xs" and f: "freep s \<in> set xs" "length xs \<le> fuel"
    and b: "hsize (umem s) bp \<noteq> 0" "unat base + 16 \<le> unat bp" "unat bp + 16 * unat (hsize (umem s) bp) \<le> B"
      "span (umem s) bp \<inter> free_bytes (umem s) xs = {}"
  shows "\<exists>m' xs' p. u_free fuel (bp + sizeof_Header) e s = Ok () e (s\<lparr>umem := m', freep := p\<rparr>)
     \<and> freed base B (umem s) xs bp m' xs' p"
proof -
  let ?m = "umem s"
  have fb: "fin ?m bp = unat bp + 16 * unat (hsize ?m bp)" "unat bp < fin ?m bp" using fin_block [OF b(1)] fin_gt [of bp ?m] by auto
  have "outside ?m xs bp (fin ?m bp)" by (rule outsideI [OF h b(2) fb(2)]) (use b(4) fb(1) in \<open>simp add: span_def\<close>)
  then obtain ys p zs where xs: "xs = ys @ p # zs" and y: "\<forall>x \<in> set (ys @ [p]). fin ?m x \<le> unat bp" "\<forall>z \<in> set zs. fin ?m bp \<le> unat z"
    using locate [OF h _ fb(2) b(2)] by blast
  have pl: "placed base B ?m ys p zs bp" using y b fb(1) heap_okD(11) [OF h] by (simp add: placed_def)
  note h = h [unfolded xs]
  have "free_scan fuel bp (freep s) e s = Ok p e s"
    by (rule free_scan_run [OF h]) (use f xs y fb(2) in \<open>auto intro: order.strict_trans2\<close>)
  note r = u_free_run [OF this]
  have q: "hptr ?m p = hd (zs @ [base])" using heap_okD(4) [OF h] by (simp add: fl_links_append)
  obtain zs1 where j: "joined base B ?m (join_up ?m bp (hd (zs @ [base]))) zs zs1 bp" by (rule join_up_joins [OF h pl])
  have "\<exists>xs'. freed base B ?m xs bp (join_low (join_up ?m bp (hptr ?m p)) p bp) xs' p"
    using join_low_merges [OF h pl j] join_low_links [OF h pl j] unfolding q xs by blast
  then show ?thesis using r by blast
qed

subsection \<open>morecore\<close>

lemma hdr_free:
  assumes "heap_ok base B m xs" "x \<in> set xs"
  shows "hdr x \<subseteq> free_bytes m xs \<union> hdr base"
proof (cases "x = base")
  case False
  then have "hdr x \<subseteq> span m x" using heap_okD(12) [OF assms] unat_gt_0 [of "hsize m x"] by (auto simp: hdr_def span_def)
  then show ?thesis using assms(2) by (auto simp: free_bytes_def)
qed simp

lemma heap_ok_mono: "heap_ok base B m xs \<Longrightarrow> B \<le> B' \<Longrightarrow> B' \<le> 2 ^ 36 \<Longrightarrow> heap_ok base B' m xs"
  by (auto simp: heap_ok_def)

lemma heap_ok_frame:
  assumes h: "heap_ok base B m xs" and o: "only_in A m m'" "A \<inter> (free_bytes m xs \<union> hdr base) = {}"
  shows "heap_ok base B m' xs" "free_bytes m' xs = free_bytes m xs"
proof -
  have s: "hptr m' x = hptr m x \<and> hsize m' x = hsize m x" if "x \<in> set xs" for x
    using hdr_cong [OF heap_okD(8) [OF h that] o(1)] hdr_free [OF h that] o(2) by blast
  then have b: "before m' x = before m x \<and> fin m' x = fin m x" if "x \<in> set xs" for x using that before_cong by blast
  have "successively (before m') xs = successively (before m) xs" by (rule successively_cong) (use b in auto)
  moreover have "fl_links m' xs base = fl_links m xs base" by (rule fl_links_cong) (use s in blast)
  moreover have "hsize m' base = hsize m base" using s heap_okD(3) [OF h] by blast
  moreover have "\<forall>y \<in> set ys. hsize m' y = hsize m y" if "xs = base # ys" for ys using s that by simp
  ultimately show "heap_ok base B m' xs" using h b unfolding heap_ok_def by auto
  show "free_bytes m' xs = free_bytes m xs" by (rule free_bytes_cong) (use s in blast)
qed

lemma heap_bounds:
  assumes "heap_ok base B m xs"
  shows "unat base + 16 \<le> B" "a \<in> free_bytes m xs \<union> hdr base \<Longrightarrow> a < B"
proof -
  show b: "unat base + 16 \<le> B" using heap_okD(3,7) [OF assms] fin_gt [of base m] by (meson order.trans)
  have "a < B" if "x \<in> set xs" "a \<in> span m x" for x
    using that heap_okD(7) [OF assms that(1)] by (auto simp: span_def fin_def max_def split: if_splits)
  then show "a \<in> free_bytes m xs \<union> hdr base \<Longrightarrow> a < B" using b by (auto simp: free_bytes_def hdr_def)
qed

text \<open>
  What is documented of \<open>sbrk\<close> for a growing heap: it fails and returns -1, or returns the old end of the memory, which
  is moved up by the number of bytes. A process has less than 64 gigabytes.
\<close>

definition sbrk_grows :: "'k usys \<Rightarrow> ('k \<Rightarrow> nat) \<Rightarrow> bool" where
  "sbrk_grows us brk \<longleftrightarrow> (\<forall>n k. 0 \<le> n \<longrightarrow> (case us_sbrk us n k of (v, k') \<Rightarrow>
     v = -1 \<and> brk k' = brk k \<or> v = of_nat (brk k) \<and> brk k' = brk k + nat n \<and> brk k' \<le> 2 ^ 36))"

lemma sint_small: "unat (x :: u32) < 2 ^ 31 \<Longrightarrow> sint x = int (unat x)"
proof -
  assume "unat x < 2 ^ 31"
  then have "int (unat x) < int (2 ^ 31)" by (simp only: of_nat_less_iff)
  then have "int (unat x) < 2 ^ 31" by (simp only: of_nat_power of_nat_numeral)
  moreover have "- (2 ^ 31) \<le> int (unat x)" by (rule order.trans [OF _ of_nat_0_le_iff]) simp
  ultimately have "signed_take_bit 31 (int (unat x)) = int (unat x)" by (rule signed_take_bit_int_eq_self [rotated])
  then show "sint x = int (unat x)" unfolding sint_uint uint_nat by simp
qed

lemma sbrk_arg:
  fixes nu :: u32
  assumes "16 * unat nu < 2 ^ 31"
  shows "sint (ucast (ucast nu * sizeof_Header :: u64) :: u32) = 16 * int (unat nu)"
proof -
  have u: "unat (ucast nu :: u64) = unat nu" using assms by (simp add: unsigned_ucast_eq take_bit_nat_eq_self)
  then have "unat (ucast nu * sizeof_Header :: u64) = unat nu * 16"
    using assms unat_mult_lem [of "ucast nu :: u64" sizeof_Header] by (simp add: sizeof_Header_def)
  then have y: "unat (ucast (ucast nu * sizeof_Header :: u64) :: u32) = 16 * unat nu"
    using assms by (simp add: unsigned_ucast_eq take_bit_nat_eq_self)
  have "unat (ucast (ucast nu * sizeof_Header :: u64) :: u32) < 2 ^ 31" unfolding y by (rule assms)
  from sint_small [OF this] show ?thesis by (simp only: y of_nat_mult of_nat_numeral)
qed

lemma sbrk_run:
  assumes "sbrk_grows us brk" "16 * unat (nu :: u32) < 2 ^ 31"
  obtains (fails) k' where "sbrk us (ucast nu * sizeof_Header) e s = Ok (-1) e (s\<lparr>kern := k'\<rparr>)" "brk k' = brk (kern s)"
  | (grows) k' where "sbrk us (ucast nu * sizeof_Header) e s = Ok (of_nat (brk (kern s))) e (s\<lparr>kern := k'\<rparr>)"
      "brk k' = brk (kern s) + 16 * unat nu" "brk k' \<le> 2 ^ 36"
proof -
  obtain v k' where us: "us_sbrk us (16 * int (unat nu)) (kern s) = (v, k')" by fastforce
  have z: "0 \<le> 16 * int (unat nu)" by simp
  have "v = -1 \<and> brk k' = brk (kern s) \<or> v = of_nat (brk (kern s)) \<and> brk k' = brk (kern s) + nat (16 * int (unat nu)) \<and> brk k' \<le> 2 ^ 36"
    using assms(1) [unfolded sbrk_grows_def, rule_format, OF z, of "kern s"] by (simp only: us case_prod_conv)
  moreover have "sbrk us (ucast nu * sizeof_Header) e s = Ok v e (s\<lparr>kern := k'\<rparr>)"
    unfolding sbrk_def sbrk_arg [OF assms(2)] us by simp
  moreover have "nat (16 * int (unat nu)) = 16 * unat nu" by (metis nat_int of_nat_mult of_nat_numeral)
  ultimately show thesis using that by metis
qed

text \<open>A heap with more memory at its end, on the free list.\<close>

definition extended :: "('k \<Rightarrow> nat) \<Rightarrow> u64 \<Rightarrow> u32 \<Rightarrow> 'k heap_state \<Rightarrow> u64 list \<Rightarrow> mem \<Rightarrow> u64 list \<Rightarrow> u64 \<Rightarrow> 'k \<Rightarrow> bool" where
  "extended brk base nu s xs m' xs' p k' \<longleftrightarrow> heap_ok base (brk k') m' xs' \<and> p \<in> set xs' \<and> length xs' \<le> Suc (length xs)
     \<and> brk (kern s) \<le> brk k' \<and> free_bytes m' xs' = free_bytes (umem s) xs \<union> {brk (kern s)..<brk k'}
     \<and> only_in (free_bytes (umem s) xs \<union> {brk (kern s)..<brk k'} \<union> hdr base) (umem s) m'
     \<and> (\<exists>x \<in> set xs'. nu \<le> hsize m' x)"

lemma morecore_spec:
  assumes g: "sbrk_grows us brk" and h: "heap_ok base (brk (kern s)) (umem s) xs" and f: "freep s \<in> set xs" "length xs \<le> fuel"
    and nu: "16 * unat nu < 2 ^ 31"
  obtains (fails) k' where "morecore us fuel nu e s = Ok 0 e (s\<lparr>kern := k'\<rparr>)" "brk k' = brk (kern s)"
  | (grows) m' xs' p k' where "morecore us fuel nu e s = Ok p e (s\<lparr>umem := m', freep := p, kern := k'\<rparr>)" "p \<noteq> 0"
      "extended brk base nu s xs m' xs' p k'"
proof -
  define nu' where "nu' = (if nu < 4096 then 4096 else nu)"
  have n: "nu \<le> nu'" "16 * unat nu' < 2 ^ 31" "0 < unat nu'" using nu
    by (auto simp: nu'_def word_less_nat_alt word_le_nat_alt unat_gt_0 not_less)
  show thesis
  proof (cases rule: sbrk_run [OF g n(2), of e s])
    case (1 k')
    then show thesis by (intro fails [of k']) (simp_all add: morecore_def nu'_def [symmetric])
  next
    case (2 k')
    let ?B = "brk (kern s)" and ?bp = "of_nat (brk (kern s)) :: u64"
    let ?m0 = "store32 (?bp + 8) nu' (umem s)" and ?s0 = "s\<lparr>kern := k', umem := store32 (?bp + 8) nu' (umem s)\<rparr>"
    have B: "?B < 2 ^ 36" "unat ?bp = ?B" using 2(2,3) n(3) by (simp_all add: unsigned_of_nat take_bit_nat_eq_self)
    moreover have "unat (-1 :: u64) = 2 ^ 64 - 1" using unat_neg64 [of 1] by simp
    ultimately have nb: "?bp \<noteq> -1" "fits ?bp" by (auto simp: fits_def)
    have hb: "hdr ?bp \<subseteq> {?B..<brk k'}" using 2(2) n(3) B(2) by (auto simp: hdr_def)
    have hi: "{?B..<brk k'} \<inter> (free_bytes (umem s) xs \<union> hdr base) = {}"
      using heap_bounds [OF h] by fastforce
    have o: "only_in (hdr ?bp) (umem s) ?m0" by (rule only_in_store(2) [OF nb(2)])
    have d: "hdr ?bp \<inter> (free_bytes (umem s) xs \<union> hdr base) = {}" using hb hi by blast
    have h0: "heap_ok base (brk k') ?m0 xs" "free_bytes ?m0 xs = free_bytes (umem s) xs"
      using heap_ok_mono [OF heap_ok_frame(1) [OF h o d]] heap_ok_frame(2) [OF h o d] 2(2,3) by simp_all
    have sz: "hsize ?m0 ?bp = nu'" "span ?m0 ?bp = {?B..<brk k'}" using B(2) 2(2) by (simp_all add: span_def)
    have di: "span ?m0 ?bp \<inter> free_bytes ?m0 xs = {}" using hi unfolding sz(2) h0(2) by blast
    obtain m' xs' p where r: "u_free fuel (?bp + sizeof_Header) e ?s0 = Ok () e (?s0\<lparr>umem := m', freep := p\<rparr>)"
      and fr: "freed base (brk k') ?m0 xs ?bp m' xs' p"
      using u_free_spec [of base "brk k'" ?s0 xs fuel ?bp e] h0(1) f sz(1) n(3) di B(2) 2(2) heap_bounds(1) [OF h]
      by (auto simp: unat_gt_0)
    have "morecore us fuel nu e s = Ok p e (s\<lparr>umem := m', freep := p, kern := k'\<rparr>)"
      using 2(1) nb(1) r by (simp add: morecore_def nu'_def [symmetric])
    moreover have p: "p \<in> set xs" "p \<noteq> 0" using fr heap_okD(13) [OF h] by (auto simp: freed_def)
    moreover have "only_in (free_bytes (umem s) xs \<union> {?B..<brk k'} \<union> hdr base) (umem s) m'"
      by (rule only_in_mono [OF only_in_trans [OF o, of "hdr ?bp \<union> hdr p"]]) (use fr hb hdr_free [OF h p(1)] in \<open>auto simp: freed_def\<close>)
    then have "extended brk base nu s xs m' xs' p k'"
      using fr n(1) sz h0(2) 2(2) unfolding extended_def freed_def by (auto simp: word_le_nat_alt intro: order.trans)
    ultimately show thesis using grows by blast
  qed
qed

subsection \<open>malloc\<close>

text \<open>A block taken off the list.\<close>

definition took :: "u64 \<Rightarrow> nat \<Rightarrow> mem \<Rightarrow> u64 list \<Rightarrow> u32 \<Rightarrow> mem \<Rightarrow> u64 list \<Rightarrow> u64 \<Rightarrow> bool" where
  "took base B m xs nu m' xs' bp \<longleftrightarrow> heap_ok base B m' xs' \<and> length xs' \<le> length xs \<and> hsize m' bp = nu
     \<and> span m' bp \<subseteq> free_bytes m xs \<and> free_bytes m' xs' = free_bytes m xs - span m' bp
     \<and> only_in (free_bytes m xs \<union> hdr base) m m'"

lemma heap_ok_disjoint:
  assumes "heap_ok base B m (ys @ p # zs)"
  shows "span m p \<inter> free_bytes m (ys @ zs) = {}" "\<And>x. x \<in> set (ys @ zs) \<Longrightarrow> hdr x \<inter> hdr p = {}"
proof -
  have "x \<noteq> p" if "x \<in> set (ys @ zs)" for x using that heap_distinct [OF assms] by auto
  then have *: "span m p \<inter> span m x = {} \<and> hdr x \<inter> hdr p = {}" if "x \<in> set (ys @ zs)" for x
    using heap_apart(2,3) [OF assms, of p x] that by auto
  then show "span m p \<inter> free_bytes m (ys @ zs) = {}" unfolding free_bytes_def by blast
  show "\<And>x. x \<in> set (ys @ zs) \<Longrightarrow> hdr x \<inter> hdr p = {}" using * by blast
qed

lemma plus_headers_le: "heap_ok base B m xs \<Longrightarrow> x \<in> set xs \<Longrightarrow> unat (plus_headers x (hsize m x)) \<le> fin m x"
proof -
  assume h: "heap_ok base B m xs" "x \<in> set xs"
  have c: "unat x + 16 * unat (hsize m x) \<le> fin m x" by (simp add: fin_def)
  then have "unat x + 16 * unat (hsize m x) \<le> 2 ^ 36" using heap_okD(7) [OF h] heap_okD(11) [OF h(1)] by linarith
  then show "unat (plus_headers x (hsize m x)) \<le> fin m x" using unat_plus_headers c by simp
qed

lemma take_whole:
  assumes h: "heap_ok base B m (ys @ q # p # zs)" and n: "hsize m p \<noteq> 0"
  shows "took base B m (ys @ q # p # zs) (hsize m p) (store64 q (hptr m p) m) (ys @ q # zs) p"
proof -
  let ?m = "store64 q (hptr m p) m"
  have q: "fits q" "fin m q \<le> B" using heap_okD(7,8) [OF h, of q] by simp_all
  have o: "only_in (hdr q) m ?m" by (rule only_in_store(1) [OF q(1)])
  have s: "hptr ?m x = hptr m x \<and> hsize ?m x = hsize m x" if "x \<in> set (ys @ p # zs)" for x
    using hdr_cong [OF _ o] heap_okD(8) [OF h, of x] heap_ok_disjoint(2) [OF h, of x] that by auto
  have sz: "hsize ?m x = hsize m x" if "x \<in> set (ys @ q # p # zs)" for x using s that q(1) by (cases "x = q") auto
  have b: "before ?m x = before m x" "fin ?m x = fin m x" if "x \<in> set (ys @ q # p # zs)" for x
    using before_cong [OF sz [OF that]] by simp_all
  have l: "hptr m p = hd (zs @ [base])" "fl_links m zs base" using heap_okD(4) [OF h] by (simp_all add: fl_links_append)
  have su: "successively (before m) (q # p # zs)" using heap_okD(6) [OF h] by (simp add: successively_append_iff)
  have "successively (before ?m) zs = successively (before m) zs" by (rule successively_cong) (use b in auto)
  then have z: "successively (before ?m) zs" using su by (auto simp: successively_Cons)
  have "before m q (hd zs)" if "zs \<noteq> []"
  proof -
    have "fin m q \<le> unat p" "fin m p \<le> unat (hd zs)" using su that by (auto simp: before_def successively_Cons)
    then show ?thesis using plus_headers_le [OF h, of q] fin_gt [of p m] by (auto simp: before_def)
  qed
  then have "successively (before ?m) (q # zs)" using z b(1) [of q] by (auto simp: successively_Cons)
  moreover have "x \<noteq> base" if "x \<in> set zs" for x using that heap_distinct [OF h] heap_okD(2) [OF h] by (cases ys) auto
  moreover have "fl_links ?m zs base" using fl_links_cong [of zs ?m m base] s l(2) by simp
  moreover have "if q = base then hsize ?m q = 0 else hsize ?m q \<noteq> 0"
    using heap_okD(9) [OF h] heap_okD(12) [OF h, of q] sz [of q] by auto
  ultimately have ok: "heap_ok base B ?m (ys @ q # zs)"
    using s sz b(2) heap_okD(7,12) [OF h] l(1) by (intro heap_ok_splice [OF h]) auto
  have f: "free_bytes ?m (ys @ q # zs) = free_bytes m (ys @ q # zs)" "span ?m p = span m p"
    using sz by (auto intro!: free_bytes_cong span_cong simp del: free_bytes_append)
  have "span m p \<inter> free_bytes m ((ys @ [q]) @ zs) = {}" by (rule heap_ok_disjoint(1)) (use h in simp)
  then have "free_bytes ?m (ys @ q # zs) = free_bytes m (ys @ q # p # zs) - span m p" unfolding f by auto
  moreover have "only_in (free_bytes m (ys @ q # p # zs) \<union> hdr base) m ?m" by (rule only_in_mono [OF o hdr_free [OF h]]) simp
  ultimately show ?thesis using ok sz [of p] f(2) by (auto simp: took_def)
qed

text \<open>The two headers after a block is split.\<close>

lemma split_headers:
  assumes p: "fin m p \<le> B" "B \<le> 2 ^ 36" and n: "nu \<noteq> 0" "nu < hsize m p" and k: "k = hsize m p - nu"
    and b: "b = plus_headers p k" and m2: "m2 = store32 (b + 8) nu (store32 (p + 8) k m)"
  shows "unat b = unat p + 16 * unat k" "unat k + unat nu = unat (hsize m p)" "k \<noteq> 0" "fits b" "hdr p \<inter> hdr b = {}"
    "hsize m2 p = k" "hptr m2 p = hptr m p" "hsize m2 b = nu" "only_in (span m p) m m2"
proof -
  have u: "unat k = unat (hsize m p) - unat nu" "unat nu < unat (hsize m p)" "0 < unat nu"
    using n k unat_sub [OF less_imp_le [OF n(2)]] by (simp_all add: word_less_nat_alt unat_gt_0)
  then show s: "unat k + unat nu = unat (hsize m p)" "k \<noteq> 0" by (auto simp: unat_gt_0 [symmetric])
  have f: "fin m p = unat p + 16 * unat (hsize m p)" using u(2) by (simp add: fin_def max_def)
  have "unat p + 16 * unat k \<le> 2 ^ 36" using f p u by simp
  then show ub: "unat b = unat p + 16 * unat k" unfolding b by (rule unat_plus_headers)
  have "unat b + 16 * unat nu = fin m p" using f ub s(1) by simp
  then show fb: "fits b" using p u(3) by (simp add: fits_def)
  have fp: "fits p" using f p u(2) by (simp add: fits_def)
  show d: "hdr p \<inter> hdr b = {}" using ub s(2) unat_gt_0 [of k] by (auto simp: hdr_def)
  let ?m1 = "store32 (p + 8) k m"
  have o: "only_in (hdr p) m ?m1" "only_in (hdr b) ?m1 m2" unfolding m2 by (rule only_in_store(2) [OF fp] only_in_store(2) [OF fb])+
  show "hsize m2 p = k" "hptr m2 p = hptr m p" using hdr_cong [OF fp o(2) d] fp by simp_all
  show "hsize m2 b = nu" unfolding m2 by simp
  have "hdr p \<subseteq> span m p" "hdr b \<subseteq> span m p" using u ub s(1) by (auto simp: hdr_def span_def)
  then show "only_in (span m p) m m2" using only_in_mono [OF only_in_trans [OF o]] by blast
qed

lemma take_part:
  assumes h: "heap_ok base B m (ys @ p # zs)" and n: "nu \<noteq> 0" "nu < hsize m p" and k: "k = hsize m p - nu"
    and b: "b = plus_headers p k" and m2: "m2 = store32 (b + 8) nu (store32 (p + 8) k m)"
  shows "took base B m (ys @ p # zs) nu m2 (ys @ p # zs) b"
proof -
  have fp: "fin m p \<le> B" using heap_okD(7) [OF h, of p] by simp
  note sp = split_headers [OF fp heap_okD(11) [OF h] n k b m2]
  have nb: "p \<noteq> base" using n(2) heap_okD(9) [OF h] by auto
  have s: "hptr m2 x = hptr m x \<and> hsize m2 x = hsize m x" if "x \<in> set (ys @ zs)" for x
  proof -
    have "hdr x \<inter> span m p = {}"
    proof (cases "x = base")
      case True
      have "unat base + 16 \<le> unat p" using heap_okD(14) [OF h, of p] nb by simp
      then show ?thesis using True by (auto simp: hdr_def span_def)
    next
      case False
      then have "hdr x \<subseteq> span m x" using heap_okD(12) [OF h, of x] that unat_gt_0 [of "hsize m x"] by (auto simp: hdr_def span_def)
      moreover have "span m x \<inter> span m p = {}" using heap_ok_disjoint(1) [OF h] that by (auto simp: free_bytes_def)
      ultimately show ?thesis by blast
    qed
    then show ?thesis using hdr_cong [OF _ sp(9)] heap_okD(8) [OF h, of x] that by auto
  qed
  have bc: "before m2 x = before m x" "fin m2 x = fin m x" if "x \<in> set (ys @ zs)" for x
    using before_cong s [OF that] by blast+
  have fn: "fin m2 p < fin m p" "unat (plus_headers p k) < fin m p"
    using sp(1-3) n(1) b fin_block [of m2 p] sp(6) unat_gt_0 [of nu] unat_gt_0 [of k] by (simp_all add: fin_def max_def)
  have su: "successively (before m) (p # zs)" using heap_okD(6) [OF h] by (simp add: successively_append_iff)
  have "successively (before m2) zs = successively (before m) zs" by (rule successively_cong) (use bc in auto)
  then have "successively (before m2) (p # zs)" using su fn sp(6) by (cases zs) (auto simp: before_def)
  moreover have "fl_links m2 (p # zs) base"
    using fl_links_cong [of zs m2 m base] s sp(7) heap_okD(4) [OF h] by (simp add: fl_links_append)
  moreover have "x \<noteq> base" if "x \<in> set zs" for x using that heap_distinct [OF h] heap_okD(2) [OF h] by (cases ys) auto
  moreover have "fin m2 p \<le> B" using fn(1) fp by simp
  ultimately have ok: "heap_ok base B m2 (ys @ p # zs)"
    using s bc(2) nb sp(3,6) heap_okD(7,12) [OF h] by (intro heap_ok_splice [OF h]) (auto intro: order.trans)
  have f: "free_bytes m2 ys = free_bytes m ys" "free_bytes m2 zs = free_bytes m zs" using s by (auto intro!: free_bytes_cong)
  have spn: "span m p = span m2 p \<union> span m2 b" "span m2 p \<inter> span m2 b = {}" using sp by (auto simp: span_def)
  then have "free_bytes m2 (ys @ p # zs) = free_bytes m (ys @ p # zs) - span m2 b"
    using heap_ok_disjoint(1) [OF h] f by auto
  moreover have "only_in (free_bytes m (ys @ p # zs) \<union> hdr base) m m2" by (rule only_in_mono [OF sp(9)]) auto
  ultimately show ?thesis using ok sp(8) spn by (auto simp: took_def)
qed

text \<open>The search finds a block that is large enough.\<close>

lemma malloc_hit:
  assumes h: "heap_ok base B (umem s) xs" and q: "q \<in> set xs" "hptr (umem s) q = p" and n: "nunits \<noteq> 0" "nunits \<le> hsize (umem s) p"
  shows "\<exists>m' xs' bp. malloc_loop us (Suc fuel) nunits q p e s = Ok (bp + sizeof_Header) e (s\<lparr>umem := m', freep := q\<rparr>)
     \<and> took base B (umem s) xs nunits m' xs' bp \<and> q \<in> set xs'"
proof -
  let ?m = "umem s"
  obtain ys rs where xs: "xs = ys @ q # rs" using q(1) by (auto dest: split_list)
  have "hd (rs @ [base]) = p" using heap_okD(4) [OF h] xs q(2) by (simp add: fl_links_append)
  moreover have "p \<noteq> base" using n heap_okD(9) [OF h] by auto
  ultimately obtain zs where rs: "rs = p # zs" by (cases rs) auto
  have sz: "hsize ?m p \<noteq> 0" using n by auto
  show ?thesis
  proof (cases "hsize ?m p = nunits")
    case True
    then show ?thesis using take_whole [OF h [unfolded xs rs] sz] xs rs
      by (intro exI [of _ "store64 q (hptr ?m p) ?m"] exI [of _ "ys @ q # zs"] exI [of _ p]) simp
  next
    case False
    let ?k = "hsize ?m p - nunits"
    let ?b = "plus_headers p ?k"
    have lt: "nunits < hsize ?m p" using n(2) False by simp
    have "heap_ok base B ?m ((ys @ [q]) @ p # zs)" using h xs rs by simp
    from take_part [OF this n(1) lt refl refl refl] show ?thesis using n(2) False xs rs
      by (intro exI [of _ "store32 (?b + 8) nunits (store32 (p + 8) ?k ?m)"] exI [of _ xs] exI [of _ ?b]) (simp add: Let_def)
  qed
qed

lemma malloc_walk:
  assumes "fl_links (umem s) (vs @ x # ws) q0" "hptr (umem s) q = hd (vs @ [x])"
    and "\<forall>u \<in> set vs. hsize (umem s) u < nunits \<and> u \<noteq> freep s"
  shows "\<exists>q'. malloc_loop us (length vs + fuel) nunits q (hd (vs @ [x])) e s = malloc_loop us fuel nunits q' x e s
     \<and> hptr (umem s) q' = x \<and> q' \<in> set (q # vs)"
  using assms
proof (induction vs arbitrary: q)
  case Nil
  then show ?case by auto
next
  case (Cons v vs)
  have "hptr (umem s) v = hd (vs @ [x])" using Cons(2) by (cases vs) simp_all
  moreover have "\<not> nunits \<le> hsize (umem s) v" "v \<noteq> freep s" using Cons(4) by (simp_all add: not_le)
  ultimately show ?case using Cons.IH [of v] Cons(2,4) by auto
qed

text \<open>The list, from the block behind \<open>freep\<close> on to \<open>freep\<close> itself.\<close>

lemma round_trip:
  assumes h: "heap_ok base B m xs" and f: "fp \<in> set xs"
  obtains vs where "fl_links m (vs @ [fp]) (hd (vs @ [fp]))" "hptr m fp = hd (vs @ [fp])" "set (vs @ [fp]) = set xs" "fp \<notin> set vs"
    "Suc (length vs) = length xs"
proof -
  obtain bs as where xs: "xs = as @ fp # bs" using f by (auto dest: split_list)
  have hd: "hd (as @ [fp]) = base" using heap_okD(2) [OF h] xs by (cases as) auto
  then have hd': "hd (as @ [fp, z]) = base" for z by (cases as) auto
  have l: "fl_links m as fp" "hptr m fp = hd (bs @ [base])" "fl_links m bs base"
    using heap_okD(4) [OF h] xs by (simp_all add: fl_links_append)
  have hb: "hd (bs @ [base]) = hd ((bs @ as) @ [fp])" using hd by (cases bs) auto
  have "fl_links m ((bs @ as) @ [fp]) (hd ((bs @ as) @ [fp]))"
    using l hd' hb by (simp add: fl_links_append)
  then show thesis using that [of "bs @ as"] l(2) hb xs heap_distinct [OF h] by auto
qed

lemma malloc_finds:
  assumes h: "heap_ok base B (umem s) xs" and f: "freep s \<in> set xs" "length xs < fuel"
    and n: "nunits \<noteq> 0" "x \<in> set xs" "nunits \<le> hsize (umem s) x"
  shows "\<exists>m' xs' bp q. malloc_loop us fuel nunits (freep s) (hptr (umem s) (freep s)) e s = Ok (bp + sizeof_Header) e (s\<lparr>umem := m', freep := q\<rparr>)
     \<and> took base B (umem s) xs nunits m' xs' bp \<and> q \<in> set xs'"
proof -
  obtain vs where v: "fl_links (umem s) (vs @ [freep s]) (hd (vs @ [freep s]))" "hptr (umem s) (freep s) = hd (vs @ [freep s])"
    "set (vs @ [freep s]) = set xs" "freep s \<notin> set vs" "Suc (length vs) = length xs"
    by (rule round_trip [OF h f(1)])
  have "\<exists>x \<in> set (vs @ [freep s]). nunits \<le> hsize (umem s) x" using n(2,3) v(3) by blast
  then obtain us1 y ws where us: "vs @ [freep s] = us1 @ y # ws" "nunits \<le> hsize (umem s) y" "\<forall>u \<in> set us1. \<not> nunits \<le> hsize (umem s) u"
    by (rule split_list_first_propE)
  have sub: "set us1 \<subseteq> set vs" "length us1 \<le> length vs" "hd (vs @ [freep s]) = hd (us1 @ [y])"
    using us(1) by (cases ws rule: rev_cases; cases us1; auto simp: append_eq_append_conv2)+
  have "length us1 + Suc (fuel - length us1 - 1) = fuel" using sub(2) v(5) f(2) by simp
  moreover have "\<forall>u \<in> set us1. hsize (umem s) u < nunits \<and> u \<noteq> freep s" using us(3) sub(1) v(4) by (auto simp: not_le)
  moreover note malloc_walk [of s us1 y ws "hd (vs @ [freep s])" "freep s" nunits us "Suc (fuel - length us1 - 1)" e]
  ultimately obtain q' where q: "malloc_loop us fuel nunits (freep s) (hptr (umem s) (freep s)) e s = malloc_loop us (Suc (fuel - length us1 - 1)) nunits q' y e s"
    "hptr (umem s) q' = y" "q' \<in> set (freep s # us1)"
    using v(1,2) us(1) sub(3) by auto
  have "q' \<in> set xs" using q(3) sub(1) v(3) by auto
  then show ?thesis using malloc_hit [OF h _ q(2) n(1) us(2), of us "fuel - length us1 - 1" e] q(1) by metis
qed

text \<open>What \<open>malloc\<close> does to a heap: the bytes of the block were free or are new, and only free bytes and headers are written.\<close>

definition served :: "('k \<Rightarrow> nat) \<Rightarrow> u64 \<Rightarrow> u32 \<Rightarrow> mem \<Rightarrow> 'k \<Rightarrow> u64 list \<Rightarrow> mem \<Rightarrow> 'k \<Rightarrow> u64 list \<Rightarrow> u64 \<Rightarrow> bool" where
  "served brk base nu m k xs m' k' xs' bp \<longleftrightarrow> heap_ok base (brk k') m' xs' \<and> length xs' \<le> Suc (length xs) \<and> hsize m' bp = nu
     \<and> brk k \<le> brk k' \<and> span m' bp \<subseteq> free_bytes m xs \<union> {brk k..<brk k'}
     \<and> free_bytes m' xs' = (free_bytes m xs \<union> {brk k..<brk k'}) - span m' bp
     \<and> only_in (free_bytes m xs \<union> {brk k..<brk k'} \<union> hdr base) m m'"

lemma malloc_misses:
  assumes h: "heap_ok base B (umem s) xs" and f: "freep s \<in> set xs" and n: "\<forall>x \<in> set xs. \<not> nunits \<le> hsize (umem s) x"
  shows "malloc_loop us (length xs + fuel) nunits (freep s) (hptr (umem s) (freep s)) e s =
    bnd (morecore us fuel nunits) (\<lambda>p. if p = 0 then return 0 else bnd (s_ptr p) (\<lambda>q. malloc_loop us fuel nunits p q)) e s"
proof -
  obtain vs where v: "fl_links (umem s) (vs @ [freep s]) (hd (vs @ [freep s]))" "hptr (umem s) (freep s) = hd (vs @ [freep s])"
    "set (vs @ [freep s]) = set xs" "freep s \<notin> set vs" "Suc (length vs) = length xs"
    by (rule round_trip [OF h f])
  have "\<forall>u \<in> set vs. hsize (umem s) u < nunits \<and> u \<noteq> freep s" using n v(3,4) by (auto simp: not_le)
  then obtain q' where q: "malloc_loop us (length vs + Suc fuel) nunits (freep s) (hd (vs @ [freep s])) e s
      = malloc_loop us (Suc fuel) nunits q' (freep s) e s"
    using malloc_walk [of s vs "freep s" "[]" "hd (vs @ [freep s])" "freep s" nunits us "Suc fuel" e] v(1,2) by auto
  have l: "length xs + fuel = length vs + Suc fuel" using v(5) by simp
  have "\<not> nunits \<le> hsize (umem s) (freep s)" using n f by blast
  then have "malloc_loop us (Suc fuel) nunits q' (freep s) e s =
    bnd (morecore us fuel nunits) (\<lambda>p. if p = 0 then return 0 else bnd (s_ptr p) (\<lambda>q. malloc_loop us fuel nunits p q)) e s"
    by simp
  then show ?thesis unfolding l v(2) q .
qed

lemma malloc_loop_spec:
  assumes g: "sbrk_grows us brk" and h: "heap_ok base (brk (kern s)) (umem s) xs" and f: "freep s \<in> set xs" "2 * length xs + 2 \<le> fuel"
    and n: "nunits \<noteq> 0" "16 * unat nunits < 2 ^ 31"
  obtains (fails) k' where "malloc_loop us fuel nunits (freep s) (hptr (umem s) (freep s)) e s = Ok 0 e (s\<lparr>kern := k'\<rparr>)"
      "brk k' = brk (kern s)"
  | (serves) m' xs' bp q k' where "malloc_loop us fuel nunits (freep s) (hptr (umem s) (freep s)) e s
        = Ok (bp + sizeof_Header) e (s\<lparr>umem := m', freep := q, kern := k'\<rparr>)"
      "served brk base nunits (umem s) (kern s) xs m' k' xs' bp" "q \<in> set xs'"
proof (cases "\<exists>x \<in> set xs. nunits \<le> hsize (umem s) x")
  case True
  have fl: "length xs < fuel" using f(2) by simp
  from True obtain m' xs' bp q where "malloc_loop us fuel nunits (freep s) (hptr (umem s) (freep s)) e s = Ok (bp + sizeof_Header) e (s\<lparr>umem := m', freep := q\<rparr>)"
    "took base (brk (kern s)) (umem s) xs nunits m' xs' bp" "q \<in> set xs'"
    using malloc_finds [OF h f(1) fl n(1), of _ us e] by blast
  then have "malloc_loop us fuel nunits (freep s) (hptr (umem s) (freep s)) e s = Ok (bp + sizeof_Header) e (s\<lparr>umem := m', freep := q, kern := kern s\<rparr>)"
    "served brk base nunits (umem s) (kern s) xs m' (kern s) xs' bp" "q \<in> set xs'" by (auto simp: took_def served_def)
  then show thesis by (rule serves)
next
  case False
  define fl where "fl = fuel - length xs"
  have fl: "fuel = length xs + fl" "length xs \<le> fl" "Suc (length xs) < fl" using f(2) by (auto simp: fl_def)
  have r: "malloc_loop us fuel nunits (freep s) (hptr (umem s) (freep s)) e s =
    bnd (morecore us fl nunits) (\<lambda>p. if p = 0 then return 0 else bnd (s_ptr p) (\<lambda>q. malloc_loop us fl nunits p q)) e s"
    unfolding fl(1) by (rule malloc_misses [OF h f(1)]) (use False in blast)
  show thesis
  proof (cases rule: morecore_spec [OF g h f(1) fl(2) n(2), of e])
    case (1 k')
    then show thesis using r by (intro fails [of k']) simp_all
  next
    case (2 m1 xs1 p k')
    let ?s1 = "s\<lparr>umem := m1, freep := p, kern := k'\<rparr>"
    note x = 2(3) [unfolded extended_def]
    from x obtain y where "y \<in> set xs1" "nunits \<le> hsize m1 y" by blast
    moreover have "length xs1 < fl" using x fl(3) by linarith
    ultimately obtain m' xs' bp q where "malloc_loop us fl nunits p (hptr m1 p) e ?s1 = Ok (bp + sizeof_Header) e (?s1\<lparr>umem := m', freep := q\<rparr>)"
      and t: "took base (brk k') m1 xs1 nunits m' xs' bp" "q \<in> set xs'"
      using malloc_finds [of base "brk k'" ?s1 xs1 fl nunits y us e] x n(1) by auto
    moreover have "only_in (free_bytes (umem s) xs \<union> {brk (kern s)..<brk k'} \<union> hdr base) (umem s) m'"
      by (rule only_in_mono [OF only_in_trans [of "free_bytes (umem s) xs \<union> {brk (kern s)..<brk k'} \<union> hdr base" _ m1 "free_bytes m1 xs1 \<union> hdr base"]])
        (use x t(1) in \<open>auto simp: took_def\<close>)
    moreover from this have "served brk base nunits (umem s) (kern s) xs m' k' xs' bp" using x t(1) by (auto simp: took_def served_def)
    moreover from calculation(1) have "malloc_loop us fuel nunits (freep s) (hptr (umem s) (freep s)) e s
        = Ok (bp + sizeof_Header) e (s\<lparr>umem := m', freep := q, kern := k'\<rparr>)" using r 2(1,2) by simp
    ultimately show thesis using serves t(2) by blast
  qed
qed

subsection \<open>Programs that allocate\<close>

lemma nunits_bounds:
  shows "unat (nunits_of n) = (unat n + 15) div 16 + 1" "nunits_of n \<noteq> 0" "unat n + 16 \<le> 16 * unat (nunits_of n)"
    "unat n + 32 \<le> 2 ^ 31 \<Longrightarrow> 16 * unat (nunits_of n) < 2 ^ 31"
proof -
  have n: "unat n < 2 ^ 32" using unsigned_less [of n] by simp
  have u: "unat (ucast n :: u64) = unat n" using n by (simp add: unsigned_ucast_eq take_bit_nat_eq_self)
  have e: "ucast n + sizeof_Header - 1 = (ucast n + 15 :: u64)" by (simp add: sizeof_Header_def)
  have "unat (ucast n + 15 :: u64) = unat n + 15" using n u by (simp add: unat_add64)
  then have "unat ((ucast n + 15 :: u64) div sizeof_Header + 1) = (unat n + 15) div 16 + 1"
    using n by (simp add: unat_add64 unat_div sizeof_Header_def)
  then show a: "unat (nunits_of n) = (unat n + 15) div 16 + 1"
    using n unfolding nunits_of_def e by (simp add: unsigned_ucast_eq take_bit_nat_eq_self)
  then show "nunits_of n \<noteq> 0" by auto
  have d: "16 * ((unat n + 15) div 16) \<le> unat n + 15" "unat n \<le> 16 * ((unat n + 15) div 16)" by presburger+
  then show "unat n + 16 \<le> 16 * unat (nunits_of n)" unfolding a distrib_left by simp
  show "unat n + 32 \<le> 2 ^ 31 \<Longrightarrow> 16 * unat (nunits_of n) < 2 ^ 31" using d(1) unfolding a distrib_left by simp
qed

text \<open>
  The bound on the requests is needed: for the largest ones \<open>morecore\<close> asks \<open>sbrk\<close> for no bytes at all, because the
  number of bytes does not fit into an \<open>int\<close>.
\<close>

lemma huge_request_wraps: "sint (ucast (ucast (nunits_of 0xFFFFFFF0) * sizeof_Header :: u64) :: u32) = 0"
  by (simp add: nunits_of_def sizeof_Header_def)

text \<open>
  A program allocates blocks, frees blocks that it has and stores bytes in them. It knows the address of each of its
  blocks and, for the statement, the bytes that it expects in it: those it found there at first, with its own stores.
\<close>

datatype uop = Malloc u32 | Free nat | Store nat nat u8

definition do_op :: "'k usys \<Rightarrow> u64 \<Rightarrow> nat \<Rightarrow> uop \<Rightarrow> (u64 \<times> u8 list) list \<Rightarrow> ('k, (u64 \<times> u8 list) list) H" where
  "do_op us base fuel op os = (case op of
     Malloc n \<Rightarrow>
       bnd (malloc us base fuel n) (\<lambda>r.
       if r = 0 then return os
       else gets (\<lambda>s. (r, map (\<lambda>j. umem s (r + of_nat j)) [0..<unat n]) # os))
   | Free i \<Rightarrow>
       if i < length os then seq (u_free fuel (fst (os ! i))) (return (take i os @ drop (Suc i) os)) else return os
   | Store i j v \<Rightarrow>
       if i < length os \<and> j < length (snd (os ! i)) then
         seq (modify (\<lambda>s. s\<lparr>umem := (umem s)(fst (os ! i) + of_nat j := v)\<rparr>))
         (return (os[i := (fst (os ! i), (snd (os ! i))[j := v])]))
       else return os)"

primrec run_ops :: "'k usys \<Rightarrow> u64 \<Rightarrow> nat \<Rightarrow> uop list \<Rightarrow> (u64 \<times> u8 list) list \<Rightarrow> ('k, (u64 \<times> u8 list) list) H" where
  "run_ops us base fuel [] os = return os"
| "run_ops us base fuel (op # ops) os = bnd (do_op us base fuel op os) (run_ops us base fuel ops)"

text \<open>The bytes of a block with its header, and what a program relies on for a block that it has.\<close>

definition area :: "u64 \<times> u8 list \<Rightarrow> nat set" where
  "area = (\<lambda>(r, cs). {unat r - 16..<unat r - 16 + 16 * unat (nunits_of (of_nat (length cs)))})"

definition owned :: "u64 \<Rightarrow> nat \<Rightarrow> mem \<Rightarrow> u64 \<times> u8 list \<Rightarrow> bool" where
  "owned base B m = (\<lambda>(r, cs). hsize m (r - sizeof_Header) = nunits_of (of_nat (length cs)) \<and> length cs + 32 \<le> 2 ^ 31
     \<and> unat base + 32 \<le> unat r \<and> area (r, cs) \<subseteq> {..<B} \<and> (\<forall>j < length cs. m (r + of_nat j) = cs ! j))"

definition ready :: "('k \<Rightarrow> nat) \<Rightarrow> u64 \<Rightarrow> nat \<Rightarrow> 'k heap_state \<Rightarrow> (u64 \<times> u8 list) list \<Rightarrow> u64 list \<Rightarrow> bool" where
  "ready brk base L s os xs \<longleftrightarrow> heap_ok base (brk (kern s)) (umem s) xs \<and> freep s \<in> set xs \<and> length xs \<le> L \<and> 1 \<le> L
     \<and> (\<forall>b \<in> set os. owned base (brk (kern s)) (umem s) b \<and> area b \<inter> free_bytes (umem s) xs = {})
     \<and> sorted_wrt (\<lambda>b c. area b \<inter> area c = {}) os"

definition heap_inv :: "('k \<Rightarrow> nat) \<Rightarrow> u64 \<Rightarrow> nat \<Rightarrow> 'k heap_state \<Rightarrow> (u64 \<times> u8 list) list \<Rightarrow> bool" where
  "heap_inv brk base L s os \<longleftrightarrow> (\<exists>xs. ready brk base L s os xs)
     \<or> freep s = 0 \<and> os = [] \<and> base \<noteq> 0 \<and> unat base + 16 \<le> brk (kern s) \<and> brk (kern s) \<le> 2 ^ 36 \<and> 1 \<le> L"

lemma unat_minus_header: "16 \<le> unat r \<Longrightarrow> unat (r - sizeof_Header) = unat r - 16"
  by (simp add: sizeof_Header_def unat_sub word_le_nat_alt)

lemma owned_span:
  assumes "owned base B m (r, cs)"
  shows "span m (r - sizeof_Header) = area (r, cs)"
  using assms unat_minus_header [of r] by (auto simp: owned_def span_def area_def)

text \<open>The bytes of a block lie in its area.\<close>

lemma unat_of_length: "n + 32 \<le> 2 ^ 31 \<Longrightarrow> unat (of_nat n :: u32) = n"
  by (simp add: unsigned_of_nat take_bit_nat_eq_self)

lemma in_area:
  assumes "owned base B m (r, cs)" "B \<le> 2 ^ 36" "j < length cs"
  shows "unat (r + of_nat j) = unat r + j" "unat r + j \<in> area (r, cs)"
proof -
  have l: "length cs + 16 \<le> 16 * unat (nunits_of (of_nat (length cs)))" "16 \<le> unat r"
    using assms(1) nunits_bounds(3) [of "of_nat (length cs)"] unat_of_length [of "length cs"] by (auto simp: owned_def)
  then show "unat r + j \<in> area (r, cs)" using assms(3) by (auto simp: area_def)
  then have "unat r + j < B" using assms(1) by (auto simp: owned_def)
  then show "unat (r + of_nat j) = unat r + j"
    using assms(2) by (simp add: unat_add64 unsigned_of_nat take_bit_nat_eq_self)
qed

lemma owned_frame:
  assumes o: "owned base B m b" and i: "only_in A m m'" "A \<inter> area b = {}" and B: "B \<le> B'" "B \<le> 2 ^ 36"
  shows "owned base B' m' b"
proof -
  obtain r cs where b: "b = (r, cs)" by fastforce
  note o = o [unfolded b]
  have r: "16 \<le> unat r" "unat r < 2 ^ 64" using o unat_lt64 [of r] by (auto simp: owned_def)
  have a: "hdr (r - sizeof_Header) \<subseteq> area b"
    using unat_minus_header [OF r(1)] nunits_bounds(3) [of "of_nat (length cs)"] unfolding b by (auto simp: hdr_def area_def)
  have "fits (r - sizeof_Header)" using unat_minus_header [OF r(1)] r by (simp add: fits_def)
  then have "hsize m' (r - sizeof_Header) = hsize m (r - sizeof_Header)" using hdr_cong(2) [OF _ i(1)] a i(2) by blast
  moreover have "m' (r + of_nat j) = m (r + of_nat j)" if "j < length cs" for j
    using in_area [OF o B(2) that] i unfolding only_in_def b by (metis disjoint_iff)
  ultimately show ?thesis using o B(1) unfolding b by (auto simp: owned_def)
qed

text \<open>The first call makes \<open>base\<close> the free list.\<close>

lemma malloc_ready:
  assumes "heap_inv brk base L s os"
  obtains s1 xs where "malloc us base fuel n e s = malloc_loop us fuel (nunits_of n) (freep s1) (hptr (umem s1) (freep s1)) e s1"
    "ready brk base L s1 os xs" "kern s1 = kern s"
proof (cases "freep s = 0")
  case True
  have "\<not> ready brk base L s os xs" for xs using True heap_okD(13) [of base _ _ xs 0] by (auto simp: ready_def)
  with assms have i: "os = []" "base \<noteq> 0" "unat base + 16 \<le> brk (kern s)" "brk (kern s) \<le> 2 ^ 36" "1 \<le> L"
    by (auto simp: heap_inv_def)
  then have fb: "fits base" by (simp add: fits_def)
  let ?m = "store32 (base + 8) 0 (store64 base base (umem s))"
  let ?s = "s\<lparr>freep := base, umem := ?m\<rparr>"
  have "heap_ok base (brk (kern s)) ?m [base]" using i fb by (simp add: heap_ok_def fin_def)
  then have "ready brk base L ?s os [base]" using i by (simp add: ready_def)
  moreover have "malloc us base fuel n e s = malloc_loop us fuel (nunits_of n) (freep ?s) (hptr (umem ?s) (freep ?s)) e ?s"
    using True fb by (simp add: malloc_def)
  ultimately show thesis using that [of ?s] by simp
next
  case False
  then obtain xs where "ready brk base L s os xs" using assms by (auto simp: heap_inv_def)
  moreover have "malloc us base fuel n e s = malloc_loop us fuel (nunits_of n) (freep s) (hptr (umem s) (freep s)) e s"
    using False by (simp add: malloc_def)
  ultimately show thesis using that by blast
qed

lemma ready_frame:
  assumes r: "ready brk base L s os xs" and s': "heap_ok base (brk (kern s')) (umem s') xs'" "freep s' \<in> set xs'" "length xs' \<le> L'" "1 \<le> L'"
    and o: "only_in A (umem s) (umem s')" "\<forall>b \<in> set os'. b \<in> set os \<and> A \<inter> area b = {} \<and> area b \<inter> free_bytes (umem s') xs' = {}"
      "sorted_wrt (\<lambda>b c. area b \<inter> area c = {}) os'" "brk (kern s) \<le> brk (kern s')"
  shows "ready brk base L' s' os' xs'"
proof -
  have B: "brk (kern s) \<le> 2 ^ 36" using r heap_okD(11) by (auto simp: ready_def)
  have "owned base (brk (kern s')) (umem s') b" if "b \<in> set os'" for b
  proof -
    have b: "b \<in> set os" "A \<inter> area b = {}" using o(2) that by auto
    then have "owned base (brk (kern s)) (umem s) b" using r by (simp add: ready_def)
    then show ?thesis by (rule owned_frame [OF _ o(1) b(2) o(4) B])
  qed
  then show ?thesis using s' o(2,3) by (auto simp: ready_def)
qed

lemma ready_areas:
  assumes "ready brk base L s os xs" "b \<in> set os"
  shows "area b \<inter> (free_bytes (umem s) xs \<union> {brk (kern s)..<K} \<union> hdr base) = {}"
proof -
  obtain r cs where b: "b = (r, cs)" by fastforce
  have o: "owned base (brk (kern s)) (umem s) (r, cs)" "area b \<inter> free_bytes (umem s) xs = {}" using assms b by (auto simp: ready_def)
  then show ?thesis unfolding b by (auto simp: owned_def area_def hdr_def)
qed

lemma free_ge:
  assumes "heap_ok base B m xs" "a \<in> free_bytes m xs"
  shows "unat base + 16 \<le> a"
proof -
  obtain x where x: "x \<in> set xs" "a \<in> span m x" using assms(2) by (auto simp: free_bytes_def)
  then have "x \<noteq> base" using heap_okD(9) [OF assms(1)] by (auto simp: span_def)
  then show ?thesis using heap_okD(14) [OF assms(1) x(1)] x(2) by (auto simp: span_def)
qed

lemma served_owned:
  assumes h: "heap_ok base (brk k) m xs" and v: "served brk base (nunits_of n) m k xs m' k' xs' bp" and n: "unat n + 32 \<le> 2 ^ 31"
    and b: "b = (bp + sizeof_Header, map (\<lambda>j. m' (bp + sizeof_Header + of_nat j)) [0..<unat n])"
  shows "owned base (brk k') m' b" "area b = span m' bp" "bp + sizeof_Header \<noteq> 0"
proof -
  note v = v [unfolded served_def]
  have B: "brk k' \<le> 2 ^ 36" using v heap_okD(11) by blast
  have "unat bp \<in> span m' bp" using v nunits_bounds(2) [of n] by (simp add: span_def unat_gt_0)
  then have bp: "unat base + 16 \<le> unat bp" using v free_ge [OF h] heap_bounds(1) [OF h] by fastforce
  have F: "a < brk k'" if "a \<in> span m' bp" for a using that v heap_bounds(2) [OF h, of a] by fastforce
  have "unat bp + 16 * unat (nunits_of n) - 1 \<in> span m' bp" using v nunits_bounds(2) [of n] unat_gt_0 [of "nunits_of n"] by (auto simp: span_def)
  then have "unat bp + 16 * unat (nunits_of n) \<le> 2 ^ 36" using F B by fastforce
  then have r: "unat (bp + sizeof_Header) = unat bp + 16"
    using nunits_bounds(3) [of n] by (simp add: sizeof_Header_def unat_add64)
  then show "bp + sizeof_Header \<noteq> 0" by auto
  have l: "of_nat (length (snd b)) = n" "length (snd b) + 32 \<le> 2 ^ 31" using n b by simp_all
  then show a: "area b = span m' bp" using v r b by (simp add: area_def span_def)
  then show "owned base (brk k') m' b" using v r bp l F b by (auto simp: owned_def)
qed

lemma op_malloc:
  assumes g: "sbrk_grows us brk" and i: "heap_inv brk base L s os" and n: "unat n + 32 \<le> 2 ^ 31" and f: "2 * L + 2 \<le> fuel"
  shows "\<exists>os' s'. do_op us base fuel (Malloc n) os e s = Ok os' e s' \<and> heap_inv brk base (Suc L) s' os'"
proof -
  obtain s1 xs where m: "malloc us base fuel n e s = malloc_loop us fuel (nunits_of n) (freep s1) (hptr (umem s1) (freep s1)) e s1"
    and r: "ready brk base L s1 os xs" and k: "kern s1 = kern s" by (rule malloc_ready [OF i])
  have h: "heap_ok base (brk (kern s1)) (umem s1) xs" "freep s1 \<in> set xs" "2 * length xs + 2 \<le> fuel" "length xs \<le> L" "1 \<le> L"
    using r f by (auto simp: ready_def)
  show ?thesis
  proof (cases rule: malloc_loop_spec [OF g h(1-3) nunits_bounds(2) nunits_bounds(4) [OF n], of e])
    case (1 k')
    have "ready brk base (Suc L) (s1\<lparr>kern := k'\<rparr>) os xs" using r 1(2) by (auto simp: ready_def)
    then show ?thesis using m 1(1) by (auto simp: do_op_def heap_inv_def)
  next
    case (2 m' xs' bp q k')
    let ?s = "s1\<lparr>umem := m', freep := q, kern := k'\<rparr>" and ?F = "free_bytes (umem s1) xs \<union> {brk (kern s1)..<brk k'}"
    let ?b = "(bp + sizeof_Header, map (\<lambda>j. m' (bp + sizeof_Header + of_nat j)) [0..<unat n])"
    note v = 2(2) [unfolded served_def]
    have "heap_ok base (brk k') m' xs'" "length xs' \<le> Suc L" using v h(4) by simp_all
    moreover have d: "area b \<inter> ?F = {} \<and> area b \<inter> hdr base = {}" if "b \<in> set os" for b
      using ready_areas [OF r that, of "brk k'"] by blast
    ultimately have rd: "ready brk base (Suc L) ?s os xs'"
      using v 2(3) h(5) r by (intro ready_frame [OF r, where A = "?F \<union> hdr base"]) (auto simp: ready_def)
    note ow = served_owned [OF h(1) 2(2) n refl]
    have "area ?b \<inter> area b = {}" if "b \<in> set os" for b using d [OF that] ow(2) v by blast
    moreover have "area ?b \<inter> free_bytes m' xs' = {}" using ow(2) v by blast
    ultimately have "ready brk base (Suc L) ?s (?b # os) xs'" using rd ow(1) by (auto simp: ready_def)
    then show ?thesis using m 2(1) ow(3) by (auto simp: do_op_def heap_inv_def)
  qed
qed

lemma op_free:
  assumes i: "heap_inv brk base L s os" and f: "2 * L + 2 \<le> fuel"
  shows "\<exists>os' s'. do_op us base fuel (Free i) os e s = Ok os' e s' \<and> heap_inv brk base (Suc L) s' os'"
proof (cases "i < length os")
  case False
  have "heap_inv brk base (Suc L) s os" using i by (auto simp: heap_inv_def ready_def)
  then show ?thesis using False by (simp add: do_op_def)
next
  case True
  then obtain xs where r: "ready brk base L s os xs" using i by (auto simp: heap_inv_def)
  obtain ys zs p cs where os: "os = ys @ (p, cs) # zs" "take i os @ drop (Suc i) os = ys @ zs" "os ! i = (p, cs)"
    using id_take_nth_drop [OF True] by (metis surj_pair)
  let ?b = "(p, cs)" and ?bp = "p - sizeof_Header" and ?m = "umem s"
  have h: "heap_ok base (brk (kern s)) ?m xs" "freep s \<in> set xs" "length xs \<le> L" "length xs \<le> fuel" "1 \<le> L"
    "owned base (brk (kern s)) ?m ?b" "area ?b \<inter> free_bytes ?m xs = {}" "sorted_wrt (\<lambda>b c. area b \<inter> area c = {}) os"
    using r f os(1) by (auto simp: ready_def)
  have p: "unat ?bp = unat p - 16" "unat base + 32 \<le> unat p" using h(6) unat_minus_header [of p] by (auto simp: owned_def)
  then have bb: "unat base + 16 \<le> unat ?bp" by simp
  have sp: "span ?m ?bp = area ?b" by (rule owned_span [OF h(6)])
  have sz: "hsize ?m ?bp \<noteq> 0" using h(6) nunits_bounds(2) by (simp add: owned_def)
  then have "unat ?bp + 16 * unat (hsize ?m ?bp) - 1 \<in> area ?b"
    unfolding sp [symmetric] using unat_gt_0 [of "hsize ?m ?bp"] by (auto simp: span_def)
  then have B: "unat ?bp + 16 * unat (hsize ?m ?bp) \<le> brk (kern s)" using h(6) by (fastforce simp: owned_def)
  obtain m' xs' q where u: "u_free fuel p e s = Ok () e (s\<lparr>umem := m', freep := q\<rparr>)" and fr: "freed base (brk (kern s)) ?m xs ?bp m' xs' q"
    using u_free_spec [OF h(1,2,4) sz bb B, of e] h(7) sp by auto
  note fr = fr [unfolded freed_def]
  have hb: "hdr ?bp \<subseteq> area ?b" unfolding sp [symmetric] using sz unat_gt_0 [of "hsize ?m ?bp"] by (auto simp: hdr_def span_def)
  have hq: "hdr q \<subseteq> free_bytes ?m xs \<union> hdr base" using hdr_free [OF h(1)] fr by blast
  have d: "area c \<inter> area ?b = {}" if "c \<in> set (ys @ zs)" for c using that h(8) unfolding os(1) by (auto simp: sorted_wrt_append)
  have "ready brk base (Suc L) (s\<lparr>umem := m', freep := q\<rparr>) (ys @ zs) xs'"
  proof (rule ready_frame [OF r, where A = "hdr ?bp \<union> hdr q"])
    show "\<forall>c \<in> set (ys @ zs). c \<in> set os \<and> (hdr ?bp \<union> hdr q) \<inter> area c = {} \<and> area c \<inter> free_bytes (umem (s\<lparr>umem := m', freep := q\<rparr>)) xs' = {}"
    proof
      fix c assume c: "c \<in> set (ys @ zs)"
      then have "c \<in> set os" using os(1) by auto
      then show "c \<in> set os \<and> (hdr ?bp \<union> hdr q) \<inter> area c = {} \<and> area c \<inter> free_bytes (umem (s\<lparr>umem := m', freep := q\<rparr>)) xs' = {}"
        using ready_areas [OF r, of c 0] d [OF c] hb hq fr sp by auto
    qed
    show "sorted_wrt (\<lambda>b c. area b \<inter> area c = {}) (ys @ zs)" using h(8) unfolding os(1) by (auto simp: sorted_wrt_append)
  qed (use fr h(3) in auto)
  then show ?thesis using u True os by (auto simp: do_op_def heap_inv_def)
qed

text \<open>A store into a block changes that byte of it.\<close>

lemma owned_store:
  assumes o: "owned base B m (p, cs)" and B: "B \<le> 2 ^ 36" and j: "j < length cs"
  shows "owned base B (m(p + of_nat j := v)) (p, cs[j := v])" "only_in {unat p + j} m (m(p + of_nat j := v))"
proof -
  note a = in_area [OF o B]
  let ?m = "m(p + of_nat j := v)"
  have p: "16 \<le> unat p" "unat (p - sizeof_Header) = unat p - 16" using o unat_minus_header [of p] by (auto simp: owned_def)
  show i: "only_in {unat p + j} m ?m" using a(1) [OF j] by (auto simp: only_in_def)
  have "fits (p - sizeof_Header)" "hdr (p - sizeof_Header) \<inter> {unat p + j} = {}"
    using p unat_lt64 [of p] by (auto simp: fits_def hdr_def)
  from hdr_cong(2) [OF this(1) i this(2)] have "hsize ?m (p - sizeof_Header) = hsize m (p - sizeof_Header)" .
  moreover have "?m (p + of_nat k) = cs[j := v] ! k" if "k < length cs" for k
  proof (cases "k = j")
    case False
    then have "unat (p + of_nat k) \<noteq> unat (p + of_nat j)" unfolding a(1) [OF that] a(1) [OF j] by simp
    then show ?thesis using False o that by (auto simp: owned_def)
  qed (use j in simp)
  ultimately show "owned base B ?m (p, cs[j := v])" using o by (auto simp: owned_def area_def)
qed

lemma op_store:
  assumes i: "heap_inv brk base L s os"
  shows "\<exists>os' s'. do_op us base fuel (Store i j v) os e s = Ok os' e s' \<and> heap_inv brk base (Suc L) s' os'"
proof (cases "i < length os \<and> j < length (snd (os ! i))")
  case False
  have "heap_inv brk base (Suc L) s os" using i by (auto simp: heap_inv_def ready_def)
  then show ?thesis using False by (auto simp: do_op_def)
next
  case True
  then obtain xs where r: "ready brk base L s os xs" using i by (auto simp: heap_inv_def)
  obtain ys zs p cs where os: "os = ys @ (p, cs) # zs" "i = length ys" "os ! i = (p, cs)"
    using id_take_nth_drop [of i os] True by (metis length_take min.absorb2 nat_less_le surj_pair)
  let ?b = "(p, cs)" and ?c = "(p, cs[j := v])" and ?m = "umem s" and ?m' = "(umem s)(p + of_nat j := v)"
  let ?s = "s\<lparr>umem := ?m'\<rparr>"
  have j: "j < length cs" using True os(3) by simp
  have h: "heap_ok base (brk (kern s)) ?m xs" "owned base (brk (kern s)) ?m ?b" "sorted_wrt (\<lambda>b c. area b \<inter> area c = {}) os"
    "area ?b \<inter> free_bytes ?m xs = {}" "freep s \<in> set xs" "length xs \<le> Suc L"
    using r os(1) by (auto simp: ready_def)
  note st = owned_store [OF h(2) heap_okD(11) [OF h(1)] j, of v]
  have a: "unat p + j \<in> area ?b" "area ?c = area ?b" using in_area(2) [OF h(2) heap_okD(11) [OF h(1)] j] by (simp_all add: area_def)
  have "area ?b \<inter> (free_bytes ?m xs \<union> hdr base) = {}" using ready_areas [OF r, of ?b 0] os(1) by auto
  then have "{unat p + j} \<inter> (free_bytes ?m xs \<union> hdr base) = {}" using a(1) by blast
  note fr = heap_ok_frame [OF h(1) st(2) this]
  have d: "area c \<inter> area ?b = {}" "area ?b \<inter> area c = {}" if "c \<in> set (ys @ zs)" for c using that h(3) unfolding os(1) by (auto simp: sorted_wrt_append)
  have "ready brk base (Suc L) ?s (ys @ zs) xs"
  proof (rule ready_frame [OF r, where A = "{unat p + j}"])
    show "\<forall>c \<in> set (ys @ zs). c \<in> set os \<and> {unat p + j} \<inter> area c = {} \<and> area c \<inter> free_bytes (umem ?s) xs = {}"
      using d a(1) r os(1) fr(2) by (fastforce simp: ready_def)
    show "sorted_wrt (\<lambda>b c. area b \<inter> area c = {}) (ys @ zs)" using h(3) unfolding os(1) by (auto simp: sorted_wrt_append)
  qed (use fr st(2) h in auto)
  then have "ready brk base (Suc L) ?s (ys @ ?c # zs) xs"
    using st(1) h(4) fr(2) a(2) d by (auto simp: ready_def sorted_wrt_append)
  then show ?thesis using True os by (auto simp: do_op_def heap_inv_def)
qed

lemma run_ops_keep:
  assumes "sbrk_grows us brk" "heap_inv brk base L s os" "\<forall>n. Malloc n \<in> set ops \<longrightarrow> unat n + 32 \<le> 2 ^ 31"
    and "2 * (L + length ops) + 2 \<le> fuel"
  shows "\<exists>os' s' L'. run_ops us base fuel ops os e s = Ok os' e s' \<and> heap_inv brk base L' s' os'"
  using assms(2-4)
proof (induction ops arbitrary: L s os)
  case Nil
  then show ?case by auto
next
  case (Cons op ops)
  have "\<exists>os' s'. do_op us base fuel op os e s = Ok os' e s' \<and> heap_inv brk base (Suc L) s' os'"
  proof (cases op)
    case (Malloc n)
    then show ?thesis using op_malloc [OF assms(1) Cons(2)] Cons(3,4) by simp
  next
    case (Free i)
    then show ?thesis using op_free [OF Cons(2)] Cons(4) by simp
  next
    case (Store i j v)
    then show ?thesis using op_store [OF Cons(2)] by simp
  qed
  then obtain os' s' where "do_op us base fuel op os e s = Ok os' e s'" "heap_inv brk base (Suc L) s' os'" by blast
  then show ?case using Cons.IH [of "Suc L" s' os'] Cons(3,4) by simp
qed

lemma owned_bytes:
  assumes "owned base B m (r, cs)"
  shows "{unat r..<unat r + length cs} \<subseteq> area (r, cs)" "unat r + length cs \<le> B" "unat base + 16 \<le> unat r"
proof -
  let ?n = "16 * unat (nunits_of (of_nat (length cs)))"
  have o: "length cs + 16 \<le> ?n" "unat base + 32 \<le> unat r" "area (r, cs) \<subseteq> {..<B}"
    using assms nunits_bounds(3) [of "of_nat (length cs)"] unat_of_length [of "length cs"] by (auto simp: owned_def)
  then show "{unat r..<unat r + length cs} \<subseteq> area (r, cs)" "unat base + 16 \<le> unat r" by (auto simp: area_def)
  have "unat r - 16 + ?n - 1 \<in> area (r, cs)" using o(1) by (auto simp: area_def)
  then show "unat r + length cs \<le> B" using o by fastforce
qed

text \<open>
  C38. Blocks of user space are separate: whatever sequence of allocations, frees of its own blocks and stores into
  them a program makes, every call of \<open>malloc\<close> and \<open>free\<close> returns (the searches of the circular list end), the
  blocks that the program has at the end lie behind \<open>base\<close> in its memory, no two of them overlap, and each holds
  exactly the bytes that the program last stored there or found in it, so that neither the allocator nor a store into
  another block has changed it. \<open>sbrk\<close> may fail at any time. No request is for 2 gigabytes or more.
\<close>

theorem malloc_exclusive:
  assumes "sbrk_grows us brk" and "freep s = 0" "base \<noteq> 0" "unat base + 16 \<le> brk (kern s)" "brk (kern s) \<le> 2 ^ 36"
    and "\<forall>n. Malloc n \<in> set ops \<longrightarrow> unat n + 32 \<le> 2 ^ 31" and "2 * length ops + 4 \<le> fuel"
  shows "\<exists>os s'. run_ops us base fuel ops [] e s = Ok os e s'
    \<and> (\<forall>(r, cs) \<in> set os. unat base + 16 \<le> unat r \<and> unat r + length cs \<le> brk (kern s')
         \<and> (\<forall>j < length cs. umem s' (r + of_nat j) = cs ! j))
    \<and> sorted_wrt (\<lambda>(r, cs) (r', cs'). {unat r..<unat r + length cs} \<inter> {unat r'..<unat r' + length cs'} = {}) os"
proof -
  have i: "heap_inv brk base 1 s []" using assms by (simp add: heap_inv_def)
  have f: "2 * (1 + length ops) + 2 \<le> fuel" using assms(7) by simp
  obtain os s' L where r: "run_ops us base fuel ops [] e s = Ok os e s'" "heap_inv brk base L s' os"
    using run_ops_keep [OF assms(1) i assms(6) f] by blast
  have o: "owned base (brk (kern s')) (umem s') b" if "b \<in> set os" for b
    using r(2) that by (auto simp: heap_inv_def ready_def)
  have "sorted_wrt (\<lambda>b c. area b \<inter> area c = {}) os" using r(2) by (auto simp: heap_inv_def ready_def)
  then have "sorted_wrt (\<lambda>(r, cs) (r', cs'). {unat r..<unat r + length cs} \<inter> {unat r'..<unat r' + length cs'} = {}) os"
  proof (rule sorted_wrt_mono_rel [rotated], clarify)
    fix p cs p' cs'
    assume "(p, cs) \<in> set os" "(p', cs') \<in> set os" "area (p, cs) \<inter> area (p', cs') = {}"
    then show "{unat p..<unat p + length cs} \<inter> {unat p'..<unat p' + length cs'} = {}"
      using owned_bytes(1) [OF o [of "(p, cs)"]] owned_bytes(1) [OF o [of "(p', cs')"]] by blast
  qed
  moreover have "unat base + 16 \<le> unat p \<and> unat p + length cs \<le> brk (kern s') \<and> (\<forall>j < length cs. umem s' (p + of_nat j) = cs ! j)"
    if "(p, cs) \<in> set os" for p cs
    using owned_bytes(2,3) [OF o [OF that]] o [OF that] by (simp add: owned_def)
  ultimately show ?thesis using r(1) by blast
qed

text \<open>A process with a megabyte of memory.\<close>

definition heap_sys :: "nat usys" where
  "heap_sys = \<lparr>us_read = (\<lambda>_ _ k. (None, k)), us_write = (\<lambda>_ _ k. (-1, k)), us_open = (\<lambda>_ _ k. (-1, k)),
     us_close = (\<lambda>_ k. (-1, k)), us_fstat = (\<lambda>_ k. (None, k)),
     us_sbrk = (\<lambda>n k. if k + nat n \<le> 2 ^ 20 then (of_nat k, k + nat n) else (-1, k)),
     us_fork = (\<lambda>k. (-1, k)), us_wait = (\<lambda>k. (-1, k)), us_exec = (\<lambda>_ _ k. (Some (-1), k)), us_pipe = (\<lambda>k. (None, k)),
     us_dup = (\<lambda>_ k. (-1, k)), us_chdir = (\<lambda>_ k. (-1, k)), us_mkdir = (\<lambda>_ k. (-1, k)), us_mknod = (\<lambda>_ _ _ k. (-1, k)),
     us_link = (\<lambda>_ _ k. (-1, k)), us_unlink = (\<lambda>_ k. (-1, k)), us_kill = (\<lambda>_ _ k. (-1, k)), us_sleep = (\<lambda>_ k. (-1, k))\<rparr>"

lemma heap_sys_grows: "sbrk_grows heap_sys id"
  by (auto simp: sbrk_grows_def heap_sys_def)

theorem malloc_exclusive_witness:
  "\<exists>os s'. run_ops heap_sys 0x1000 20 [Malloc 24, Malloc 100000, Store 1 3 7, Malloc 3000000, Free 0, Malloc 8] [] []
       \<lparr>umem = (\<lambda>_. 0), exit_status = None, kern = 0x4000, freep = 0\<rparr> = Ok os [] s'
    \<and> sorted_wrt (\<lambda>(r, cs) (r', cs'). {unat r..<unat r + length cs} \<inter> {unat r'..<unat r' + length cs'} = {}) os"
  using malloc_exclusive [OF heap_sys_grows, of "\<lparr>umem = (\<lambda>_. 0), exit_status = None, kern = 0x4000, freep = 0\<rparr>" "0x1000"
      "[Malloc 24, Malloc 100000, Store 1 3 7, Malloc 3000000, Free 0, Malloc 8]" 20 "[]"]
  by auto

end
