(* ===== verification/Shell.thy ===== *)
theory Shell
  imports User
begin

text \<open>
  \<open>user/sh.c\<close>. The line that is parsed is the list of its characters before the null, and a pointer into it is an
  index. A \<open>struct cmd\<close> is a value of a datatype over
  the type of its words; the words of a \<open>cmd\<close> are pairs of the pointers \<open>q\<close> and
  \<open>eq\<close> to their begin and end, as \<open>argv\<close> and \<open>eargv\<close> (\<open>file\<close> and \<open>efile\<close>) hold them, until \<open>nulterminate\<close> has put
  a null at each end. The allocations of the constructors are taken to succeed (\<open>sh.c\<close> does not test them). The
  parser carries a fuel, and a panic of it is the value \<open>Perror\<close>.
\<close>

definition MAXARGS :: nat where "MAXARGS = 10"
definition O_RDONLY :: u32 where "O_RDONLY = 0"

datatype 'w command =
    EXEC "'w list"
  | REDIR "'w command" 'w u32 int
  | PIPE "'w command" "'w command"
  | LIST "'w command" "'w command"
  | BACK "'w command"

type_synonym cmd = "(nat \<times> nat) command"

definition execcmd :: cmd where
  "execcmd = EXEC []"

definition redircmd :: "cmd \<Rightarrow> nat \<Rightarrow> nat \<Rightarrow> u32 \<Rightarrow> int \<Rightarrow> cmd" where
  "redircmd subcmd file efile mode fd = REDIR subcmd (file, efile) mode fd"

definition pipecmd :: "cmd \<Rightarrow> cmd \<Rightarrow> cmd" where
  "pipecmd left right = PIPE left right"

definition listcmd :: "cmd \<Rightarrow> cmd \<Rightarrow> cmd" where
  "listcmd left right = LIST left right"

definition backcmd :: "cmd \<Rightarrow> cmd" where
  "backcmd subcmd = BACK subcmd"

subsection \<open>Tokens\<close>

definition whitespace :: "u8 list" where "whitespace = [32, 9, 13, 10, 11]"
definition symbols :: "u8 list" where "symbols = [60, 124, 62, 38, 59, 40, 41]"

text \<open>The character at a pointer; the one at the end of the line is the null.\<close>

definition char_at :: "u8 list \<Rightarrow> nat \<Rightarrow> u8" where
  "char_at s i = (if i < length s then s ! i else 0)"

text \<open>\<open>while(s < es && P(*s)) s++\<close>\<close>

definition skip_while :: "(u8 \<Rightarrow> bool) \<Rightarrow> u8 list \<Rightarrow> nat \<Rightarrow> nat" where
  "skip_while P s i = i + length (takeWhile P (drop i s))"

abbreviation skip_white :: "u8 list \<Rightarrow> nat \<Rightarrow> nat" where
  "skip_white \<equiv> skip_while (\<lambda>c. c \<in> set whitespace)"

definition gettoken :: "u8 list \<Rightarrow> nat \<Rightarrow> u8 \<times> nat \<times> nat \<times> nat" where
  "gettoken s ps =
     (let q = skip_white s ps;
          c = char_at s q;
          (ret, eq) =
            (if c = 0 then (0, q)
             else if c \<in> {124, 40, 41, 59, 38, 60} then (c, q + 1)
             else if c = 62 then if char_at s (q + 1) = 62 then (43, q + 2) else (62, q + 1)
             else (97, skip_while (\<lambda>c. c \<notin> set whitespace \<and> c \<notin> set symbols) s q))
      in (ret, q, eq, skip_white s eq))"

definition peek :: "u8 list \<Rightarrow> nat \<Rightarrow> u8 list \<Rightarrow> bool \<times> nat" where
  "peek s ps toks = (let i = skip_white s ps in (char_at s i \<noteq> 0 \<and> char_at s i \<in> set toks, i))"

subsection \<open>The parser\<close>

datatype 'a parsed = Parsed 'a | Perror string | Leftovers nat | Pfuel

fun pbind :: "'a parsed \<Rightarrow> ('a \<Rightarrow> 'b parsed) \<Rightarrow> 'b parsed" where
  "pbind (Parsed v) f = f v"
| "pbind (Perror m) f = Perror m"
| "pbind (Leftovers i) f = Leftovers i"
| "pbind Pfuel f = Pfuel"

definition redir_mode :: "u8 \<Rightarrow> u32 \<times> int" where
  "redir_mode tok =
     (if tok = 60 then (O_RDONLY, 0)
      else if tok = 62 then (O_WRONLY OR O_CREATE OR O_TRUNC, 1)
      else (O_WRONLY OR O_CREATE, 1))"

primrec parseredirs :: "nat \<Rightarrow> u8 list \<Rightarrow> cmd \<Rightarrow> nat \<Rightarrow> (cmd \<times> nat) parsed" where
  "parseredirs 0 s cmd ps = Pfuel"
| "parseredirs (Suc fuel) s cmd ps =
     (let (b, ps) = peek s ps [60, 62] in
      if \<not> b then Parsed (cmd, ps) else
      let (tok, _, _, ps) = gettoken s ps;
          (tok', q, eq, ps) = gettoken s ps in
      if tok' \<noteq> 97 then Perror ''missing file for redirection''
      else parseredirs fuel s (case redir_mode tok of (mode, fd) \<Rightarrow> redircmd cmd q eq mode fd) ps)"

text \<open>
  \<open>parseexec\<close> keeps a pointer \<open>cmd\<close> to the node that it has allocated and stores the arguments there, after
  redirections may have been put around it.
\<close>

primrec add_arg :: "nat \<times> nat \<Rightarrow> cmd \<Rightarrow> cmd" where
  "add_arg a (EXEC args) = EXEC (args @ [a])"
| "add_arg a (REDIR c f mode fd) = REDIR (add_arg a c) f mode fd"
| "add_arg a (PIPE l r) = PIPE l r"
| "add_arg a (LIST l r) = LIST l r"
| "add_arg a (BACK c) = BACK c"

primrec parse_args :: "nat \<Rightarrow> u8 list \<Rightarrow> cmd \<Rightarrow> nat \<Rightarrow> nat \<Rightarrow> (cmd \<times> nat) parsed" where
  "parse_args 0 s ret argc ps = Pfuel"
| "parse_args (Suc fuel) s ret argc ps =
     (let (b, ps) = peek s ps [124, 41, 38, 59] in
      if b then Parsed (ret, ps) else
      let (tok, q, eq, ps) = gettoken s ps in
      if tok = 0 then Parsed (ret, ps)
      else if tok \<noteq> 97 then Perror ''syntax''
      else if MAXARGS \<le> argc + 1 then Perror ''too many args''
      else pbind (parseredirs (Suc (length s)) s (add_arg (q, eq) ret) ps) (\<lambda>(ret, ps).
           parse_args fuel s ret (argc + 1) ps))"

primrec parse_backs :: "nat \<Rightarrow> u8 list \<Rightarrow> cmd \<Rightarrow> nat \<Rightarrow> (cmd \<times> nat) parsed" where
  "parse_backs 0 s cmd ps = Pfuel"
| "parse_backs (Suc fuel) s cmd ps =
     (let (b, ps) = peek s ps [38] in
      if \<not> b then Parsed (cmd, ps) else
      let (_, _, _, ps) = gettoken s ps in parse_backs fuel s (backcmd cmd) ps)"

fun parseline :: "nat \<Rightarrow> u8 list \<Rightarrow> nat \<Rightarrow> (cmd \<times> nat) parsed"
  and parsepipe :: "nat \<Rightarrow> u8 list \<Rightarrow> nat \<Rightarrow> (cmd \<times> nat) parsed"
  and parseexec :: "nat \<Rightarrow> u8 list \<Rightarrow> nat \<Rightarrow> (cmd \<times> nat) parsed"
  and parseblock :: "nat \<Rightarrow> u8 list \<Rightarrow> nat \<Rightarrow> (cmd \<times> nat) parsed" where
  "parseline 0 s ps = Pfuel"
| "parseline (Suc fuel) s ps =
     pbind (parsepipe fuel s ps) (\<lambda>(cmd, ps).
     pbind (parse_backs (Suc (length s)) s cmd ps) (\<lambda>(cmd, ps).
     let (b, ps) = peek s ps [59] in
     if b then
       let (_, _, _, ps) = gettoken s ps in
       pbind (parseline fuel s ps) (\<lambda>(r, ps). Parsed (listcmd cmd r, ps))
     else Parsed (cmd, ps)))"
| "parsepipe 0 s ps = Pfuel"
| "parsepipe (Suc fuel) s ps =
     pbind (parseexec fuel s ps) (\<lambda>(cmd, ps).
     let (b, ps) = peek s ps [124] in
     if b then
       let (_, _, _, ps) = gettoken s ps in
       pbind (parsepipe fuel s ps) (\<lambda>(r, ps). Parsed (pipecmd cmd r, ps))
     else Parsed (cmd, ps))"
| "parseexec 0 s ps = Pfuel"
| "parseexec (Suc fuel) s ps =
     (let (b, ps) = peek s ps [40] in
      if b then parseblock fuel s ps else
      pbind (parseredirs (Suc (length s)) s execcmd ps) (\<lambda>(ret, ps).
      parse_args (Suc (length s)) s ret 0 ps))"
| "parseblock 0 s ps = Pfuel"
| "parseblock (Suc fuel) s ps =
     (let (b, ps) = peek s ps [40] in
      if \<not> b then Perror ''parseblock'' else
      let (_, _, _, ps) = gettoken s ps in
      pbind (parseline fuel s ps) (\<lambda>(cmd, ps).
      let (b, ps) = peek s ps [41] in
      if \<not> b then Perror ''syntax - missing )'' else
      let (_, _, _, ps) = gettoken s ps in
      parseredirs (Suc (length s)) s cmd ps))"

definition parsecmd_fuel :: "u8 list \<Rightarrow> nat" where
  "parsecmd_fuel s = 4 * length s + 4"

primrec nulterminate :: "cmd \<Rightarrow> u8 list \<Rightarrow> u8 list" where
  "nulterminate (EXEC args) s = fold (\<lambda>(q, eq) s. s[eq := 0]) args s"
| "nulterminate (REDIR c f mode fd) s = (nulterminate c s)[snd f := 0]"
| "nulterminate (PIPE l r) s = nulterminate r (nulterminate l s)"
| "nulterminate (LIST l r) s = nulterminate r (nulterminate l s)"
| "nulterminate (BACK c) s = nulterminate c s"

definition parsecmd :: "u8 list \<Rightarrow> (cmd \<times> u8 list) parsed" where
  "parsecmd s =
     pbind (parseline (parsecmd_fuel s) s 0) (\<lambda>(cmd, ps).
     let (_, ps) = peek s ps [] in
     if ps \<noteq> length s then Leftovers ps
     else Parsed (cmd, nulterminate cmd s))"

subsection \<open>Running commands\<close>

text \<open>The C string at a pointer into the line.\<close>

definition str_at :: "u8 list \<Rightarrow> nat \<Rightarrow> u8 list" where
  "str_at buf q = takeWhile (\<lambda>c. c \<noteq> 0) (drop q buf)"

definition sh_panic :: "'k usys \<Rightarrow> u8 list \<Rightarrow> ('k, 'a) U" where
  "sh_panic us msg = seq (u_fprintf us 2 (cstr ''%s'' @ [10]) [VaStr (Some msg)]) (exit_with 1)"

definition fork1 :: "'k usys \<Rightarrow> ('k, int) U" where
  "fork1 us = bnd (sys (us_fork us)) (\<lambda>p. if p = - 1 then sh_panic us (cstr ''fork'') else return p)"

text \<open>
  \<open>runcmd\<close> does not return: the run ends with \<open>exit\<close> or with a successful \<open>exec\<close>. After a fork it goes on as the
  process that the result of \<open>fork\<close> names.
\<close>

primrec runcmd :: "'k usys \<Rightarrow> u8 list \<Rightarrow> cmd \<Rightarrow> ('k, unit) U" where
  "runcmd us buf (EXEC args) =
     (case map (str_at buf \<circ> fst) args of [] \<Rightarrow> exit_with 1
      | path # argv \<Rightarrow>
        bnd (sys (us_exec us path (path # argv))) (\<lambda>r.
        case r of None \<Rightarrow> replaced | Some _ \<Rightarrow>
        seq (u_fprintf us 2 (cstr ''exec %s failed'' @ [10]) [VaStr (Some path)]) (exit_with 0)))"
| "runcmd us buf (REDIR c f mode fd) =
     seq (sys (us_close us fd)) (
     bnd (sys (us_open us (str_at buf (fst f)) (uint mode))) (\<lambda>r.
     if r < 0 then seq (u_fprintf us 2 (cstr ''open %s failed'' @ [10]) [VaStr (Some (str_at buf (fst f)))]) (exit_with 1)
     else seq (runcmd us buf c) (exit_with 0)))"
| "runcmd us buf (LIST l r) =
     bnd (fork1 us) (\<lambda>p.
     seq (whenM (p = 0) (runcmd us buf l)) (
     seq (sys (us_wait us)) (
     seq (runcmd us buf r)
     (exit_with 0))))"
| "runcmd us buf (PIPE l r) =
     bnd (sys (us_pipe us)) (\<lambda>fds.
     case fds of None \<Rightarrow> sh_panic us (cstr ''pipe'') | Some (p0, p1) \<Rightarrow>
     bnd (fork1 us) (\<lambda>p.
     seq (whenM (p = 0)
       (seq (sys (us_close us 1)) (seq (sys (us_dup us p1)) (seq (sys (us_close us p0)) (seq (sys (us_close us p1))
       (runcmd us buf l)))))) (
     bnd (fork1 us) (\<lambda>p.
     seq (whenM (p = 0)
       (seq (sys (us_close us 0)) (seq (sys (us_dup us p0)) (seq (sys (us_close us p0)) (seq (sys (us_close us p1))
       (runcmd us buf r)))))) (
     seq (sys (us_close us p0)) (
     seq (sys (us_close us p1)) (
     seq (sys (us_wait us)) (
     seq (sys (us_wait us))
     (exit_with 0)))))))))"
| "runcmd us buf (BACK c) =
     bnd (fork1 us) (\<lambda>p.
     seq (whenM (p = 0) (runcmd us buf c))
     (exit_with 0))"

subsection \<open>The read loop\<close>

definition umem_string :: "u64 \<Rightarrow> nat \<Rightarrow> mem \<Rightarrow> u8 list" where
  "umem_string a n m = takeWhile (\<lambda>c. c \<noteq> 0) (map (\<lambda>i. m (a + of_nat i)) [0..<n])"

definition getcmd :: "'k usys \<Rightarrow> u64 \<Rightarrow> nat \<Rightarrow> ('k, int) U" where
  "getcmd us buf nbuf =
     seq (u_fprintf us 2 (cstr ''$ '') []) (
     seq (modify (\<lambda>s. s\<lparr>umem := u_memset buf 0 nbuf (umem s)\<rparr>)) (
     seq (gets_line us buf (int nbuf)) (
     gets (\<lambda>s. if umem s buf = 0 then - 1 else 0))))"

text \<open>One command line: a change of directory in the shell itself, anything else in a child.\<close>

definition sh_line :: "'k usys \<Rightarrow> u8 list \<Rightarrow> ('k, unit) U" where
  "sh_line us line =
     (if take 3 line = [99, 100, 32] then
        let path = drop 3 (butlast line) in
        bnd (sys (us_chdir us path)) (\<lambda>r.
        whenM (r < 0) (u_fprintf us 2 (cstr ''cannot cd %s'' @ [10]) [VaStr (Some path)]))
      else
        bnd (fork1 us) (\<lambda>p.
        seq (whenM (p = 0) (case parsecmd line of
            Parsed (cmd, buf) \<Rightarrow> runcmd us buf cmd
          | Perror m \<Rightarrow> sh_panic us (cstr m)
          | Leftovers i \<Rightarrow>
            seq (u_fprintf us 2 (cstr ''leftovers: %s'' @ [10]) [VaStr (Some (drop i line))]) (sh_panic us (cstr ''syntax''))
          | Pfuel \<Rightarrow> fault ''fuel''))
        (seq (sys (us_wait us)) skip)))"

primrec sh_loop :: "'k usys \<Rightarrow> nat \<Rightarrow> u64 \<Rightarrow> ('k, unit) U" where
  "sh_loop us 0 buf = fault ''fuel''"
| "sh_loop us (Suc fuel) buf =
     bnd (getcmd us buf 100) (\<lambda>r.
     if r < 0 then skip else
     bnd (gets (\<lambda>s. umem_string buf 100 (umem s))) (\<lambda>line.
     seq (sh_line us line)
     (sh_loop us fuel buf)))"

primrec open_console :: "'k usys \<Rightarrow> nat \<Rightarrow> ('k, unit) U" where
  "open_console us 0 = fault ''fuel''"
| "open_console us (Suc fuel) =
     bnd (sys (us_open us (cstr ''console'') (uint O_RDWR))) (\<lambda>fd.
     if fd < 0 then skip
     else if 3 \<le> fd then seq (sys (us_close us fd)) skip
     else open_console us fuel)"

definition sh_main :: "'k usys \<Rightarrow> nat \<Rightarrow> u64 \<Rightarrow> ('k, unit) U" where
  "sh_main us fuel buf =
     seq (open_console us fuel) (
     seq (sh_loop us fuel buf)
     (exit_with 0))"

end
