(* ===== verification/Shell_Run.thy ===== *)
theory Shell_Run
  imports Shell
begin

text \<open>
  The parser of the shell: it always ends within its fuel, the words of the command it builds are the words of the
  line, whole.
\<close>

subsection \<open>Tokens\<close>

abbreviation white :: "u8 \<Rightarrow> bool" where
  "white c \<equiv> c \<in> set whitespace"

abbreviation wordc :: "u8 \<Rightarrow> bool" where
  "wordc c \<equiv> c \<notin> set whitespace \<and> c \<notin> set symbols"

lemma skip_while_drop: "drop (skip_while P s i) s = dropWhile P (drop i s)"
  by (simp add: skip_while_def dropWhile_eq_drop add.commute)

lemma skip_while_bounds:
  "i \<le> skip_while P s i"
  "i \<le> length s \<Longrightarrow> skip_while P s i \<le> length s"
  using length_takeWhile_le [of P "drop i s"] by (auto simp: skip_while_def)

lemma skip_while_step: "i < length s \<Longrightarrow> P (s ! i) \<Longrightarrow> i < skip_while P s i"
  by (simp add: skip_while_def Cons_nth_drop_Suc [symmetric])

lemma skip_while_all: "i \<le> k \<Longrightarrow> k < skip_while P s i \<Longrightarrow> P (s ! k)"
proof -
  assume k: "i \<le> k" "k < skip_while P s i"
  then have "k - i < length (takeWhile P (drop i s))" by (simp add: skip_while_def)
  then have "P (takeWhile P (drop i s) ! (k - i))" by (metis nth_mem set_takeWhileD)
  then show ?thesis using k length_takeWhile_le [of P "drop i s"] by (simp add: skip_while_def takeWhile_nth)
qed

lemma skip_while_stop: "skip_while P s i < length s \<Longrightarrow> \<not> P (s ! skip_while P s i)"
  using hd_dropWhile [of P "drop i s"] skip_while_drop [of P s i]
  by (metis drop_eq_Nil hd_drop_conv_nth leD)

text \<open>The part of the line between two pointers that is a word.\<close>

definition word_span :: "u8 list \<Rightarrow> nat \<times> nat \<Rightarrow> bool" where
  "word_span s w \<longleftrightarrow> fst w < snd w \<and> snd w \<le> length s \<and> (\<forall>k. fst w \<le> k \<and> k < snd w \<longrightarrow> wordc (s ! k))
     \<and> (snd w < length s \<longrightarrow> \<not> wordc (s ! snd w))"

lemma gettoken_span:
  assumes "gettoken s i = (ret, q, eq, j)" "i \<le> length s"
  shows "i \<le> q" "q \<le> eq" "eq \<le> j" "j \<le> length s" "ret \<noteq> 0 \<Longrightarrow> q < eq" "ret = 97 \<Longrightarrow> word_span s (q, eq)"
proof -
  define q' where "q' = skip_white s i"
  define eq' where "eq' = skip_while wordc s q'"
  have q: "i \<le> q'" "q' \<le> length s" using skip_while_bounds assms(2) by (auto simp: q'_def)
  have c: "char_at s q' \<noteq> 0 \<Longrightarrow> q' < length s \<and> \<not> white (s ! q')"
    using skip_while_stop [of white s i] by (auto simp: char_at_def q'_def split: if_splits)
  have e: "q' \<le> eq'" "eq' \<le> length s" using skip_while_bounds q by (auto simp: eq'_def)
  have "\<forall>k. q' \<le> k \<and> k < eq' \<longrightarrow> wordc (s ! k)" "eq' < length s \<longrightarrow> \<not> wordc (s ! eq')"
    using skip_while_all [of q' _ wordc s] skip_while_stop [of wordc s q'] unfolding eq'_def by blast+
  then have w: "word_span s (q', eq')" if "q' < length s" "wordc (s ! q')"
    using that e(2) skip_while_step [of q' s wordc] unfolding word_span_def fst_conv snd_conv eq'_def by blast
  have g: "gettoken s i = (let (ret, eq) = (if char_at s q' = 0 then (0, q')
             else if char_at s q' \<in> {124, 40, 41, 59, 38, 60} then (char_at s q', q' + 1)
             else if char_at s q' = 62 then if char_at s (q' + 1) = 62 then (43, q' + 2) else (62, q' + 1)
             else (97, eq')) in (ret, q', eq, skip_white s eq))"
    unfolding gettoken_def eq'_def q'_def by (simp add: Let_def)
  have "ret = 0 \<and> q = q' \<and> eq = q' \<or> ret \<noteq> 0 \<and> ret \<noteq> 97 \<and> q = q' \<and> q' < eq \<and> eq \<le> length s
    \<or> ret = 97 \<and> q = q' \<and> eq = eq' \<and> word_span s (q', eq')"
  proof (cases "char_at s q' = 0")
    case False
    have l: "q' < length s" "\<not> white (char_at s q')" "char_at s q' = s ! q'" using c [OF False] by (simp_all add: char_at_def)
    consider "char_at s q' \<in> {124, 40, 41, 59, 38, 60}" | "char_at s q' = 62" | "char_at s q' \<notin> {124, 40, 41, 59, 38, 60, 62}" by auto
    then show ?thesis
    proof cases
      case 1
      then have "char_at s q' \<noteq> 97" by auto
      moreover have "ret = char_at s q' \<and> q = q' \<and> eq = q' + 1" using assms(1) False 1 unfolding g by (auto simp del: insert_iff)
      ultimately show ?thesis using False l(1) by simp
    next
      case 2
      have "q' + 2 \<le> length s" if "char_at s (q' + 1) = 62" using that by (simp add: char_at_def split: if_splits)
      then show ?thesis using assms(1) l(1) 2 unfolding g by (cases "char_at s (q' + 1) = 62") auto
    next
      case 3
      then have "wordc (s ! q')" using l by (simp add: symbols_def)
      then show ?thesis using assms(1) False 3 w [OF l(1)] unfolding g by simp
    qed
  qed (use assms(1) in \<open>simp add: g\<close>)
  moreover have "j = skip_white s eq" using assms(1) by (auto simp: gettoken_def Let_def split: prod.splits)
  ultimately show "i \<le> q" "q \<le> eq" "eq \<le> j" "j \<le> length s" "ret \<noteq> 0 \<Longrightarrow> q < eq" "ret = 97 \<Longrightarrow> word_span s (q, eq)"
    using q e skip_while_bounds(1) [of eq white s] skip_while_bounds(2) [of eq s white] by (auto simp: word_span_def)
qed

lemma peek_bounds:
  assumes "peek s i toks = (b, j)" "i \<le> length s"
  shows "i \<le> j" "j \<le> length s" "b \<Longrightarrow> j < length s \<and> s ! j \<in> set toks \<and> s ! j \<noteq> 0 \<and> skip_white s j = j"
  using assms skip_while_bounds(1) [of i white s] skip_while_bounds(2) [of i s white] skip_while_stop [of white s i]
  by (auto simp: peek_def Let_def char_at_def skip_while_def Cons_nth_drop_Suc [symmetric] split: if_splits)

text \<open>A token that \<open>peek\<close> has seen is not the end of the line.\<close>

lemma gettoken_peeked:
  assumes "peek s i toks = (True, j)" "gettoken s j = (ret, q, eq, k)" "i \<le> length s"
  shows "i < k" "k \<le> length s"
proof -
  note b = peek_bounds [OF assms(1,3)]
  have "ret \<noteq> 0" using b(3) assms(2) by (auto simp: gettoken_def Let_def char_at_def split: if_splits)
  then show "i < k" "k \<le> length s" using gettoken_span [OF assms(2) b(2)] b by auto
qed

subsection \<open>The parser ends\<close>

definition words_ok :: "u8 list \<Rightarrow> cmd \<Rightarrow> bool" where
  "words_ok s c \<longleftrightarrow> (\<forall>w\<in>set_command c. word_span s w)"

definition parse_ok :: "u8 list \<Rightarrow> nat \<Rightarrow> (cmd \<times> nat) parsed \<Rightarrow> bool" where
  "parse_ok s i r = (case r of Parsed (c, j) \<Rightarrow> i \<le> j \<and> j \<le> length s \<and> words_ok s c | Pfuel \<Rightarrow> False | _ \<Rightarrow> True)"

lemma parse_ok_Parsed [simp]: "parse_ok s i (Parsed (c, j)) \<longleftrightarrow> i \<le> j \<and> j \<le> length s \<and> words_ok s c"
  and parse_ok_Perror [simp]: "parse_ok s i (Perror m)"
  by (simp_all add: parse_ok_def)

lemma parse_ok_mono: "parse_ok s j r \<Longrightarrow> i \<le> j \<Longrightarrow> parse_ok s i r"
  by (auto simp: parse_ok_def split: parsed.splits)

lemma parse_ok_bind:
  assumes "parse_ok s i r" "\<And>c j. i \<le> j \<Longrightarrow> j \<le> length s \<Longrightarrow> words_ok s c \<Longrightarrow> parse_ok s i (f (c, j))"
  shows "parse_ok s i (pbind r f)"
  using assms by (cases r) (auto simp: parse_ok_def)

lemma parse_ok_then:
  assumes "parse_ok s i r" "\<And>c j. i \<le> j \<Longrightarrow> j \<le> length s \<Longrightarrow> words_ok s c \<Longrightarrow> parse_ok s j (f c j)"
  shows "parse_ok s i (pbind r (\<lambda>(c, j). f c j))"
  using assms by (intro parse_ok_bind) (auto intro: parse_ok_mono)

lemma words_ok_simps [simp]:
  "words_ok s execcmd"
  "words_ok s (redircmd c q eq mode fd) \<longleftrightarrow> words_ok s c \<and> word_span s (q, eq)"
  "words_ok s (pipecmd c d) \<longleftrightarrow> words_ok s c \<and> words_ok s d"
  "words_ok s (listcmd c d) \<longleftrightarrow> words_ok s c \<and> words_ok s d"
  "words_ok s (backcmd c) \<longleftrightarrow> words_ok s c"
  by (auto simp: words_ok_def execcmd_def redircmd_def pipecmd_def listcmd_def backcmd_def)

lemma words_ok_add_arg: "words_ok s c \<Longrightarrow> word_span s w \<Longrightarrow> words_ok s (add_arg w c)"
  by (induction c) (auto simp: words_ok_def)

lemma parseredirs_ok:
  "length s - i < fuel \<Longrightarrow> i \<le> length s \<Longrightarrow> words_ok s c \<Longrightarrow> parse_ok s i (parseredirs fuel s c i)"
proof (induction fuel arbitrary: c i)
  case (Suc fuel)
  obtain b j where p: "peek s i [60, 62] = (b, j)" by fastforce
  obtain tok q1 e1 k where g: "gettoken s j = (tok, q1, e1, k)" by (metis prod.exhaust)
  obtain tok' q e k' where g': "gettoken s k = (tok', q, e, k')" by (metis prod.exhaust)
  note pb = peek_bounds(1,2) [OF p Suc(3)]
  show ?case
  proof (cases "b \<and> tok' = 97")
    case True
    have k: "i < k" "k \<le> length s" using gettoken_peeked [OF _ g Suc(3)] p True by auto
    then have k': "k \<le> k'" "k' \<le> length s" "word_span s (q, e)" using gettoken_span [OF g'] True by auto
    have "parse_ok s k' (parseredirs fuel s (case redir_mode tok of (mode, fd) \<Rightarrow> redircmd c q e mode fd) k')"
      using Suc(2) Suc(4) k k' by (intro Suc(1)) (auto split: prod.splits)
    then show ?thesis using p g g' True k k' by (auto intro: parse_ok_mono simp: Let_def)
  qed (use p g g' pb Suc(4) in \<open>auto simp: Let_def\<close>)
qed simp

lemma parse_backs_ok:
  "length s - i < fuel \<Longrightarrow> i \<le> length s \<Longrightarrow> words_ok s c \<Longrightarrow> parse_ok s i (parse_backs fuel s c i)"
proof (induction fuel arbitrary: c i)
  case (Suc fuel)
  obtain b j where p: "peek s i [38] = (b, j)" by fastforce
  obtain tok q e k where g: "gettoken s j = (tok, q, e, k)" by (metis prod.exhaust)
  note pb = peek_bounds(1,2) [OF p Suc(3)]
  show ?case
  proof (cases b)
    case True
    have k: "i < k" "k \<le> length s" using gettoken_peeked [OF _ g Suc(3)] p True by auto
    have "parse_ok s k (parse_backs fuel s (backcmd c) k)" using Suc(2) Suc(4) k by (intro Suc(1)) auto
    then show ?thesis using p g True k by (auto intro: parse_ok_mono simp: Let_def)
  qed (use p pb Suc(4) in simp)
qed simp

lemma parse_args_ok:
  "length s - i < fuel \<Longrightarrow> i \<le> length s \<Longrightarrow> words_ok s c \<Longrightarrow> parse_ok s i (parse_args fuel s c argc i)"
proof (induction fuel arbitrary: c argc i)
  case (Suc fuel)
  obtain b j where p: "peek s i [124, 41, 38, 59] = (b, j)" by fastforce
  obtain tok q e k where g: "gettoken s j = (tok, q, e, k)" by (metis prod.exhaust)
  note pb = peek_bounds(1,2) [OF p Suc(3)]
  note gb = gettoken_span [OF g pb(2)]
  show ?case
  proof (cases "\<not> b \<and> tok = 97 \<and> \<not> MAXARGS \<le> argc + 1")
    case True
    have "parse_ok s k (parseredirs (Suc (length s)) s (add_arg (q, e) c) k)"
      using gb True Suc(4) by (intro parseredirs_ok) (auto intro: words_ok_add_arg)
    then have "parse_ok s k (pbind (parseredirs (Suc (length s)) s (add_arg (q, e) c) k)
        (\<lambda>(c, k). parse_args fuel s c (argc + 1) k))"
    proof (rule parse_ok_bind, clarify)
      fix c' j' assume j': "k \<le> j'" "j' \<le> length s" "words_ok s c'"
      have "i < j'" using j' gb pb True by auto
      then show "parse_ok s k (parse_args fuel s c' (argc + 1) j')"
        using j' Suc(2) by (intro parse_ok_mono [OF Suc(1)]) auto
    qed
    then show ?thesis using p g True pb gb by (auto intro: parse_ok_mono simp: Let_def simp del: parseredirs.simps)
  qed (use p g pb gb Suc(4) in \<open>auto simp: Let_def\<close>)
qed simp

text \<open>After a symbol that \<open>peek\<close> has seen, a parser that is called at a smaller rest of the line.\<close>

lemma parse_ok_symbol:
  assumes "i \<le> length s" "words_ok s c"
    "\<And>k. i < k \<Longrightarrow> k \<le> length s \<Longrightarrow> parse_ok s k (f k)"
  shows "parse_ok s i (let (b, ps) = peek s i toks in
     if b then let (_, _, _, ps) = gettoken s ps in f ps else Parsed (c, ps))"
proof -
  obtain b j where p: "peek s i toks = (b, j)" by fastforce
  obtain tok q e k where g: "gettoken s j = (tok, q, e, k)" by (metis prod.exhaust)
  show ?thesis
  proof (cases b)
    case True
    have k: "i < k" "k \<le> length s" using gettoken_peeked [OF _ g assms(1)] p True by auto
    then show ?thesis using p g True parse_ok_mono [OF assms(3) [OF k]] by (simp add: Let_def)
  qed (use p peek_bounds(1,2) [OF p assms(1)] assms(2) in simp)
qed

lemma parse_ok_bind1:
  assumes "parse_ok s i r" "\<And>c j. words_ok s c \<Longrightarrow> words_ok s (g c)"
  shows "parse_ok s i (pbind r (\<lambda>(c, j). Parsed (g c, j)))"
  using assms by (intro parse_ok_bind) auto

declare parseredirs.simps [simp del] parse_backs.simps [simp del] parse_args.simps [simp del]

lemma parseexec_ok:
  assumes "i \<le> length s" "\<And>j. i \<le> j \<Longrightarrow> j \<le> length s \<Longrightarrow> parse_ok s j (parseblock fuel s j)"
  shows "parse_ok s i (parseexec (Suc fuel) s i)"
proof -
  obtain b j where p: "peek s i [40] = (b, j)" by fastforce
  note pb = peek_bounds(1,2) [OF p assms(1)]
  have "parse_ok s j (pbind (parseredirs (Suc (length s)) s execcmd j)
      (\<lambda>(ret, ps). parse_args (Suc (length s)) s ret 0 ps))"
    using pb by (intro parse_ok_then parseredirs_ok parse_args_ok) auto
  then have "parse_ok s j (parseexec (Suc fuel) s i)" using assms(2) [OF pb] unfolding parseexec.simps p by simp
  then show ?thesis using pb by (blast intro: parse_ok_mono)
qed

definition parse_close :: "u8 list \<Rightarrow> cmd \<Rightarrow> nat \<Rightarrow> (cmd \<times> nat) parsed" where
  "parse_close s cmd ps =
     (let (b, ps) = peek s ps [41] in
      if \<not> b then Perror ''syntax - missing )'' else
      let (_, _, _, ps) = gettoken s ps in
      parseredirs (Suc (length s)) s cmd ps)"

lemma parse_close_ok:
  assumes l: "l \<le> length s" and c: "words_ok s c"
  shows "parse_ok s l (parse_close s c l)"
proof -
  obtain b l' where p: "peek s l [41] = (b, l')" by fastforce
  obtain tok q e k where g: "gettoken s l' = (tok, q, e, k)" by (metis prod.exhaust)
  have "b \<Longrightarrow> parse_ok s k (parseredirs (Suc (length s)) s c k) \<and> l \<le> k"
    using c gettoken_peeked [OF _ g l, of "[41]"] p by (auto intro!: parseredirs_ok simp: less_imp_le)
  then show ?thesis using p g by (auto simp: Let_def parse_close_def intro: parse_ok_mono)
qed

lemma parseblock_ok:
  assumes i: "i \<le> length s" and line: "\<And>k. i < k \<Longrightarrow> k \<le> length s \<Longrightarrow> parse_ok s k (parseline fuel s k)"
  shows "parse_ok s i (parseblock (Suc fuel) s i)"
proof -
  obtain b j where p: "peek s i [40] = (b, j)" by fastforce
  obtain tok q e k where g: "gettoken s j = (tok, q, e, k)" by (metis prod.exhaust)
  have "parse_ok s i (pbind (parseline fuel s k) (\<lambda>(c, ps). parse_close s c ps))" if b
  proof -
    have k: "i < k" "k \<le> length s" using gettoken_peeked [OF _ g i] p that by auto
    then have "parse_ok s k (pbind (parseline fuel s k) (\<lambda>(c, ps). parse_close s c ps))"
      using line by (intro parse_ok_then parse_close_ok) auto
    then show ?thesis using k by (auto intro: parse_ok_mono)
  qed
  then show ?thesis unfolding parseblock.simps p by (cases b) (simp_all add: g parse_close_def)
qed

lemma parsers_ok:
  "(\<forall>i. i \<le> length s \<longrightarrow> 4 * (length s - i) + 4 \<le> fuel \<longrightarrow> parse_ok s i (parseline fuel s i))
   \<and> (\<forall>i. i \<le> length s \<longrightarrow> 4 * (length s - i) + 3 \<le> fuel \<longrightarrow> parse_ok s i (parsepipe fuel s i))
   \<and> (\<forall>i. i \<le> length s \<longrightarrow> 4 * (length s - i) + 2 \<le> fuel \<longrightarrow> parse_ok s i (parseexec fuel s i))
   \<and> (\<forall>i. i \<le> length s \<longrightarrow> 4 * (length s - i) + 1 \<le> fuel \<longrightarrow> parse_ok s i (parseblock fuel s i))"
proof (induction fuel)
  case (Suc fuel)
  then have line: "\<And>i. i \<le> length s \<Longrightarrow> 4 * (length s - i) + 4 \<le> fuel \<Longrightarrow> parse_ok s i (parseline fuel s i)"
    and pipe: "\<And>i. i \<le> length s \<Longrightarrow> 4 * (length s - i) + 3 \<le> fuel \<Longrightarrow> parse_ok s i (parsepipe fuel s i)"
    and exec: "\<And>i. i \<le> length s \<Longrightarrow> 4 * (length s - i) + 2 \<le> fuel \<Longrightarrow> parse_ok s i (parseexec fuel s i)"
    and block: "\<And>i. i \<le> length s \<Longrightarrow> 4 * (length s - i) + 1 \<le> fuel \<Longrightarrow> parse_ok s i (parseblock fuel s i)"
    by blast+
  have "parse_ok s i (parseline (Suc fuel) s i)" if "i \<le> length s" "4 * (length s - i) + 4 \<le> Suc fuel" for i
    unfolding parseline.simps using that
    by (intro parse_ok_then parse_ok_symbol parse_ok_bind1 pipe line parse_backs_ok) auto
  moreover have "parse_ok s i (parsepipe (Suc fuel) s i)" if "i \<le> length s" "4 * (length s - i) + 3 \<le> Suc fuel" for i
    unfolding parsepipe.simps using that
    by (intro parse_ok_then parse_ok_symbol parse_ok_bind1 exec pipe) auto
  moreover have "parse_ok s i (parseexec (Suc fuel) s i)" if "i \<le> length s" "4 * (length s - i) + 2 \<le> Suc fuel" for i
    using that by (intro parseexec_ok block) auto
  moreover have "parse_ok s i (parseblock (Suc fuel) s i)" if "i \<le> length s" "4 * (length s - i) + 1 \<le> Suc fuel" for i
    using that by (intro parseblock_ok line) auto
  ultimately show ?case by blast
qed simp

lemma parseline_ok: "parse_ok s 0 (parseline (parsecmd_fuel s) s 0)"
  using parsers_ok [of s "parsecmd_fuel s"] by (simp add: parsecmd_fuel_def)

subsection \<open>The words of the command\<close>

definition word_text :: "u8 list \<Rightarrow> nat \<times> nat \<Rightarrow> u8 list" where
  "word_text s w = take (snd w - fst w) (drop (fst w) s)"

lemma length_nulterminate [simp]: "length (nulterminate c s) = length s"
proof (induction c arbitrary: s)
  case (EXEC args)
  show ?case by (induction args arbitrary: s) (auto split: prod.split)
qed auto

lemma nulterminate_nth:
  "i < length s \<Longrightarrow> nulterminate c s ! i = (if i \<in> snd ` set_command c then 0 else s ! i)"
proof (induction c arbitrary: s)
  case (EXEC args)
  then show ?case
    by (induction args arbitrary: s) (auto simp: nth_list_update split: prod.split)
next
  case (REDIR c f mode fd)
  then show ?case by (cases "snd f = i") simp_all
qed (auto simp: image_Un)

lemma str_at_span:
  assumes "0 \<notin> set s" "words_ok s c" "w \<in> set_command c"
  shows "str_at (nulterminate c s) (fst w) = word_text s w"
proof -
  obtain q e where w: "w = (q, e)" by fastforce
  have span: "word_span s v" if "v \<in> set_command c" for v using assms(2) that by (auto simp: words_ok_def)
  have q: "q < e" "e \<le> length s" "\<And>k. q \<le> k \<Longrightarrow> k < e \<Longrightarrow> wordc (s ! k)"
    using span [OF assms(3)] by (auto simp: w word_span_def)
  have keep: "nulterminate c s ! k = s ! k" if "q \<le> k" "k < e" for k
  proof -
    have "k \<notin> snd ` set_command c" using span q(2,3) that by (force simp: word_span_def)
    then show ?thesis using nulterminate_nth [of k s c] q(2) that by simp
  qed
  have "drop q (nulterminate c s) = word_text s w @ drop e (nulterminate c s)"
    using q keep by (intro nth_equalityI) (auto simp: w word_text_def nth_append add.commute)
  moreover have "0 \<notin> set (word_text s w)" using assms(1) by (auto simp: word_text_def dest: in_set_takeD in_set_dropD)
  moreover have "takeWhile (\<lambda>c. c \<noteq> 0) (drop e (nulterminate c s)) = []"
    using nulterminate_nth [of e s c] assms(3) q(2)
    by (cases "e < length s") (force simp: w Cons_nth_drop_Suc [symmetric] image_iff)+
  ultimately show ?thesis unfolding str_at_def w fst_conv
    by (metis (mono_tags, lifting) append_Nil2 takeWhile_append2)
qed

lemma parsecmd_cases:
  obtains (ok) c ps where "parsecmd s = Parsed (c, nulterminate c s)" "words_ok s c"
      "parseline (parsecmd_fuel s) s 0 = Parsed (c, ps)"
  | (error) m where "parsecmd s = Perror m"
  | (left) i where "parsecmd s = Leftovers i"
proof (cases "parseline (parsecmd_fuel s) s 0")
  case (Parsed r)
  obtain c ps where r: "r = (c, ps)" by fastforce
  obtain b j where p: "peek s ps [] = (b, j)" by fastforce
  have "words_ok s c" using parseline_ok [of s] Parsed r by simp
  then show thesis using ok [of c ps] left [of j] Parsed r p by (cases "j = length s") (simp_all add: parsecmd_def)
qed (use parseline_ok [of s] error left in \<open>auto simp: parse_ok_def parsecmd_def\<close>)



end
