(* ===== verification/Shell_Print.thy ===== *)
theory Shell_Print
  imports Shell_Run
begin

text \<open>
  Commands written out as text, with the precedence of the shell's grammar.
\<close>

subsection \<open>Writing commands\<close>

definition is_word :: "u8 list \<Rightarrow> bool" where
  "is_word w \<longleftrightarrow> w \<noteq> [] \<and> (\<forall>c\<in>set w. wordc c \<and> c \<noteq> 0)"

type_synonym redirection = "u8 list \<times> u32 \<times> int"

definition redir_sym :: "u32 \<Rightarrow> int \<Rightarrow> u8 list" where
  "redir_sym mode fd =
     (if (mode, fd) = redir_mode 60 then [60] else if (mode, fd) = redir_mode 62 then [62] else [62, 62])"

definition redir_ok :: "redirection \<Rightarrow> bool" where
  "redir_ok r \<longleftrightarrow> is_word (fst r) \<and> snd r \<in> {redir_mode 60, redir_mode 62, redir_mode 43}"

definition word_str :: "u8 list list \<Rightarrow> u8 list" where
  "word_str ws = concat (map (\<lambda>w. w @ [32]) ws)"

definition redir_str :: "redirection list \<Rightarrow> u8 list" where
  "redir_str rs = concat (map (\<lambda>(f, mode, fd). redir_sym mode fd @ f @ [32]) rs)"

definition paren :: "bool \<Rightarrow> u8 list \<Rightarrow> u8 list" where
  "paren b t = (if b then [40] @ t @ [41] else t)"

text \<open>The level is 0 for a line, 1 for a command in the background, 2 for a pipeline and 3 for a simple command.\<close>

primrec cmd_str :: "u8 list command \<Rightarrow> nat \<Rightarrow> u8 list" where
  "cmd_str (EXEC args) lev = word_str args"
| "cmd_str (REDIR c f mode fd) lev = cmd_str c 3 @ redir_sym mode fd @ f @ [32]"
| "cmd_str (PIPE l r) lev = paren (2 < lev) (cmd_str l 3 @ [124] @ cmd_str r 2)"
| "cmd_str (BACK c) lev = paren (1 < lev) (cmd_str c 1 @ [38])"
| "cmd_str (LIST l r) lev = paren (0 < lev) (cmd_str l 1 @ [59] @ cmd_str r 0)"

primrec cmd_ok :: "u8 list command \<Rightarrow> bool" where
  "cmd_ok (EXEC args) \<longleftrightarrow> list_all is_word args \<and> length args < MAXARGS"
| "cmd_ok (REDIR c f mode fd) \<longleftrightarrow> cmd_ok c \<and> redir_ok (f, mode, fd)"
| "cmd_ok (PIPE l r) \<longleftrightarrow> cmd_ok l \<and> cmd_ok r"
| "cmd_ok (BACK c) \<longleftrightarrow> cmd_ok c"
| "cmd_ok (LIST l r) \<longleftrightarrow> cmd_ok l \<and> cmd_ok r"

definition wrap :: "redirection list \<Rightarrow> u8 list command \<Rightarrow> u8 list command" where
  "wrap rs c = fold (\<lambda>(f, mode, fd) c. REDIR c f mode fd) rs c"

lemma wrap_simps [simp]: "wrap [] c = c" "wrap ((f, mode, fd) # rs) c = wrap rs (REDIR c f mode fd)"
  by (simp_all add: wrap_def)

lemma redir_str_simps [simp]:
  "redir_str [] = []"
  "redir_str ((f, mode, fd) # rs) = redir_sym mode fd @ f @ 32 # redir_str rs"
  by (simp_all add: redir_str_def)

lemma word_str_simps [simp]: "word_str [] = []" "word_str (w # ws) = w @ 32 # word_str ws"
  by (simp_all add: word_str_def)

subsection \<open>Tokens of a text\<close>

definition starts :: "u8 set \<Rightarrow> u8 list \<Rightarrow> bool" where
  "starts A t \<longleftrightarrow> t = [] \<or> hd t \<in> A"

abbreviation nonwhite :: "u8 list \<Rightarrow> bool" where
  "nonwhite \<equiv> starts (- set whitespace)"

lemma skip_white_at: "drop i s = t \<Longrightarrow> nonwhite t \<Longrightarrow> skip_white s i = i"
  by (cases t) (auto simp: skip_while_def starts_def)

lemma char_at_drop: "drop i s = t \<Longrightarrow> char_at s i = (if t = [] then 0 else hd t)"
  by (auto simp: char_at_def hd_drop_conv_nth)

lemma drop_next: "drop i s = xs @ t \<Longrightarrow> drop (i + length xs) s = t"
  by (metis add.commute append_eq_conv_conj drop_drop)

lemma peek_at:
  "drop i s = t \<Longrightarrow> nonwhite t \<Longrightarrow> peek s i toks = (t \<noteq> [] \<and> hd t \<noteq> 0 \<and> hd t \<in> set toks, i)"
  by (auto simp: peek_def Let_def skip_white_at char_at_drop)

lemma peek_not: "drop i s = t \<Longrightarrow> starts A t \<Longrightarrow> A \<subseteq> - set whitespace \<Longrightarrow> set toks \<inter> A = {} \<Longrightarrow> peek s i toks = (False, i)"
  by (subst peek_at [of i s t]) (auto simp: starts_def)

lemma gettoken_at:
  assumes "drop i s = c # t" "c \<in> {124, 40, 41, 59, 38, 60}" "nonwhite t"
  shows "gettoken s i = (c, i, Suc i, Suc i)" "drop (Suc i) s = t"
proof -
  have d: "drop (Suc i) s = t" using assms(1) by (metis drop_Suc list.sel(3) tl_drop)
  have "skip_white s i = i" using assms(2) by (intro skip_white_at [OF assms(1)]) (auto simp: starts_def whitespace_def)
  moreover have "skip_white s (Suc i) = Suc i" using d assms(3) by (rule skip_white_at)
  moreover have "c \<noteq> 0" using assms(2) by auto
  ultimately show "gettoken s i = (c, i, Suc i, Suc i)"
    using assms(2) char_at_drop [OF assms(1)] by (simp add: gettoken_def)
  show "drop (Suc i) s = t" by (rule d)
qed

lemma gettoken_gt:
  assumes "drop i s = 62 # t" "starts (- insert 62 (set whitespace)) t"
  shows "gettoken s i = (62, i, Suc i, Suc i)" "drop (Suc i) s = t"
proof -
  have d: "drop (Suc i) s = t" using assms(1) by (metis drop_Suc list.sel(3) tl_drop)
  have "skip_white s i = i" by (intro skip_white_at [OF assms(1)]) (simp add: starts_def whitespace_def)
  moreover have "skip_white s (Suc i) = Suc i" using d assms(2) by (intro skip_white_at) (auto simp: starts_def)
  moreover have "char_at s (Suc i) \<noteq> 62" using char_at_drop [OF d] assms(2) by (auto simp: starts_def)
  ultimately show "gettoken s i = (62, i, Suc i, Suc i)" using char_at_drop [OF assms(1)] by (simp add: gettoken_def)
  show "drop (Suc i) s = t" by (rule d)
qed

lemma gettoken_gtgt:
  assumes "drop i s = 62 # 62 # t" "nonwhite t"
  shows "gettoken s i = (43, i, i + 2, i + 2)" "drop (i + 2) s = t"
proof -
  have d1: "drop (Suc i) s = 62 # t" using assms(1) by (metis drop_Suc list.sel(3) tl_drop)
  then have d2: "drop (i + 2) s = t" by (metis add_2_eq_Suc' drop_Suc list.sel(3) tl_drop)
  have "skip_white s i = i" by (intro skip_white_at [OF assms(1)]) (simp add: starts_def whitespace_def)
  moreover have "skip_white s (i + 2) = i + 2" using d2 assms(2) by (rule skip_white_at)
  ultimately show "gettoken s i = (43, i, i + 2, i + 2)"
    using char_at_drop [OF assms(1)] char_at_drop [OF d1] by (simp add: gettoken_def)
  show "drop (i + 2) s = t" by (rule d2)
qed

lemma gettoken_word:
  assumes "drop i s = w @ 32 # t" "is_word w" "nonwhite t"
  shows "gettoken s i = (97, i, i + length w, i + length w + 1)" "drop (i + length w + 1) s = t"
    "word_text s (i, i + length w) = w"
proof -
  obtain c w' where w: "w = c # w'" "wordc c" "c \<noteq> 0" using assms(2) by (cases w) (auto simp: is_word_def)
  have d: "drop (i + length w) s = 32 # t" "drop (i + length w + 1) s = t"
    using drop_next [of i s w] drop_next [of i s "w @ [32]"] assms(1) by auto
  have "skip_white s i = i" using w by (intro skip_white_at [OF assms(1)]) (simp add: starts_def)
  moreover have "skip_while wordc s i = i + length w"
    using assms(2) by (simp add: skip_while_def assms(1) takeWhile_append2 is_word_def whitespace_def)
  moreover have "skip_white s (i + length w) = i + length w + 1"
    using assms(3) by (cases t) (auto simp: skip_while_def d whitespace_def starts_def)
  moreover have "char_at s i = c" using char_at_drop [OF assms(1)] w by simp
  moreover have "c \<notin> {124, 40, 41, 59, 38, 60}" "c \<noteq> 62" using w(2) by (auto simp: symbols_def)
  ultimately show "gettoken s i = (97, i, i + length w, i + length w + 1)"
    using w(3) by (simp add: gettoken_def)
  show "drop (i + length w + 1) s = t" by (rule d)
  show "word_text s (i, i + length w) = w" by (simp add: word_text_def assms(1))
qed

end
