(* ===== verification/Shell_Roundtrip.thy ===== *)
theory Shell_Roundtrip
  imports Shell_Print
begin

text \<open>
  Parsing a command that is written out. A parser that does not run out of fuel reads the text of a command from the
  line and stops at what follows it; \<open>level0\<close> to \<open>level3\<close> say so for the four levels of the grammar.
\<close>

definition reads :: "u8 list \<Rightarrow> (cmd \<times> nat) parsed \<Rightarrow> u8 list \<Rightarrow> u8 list command \<Rightarrow> bool" where
  "reads s r t c \<longleftrightarrow> r \<noteq> Pfuel \<longrightarrow> (\<exists>c' j. r = Parsed (c', j) \<and> drop j s = t \<and> map_command (word_text s) c' = c)"

lemma reads_Parsed: "drop j s = t \<Longrightarrow> map_command (word_text s) c' = c \<Longrightarrow> reads s (Parsed (c', j)) t c"
  by (simp add: reads_def)

lemma reads_Pfuel [simp]: "reads s Pfuel t c"
  by (simp add: reads_def)

lemma reads_bind:
  assumes "reads s r t c"
    "\<And>c' j. r = Parsed (c', j) \<Longrightarrow> drop j s = t \<Longrightarrow> map_command (word_text s) c' = c \<Longrightarrow> reads s (f c' j) t' d"
  shows "reads s (pbind r (\<lambda>(c', j). f c' j)) t' d"
  using assms by (cases r) (auto simp: reads_def)

lemma starts_append: "starts A t \<Longrightarrow> (xs \<noteq> [] \<Longrightarrow> hd xs \<in> A) \<Longrightarrow> starts A (xs @ t)"
  by (cases xs) (auto simp: starts_def)

lemma starts_mono: "starts A t \<Longrightarrow> A \<subseteq> B \<Longrightarrow> starts B t"
  by (auto simp: starts_def)

lemma starts_Cons [simp]: "starts A (x # t) \<longleftrightarrow> x \<in> A"
  by (simp add: starts_def)

lemma starts_word: "is_word w \<Longrightarrow> - (set whitespace \<union> set symbols) \<subseteq> A \<Longrightarrow> starts A (w @ t)"
  by (cases w) (auto simp: is_word_def starts_def)

subsection \<open>Redirections and arguments\<close>

abbreviation stop :: "u8 list \<Rightarrow> bool" where
  "stop \<equiv> starts {124, 41, 38, 59}"

lemma redir_tokens:
  assumes "redir_ok (f, mode, fd)" "drop i s = redir_sym mode fd @ f @ 32 # t" "nonwhite t"
  obtains tok q e k j where "peek s i [60, 62] = (True, i)" "gettoken s i = (tok, q, e, k)" "redir_mode tok = (mode, fd)"
    "gettoken s k = (97, k, k + length f, j)" "drop j s = t" "word_text s (k, k + length f) = f"
proof -
  have w: "is_word f" using assms(1) by (simp add: redir_ok_def)
  have nw: "starts (- insert 62 (set whitespace)) (f @ 32 # t)" using w by (intro starts_word) (auto simp: symbols_def)
  then have nw': "nonwhite (f @ 32 # t)" by (rule starts_mono) auto
  consider (a) "(mode, fd) = redir_mode 60" | (b) "(mode, fd) \<noteq> redir_mode 60" "(mode, fd) = redir_mode 62"
    | (c) "(mode, fd) \<noteq> redir_mode 60" "(mode, fd) \<noteq> redir_mode 62" "(mode, fd) = redir_mode 43"
    using assms(1) unfolding redir_ok_def by (metis empty_iff insert_iff snd_conv)
  then show thesis
  proof cases
    case a
    then have d: "drop i s = 60 # f @ 32 # t" using assms(2) by (simp add: redir_sym_def)
    show thesis
      using peek_at [OF d] gettoken_at [OF d _ nw'] gettoken_word [OF gettoken_at(2) [OF d _ nw'] w assms(3)] a
      by (intro that) (auto simp: whitespace_def)
  next
    case b
    then have d: "drop i s = 62 # f @ 32 # t" using assms(2) by (simp add: redir_sym_def)
    show thesis
      using peek_at [OF d] gettoken_gt [OF d nw] gettoken_word [OF gettoken_gt(2) [OF d nw] w assms(3)] b
      by (intro that) (auto simp: whitespace_def)
  next
    case c
    then have d: "drop i s = 62 # 62 # f @ 32 # t" using assms(2) by (simp add: redir_sym_def)
    show thesis
      using peek_at [OF d] gettoken_gtgt [OF d nw'] gettoken_word [OF gettoken_gtgt(2) [OF d nw'] w assms(3)] c
      by (intro that) (auto simp: whitespace_def)
  qed
qed

lemma starts_redir_str: "starts A t \<Longrightarrow> 60 \<in> A \<Longrightarrow> 62 \<in> A \<Longrightarrow> starts A (redir_str rs @ t)"
  by (cases rs) (auto simp: redir_sym_def starts_def split: if_splits)

lemma parseredirs_reads:
  assumes "drop i s = redir_str rs @ t" "list_all redir_ok rs" "starts (- ({60, 62} \<union> set whitespace)) t"
  shows "reads s (parseredirs fuel s c i) t (wrap rs (map_command (word_text s) c))"
  using assms(1,2)
proof (induction rs arbitrary: c i fuel)
  case Nil
  have "peek s i [60, 62] = (False, i)" using Nil(1) assms(3) by (intro peek_not [of i s t]) auto
  then show ?case using Nil by (cases fuel) (auto simp: parseredirs.simps intro!: reads_Parsed)
next
  case (Cons r rs)
  obtain f mode fd where r: "r = (f, mode, fd)" by (metis prod.exhaust)
  have nw: "nonwhite (redir_str rs @ t)" using assms(3)
    by (intro starts_redir_str) (auto simp: whitespace_def intro: starts_mono)
  have d: "drop i s = redir_sym mode fd @ f @ 32 # redir_str rs @ t" using Cons(2) r by simp
  have ok: "redir_ok (f, mode, fd)" "list_all redir_ok rs" using Cons(3) r by auto
  obtain tok q e k j where g: "peek s i [60, 62] = (True, i)" "gettoken s i = (tok, q, e, k)" "redir_mode tok = (mode, fd)"
    "gettoken s k = (97, k, k + length f, j)" "drop j s = redir_str rs @ t" "word_text s (k, k + length f) = f"
    by (rule redir_tokens [OF ok(1) d nw])
  show ?case
  proof (cases fuel)
    case (Suc n)
    have "reads s (parseredirs n s (redircmd c k (k + length f) mode fd) j) t
       (wrap rs (map_command (word_text s) (redircmd c k (k + length f) mode fd)))"
      by (rule Cons(1) [OF g(5) ok(2)])
    then show ?thesis using Suc g r by (simp add: parseredirs.simps redircmd_def)
  qed (simp add: parseredirs.simps)
qed

lemma parse_args_stop:
  assumes "drop i s = t" "stop t" "map_command (word_text s) c = d"
  shows "reads s (parse_args fuel s c argc i) t d"
proof (cases fuel)
  case (Suc n)
  have nw: "nonwhite t" using assms(2) by (rule starts_mono) (auto simp: whitespace_def)
  show ?thesis
  proof (cases t)
    case Nil
    then have "peek s i [124, 41, 38, 59] = (False, i)" "gettoken s i = (0, i, i, i)"
      using peek_at [OF assms(1) nw] skip_white_at [OF assms(1) nw] char_at_drop [OF assms(1)] by (auto simp: gettoken_def)
    then show ?thesis using Suc assms by (simp add: parse_args.simps reads_Parsed)
  next
    case (Cons x t')
    then have "peek s i [124, 41, 38, 59] = (True, i)" using peek_at [OF assms(1) nw] assms(2) by auto
    then show ?thesis using Suc assms by (simp add: parse_args.simps reads_Parsed)
  qed
qed (simp add: parse_args.simps)

lemma map_command_EXEC: "map_command f c = EXEC ws \<longleftrightarrow> (\<exists>xs. c = EXEC xs \<and> map f xs = ws)"
  by (cases c) auto

lemma starts_word_str: "list_all is_word ws \<Longrightarrow> starts A t \<Longrightarrow> - (set whitespace \<union> set symbols) \<subseteq> A \<Longrightarrow> starts A (word_str ws @ t)"
  by (cases ws) (auto intro: starts_word)

lemma parse_args_reads:
  assumes "drop i s = word_str (w # ws) @ redir_str rs @ t" "stop t" "list_all is_word (w # ws)" "list_all redir_ok rs"
    "argc + length (w # ws) < MAXARGS"
  shows "reads s (parse_args fuel s (EXEC xs) argc i) t (wrap rs (EXEC (map (word_text s) xs @ w # ws)))"
  using assms(1,3,5)
proof (induction ws arbitrary: w i argc xs fuel)
  case ws: Nil
  let ?t = "redir_str rs @ t"
  have nw: "nonwhite ?t" using assms(2) by (intro starts_redir_str) (auto simp: whitespace_def intro: starts_mono)
  have d: "drop i s = w @ 32 # ?t" and w: "is_word w" using ws by auto
  note g = gettoken_word [OF d w nw]
  have p: "peek s i [124, 41, 38, 59] = (False, i)"
    using starts_word [OF w, of "- (set whitespace \<union> set symbols)"] by (intro peek_not [OF d]) (auto simp: symbols_def)
  have st: "starts (- ({60, 62} \<union> set whitespace)) t" using assms(2) by (rule starts_mono) (auto simp: whitespace_def)
  show ?case
  proof (cases fuel)
    case (Suc n)
    let ?c = "EXEC (xs @ [(i, i + length w)])"
    have "reads s (pbind (parseredirs (Suc (length s)) s ?c (i + length w + 1)) (\<lambda>(ret, ps). parse_args n s ret (argc + 1) ps)) t
        (wrap rs (map_command (word_text s) ?c))"
      by (rule reads_bind [OF parseredirs_reads [OF g(2) assms(4) st]]) (rule parse_args_stop [OF _ assms(2)])
    then show ?thesis using Suc p g ws(3) by (simp add: parse_args.simps)
  qed (simp add: parse_args.simps)
next
  case (Cons v ws)
  let ?t = "word_str (v # ws) @ redir_str rs @ t"
  have vs: "list_all is_word (v # ws)" "is_word w" using Cons(3) by auto
  have st: "starts (- ({60, 62} \<union> set whitespace)) ?t"
    using vs by (simp, intro starts_word) (auto simp: symbols_def)
  then have nw: "nonwhite ?t" by (rule starts_mono) auto
  have d: "drop i s = w @ 32 # ?t" using Cons(2) by simp
  note g = gettoken_word [OF d vs(2) nw]
  have p: "peek s i [124, 41, 38, 59] = (False, i)"
    using starts_word [OF vs(2), of "- (set whitespace \<union> set symbols)"] by (intro peek_not [OF d]) (auto simp: symbols_def)
  show ?case
  proof (cases fuel)
    case (Suc n)
    let ?c = "EXEC (xs @ [(i, i + length w)])"
    have "reads s (pbind (parseredirs (Suc (length s)) s ?c (i + length w + 1)) (\<lambda>(ret, ps). parse_args n s ret (argc + 1) ps)) t
        (wrap rs (EXEC (map (word_text s) xs @ w # v # ws)))"
    proof (rule reads_bind [OF parseredirs_reads [where rs = "[]"]])
      show "drop (i + length w + 1) s = redir_str [] @ ?t" using g(2) by simp
      fix c' j assume c': "drop j s = ?t" "map_command (word_text s) c' = wrap [] (map_command (word_text s) ?c)"
      then obtain ys where ys: "c' = EXEC ys" "map (word_text s) ys = map (word_text s) xs @ [w]"
        using g(3) by (auto simp: map_command_EXEC)
      show "reads s (parse_args n s c' (argc + 1) j) t (wrap rs (EXEC (map (word_text s) xs @ w # v # ws)))"
        using Cons(1) [OF c'(1) vs(1), of "argc + 1" n ys] Cons(4) ys by simp
    qed (use st in auto)
    then show ?thesis using Suc p g Cons(4) by (simp add: parse_args.simps)
  qed (simp add: parse_args.simps)
qed

subsection \<open>The levels of the grammar\<close>

lemma nonwhite_cmd_str: "cmd_ok c \<Longrightarrow> nonwhite t \<Longrightarrow> nonwhite (cmd_str c lev @ t)"
proof (induction c arbitrary: lev t)
  case (EXEC ws)
  then show ?case by (auto intro: starts_word_str)
next
  case (REDIR c f mode fd)
  have "nonwhite (redir_str [(f, mode, fd)] @ t)" using REDIR(3) by (intro starts_redir_str) (auto simp: whitespace_def)
  then show ?case using REDIR by simp
qed (auto simp: paren_def whitespace_def)

definition level3 :: "u8 list command \<Rightarrow> bool" where
  "level3 c \<longleftrightarrow> (\<forall>s i rs t fuel. drop i s = cmd_str c 3 @ redir_str rs @ t \<longrightarrow> list_all redir_ok rs \<longrightarrow> stop t
     \<longrightarrow> reads s (parseexec fuel s i) t (wrap rs c))"

definition level2 :: "u8 list command \<Rightarrow> bool" where
  "level2 c \<longleftrightarrow> (\<forall>s i t fuel. drop i s = cmd_str c 2 @ t \<longrightarrow> starts {41, 38, 59} t
     \<longrightarrow> reads s (parsepipe fuel s i) t c)"

definition level1 :: "u8 list command \<Rightarrow> bool" where
  "level1 c \<longleftrightarrow> (\<forall>s i n t fuel. drop i s = cmd_str c 1 @ replicate n 38 @ t \<longrightarrow> starts {41, 59} t
     \<longrightarrow> reads s (pbind (parsepipe fuel s i) (\<lambda>(c, i). parse_backs (Suc (length s)) s c i)) t ((BACK ^^ n) c))"

definition level0 :: "u8 list command \<Rightarrow> bool" where
  "level0 c \<longleftrightarrow> (\<forall>s i t fuel. drop i s = cmd_str c 0 @ t \<longrightarrow> starts {41} t \<longrightarrow> reads s (parseline fuel s i) t c)"

text \<open>A symbol of the grammar and what follows it.\<close>

lemma symbol_token:
  assumes "drop i s = c # t" "c \<in> {124, 40, 41, 59, 38}" "nonwhite t"
  shows "peek s i [c] = (True, i)" "gettoken s i = (c, i, Suc i, Suc i)" "drop (Suc i) s = t"
  using peek_at [OF assms(1), of "[c]"] gettoken_at [OF assms(1) _ assms(3)] assms(2) by (auto simp: whitespace_def)

lemma parseexec_no_paren:
  assumes "drop i s = t" "starts A t" "A \<subseteq> - insert 40 (set whitespace)"
  shows "parseexec (Suc fuel) s i = pbind (parseredirs (Suc (length s)) s execcmd i) (\<lambda>(ret, ps).
      parse_args (Suc (length s)) s ret 0 ps)"
proof -
  have "peek s i [40] = (False, i)" using assms by (intro peek_not [of i s t]) auto
  then show ?thesis by simp
qed

lemma level3_EXEC:
  assumes "cmd_ok (EXEC ws)"
  shows "level3 (EXEC ws)"
  unfolding level3_def
proof (intro allI impI)
  fix s i rs t fuel
  assume d: "drop i s = cmd_str (EXEC ws) 3 @ redir_str rs @ t" and rs: "list_all redir_ok rs" and t: "stop t"
  let ?A = "- insert 40 (set whitespace)"
  have ws: "list_all is_word ws" "length ws < MAXARGS" using assms by auto
  have st: "starts ?A (cmd_str (EXEC ws) 3 @ redir_str rs @ t)"
    using t ws(1) by (auto simp: symbols_def whitespace_def intro!: starts_word_str starts_redir_str elim!: starts_mono)
  have tt: "starts (- ({60, 62} \<union> set whitespace)) t" using t by (rule starts_mono) (auto simp: whitespace_def)
  have "reads s (pbind (parseredirs (Suc (length s)) s execcmd i) (\<lambda>(ret, ps).
      parse_args (Suc (length s)) s ret 0 ps)) t (wrap rs (EXEC ws))"
  proof (cases ws)
    case Nil
    then have d': "drop i s = redir_str rs @ t" using d by simp
    show ?thesis
      using Nil by (intro reads_bind [OF parseredirs_reads [OF d' rs tt]] parse_args_stop t) (auto simp: execcmd_def)
  next
    case (Cons w ws')
    then have d': "drop i s = redir_str [] @ word_str (w # ws') @ redir_str rs @ t" using d by simp
    show ?thesis
    proof (rule reads_bind [OF parseredirs_reads [OF d']])
      show "starts (- ({60, 62} \<union> set whitespace)) (word_str (w # ws') @ redir_str rs @ t)"
        using ws Cons by (simp, intro starts_word) (auto simp: symbols_def)
      fix c' j assume "drop j s = word_str (w # ws') @ redir_str rs @ t"
        "map_command (word_text s) c' = wrap [] (map_command (word_text s) execcmd)"
      then show "reads s (parse_args (Suc (length s)) s c' 0 j) t (wrap rs (EXEC ws))"
        using parse_args_reads [of j s w ws' rs t 0 "Suc (length s)" "[]"] t ws rs Cons
        by (auto simp: execcmd_def map_command_EXEC)
    qed simp
  qed
  then show "reads s (parseexec fuel s i) t (wrap rs (EXEC ws))"
    using parseexec_no_paren [OF d st] by (cases fuel) auto
qed

lemma level3_REDIR:
  assumes "level3 c" "cmd_ok (REDIR c f mode fd)"
  shows "level3 (REDIR c f mode fd)"
  unfolding level3_def
proof (intro allI impI)
  fix s i rs t fuel
  assume "drop i s = cmd_str (REDIR c f mode fd) 3 @ redir_str rs @ t" "list_all redir_ok rs" "stop t"
  then have "drop i s = cmd_str c 3 @ redir_str ((f, mode, fd) # rs) @ t" "list_all redir_ok ((f, mode, fd) # rs)"
    using assms(2) by auto
  then show "reads s (parseexec fuel s i) t (wrap rs (REDIR c f mode fd))"
    using assms(1) \<open>stop t\<close> unfolding level3_def by (metis wrap_simps(2))
qed

lemma parse_close_reads:
  assumes "drop i s = 41 # redir_str rs @ t" "list_all redir_ok rs" "stop t"
  shows "reads s (parse_close s c i) t (wrap rs (map_command (word_text s) c))"
proof -
  have "nonwhite (redir_str rs @ t)" using assms(3)
    by (intro starts_redir_str) (auto simp: whitespace_def elim!: starts_mono)
  note y = symbol_token [OF assms(1) _ this]
  have "starts (- ({60, 62} \<union> set whitespace)) t" using assms(3) by (rule starts_mono) (auto simp: whitespace_def)
  then show ?thesis using parseredirs_reads [OF y(3) assms(2)] y by (simp add: parse_close_def)
qed

lemma level3_paren:
  assumes "level0 c" "cmd_ok c" "cmd_str c 3 = 40 # cmd_str c 0 @ [41]"
  shows "level3 c"
  unfolding level3_def
proof (intro allI impI)
  fix s i rs t fuel
  assume d: "drop i s = cmd_str c 3 @ redir_str rs @ t" and rs: "list_all redir_ok rs" and t: "stop t"
  let ?t = "cmd_str c 0 @ 41 # redir_str rs @ t"
  have d1: "drop i s = 40 # ?t" using d assms(3) by simp
  have "nonwhite ?t" using assms(2) by (intro nonwhite_cmd_str) (simp_all add: whitespace_def)
  note y = symbol_token [OF d1 _ this]
  have "reads s (pbind (parseline n s (Suc i)) (\<lambda>(c, i). parse_close s c i)) t (wrap rs c)" for n
  proof (rule reads_bind [of s "parseline n s (Suc i)" "41 # redir_str rs @ t" c])
    show "reads s (parseline n s (Suc i)) (41 # redir_str rs @ t) c"
      using assms(1) y(3) unfolding level0_def by simp
  qed (use parse_close_reads [OF _ rs t] in blast)
  then have "reads s (parseblock n s i) t (wrap rs c)" for n
    using y(1,2) by (cases n) (simp_all add: parse_close_def [abs_def])
  then show "reads s (parseexec fuel s i) t (wrap rs c)"
    using y(1) by (cases fuel) simp_all
qed

lemma level3D:
  assumes "level3 c" "drop i s = cmd_str c 3 @ t" "stop t"
  shows "reads s (parseexec fuel s i) t c"
proof -
  have "drop i s = cmd_str c 3 @ redir_str [] @ t" using assms(2) by simp
  then have "reads s (parseexec fuel s i) t (wrap [] c)" using assms(1,3) unfolding level3_def by (metis list.pred_inject(1))
  then show ?thesis by simp
qed

lemma level2_of_level3:
  assumes "level3 c" "cmd_str c 2 = cmd_str c 3"
  shows "level2 c"
  unfolding level2_def
proof (intro allI impI)
  fix s i t fuel
  assume d: "drop i s = cmd_str c 2 @ t" and t: "starts {41, 38, 59} t"
  have st: "stop t" using t by (rule starts_mono) auto
  have r: "reads s (parseexec n s i) t c" for n
    using d st assms(2) by (intro level3D [OF assms(1)]) simp_all
  have "peek s j [124] = (False, j)" if "drop j s = t" for j using that t by (intro peek_not [of j s t]) (auto simp: whitespace_def)
  then show "reads s (parsepipe fuel s i) t c"
    by (cases fuel) (auto intro!: reads_bind [OF r] reads_Parsed)
qed

lemma level2_PIPE:
  assumes "level3 l" "level2 r" "cmd_ok r"
  shows "level2 (PIPE l r)"
  unfolding level2_def
proof (intro allI impI)
  fix s i t fuel
  assume d: "drop i s = cmd_str (PIPE l r) 2 @ t" and t: "starts {41, 38, 59} t"
  let ?t = "cmd_str r 2 @ t"
  have nw: "nonwhite ?t" using assms(3) t by (intro nonwhite_cmd_str) (auto simp: whitespace_def elim!: starts_mono)
  have d1: "drop i s = cmd_str l 3 @ 124 # ?t" using d by (simp add: paren_def)
  have l: "reads s (parseexec n s i) (124 # ?t) l" for n
    using d1 by (intro level3D [OF assms(1)]) simp_all
  show "reads s (parsepipe fuel s i) t (PIPE l r)"
  proof (cases fuel)
    case (Suc n)
    have "reads s (pbind (parsepipe n s (Suc j)) (\<lambda>(d, k). Parsed (pipecmd c' d, k))) t (PIPE l r)"
      if j: "drop j s = 124 # ?t" "map_command (word_text s) c' = l" for c' j
    proof (rule reads_bind [of s "parsepipe n s (Suc j)" t r])
      show "reads s (parsepipe n s (Suc j)) t r"
        using assms(2) t symbol_token(3) [OF j(1) _ nw] unfolding level2_def by simp
    qed (use j(2) in \<open>simp add: reads_Parsed pipecmd_def\<close>)
    then show ?thesis using Suc symbol_token [OF _ _ nw] by (auto intro!: reads_bind [OF l])
  qed simp
qed

lemma parse_backs_reads:
  assumes "drop i s = replicate n 38 @ t" "starts {41, 59} t"
  shows "reads s (parse_backs fuel s c i) t ((BACK ^^ n) (map_command (word_text s) c))"
  using assms(1)
proof (induction n arbitrary: c i fuel)
  case 0
  have "peek s i [38] = (False, i)" using 0 assms(2) by (intro peek_not [of i s t]) (auto simp: whitespace_def)
  then show ?case using 0 by (cases fuel) (auto simp: parse_backs.simps intro!: reads_Parsed)
next
  case (Suc n)
  have d: "drop i s = 38 # replicate n 38 @ t" using Suc(2) by simp
  have "nonwhite (replicate n 38 @ t)" using assms(2) by (cases n) (auto simp: whitespace_def elim!: starts_mono)
  note y = symbol_token [OF d _ this]
  show ?case
  proof (cases fuel)
    case (Suc k)
    then show ?thesis using y Suc.IH [OF y(3), of k "backcmd c"]
      by (simp add: parse_backs.simps backcmd_def funpow_swap1)
  qed (simp add: parse_backs.simps)
qed

lemma level1_of_level2:
  assumes "level2 c" "cmd_str c 1 = cmd_str c 2"
  shows "level1 c"
  unfolding level1_def
proof (intro allI impI)
  fix s i n t fuel
  assume d: "drop i s = cmd_str c 1 @ replicate n 38 @ t" and t: "starts {41, 59} t"
  have "starts {41, 38, 59} (replicate n 38 @ t)" using t by (cases n) (auto elim!: starts_mono)
  then have "reads s (parsepipe fuel s i) (replicate n 38 @ t) c" using assms d unfolding level2_def by simp
  then show "reads s (pbind (parsepipe fuel s i) (\<lambda>(c, i). parse_backs (Suc (length s)) s c i)) t ((BACK ^^ n) c)"
    by (rule reads_bind) (use parse_backs_reads t in blast)
qed

lemma level1_BACK:
  assumes "level1 c"
  shows "level1 (BACK c)"
  unfolding level1_def
proof (intro allI impI)
  fix s i n t fuel
  assume "drop i s = cmd_str (BACK c) 1 @ replicate n 38 @ t" and t: "starts {41, 59} t"
  then have "drop i s = cmd_str c 1 @ replicate (Suc n) 38 @ t" by (simp add: paren_def)
  then have "reads s (pbind (parsepipe fuel s i) (\<lambda>(c, i). parse_backs (Suc (length s)) s c i)) t ((BACK ^^ Suc n) c)"
    using assms t unfolding level1_def by blast
  then show "reads s (pbind (parsepipe fuel s i) (\<lambda>(c, i). parse_backs (Suc (length s)) s c i)) t ((BACK ^^ n) (BACK c))"
    by (simp add: funpow_swap1)
qed

definition parse_rest :: "nat \<Rightarrow> u8 list \<Rightarrow> cmd \<Rightarrow> nat \<Rightarrow> (cmd \<times> nat) parsed" where
  "parse_rest fuel s cmd ps =
     (let (b, ps) = peek s ps [59] in
      if b then
        let (_, _, _, ps) = gettoken s ps in
        pbind (parseline fuel s ps) (\<lambda>(r, ps). Parsed (listcmd cmd r, ps))
      else Parsed (cmd, ps))"

lemma parseline_split:
  "parseline (Suc fuel) s i = pbind (pbind (parsepipe fuel s i) (\<lambda>(c, i). parse_backs (Suc (length s)) s c i))
     (\<lambda>(c, i). parse_rest fuel s c i)"
  by (cases "parsepipe fuel s i") (auto simp: parse_rest_def)

lemma level0_of_level1:
  assumes "level1 c" "cmd_str c 0 = cmd_str c 1"
  shows "level0 c"
  unfolding level0_def
proof (intro allI impI)
  fix s i t fuel
  assume d: "drop i s = cmd_str c 0 @ t" and t: "starts {41} t"
  have "starts {41, 59} t" using t by (rule starts_mono) auto
  moreover have "drop i s = cmd_str c 1 @ replicate 0 38 @ t" using d assms(2) by simp
  ultimately have r: "reads s (pbind (parsepipe n s i) (\<lambda>(c, i). parse_backs (Suc (length s)) s c i)) t ((BACK ^^ 0) c)" for n
    using assms(1) unfolding level1_def by blast
  have "peek s j [59] = (False, j)" if "drop j s = t" for j using that t by (intro peek_not [of j s t]) (auto simp: whitespace_def)
  then show "reads s (parseline fuel s i) t c"
    by (cases fuel) (auto simp: parseline_split parse_rest_def simp del: parseline.simps(2) intro!: reads_bind [OF r] reads_Parsed)
qed

lemma level0_LIST:
  assumes "level1 l" "level0 r" "cmd_ok r"
  shows "level0 (LIST l r)"
  unfolding level0_def
proof (intro allI impI)
  fix s i t fuel
  assume d: "drop i s = cmd_str (LIST l r) 0 @ t" and t: "starts {41} t"
  let ?t = "cmd_str r 0 @ t"
  have nw: "nonwhite ?t" using assms(3) t by (intro nonwhite_cmd_str) (auto simp: whitespace_def elim!: starts_mono)
  have "drop i s = cmd_str l 1 @ replicate 0 38 @ 59 # ?t" using d by (simp add: paren_def)
  then have l: "reads s (pbind (parsepipe n s i) (\<lambda>(c, i). parse_backs (Suc (length s)) s c i)) (59 # ?t) ((BACK ^^ 0) l)" for n
    using assms(1) unfolding level1_def by (metis insertI1 insertI2 starts_Cons)
  show "reads s (parseline fuel s i) t (LIST l r)"
  proof (cases fuel)
    case (Suc n)
    have "reads s (pbind (parseline n s (Suc j)) (\<lambda>(d, k). Parsed (listcmd c' d, k))) t (LIST l r)"
      if j: "drop j s = 59 # ?t" "map_command (word_text s) c' = l" for c' j
    proof (rule reads_bind [of s "parseline n s (Suc j)" t r])
      show "reads s (parseline n s (Suc j)) t r"
        using assms(2) t symbol_token(3) [OF j(1) _ nw] unfolding level0_def by simp
    qed (use j(2) in \<open>simp add: reads_Parsed listcmd_def\<close>)
    then show ?thesis using Suc symbol_token [OF _ _ nw]
      by (auto simp: parseline_split parse_rest_def simp del: parseline.simps(2) intro!: reads_bind [OF l])
  qed simp
qed

lemma levels: "cmd_ok c \<Longrightarrow> level0 c \<and> level1 c \<and> level2 c \<and> level3 c"
proof (induction c)
  case (EXEC ws)
  then show ?case using level3_EXEC level2_of_level3 level1_of_level2 level0_of_level1 by simp
next
  case (REDIR c f mode fd)
  then have "level3 (REDIR c f mode fd)" by (intro level3_REDIR) simp_all
  then show ?case using level2_of_level3 level1_of_level2 level0_of_level1 by simp
next
  case (PIPE l r)
  then have "level2 (PIPE l r)" by (intro level2_PIPE) simp_all
  then have "level1 (PIPE l r)" by (rule level1_of_level2) (simp add: paren_def)
  then have "level0 (PIPE l r)" by (rule level0_of_level1) (simp add: paren_def)
  then have "level3 (PIPE l r)" using PIPE by (intro level3_paren) (simp_all add: paren_def)
  then show ?case using \<open>level2 (PIPE l r)\<close> \<open>level1 (PIPE l r)\<close> \<open>level0 (PIPE l r)\<close> by simp
next
  case (LIST l r)
  then have "level0 (LIST l r)" by (intro level0_LIST) simp_all
  moreover from this LIST have "level3 (LIST l r)" by (intro level3_paren) (simp_all add: paren_def)
  moreover from this have "level2 (LIST l r)" by (rule level2_of_level3) (simp add: paren_def)
  moreover from this have "level1 (LIST l r)" by (rule level1_of_level2) (simp add: paren_def)
  ultimately show ?case by simp
next
  case (BACK c)
  then have "level1 (BACK c)" by (intro level1_BACK) simp_all
  moreover from this have "level0 (BACK c)" by (rule level0_of_level1) (simp add: paren_def)
  moreover from this BACK have "level3 (BACK c)" by (intro level3_paren) (simp_all add: paren_def)
  moreover from this have "level2 (BACK c)" by (rule level2_of_level3) (simp add: paren_def)
  ultimately show ?case by simp
qed

lemma cmd_str_no_null: "cmd_ok c \<Longrightarrow> 0 \<notin> set (cmd_str c lev)"
proof (induction c arbitrary: lev)
  case (EXEC ws)
  then show ?case by (auto simp: word_str_def is_word_def list_all_iff)
next
  case (REDIR c f mode fd)
  then show ?case by (auto simp: redir_ok_def is_word_def redir_sym_def)
qed (auto simp: paren_def)

text \<open>
  C33. Every command that is written out in the syntax of the shell, with the least parentheses that its precedences
  ask for (a redirection binds more than \<open>|\<close>, then \<open>&\<close>, then \<open>;\<close>), is parsed to that command, and the strings of its
  words in the buffer are the words that were written. The words are not empty and have no white space and no symbols
  in them, and a simple command has fewer than \<open>MAXARGS\<close> of them.
\<close>

theorem parsecmd_roundtrip:
  assumes "cmd_ok c"
  shows "\<exists>c' buf. parsecmd (cmd_str c 0) = Parsed (c', buf) \<and> map_command (str_at buf \<circ> fst) c' = c"
proof -
  let ?s = "cmd_str c 0"
  have "reads ?s (parseline (parsecmd_fuel ?s) ?s 0) [] c"
    using levels [OF assms] unfolding level0_def by (simp add: starts_def)
  then obtain c' j where p: "parseline (parsecmd_fuel ?s) ?s 0 = Parsed (c', j)" "drop j ?s = []"
    "map_command (word_text ?s) c' = c"
    using parseline_ok [of ?s] by (auto simp: reads_def parse_ok_def)
  have w: "words_ok ?s c'" "j \<le> length ?s" using parseline_ok [of ?s] p(1) by auto
  have "map_command (str_at (nulterminate c' ?s) \<circ> fst) c' = map_command (word_text ?s) c'"
    using str_at_span [OF cmd_str_no_null [OF assms] w(1)] by (intro command.map_cong) auto
  moreover have "peek ?s j [] = (False, j)" using peek_at [OF p(2)] by (simp add: starts_def)
  ultimately show ?thesis using p w(2) by (auto simp: parsecmd_def)
qed

theorem parsecmd_roundtrip_witness:
  "\<exists>c' buf. parsecmd [97, 32, 62, 102, 32, 124, 40, 98, 32, 38, 59, 99, 32, 41, 38] = Parsed (c', buf)
     \<and> map_command (str_at buf \<circ> fst) c'
       = BACK (PIPE (REDIR (EXEC [[97]]) [102] (O_WRONLY OR O_CREATE OR O_TRUNC) 1) (LIST (BACK (EXEC [[98]])) (EXEC [[99]])))"
  using parsecmd_roundtrip [of "BACK (PIPE (REDIR (EXEC [[97]]) [102] (O_WRONLY OR O_CREATE OR O_TRUNC) 1)
      (LIST (BACK (EXEC [[98]])) (EXEC [[99]])))"]
  by (simp add: is_word_def redir_ok_def redir_sym_def redir_mode_def MAXARGS_def paren_def whitespace_def symbols_def
      O_WRONLY_def O_CREATE_def O_TRUNC_def O_RDONLY_def)

end
