(* ===== verification/Mkfs.thy ===== *)
theory Mkfs
  imports Dir Block_Bytes
begin

text \<open>
  The program \<open>mkfs/mkfs.c\<close> that builds the image of the file system on the host. The image is a file of sectors
  that grows as it is written; a failed read, a failed assertion and \<open>exit(1)\<close> end the run in \<open>Panic\<close>. The host
  writes to the image without errors, and the image is opened (the test of the arguments and of that \<open>open\<close> is left
  out, as are the messages on the standard output). The files that are copied are given as pairs of their names and
  the parts in which the host's \<open>read\<close> returns their contents, \<open>None\<close> for a file that cannot be opened.
\<close>

definition NINODES :: nat where "NINODES = 200"
definition nbitmap :: nat where "nbitmap = FSSIZE div (BSIZE * 8) + 1"
definition ninodeblocks :: nat where "ninodeblocks = NINODES div IPB + 1"
definition mk_nlog :: nat where "mk_nlog = LOGSIZE"
definition nmeta :: nat where "nmeta = 2 + mk_nlog + ninodeblocks + nbitmap"
definition nblocks :: nat where "nblocks = FSSIZE - nmeta"

record mkfs_state =
  img :: "nat \<Rightarrow> bytes"
  nsect :: nat
  mk_sb :: superblock
  freeinode :: u32
  freeblock :: u32

type_synonym 'a K = "(mkfs_state, 'a) M"

subsection \<open>Byte order\<close>

text \<open>The four (two) bytes that the function stores, read back as an integer of a little-endian host.\<close>

definition xshort :: "u16 \<Rightarrow> u16" where
  "xshort x = get16 ((\<lambda>_. 0)(0 := ucast x, 1 := ucast (drop_bit 8 x))) 0"

definition xint :: "u32 \<Rightarrow> u32" where
  "xint x = get32 ((\<lambda>_. 0)(0 := ucast x, 1 := ucast (drop_bit 8 x), 2 := ucast (drop_bit 16 x), 3 := ucast (drop_bit 24 x))) 0"

lemma xshort_id [simp]: "xshort x = x"
  by (simp add: xshort_def get16_def u16_bytes)

lemma xint_id [simp]: "xint x = x"
  by (simp add: xint_def get32_def u32_of_eq u32_bytes)

subsection \<open>Sectors\<close>

text \<open>The offset of the seek is a 32-bit product.\<close>

definition sector :: "u32 \<Rightarrow> nat" where
  "sector sec = unat (sec * of_nat BSIZE) div BSIZE"

definition wsect :: "u32 \<Rightarrow> bytes \<Rightarrow> unit K" where
  "wsect sec buf = modify (\<lambda>s. s\<lparr>img := (img s)(sector sec := buf), nsect := max (nsect s) (Suc (sector sec))\<rparr>)"

definition rsect :: "u32 \<Rightarrow> bytes K" where
  "rsect sec = bnd (gets nsect) (\<lambda>n. if sector sec < n then gets (\<lambda>s. img s (sector sec)) else panic ''read'')"

subsection \<open>Inodes\<close>

record dinode =
  din_type :: u16
  din_major :: u16
  din_minor :: u16
  din_nlink :: u16
  din_size :: u32
  din_addrs :: "nat \<Rightarrow> u32"

definition get_dinode :: "nat \<Rightarrow> bytes \<Rightarrow> dinode" where
  "get_dinode off d =
     \<lparr>din_type = get16 d off, din_major = get16 d (off + 2), din_minor = get16 d (off + 4), din_nlink = get16 d (off + 6),
      din_size = get32 d (off + 8), din_addrs = (\<lambda>k. if k < NDIRECT + 1 then get32 d (off + 12 + 4 * k) else 0)\<rparr>"

definition store_dinode :: "nat \<Rightarrow> dinode \<Rightarrow> bytes \<Rightarrow> bytes" where
  "store_dinode off di d =
     put_addrs (NDIRECT + 1) (off + 12) (din_addrs di) (
     put32 (off + 8) (din_size di) (
     put16 (off + 6) (din_nlink di) (
     put16 (off + 4) (din_minor di) (
     put16 (off + 2) (din_major di) (
     put16 off (din_type di) d)))))"

definition winode :: "u32 \<Rightarrow> dinode \<Rightarrow> unit K" where
  "winode inum di =
     bnd (gets (\<lambda>s. IBLOCK inum (mk_sb s))) (\<lambda>bn.
     bnd (rsect bn) (\<lambda>buf.
     wsect bn (store_dinode (dinode_off inum) di buf)))"

definition rinode :: "u32 \<Rightarrow> dinode K" where
  "rinode inum =
     bnd (gets (\<lambda>s. IBLOCK inum (mk_sb s))) (\<lambda>bn.
     bnd (rsect bn) (\<lambda>buf.
     return (get_dinode (dinode_off inum) buf)))"

definition mk_ialloc :: "u16 \<Rightarrow> u32 K" where
  "mk_ialloc ty =
     bnd (gets freeinode) (\<lambda>inum.
     seq (modify (\<lambda>s. s\<lparr>freeinode := freeinode s + 1\<rparr>)) (
     seq (winode inum \<lparr>din_type = xshort ty, din_major = 0, din_minor = 0, din_nlink = xshort 1, din_size = xint 0,
       din_addrs = (\<lambda>_. 0)\<rparr>)
     (return inum)))"

definition mk_balloc :: "nat \<Rightarrow> unit K" where
  "mk_balloc used =
     (if \<not> used < BSIZE * 8 then panic ''assert'' else
      let buf = fold (\<lambda>i buf. buf(i div 8 := buf (i div 8) OR push_bit (i mod 8) 1)) [0..<used] (\<lambda>_. 0) in
      bnd (gets (\<lambda>s. sb_bmapstart (mk_sb s))) (\<lambda>b. wsect b buf))"

text \<open>The value of \<open>freeblock\<close>, which is then advanced.\<close>

definition next_block :: "u32 K" where
  "next_block =
     bnd (gets freeblock) (\<lambda>b.
     seq (modify (\<lambda>s. s\<lparr>freeblock := freeblock s + 1\<rparr>))
     (return b))"

text \<open>The entry of the block of indirect addresses, allocated if need be.\<close>

definition append_entry :: "u32 \<Rightarrow> nat \<Rightarrow> u32 K" where
  "append_entry ind j =
     bnd (rsect ind) (\<lambda>indirect.
     if get32 indirect (4 * j) = 0 then
       bnd next_block (\<lambda>b.
       let indirect = put32 (4 * j) (xint b) indirect in
       seq (wsect ind indirect)
       (return (xint (get32 indirect (4 * j)))))
     else return (xint (get32 indirect (4 * j))))"

text \<open>The sector of a block of the file, allocated if need be, and the inode with its address.\<close>

definition append_block :: "dinode \<Rightarrow> nat \<Rightarrow> (u32 \<times> dinode) K" where
  "append_block di fbn =
     (if fbn < NDIRECT then
        bnd (if xint (din_addrs di fbn) = 0 then
               bnd next_block (\<lambda>b. return (di\<lparr>din_addrs := (din_addrs di)(fbn := xint b)\<rparr>))
             else return di) (\<lambda>di.
        return (xint (din_addrs di fbn), di))
      else
        bnd (if xint (din_addrs di NDIRECT) = 0 then
               bnd next_block (\<lambda>b. return (di\<lparr>din_addrs := (din_addrs di)(NDIRECT := xint b)\<rparr>))
             else return di) (\<lambda>di.
        bnd (append_entry (xint (din_addrs di NDIRECT)) (fbn - NDIRECT)) (\<lambda>x.
        return (x, di))))"

text \<open>Every round of the loop of \<open>iappend\<close> copies a byte at least: the fuel is one more than the number of bytes.\<close>

primrec iappend_loop :: "nat \<Rightarrow> u8 list \<Rightarrow> u32 \<Rightarrow> dinode \<Rightarrow> (u32 \<times> dinode) K" where
  "iappend_loop 0 p off di = fault ''fuel''"
| "iappend_loop (Suc fuel) p off di =
     (if p = [] then return (off, di) else
      let fbn = unat off div BSIZE in
      if \<not> fbn < MAXFILE then panic ''assert'' else
      bnd (append_block di fbn) (\<lambda>(x, di).
      let n1 = min (length p) ((fbn + 1) * BSIZE - unat off) in
      bnd (rsect x) (\<lambda>buf.
      seq (wsect x (\<lambda>i. if unat off - fbn * BSIZE \<le> i \<and> i < unat off - fbn * BSIZE + n1
                         then p ! (i - (unat off - fbn * BSIZE)) else buf i))
      (iappend_loop fuel (drop n1 p) (off + of_nat n1) di))))"

definition iappend :: "u32 \<Rightarrow> u8 list \<Rightarrow> unit K" where
  "iappend inum p =
     bnd (rinode inum) (\<lambda>di.
     bnd (iappend_loop (Suc (length p)) p (xint (din_size di)) di) (\<lambda>(off, di).
     winode inum (di\<lparr>din_size := xint off\<rparr>)))"

subsection \<open>main\<close>

definition store_sb :: "superblock \<Rightarrow> bytes" where
  "store_sb b =
     put32 28 (sb_bmapstart b) (put32 24 (sb_inodestart b) (put32 20 (sb_logstart b) (put32 16 (sb_nlog b) (
     put32 12 (sb_ninodes b) (put32 8 (sb_nblocks b) (put32 4 (sb_size b) (put32 0 (sb_magic b) (\<lambda>_. 0))))))))"

definition the_sb :: superblock where
  "the_sb = \<lparr>sb_magic = FSMAGIC, sb_size = xint (of_nat FSSIZE), sb_nblocks = xint (of_nat nblocks),
     sb_ninodes = xint (of_nat NINODES), sb_nlog = xint (of_nat mk_nlog), sb_logstart = xint 2,
     sb_inodestart = xint (2 + of_nat mk_nlog), sb_bmapstart = xint (2 + of_nat mk_nlog + of_nat ninodeblocks)\<rparr>"

text \<open>A directory entry of 16 bytes; \<open>strncpy\<close> pads a short name with nulls.\<close>

definition dirent_bytes :: "u16 \<Rightarrow> u8 list \<Rightarrow> u8 list" where
  "dirent_bytes inum nm =
     [ucast inum, ucast (drop_bit 8 inum)] @ take DIRSIZ nm @ replicate (DIRSIZ - length nm) 0"

definition mk_format :: "unit K" where
  "mk_format =
     seq (modify (\<lambda>s. s\<lparr>mk_sb := the_sb, freeblock := of_nat nmeta\<rparr>)) (
     seq (for_each [0..<FSSIZE] (\<lambda>i. wsect (of_nat i) (\<lambda>_. 0)))
     (wsect 1 (store_sb the_sb)))"

definition shortname :: "u8 list \<Rightarrow> u8 list" where
  "shortname arg =
     (let nm = (if take 5 arg = [117, 115, 101, 114, 47] then drop 5 arg else arg)
      in if nm \<noteq> [] \<and> hd nm = 95 then tl nm else nm)"

definition mk_file :: "u32 \<Rightarrow> u8 list \<times> u8 list list option \<Rightarrow> unit K" where
  "mk_file rootino f =
     (case f of (arg, contents) \<Rightarrow>
      if 47 \<in> set (if take 5 arg = [117, 115, 101, 114, 47] then drop 5 arg else arg) then panic ''assert'' else
      case contents of None \<Rightarrow> panic ''open'' | Some parts \<Rightarrow>
      bnd (mk_ialloc T_FILE) (\<lambda>inum.
      seq (iappend rootino (dirent_bytes (xshort (ucast inum)) (shortname arg)))
      (for_each parts (iappend inum))))"

definition mkfs_main :: "(u8 list \<times> u8 list list option) list \<Rightarrow> unit K" where
  "mkfs_main files =
     seq mk_format (
     bnd (mk_ialloc T_DIR) (\<lambda>rootino.
     if rootino \<noteq> ROOTINO then panic ''assert'' else
     seq (iappend rootino (dirent_bytes (xshort (ucast rootino)) [46])) (
     seq (iappend rootino (dirent_bytes (xshort (ucast rootino)) [46, 46])) (
     seq (for_each files (mk_file rootino)) (
     bnd (rinode rootino) (\<lambda>di.
     let off = xint (din_size di); off = (off div of_nat BSIZE + 1) * of_nat BSIZE in
     seq (winode rootino (di\<lparr>din_size := xint off\<rparr>)) (
     bnd (gets freeblock) (\<lambda>b. mk_balloc (unat b)))))))))"

end
