(* ===== verification/Mkfs_Run.thy ===== *)
theory Mkfs_Run
  imports Mkfs File_Bytes
begin

text \<open>
  The files that \<open>mkfs\<close> builds. No block belongs to two files or twice to one, and the blocks behind \<open>freeblock\<close> are
  blank; under this invariant \<open>iappend\<close> appends its bytes to the file and leaves every other file as it is.
\<close>

definition blk :: "mkfs_state \<Rightarrow> u32 \<Rightarrow> bytes" where
  "blk st b = img st (unat b)"

lemma sector_small: "unat b < 2 ^ 22 \<Longrightarrow> sector b = unat b"
  by (simp add: sector_def BSIZE_def unat_word_ariths)

lemma wsect_run:
  assumes "unat b < nsect st" "nsect st \<le> FSSIZE"
  shows "wsect b v e st = Ok () e (st\<lparr>img := (img st)(unat b := v)\<rparr>)"
proof -
  have "sector b = unat b" using assms by (intro sector_small) (simp add: FSSIZE_def)
  then show ?thesis using assms by (simp add: wsect_def max_def)
qed

lemma rsect_run:
  assumes "unat b < nsect st" "nsect st \<le> FSSIZE"
  shows "rsect b e st = Ok (blk st b) e st"
proof -
  have "sector b = unat b" using assms by (intro sector_small) (simp add: FSSIZE_def)
  then show ?thesis using assms by (simp add: rsect_def blk_def)
qed

lemma blk_upd [simp]: "blk (st\<lparr>img := (img st)(unat b := v)\<rparr>) = (blk st)(b := v)"
  by (auto simp: blk_def fun_eq_iff word_unat_eq_iff)

lemma blk_other [simp]: "blk (st\<lparr>freeblock := f\<rparr>) = blk st" "blk (st\<lparr>freeinode := g\<rparr>) = blk st"
  by (simp_all add: blk_def fun_eq_iff)

subsection \<open>Ownership of blocks\<close>

definition links :: "(u32 \<Rightarrow> nat \<Rightarrow> u32) \<Rightarrow> nat \<Rightarrow> bool" where
  "links S fb \<longleftrightarrow>
     (\<forall>i k. k < NSLOTS \<longrightarrow> S i k \<noteq> 0 \<longrightarrow> nmeta \<le> unat (S i k) \<and> unat (S i k) < fb)
   \<and> (\<forall>i j k l. k < NSLOTS \<longrightarrow> l < NSLOTS \<longrightarrow> S i k \<noteq> 0 \<longrightarrow> S i k = S j l \<longrightarrow> i = j \<and> k = l)"

lemma links_bound: "links S fb \<Longrightarrow> k < NSLOTS \<Longrightarrow> S i k \<noteq> 0 \<Longrightarrow> nmeta \<le> unat (S i k) \<and> unat (S i k) < fb"
  by (simp add: links_def)

lemma links_inj: "links S fb \<Longrightarrow> k < NSLOTS \<Longrightarrow> l < NSLOTS \<Longrightarrow> S i k \<noteq> 0 \<Longrightarrow> S i k = S j l \<Longrightarrow> i = j \<and> k = l"
  unfolding links_def by blast

lemma links_cong:
  assumes "links S fb" "\<And>i k. k < NSLOTS \<Longrightarrow> S' i k = S i k" "fb \<le> fb'"
  shows "links S' fb'"
  unfolding links_def
proof (intro conjI allI impI)
  fix i k assume "k < NSLOTS" "S' i k \<noteq> 0"
  then show "nmeta \<le> unat (S' i k)" "unat (S' i k) < fb'" using links_bound [OF assms(1), of k i] assms(2,3) by auto
next
  fix i j k l assume "k < NSLOTS" "l < NSLOTS" "S' i k \<noteq> 0" "S' i k = S' j l"
  then show "i = j" "k = l" using links_inj [OF assms(1), of k l i j] assms(2) by auto
qed

lemma links_fresh:
  assumes "links S (unat b)" "S i k = 0" "nmeta \<le> unat b"
  shows "links (S(i := (S i)(k := b))) (Suc (unat b))"
proof -
  have f: "S j l \<noteq> b" if "l < NSLOTS" "S j l \<noteq> 0" for j l using links_bound [OF assms(1) that] by auto
  show ?thesis
    unfolding links_def
  proof (intro conjI allI impI)
    fix j l assume "l < NSLOTS" "(S(i := (S i)(k := b))) j l \<noteq> 0"
    then show "nmeta \<le> unat ((S(i := (S i)(k := b))) j l)" "unat ((S(i := (S i)(k := b))) j l) < Suc (unat b)"
      using links_bound [OF assms(1), of l j] assms(3) by (auto split: if_splits)
  next
    fix j j' l l' assume a: "l < NSLOTS" "l' < NSLOTS" "(S(i := (S i)(k := b))) j l \<noteq> 0"
      "(S(i := (S i)(k := b))) j l = (S(i := (S i)(k := b))) j' l'"
    then show "j = j'" "l = l'"
      using links_inj [OF assms(1), of l l' j j'] f [of l j] f [of l' j'] by (auto split: if_splits)
  qed
qed

text \<open>The invariant for the addresses \<open>A\<close> of the inodes.\<close>

definition img_inv :: "(u32 \<Rightarrow> nat \<Rightarrow> u32) \<Rightarrow> mkfs_state \<Rightarrow> bool" where
  "img_inv A st \<longleftrightarrow> nsect st = FSSIZE \<and> mk_sb st = the_sb \<and> nmeta \<le> unat (freeblock st) \<and> unat (freeblock st) \<le> FSSIZE
     \<and> (\<forall>b. unat (freeblock st) \<le> unat b \<longrightarrow> unat b < FSSIZE \<longrightarrow> blk st b = (\<lambda>_. 0))
     \<and> links (\<lambda>i. slot (blk st) (A i)) (unat (freeblock st))"

text \<open>What an operation on the file of one inode leaves alone.\<close>

definition others_kept :: "(u32 \<Rightarrow> nat \<Rightarrow> u32) \<Rightarrow> u32 \<Rightarrow> mkfs_state \<Rightarrow> mkfs_state \<Rightarrow> bool" where
  "others_kept A i st st' \<longleftrightarrow>
     (\<forall>j k. j \<noteq> i \<longrightarrow> k < NSLOTS \<longrightarrow> slot (blk st') (A j) k = slot (blk st) (A j) k
        \<and> (slot (blk st) (A j) k \<noteq> 0 \<longrightarrow> blk st' (slot (blk st) (A j) k) = blk st (slot (blk st) (A j) k)))
   \<and> (\<forall>b. unat b < nmeta \<longrightarrow> blk st' b = blk st b) \<and> freeinode st' = freeinode st"

lemma others_kept_refl [simp]: "others_kept A i st st"
  by (simp add: others_kept_def)

lemma others_kept_trans:
  "others_kept A i st st1 \<Longrightarrow> others_kept (A(i := a)) i st1 st2 \<Longrightarrow> others_kept A i st st2"
  unfolding others_kept_def by simp

text \<open>A block that no other inode owns is written.\<close>

lemma write_kept:
  assumes "nmeta \<le> unat x" "\<And>j k. j \<noteq> i \<Longrightarrow> k < NSLOTS \<Longrightarrow> slot (blk st) (A j) k \<noteq> 0 \<Longrightarrow> slot (blk st) (A j) k \<noteq> x"
  shows "others_kept A i st (st\<lparr>img := (img st)(unat x := v)\<rparr>)"
proof -
  have "slot ((blk st)(x := v)) (A j) k = slot (blk st) (A j) k" if "j \<noteq> i" for j k
    using assms(2) [OF that, of NDIRECT] by (intro slot_data) (auto simp: slot_def NSLOTS_def)
  then show ?thesis using assms unfolding others_kept_def by auto
qed

subsection \<open>Allocating a block\<close>

lemma next_block_run [simp]: "next_block e st = Ok (freeblock st) e (st\<lparr>freeblock := freeblock st + 1\<rparr>)"
  by (simp add: next_block_def)

lemma unat_next: "unat b < FSSIZE \<Longrightarrow> unat (b + 1) = Suc (unat b)" for b :: u32
  by (simp add: FSSIZE_def unat_word_ariths)

lemma alloc_slot:
  assumes inv: "img_inv A st" and room: "unat (freeblock st) < FSSIZE"
    and kept: "others_kept A i st st'" and st': "nsect st' = nsect st" "mk_sb st' = mk_sb st" "freeblock st' = freeblock st + 1"
    and above: "\<And>b. unat (freeblock st) < unat b \<Longrightarrow> blk st' b = blk st b"
    and free: "slot (blk st) (A i) k = 0"
    and slots: "\<And>l. l < NSLOTS \<Longrightarrow> slot (blk st') a l = ((slot (blk st) (A i))(k := freeblock st)) l"
  shows "img_inv (A(i := a)) st'"
proof -
  let ?S = "\<lambda>i. slot (blk st) (A i)"
  have fb: "unat (freeblock st') = Suc (unat (freeblock st))" using unat_next [OF room] st' by simp
  have "links (?S(i := (?S i)(k := freeblock st))) (Suc (unat (freeblock st)))"
    using inv free by (intro links_fresh) (auto simp: img_inv_def)
  then have "links (\<lambda>j. slot (blk st') ((A(i := a)) j)) (unat (freeblock st'))"
    by (rule links_cong) (use kept slots fb in \<open>auto simp: others_kept_def\<close>)
  then show ?thesis using inv room st' fb above unfolding img_inv_def by auto
qed

text \<open>The addresses after a step, and what it keeps of the file itself.\<close>

definition grows :: "(u32 \<Rightarrow> nat \<Rightarrow> u32) \<Rightarrow> u32 \<Rightarrow> (nat \<Rightarrow> u32) \<Rightarrow> mkfs_state \<Rightarrow> mkfs_state \<Rightarrow> bool" where
  "grows A i a st st' \<longleftrightarrow> img_inv (A(i := a)) st' \<and> others_kept A i st st'
     \<and> (\<forall>k<NSLOTS. slot (blk st) (A i) k \<noteq> 0 \<longrightarrow> slot (blk st') a k = slot (blk st) (A i) k
          \<and> (k \<noteq> NDIRECT \<longrightarrow> blk st' (slot (blk st) (A i) k) = blk st (slot (blk st) (A i) k)))"

lemma grows_refl: "img_inv A st \<Longrightarrow> a = A i \<Longrightarrow> grows A i a st st"
  by (simp add: grows_def)

lemma grows_trans: "grows A i a st st1 \<Longrightarrow> grows (A(i := a)) i a' st1 st2 \<Longrightarrow> grows A i a' st st2"
  unfolding grows_def by (auto intro: others_kept_trans)

lemma grow_direct:
  assumes "img_inv A st" "unat (freeblock st) < FSSIZE" "f < NDIRECT" "A i f = 0"
  shows "grows A i ((A i)(f := freeblock st)) st (st\<lparr>freeblock := freeblock st + 1\<rparr>)"
proof -
  have "img_inv (A(i := (A i)(f := freeblock st))) (st\<lparr>freeblock := freeblock st + 1\<rparr>)"
    using assms by (intro alloc_slot [OF assms(1,2), where k = f]) (auto simp: others_kept_def slot_direct slot_def)
  then show ?thesis using assms(3,4) by (auto simp: grows_def others_kept_def slot_direct slot_def)
qed

lemma grow_indirect:
  assumes "img_inv A st" "unat (freeblock st) < FSSIZE" "A i NDIRECT = 0"
  shows "grows A i ((A i)(NDIRECT := freeblock st)) st (st\<lparr>freeblock := freeblock st + 1\<rparr>)"
proof -
  have z: "blk st (freeblock st) = (\<lambda>_. 0)" using assms by (simp add: img_inv_def)
  have "img_inv (A(i := (A i)(NDIRECT := freeblock st))) (st\<lparr>freeblock := freeblock st + 1\<rparr>)"
    using assms z by (intro alloc_slot [OF assms(1,2), where k = NDIRECT]) (auto simp: others_kept_def slot_indirect slot_def)
  then show ?thesis using assms(3) z by (auto simp: grows_def others_kept_def slot_indirect)
qed

lemma grow_entry:
  assumes inv: "img_inv A st" and room: "unat (freeblock st) < FSSIZE" and j: "j < NINDIRECT"
    and ind: "A i NDIRECT \<noteq> 0" and free: "get32 (blk st (A i NDIRECT)) (4 * j) = 0"
    and v: "v = put32 (4 * j) (freeblock st) (blk st (A i NDIRECT))"
    and st': "st' = st\<lparr>freeblock := freeblock st + 1, img := (img st)(unat (A i NDIRECT) := v)\<rparr>"
  shows "grows A i (A i) st st'"
proof -
  let ?x = "A i NDIRECT"
  have L: "links (\<lambda>i. slot (blk st) (A i)) (unat (freeblock st))" using inv by (simp add: img_inv_def)
  have n: "NDIRECT < NSLOTS" by (simp add: NSLOTS_def)
  have x: "slot (blk st) (A i) NDIRECT = ?x" by (simp add: slot_def)
  have own: "slot (blk st) (A j) k = ?x \<Longrightarrow> k < NSLOTS \<Longrightarrow> j = i \<and> k = NDIRECT" for j k
    using links_inj [OF L n, of k i j] x ind by auto
  have xb: "nmeta \<le> unat ?x" "unat ?x < unat (freeblock st)" using links_bound [OF L n, of i] x ind by auto
  have b: "blk st' = (blk st)(?x := v)" by (simp add: st' blk_def fun_eq_iff word_unat_eq_iff)
  have k: "others_kept A i st (st\<lparr>img := (img st)(unat ?x := v)\<rparr>)" using own by (intro write_kept xb) blast
  then have kept: "others_kept A i st st'" unfolding others_kept_def b by (simp add: st')
  have slots: "slot (blk st') (A i) l = ((slot (blk st) (A i))(NDIRECT + 1 + j := freeblock st)) l" for l
    unfolding b using ind v by (intro slot_entry) simp_all
  have "img_inv (A(i := A i)) st'"
  proof (rule alloc_slot [OF inv room kept])
    show "blk st' c = blk st c" if "unat (freeblock st) < unat c" for c using xb that by (auto simp: b)
    show "slot (blk st) (A i) (NDIRECT + 1 + j) = 0" using free by (simp add: slot_def)
    show "slot (blk st') (A i) l = ((slot (blk st) (A i))(NDIRECT + 1 + j := freeblock st)) l" for l by (rule slots)
  qed (simp_all add: st')
  moreover have "slot (blk st) (A i) (NDIRECT + 1 + j) = 0" using free by (simp add: slot_def)
  moreover have "blk st' (slot (blk st) (A i) k) = blk st (slot (blk st) (A i) k)" if "k < NSLOTS" "k \<noteq> NDIRECT" for k
    using that own [of i k] by (auto simp: b)
  ultimately show ?thesis using kept slots unfolding grows_def by auto
qed

lemma grows_slot:
  "grows A i a st st' \<Longrightarrow> k < NSLOTS \<Longrightarrow> slot (blk st) (A i) k \<noteq> 0 \<Longrightarrow> slot (blk st') a k = slot (blk st) (A i) k"
  by (simp add: grows_def)

lemma slot_sectors:
  assumes "img_inv A st" "k < NSLOTS" "slot (blk st) (A i) k \<noteq> 0"
  shows "rsect (slot (blk st) (A i) k) e st = Ok (blk st (slot (blk st) (A i) k)) e st"
    "wsect (slot (blk st) (A i) k) v e st = Ok () e (st\<lparr>img := (img st)(unat (slot (blk st) (A i) k) := v)\<rparr>)"
    "nmeta \<le> unat (slot (blk st) (A i) k)"
  using links_bound [of "\<lambda>i. slot (blk st) (A i)" "unat (freeblock st)" k i] assms
  by (auto simp: img_inv_def intro!: rsect_run wsect_run)

lemma append_block_direct:
  assumes inv: "img_inv A st" and a: "A i = din_addrs di" and f: "fbn < NDIRECT"
    and room: "unat (freeblock st) + 1 \<le> FSSIZE"
  shows "\<exists>x a' st'. append_block di fbn e st = Ok (x, di\<lparr>din_addrs := a'\<rparr>) e st' \<and> grows A i a' st st'
     \<and> slot (blk st') a' (data_slot fbn) = x \<and> x \<noteq> 0
     \<and> unat (freeblock st') \<le> unat (freeblock st) + 1 \<and> a' NDIRECT = din_addrs di NDIRECT"
proof (cases "din_addrs di fbn = 0")
  case True
  have fb: "freeblock st \<noteq> 0" using inv by (auto simp: img_inv_def nmeta_def)
  have "unat (freeblock st + 1) = Suc (unat (freeblock st))" using room by (intro unat_next) simp
  then show ?thesis using True grow_direct [OF inv _ f, of i] f room a fb
    by (intro exI [of _ "freeblock st"] exI [of _ "(din_addrs di)(fbn := freeblock st)"]
        exI [of _ "st\<lparr>freeblock := freeblock st + 1\<rparr>"]) (simp add: append_block_def slot_direct data_slot_def)
next
  case False
  then show ?thesis using f grows_refl [OF inv, of _ i] a
    by (intro exI [of _ "din_addrs di fbn"] exI [of _ "din_addrs di"] exI [of _ st])
       (simp add: append_block_def slot_def data_slot_def)
qed

lemma append_entry_run:
  assumes inv: "img_inv A st" and a: "A i = a" and j: "j < NINDIRECT" and ind: "a NDIRECT \<noteq> 0"
    and room: "unat (freeblock st) + 1 \<le> FSSIZE"
  shows "\<exists>x st'. append_entry (a NDIRECT) j e st = Ok x e st' \<and> grows A i a st st'
     \<and> slot (blk st') a (NDIRECT + 1 + j) = x \<and> x \<noteq> 0 \<and> unat (freeblock st') \<le> unat (freeblock st) + 1"
proof -
  have n: "NDIRECT < NSLOTS" by (simp add: NSLOTS_def)
  have i': "A i NDIRECT \<noteq> 0" using ind a by simp
  note sec = slot_sectors [OF inv n, of i, simplified, OF i', unfolded a]
  show ?thesis
  proof (cases "get32 (blk st (a NDIRECT)) (4 * j) = 0")
    case True
    let ?v = "put32 (4 * j) (freeblock st) (blk st (a NDIRECT))"
    let ?st = "st\<lparr>freeblock := freeblock st + 1, img := (img st)(unat (a NDIRECT) := ?v)\<rparr>"
    have fb: "freeblock st \<noteq> 0" using inv by (auto simp: img_inv_def nmeta_def)
    have g: "grows A i a st ?st"
      using grow_entry [OF inv _ j i', of ?v ?st] True room a by simp
    have "blk ?st = (blk st)(a NDIRECT := ?v)" by (simp add: blk_def fun_eq_iff word_unat_eq_iff)
    then have "slot (blk ?st) a (NDIRECT + 1 + j) = freeblock st" using ind by (simp add: slot_entry)
    moreover have "unat (freeblock st + 1) = Suc (unat (freeblock st))" using room by (intro unat_next) simp
    moreover have "wsect (a NDIRECT) ?v e (st\<lparr>freeblock := freeblock st + 1\<rparr>) = Ok () e ?st"
      using links_bound [OF _ n, of "\<lambda>i. slot (blk st) (A i)" "unat (freeblock st)" i] inv i' a
      by (subst wsect_run) (auto simp: img_inv_def)
    ultimately show ?thesis using True g fb sec(1)
      by (intro exI [of _ "freeblock st"] exI [of _ ?st]) (simp add: append_entry_def)
  next
    case False
    then show ?thesis using grows_refl [OF inv, of a i] a sec(1) ind
      by (intro exI [of _ "get32 (blk st (a NDIRECT)) (4 * j)"] exI [of _ st]) (simp add: append_entry_def slot_def)
  qed
qed

lemma append_block_run:
  assumes inv: "img_inv A st" and a: "A i = din_addrs di" and f: "fbn < MAXFILE"
    and room: "unat (freeblock st) + 1 + (if din_addrs di NDIRECT = 0 then 1 else 0) \<le> FSSIZE"
  shows "\<exists>x a' st'. append_block di fbn e st = Ok (x, di\<lparr>din_addrs := a'\<rparr>) e st' \<and> grows A i a' st st'
     \<and> slot (blk st') a' (data_slot fbn) = x \<and> x \<noteq> 0
     \<and> unat (freeblock st') + (if a' NDIRECT = 0 then 1 else 0) \<le> unat (freeblock st) + 1 + (if din_addrs di NDIRECT = 0 then 1 else 0)"
proof (cases "fbn < NDIRECT")
  case True
  have "unat (freeblock st) + 1 \<le> FSSIZE" using room by simp
  from append_block_direct [OF inv a True this, of e] obtain x a' st' where
    "append_block di fbn e st = Ok (x, di\<lparr>din_addrs := a'\<rparr>) e st'" "grows A i a' st st'"
    "slot (blk st') a' (data_slot fbn) = x" "x \<noteq> 0" "unat (freeblock st') \<le> unat (freeblock st) + 1"
    "a' NDIRECT = din_addrs di NDIRECT" by blast
  then show ?thesis by (intro exI [of _ x] exI [of _ a'] exI [of _ st']) simp
next
  case False
  define st1 where "st1 = (if din_addrs di NDIRECT = 0 then st\<lparr>freeblock := freeblock st + 1\<rparr> else st)"
  define a1 where "a1 = (if din_addrs di NDIRECT = 0 then (din_addrs di)(NDIRECT := freeblock st) else din_addrs di)"
  have j: "fbn - NDIRECT < NINDIRECT" using f False by (simp add: MAXFILE_def)
  have g1: "grows A i a1 st st1"
    using grow_indirect [OF inv, of i] grows_refl [OF inv, of _ i] a room by (auto simp: a1_def st1_def split: if_splits)
  have fb: "freeblock st \<noteq> 0" using inv by (auto simp: img_inv_def nmeta_def)
  have fb1: "unat (freeblock st1) = unat (freeblock st) + (if din_addrs di NDIRECT = 0 then 1 else 0)"
    using unat_next [of "freeblock st"] room by (auto simp: st1_def)
  have inv1: "img_inv (A(i := a1)) st1" using g1 by (simp add: grows_def)
  have ind: "a1 NDIRECT \<noteq> 0" using fb by (simp add: a1_def)
  obtain x st' where x: "append_entry (a1 NDIRECT) (fbn - NDIRECT) e st1 = Ok x e st'" "grows (A(i := a1)) i a1 st1 st'"
    "slot (blk st') a1 (NDIRECT + 1 + (fbn - NDIRECT)) = x" "x \<noteq> 0" "unat (freeblock st') \<le> unat (freeblock st1) + 1"
    using append_entry_run [where A = "A(i := a1)" and i = i and a = a1, OF inv1 _ j ind, of e] room fb1 by auto
  have "append_block di fbn e st = Ok (x, di\<lparr>din_addrs := a1\<rparr>) e st'"
    using x(1) False by (simp add: append_block_def a1_def st1_def split: if_splits)
  moreover have "grows A i a1 st st'" by (rule grows_trans [OF g1 x(2)])
  moreover have "NDIRECT + 1 + (fbn - NDIRECT) = data_slot fbn" using False by (simp add: data_slot_def)
  ultimately show ?thesis using x(3-5) fb1 ind by (intro exI [of _ x] exI [of _ a1] exI [of _ st']) simp
qed

subsection \<open>Appending\<close>

text \<open>A block of the file itself is written.\<close>

lemma data_write:
  assumes inv: "img_inv A st" and k: "k < NSLOTS" "k \<noteq> NDIRECT" "slot (blk st) (A i) k = x" "x \<noteq> 0"
    and st': "st' = st\<lparr>img := (img st)(unat x := v)\<rparr>"
  shows "img_inv A st'" "others_kept A i st st'" "slot (blk st') (A i) l = slot (blk st) (A i) l"
    "l < NSLOTS \<Longrightarrow> l \<noteq> k \<Longrightarrow> slot (blk st) (A i) l \<noteq> 0 \<Longrightarrow> blk st' (slot (blk st) (A i) l) = blk st (slot (blk st) (A i) l)"
    "blk st' x = v"
proof -
  have L: "links (\<lambda>i. slot (blk st) (A i)) (unat (freeblock st))" using inv by (simp add: img_inv_def)
  have own: "slot (blk st) (A j) l = x \<Longrightarrow> l < NSLOTS \<Longrightarrow> j = i \<and> l = k" for j l
    using links_inj [OF L k(1), of l i j] k by auto
  have xb: "nmeta \<le> unat x" "unat x < unat (freeblock st)" using links_bound [OF L k(1), of i] k by auto
  have b: "blk st' = (blk st)(x := v)" by (simp add: st')
  show kept: "others_kept A i st st'" unfolding st' using own by (intro write_kept xb) blast
  have s: "slot (blk st') (A j) l = slot (blk st) (A j) l" for j l
    unfolding b using own [of j NDIRECT] k(2) by (intro slot_data) (auto simp: NSLOTS_def)
  then show "slot (blk st') (A i) l = slot (blk st) (A i) l" for l .
  show "blk st' (slot (blk st) (A i) l) = blk st (slot (blk st) (A i) l)" if "l < NSLOTS" "l \<noteq> k" for l
    using own [of i l] that by (auto simp: b)
  show "blk st' x = v" by (simp add: b)
  have "blk st' c = blk st c" if "unat (freeblock st) \<le> unat c" for c using that xb by (auto simp: b)
  moreover have "(\<lambda>i. slot (blk st') (A i)) = (\<lambda>i. slot (blk st) (A i))" by (intro ext) (rule s)
  moreover have "nsect st' = nsect st" "mk_sb st' = mk_sb st" "freeblock st' = freeblock st" by (simp_all add: st')
  ultimately show "img_inv A st'" using inv unfolding img_inv_def by simp
qed

definition blocks_left :: "nat \<Rightarrow> nat \<Rightarrow> nat" where
  "blocks_left off n = (if n = 0 then 0 else (off + n - 1) div BSIZE - off div BSIZE + 1)"

text \<open>One round of the loop: the part of the bytes that fits into the block goes to its place.\<close>

lemma append_round:
  fixes off :: nat
  defines "fbn \<equiv> off div BSIZE"
  assumes inv: "img_inv A st" and a: "A i = din_addrs di" and al: "allocated (blk st) (A i) off"
    and n: "n \<le> length p" "0 < n" "off mod BSIZE + n \<le> BSIZE" "off + n \<le> MAXFILE * BSIZE"
    and room: "unat (freeblock st) + 1 + (if din_addrs di NDIRECT = 0 then 1 else 0) \<le> FSSIZE"
  obtains x a' st' st'' where "append_block di fbn e st = Ok (x, di\<lparr>din_addrs := a'\<rparr>) e st'"
    "rsect x e st' = Ok (blk st' x) e st'"
    "wsect x (\<lambda>i. if off mod BSIZE \<le> i \<and> i < off mod BSIZE + n then p ! (i - off mod BSIZE) else blk st' x i) e st' = Ok () e st''"
    "img_inv (A(i := a')) st''" "others_kept A i st st''" "allocated (blk st'') a' (off + n)"
    "file_bytes (blk st'') a' (off + n) = file_bytes (blk st) (A i) off @ take n p"
    "unat (freeblock st'') + (if a' NDIRECT = 0 then 1 else 0) \<le> unat (freeblock st) + 1 + (if din_addrs di NDIRECT = 0 then 1 else 0)"
proof -
  have f: "fbn < MAXFILE" using n by (simp add: fbn_def less_mult_imp_div_less)
  obtain x a' st' where ab: "append_block di fbn e st = Ok (x, di\<lparr>din_addrs := a'\<rparr>) e st'" "grows A i a' st st'"
    "slot (blk st') a' (data_slot fbn) = x" "x \<noteq> 0"
    "unat (freeblock st') + (if a' NDIRECT = 0 then 1 else 0) \<le> unat (freeblock st) + 1 + (if din_addrs di NDIRECT = 0 then 1 else 0)"
    using append_block_run [OF inv a f room] by blast
  have inv': "img_inv (A(i := a')) st'" using ab(2) by (simp add: grows_def)
  let ?v = "\<lambda>i. if off mod BSIZE \<le> i \<and> i < off mod BSIZE + n then p ! (i - off mod BSIZE) else blk st' x i"
  define st'' where "st'' = st'\<lparr>img := (img st')(unat x := ?v)\<rparr>"
  note sec = slot_sectors [OF inv' data_slot_less [OF f], of i, simplified, unfolded ab(3), OF ab(4)]
  note w = data_write [OF inv' data_slot_less [OF f] _ _ ab(4) st''_def, of i, simplified, OF ab(3)]
  have old: "file_byte (blk st'') a' k = file_byte (blk st) (A i) k" if k: "k < off" for k
  proof -
    let ?g = "data_slot (k div BSIZE)"
    have "k div BSIZE * BSIZE < off" using k by (metis div_times_less_eq_dividend order.strict_trans1)
    then have g: "slot (blk st) (A i) ?g \<noteq> 0" "?g < NSLOTS"
      using al k n by (auto simp: allocated_def less_mult_imp_div_less intro!: data_slot_less)
    then have e: "slot (blk st'') a' ?g = slot (blk st) (A i) ?g" "blk st' (slot (blk st) (A i) ?g) = blk st (slot (blk st) (A i) ?g)"
      using ab(2) w(3) by (auto simp: grows_def)
    have "blk st'' (slot (blk st) (A i) ?g) (k mod BSIZE) = blk st (slot (blk st) (A i) ?g) (k mod BSIZE)"
    proof (cases "k div BSIZE = fbn")
      case True
      have "k mod BSIZE < off mod BSIZE"
        using k True by (metis add_less_cancel_left div_mult_mod_eq fbn_def)
      then show ?thesis using e True w(3,5) ab(3) by auto
    next
      case False
      then have "blk st'' (slot (blk st') a' ?g) = blk st' (slot (blk st') a' ?g)"
        using w(3) w(4) [of ?g] g e(1) by auto
      then show ?thesis using e w(3) by metis
    qed
    then show ?thesis using e(1) by (simp add: file_byte_def)
  qed
  have new: "file_byte (blk st'') a' (off + k) = take n p ! k" if k: "k < length (take n p)" for k
  proof -
    have m: "off mod BSIZE + k < BSIZE" using k n by simp
    define r where "r = off mod BSIZE + k"
    have "off + k = fbn * BSIZE + r" unfolding fbn_def r_def by simp
    then have "(off + k) div BSIZE = fbn" "(off + k) mod BSIZE = off mod BSIZE + k"
      using m unfolding r_def [symmetric] by simp_all
    then show ?thesis using k w(3,5) ab(3) by (simp add: file_byte_def)
  qed
  have "file_bytes (blk st'') a' (off + length (take n p)) = file_bytes (blk st) (A i) off @ take n p"
    using old new by (rule file_bytes_append)
  then have fb: "file_bytes (blk st'') a' (off + n) = file_bytes (blk st) (A i) off @ take n p" using n by simp
  have "slot (blk st'') a' (data_slot g) \<noteq> 0" if "g * BSIZE < off + n" for g
  proof (cases "g * BSIZE < off")
    case True
    then have "slot (blk st) (A i) (data_slot g) \<noteq> 0" "data_slot g < NSLOTS"
      using al by (auto simp: allocated_def intro!: data_slot_less dest: order.strict_trans2)
    then show ?thesis using ab(2) w(3) by (auto simp: grows_def)
  next
    case False
    have "off = fbn * BSIZE + off mod BSIZE" unfolding fbn_def by simp
    then have "fbn * BSIZE \<le> off" "off + n \<le> (fbn + 1) * BSIZE" using n(3) by (linarith, simp)
    then have "fbn * BSIZE \<le> g * BSIZE" "g * BSIZE < (fbn + 1) * BSIZE" using False that by linarith+
    then have "fbn \<le> g" "g < fbn + 1" by (simp, metis mult_less_cancel2)
    then have "g = fbn" by simp
    then show ?thesis using w(3) ab(3,4) by simp
  qed
  then have "allocated (blk st'') a' (off + n)" using n by (simp add: allocated_def)
  moreover have "others_kept A i st st''" using ab(2) w(2) by (auto simp: grows_def intro: others_kept_trans)
  ultimately show thesis using ab sec w(1) fb by (intro that [of x a' st' st'']) (simp_all add: st''_def)
qed

lemma maxfile_word: "n \<le> MAXFILE * BSIZE \<Longrightarrow> unat (of_nat n :: u32) = n"
  by (simp add: MAXFILE_def NDIRECT_def NINDIRECT_def BSIZE_def unat_of_nat)

lemma blocks_left_step:
  assumes "p \<noteq> []" "n1 = min (length p) ((off div BSIZE + 1) * BSIZE - off)"
  shows "Suc (blocks_left (off + n1) (length p - n1)) = blocks_left off (length p)"
    "0 < n1" "off mod BSIZE + n1 \<le> BSIZE" "n1 \<le> length p" "off - off div BSIZE * BSIZE = off mod BSIZE"
proof -
  have o: "off = off div BSIZE * BSIZE + off mod BSIZE" by simp
  have m: "off mod BSIZE < BSIZE" by simp
  have l: "0 < length p" using assms(1) by simp
  have e: "(off div BSIZE + 1) * BSIZE - off = BSIZE - off mod BSIZE"
  proof -
    have "(off div BSIZE + 1) * BSIZE = off div BSIZE * BSIZE + BSIZE" by simp
    then show ?thesis using o by linarith
  qed
  have n1: "n1 = min (length p) (BSIZE - off mod BSIZE)" using assms(2) e by simp
  show "0 < n1" unfolding n1 using l m by linarith
  show "off mod BSIZE + n1 \<le> BSIZE" unfolding n1 using m by linarith
  show "n1 \<le> length p" "off - off div BSIZE * BSIZE = off mod BSIZE" unfolding n1 by (simp_all add: minus_div_mult_eq_mod)
  show "Suc (blocks_left (off + n1) (length p - n1)) = blocks_left off (length p)"
  proof (cases "length p \<le> BSIZE - off mod BSIZE")
    case True
    have "(off + length p - 1) div BSIZE = off div BSIZE"
    proof -
      have "off + length p - 1 = off div BSIZE * BSIZE + (off mod BSIZE + length p - 1)" using assms(1) by (cases p) simp_all
      moreover have "off mod BSIZE + length p - 1 < BSIZE" using True m assms(1) by (cases p) auto
      ultimately show ?thesis by (metis BSIZE_pos add.right_neutral div_less div_mult_self3 less_numeral_extra(3))
    qed
    then show ?thesis using True l unfolding n1 by (simp add: blocks_left_def min_absorb1)
  next
    case False
    have "(off div BSIZE + 1) * BSIZE = off div BSIZE * BSIZE + BSIZE" by simp
    then have n1: "off + n1 = (off div BSIZE + 1) * BSIZE" "n1 < length p" using False n1 o m by linarith+
    have "(off + n1) div BSIZE = off div BSIZE + 1" unfolding n1(1) by (rule div_mult_self_is_m) simp
    moreover have "off + n1 + (length p - n1) - 1 = off + length p - 1" using n1 by simp
    moreover have "off div BSIZE + 1 \<le> (off + length p - 1) div BSIZE"
    proof -
      have "(off + n1) div BSIZE \<le> (off + length p - 1) div BSIZE" using n1(2) by (intro div_le_mono) simp
      then show ?thesis using \<open>(off + n1) div BSIZE = off div BSIZE + 1\<close> by simp
    qed
    ultimately show ?thesis using n1(2) assms(1) by (simp add: blocks_left_def)
  qed
qed

lemma din_addrs_again: "(di :: dinode)\<lparr>din_addrs := a, din_addrs := b\<rparr> = di\<lparr>din_addrs := b\<rparr>"
  by simp

lemma iappend_loop_run:
  assumes "img_inv A st" "A i = din_addrs di" "allocated (blk st) (A i) off" "off + length p \<le> MAXFILE * BSIZE"
    "unat (freeblock st) + blocks_left off (length p) + (if din_addrs di NDIRECT = 0 then 1 else 0) \<le> FSSIZE" "length p < fuel"
  shows "\<exists>a' st'. iappend_loop fuel p (of_nat off) di e st = Ok (of_nat (off + length p), di\<lparr>din_addrs := a'\<rparr>) e st'
     \<and> img_inv (A(i := a')) st' \<and> others_kept A i st st' \<and> allocated (blk st') a' (off + length p)
     \<and> file_bytes (blk st') a' (off + length p) = file_bytes (blk st) (A i) off @ p"
  using assms
proof (induction fuel arbitrary: A st di off p)
  case (Suc fuel)
  show ?case
  proof (cases "p = []")
    case True
    moreover have "A(i := din_addrs di) = A" using Suc.prems(2) by (metis fun_upd_triv)
    ultimately show ?thesis using Suc.prems by (intro exI [of _ "din_addrs di"] exI [of _ st]) (simp del: fun_upd_apply)
  next
    case False
    define n1 where "n1 = min (length p) ((off div BSIZE + 1) * BSIZE - off)"
    note st = blocks_left_step [OF False n1_def]
    have w: "unat (of_nat off :: u32) = off" using Suc.prems(4) by (intro maxfile_word) simp
    have "off < MAXFILE * BSIZE" using Suc.prems(4) False by (cases p) simp_all
    then have f: "off div BSIZE < MAXFILE" by (rule less_mult_imp_div_less)
    have room: "unat (freeblock st) + 1 + (if din_addrs di NDIRECT = 0 then 1 else 0) \<le> FSSIZE"
      using Suc.prems(5) st(1) by linarith
    have off: "off + n1 \<le> MAXFILE * BSIZE" using st(4) Suc.prems(4) by simp
    obtain x a' st1 st2 where r: "append_block di (off div BSIZE) e st = Ok (x, di\<lparr>din_addrs := a'\<rparr>) e st1"
      "rsect x e st1 = Ok (blk st1 x) e st1"
      "wsect x (\<lambda>i. if off mod BSIZE \<le> i \<and> i < off mod BSIZE + n1 then p ! (i - off mod BSIZE) else blk st1 x i) e st1 = Ok () e st2"
      "img_inv (A(i := a')) st2" "others_kept A i st st2" "allocated (blk st2) a' (off + n1)"
      "file_bytes (blk st2) a' (off + n1) = file_bytes (blk st) (A i) off @ take n1 p"
      "unat (freeblock st2) + (if a' NDIRECT = 0 then 1 else 0) \<le> unat (freeblock st) + 1 + (if din_addrs di NDIRECT = 0 then 1 else 0)"
      using append_round [OF Suc.prems(1-3) st(4,2,3) off room] by blast
    obtain a2 st3 where i: "iappend_loop fuel (drop n1 p) (of_nat (off + n1)) (di\<lparr>din_addrs := a'\<rparr>) e st2
        = Ok (of_nat (off + n1 + length (drop n1 p)), di\<lparr>din_addrs := a2\<rparr>) e st3"
      "img_inv ((A(i := a'))(i := a2)) st3" "others_kept (A(i := a')) i st2 st3" "allocated (blk st3) a2 (off + n1 + length (drop n1 p))"
      "file_bytes (blk st3) a2 (off + n1 + length (drop n1 p)) = file_bytes (blk st2) a' (off + n1) @ drop n1 p"
    proof -
      have "(A(i := a')) i = din_addrs (di\<lparr>din_addrs := a'\<rparr>)" "allocated (blk st2) ((A(i := a')) i) (off + n1)" using r(6) by simp_all
      moreover have "off + n1 + length (drop n1 p) \<le> MAXFILE * BSIZE" "length (drop n1 p) < fuel"
        using st(2,4) Suc.prems(4,6) by simp_all
      moreover have "unat (freeblock st2) + blocks_left (off + n1) (length (drop n1 p))
          + (if din_addrs (di\<lparr>din_addrs := a'\<rparr>) NDIRECT = 0 then 1 else 0) \<le> FSSIZE"
        using r(8) st(1) Suc.prems(5) by simp
      ultimately have "\<exists>a2 st3. iappend_loop fuel (drop n1 p) (of_nat (off + n1)) (di\<lparr>din_addrs := a'\<rparr>) e st2
          = Ok (of_nat (off + n1 + length (drop n1 p)), (di\<lparr>din_addrs := a'\<rparr>)\<lparr>din_addrs := a2\<rparr>) e st3
        \<and> img_inv ((A(i := a'))(i := a2)) st3 \<and> others_kept (A(i := a')) i st2 st3
        \<and> allocated (blk st3) a2 (off + n1 + length (drop n1 p))
        \<and> file_bytes (blk st3) a2 (off + n1 + length (drop n1 p)) = file_bytes (blk st2) ((A(i := a')) i) (off + n1) @ drop n1 p"
        using Suc.IH [OF r(4)] by blast
      then show thesis using that unfolding fun_upd_same din_addrs_again by blast
    qed
    have n1': "min (length p) (BSIZE + off div BSIZE * BSIZE - off) = n1" by (simp add: n1_def)
    have n: "off + n1 + length (drop n1 p) = off + length p" using st(4) by simp
    have "iappend_loop (Suc fuel) p (of_nat off) di e st = Ok (of_nat (off + length p), di\<lparr>din_addrs := a2\<rparr>) e st3"
      using r(1-3) i(1) False f unfolding n by (simp add: Let_def w st(5) n1' cong: if_cong)
    moreover have "img_inv (A(i := a2)) st3" using i(2) by (simp only: fun_upd_upd)
    moreover have "others_kept A i st st3" using r(5) i(3) by (rule others_kept_trans)
    moreover have "file_bytes (blk st3) a2 (off + length p) = file_bytes (blk st) (A i) off @ p" using i(5) r(7) n by simp
    moreover have "allocated (blk st3) a2 (off + length p)" using i(4) n by simp
    ultimately show ?thesis by blast
  qed
qed simp

declare iappend_loop.simps [simp del]

subsection \<open>Inodes of the image\<close>

lemma slot_cong: "(\<And>k. k \<le> NDIRECT \<Longrightarrow> a k = b k) \<Longrightarrow> slot D a = slot D b"
  by (intro ext) (auto simp: slot_def)

lemma get_put_addrs:
  "get32 (put_addrs n off a d) (off + 4 * k) = (if k < n then a k else get32 d (off + 4 * k))"
proof (induction n)
  case (Suc n)
  have "k = n \<or> off + 4 * k + 4 \<le> off + 4 * n \<or> off + 4 * n + 4 \<le> off + 4 * k" by arith
  then show ?case using Suc by (auto simp: get32_other)
qed simp

lemma put_addrs_other:
  "off' + 4 \<le> off \<or> off + 4 * n \<le> off' \<Longrightarrow> get32 (put_addrs n off a d) off' = get32 d off'"
  "off' + 2 \<le> off \<or> off + 4 * n \<le> off' \<Longrightarrow> get16 (put_addrs n off a d) off' = get16 d off'"
  by (induction n) (auto simp: get32_other get16_put32)

lemma get_store_dinode:
  "get_dinode off (store_dinode off di d) = di\<lparr>din_addrs := (\<lambda>k. if k < NDIRECT + 1 then din_addrs di k else 0)\<rparr>"
  unfolding get_dinode_def store_dinode_def
  by (rule dinode.equality) (simp_all add: get_put_addrs put_addrs_other get16_put32 get16_other get32_put16 get32_other fun_eq_iff
      del: put_addrs.simps)

lemma get_store_other:
  "off' + 64 \<le> off \<or> off + 64 \<le> off' \<Longrightarrow> get_dinode off' (store_dinode off di d) = get_dinode off' d"
  unfolding get_dinode_def store_dinode_def
  by (rule dinode.equality) (auto simp: NDIRECT_def put_addrs_other get16_put32 get16_other get32_put16 get32_other fun_eq_iff
      simp del: put_addrs.simps)

definition inode_at :: "mkfs_state \<Rightarrow> u32 \<Rightarrow> dinode" where
  "inode_at st i = get_dinode (dinode_off i) (blk st (IBLOCK i the_sb))"

definition addrs_at :: "mkfs_state \<Rightarrow> u32 \<Rightarrow> nat \<Rightarrow> u32" where
  "addrs_at st i = (if unat i < NINODES then din_addrs (inode_at st i) else (\<lambda>_. 0))"

definition image_ok :: "mkfs_state \<Rightarrow> bool" where
  "image_ok st \<longleftrightarrow> img_inv (addrs_at st) st
     \<and> (\<forall>i. unat i < NINODES \<longrightarrow> allocated (blk st) (addrs_at st i) (unat (din_size (inode_at st i))))"

definition contents :: "mkfs_state \<Rightarrow> u32 \<Rightarrow> u8 list" where
  "contents st i = file_bytes (blk st) (addrs_at st i) (unat (din_size (inode_at st i)))"

lemma nmeta_val: "nmeta = 46"
  by (simp add: nmeta_def mk_nlog_def LOGSIZE_def MAXOPBLOCKS_def ninodeblocks_def NINODES_def IPB_def BSIZE_def
      sizeof_dinode_def nbitmap_def FSSIZE_def)

lemma inode_block:
  assumes "unat i < NINODES"
  shows "unat (IBLOCK i the_sb) = unat i div IPB + 32" "unat (IBLOCK i the_sb) < nmeta"
  using assms by (simp_all add: IBLOCK_def the_sb_def mk_nlog_def LOGSIZE_def MAXOPBLOCKS_def IPB_def BSIZE_def sizeof_dinode_def
      NINODES_def nmeta_val ninodeblocks_def unat_word_ariths unat_div)

lemma inode_apart:
  assumes "unat i < NINODES" "unat j < NINODES" "i \<noteq> j"
  shows "IBLOCK i the_sb \<noteq> IBLOCK j the_sb \<or> dinode_off j + 64 \<le> dinode_off i \<or> dinode_off i + 64 \<le> dinode_off j"
proof (rule disjCI)
  assume "\<not> (dinode_off j + 64 \<le> dinode_off i \<or> dinode_off i + 64 \<le> dinode_off j)"
  then have m: "unat i mod IPB = unat j mod IPB" by (simp add: dinode_off_def sizeof_dinode_def IPB_def BSIZE_def)
  show "IBLOCK i the_sb \<noteq> IBLOCK j the_sb"
  proof
    assume "IBLOCK i the_sb = IBLOCK j the_sb"
    then have "unat i div IPB = unat j div IPB" using inode_block(1) [OF assms(1)] inode_block(1) [OF assms(2)] by simp
    then have "unat i = unat j" using m by (metis div_mult_mod_eq)
    then show False using assms(3) by (simp add: word_unat_eq_iff)
  qed
qed

lemma winode_run:
  assumes "unat i < NINODES" "nsect st = FSSIZE" "mk_sb st = the_sb"
  shows "winode i di e st = Ok () e (st\<lparr>img := (img st)(unat (IBLOCK i the_sb) := store_dinode (dinode_off i) di (blk st (IBLOCK i the_sb)))\<rparr>)"
proof -
  have "unat (IBLOCK i the_sb) < FSSIZE" using inode_block(2) [OF assms(1)]
    by (simp add: nmeta_val FSSIZE_def)
  then show ?thesis using assms by (simp add: winode_def rsect_run wsect_run)
qed

lemma rinode_run:
  assumes "unat i < NINODES" "nsect st = FSSIZE" "mk_sb st = the_sb"
  shows "rinode i e st = Ok (inode_at st i) e st"
proof -
  have "unat (IBLOCK i the_sb) < FSSIZE" using inode_block(2) [OF assms(1)]
    by (simp add: nmeta_val FSSIZE_def)
  then show ?thesis using assms by (simp add: rinode_def rsect_run inode_at_def)
qed

text \<open>Writing an inode changes no block of a file and no other inode.\<close>

lemma winode_keeps:
  assumes i: "unat i < NINODES" and st': "st' = st\<lparr>img := (img st)(unat (IBLOCK i the_sb) := store_dinode (dinode_off i) di (blk st (IBLOCK i the_sb)))\<rparr>"
  shows "inode_at st' i = di\<lparr>din_addrs := (\<lambda>k. if k < NDIRECT + 1 then din_addrs di k else 0)\<rparr>"
    "unat j < NINODES \<Longrightarrow> j \<noteq> i \<Longrightarrow> inode_at st' j = inode_at st j"
    "nmeta \<le> unat b \<Longrightarrow> blk st' b = blk st b"
proof -
  have b: "blk st' = (blk st)(IBLOCK i the_sb := store_dinode (dinode_off i) di (blk st (IBLOCK i the_sb)))" by (simp add: st')
  show "inode_at st' i = di\<lparr>din_addrs := (\<lambda>k. if k < NDIRECT + 1 then din_addrs di k else 0)\<rparr>"
    by (simp add: inode_at_def b get_store_dinode)
  show "inode_at st' j = inode_at st j" if "unat j < NINODES" "j \<noteq> i"
    using inode_apart [OF i that(1)] that(2) by (auto simp: inode_at_def b get_store_other)
  show "blk st' b = blk st b" if "nmeta \<le> unat b" for b using inode_block(2) [OF i] that by (auto simp: b)
qed

text \<open>Slots and bytes depend on the blocks that the file owns only.\<close>

lemma img_inv_transfer:
  assumes inv: "img_inv A st" and st': "nsect st' = nsect st" "mk_sb st' = mk_sb st" "freeblock st' = freeblock st"
    and blk: "\<And>b. nmeta \<le> unat b \<Longrightarrow> blk st' b = blk st b"
    and A: "\<And>i k. k \<le> NDIRECT \<Longrightarrow> A' i k = A i k"
  shows "img_inv A' st'" "slot (blk st') (A' i) = slot (blk st) (A i)"
    "allocated (blk st) (A i) n \<Longrightarrow> file_bytes (blk st') (A' i) n = file_bytes (blk st) (A i) n"
proof -
  have L: "links (\<lambda>i. slot (blk st) (A i)) (unat (freeblock st))" using inv by (simp add: img_inv_def)
  have slot: "slot (blk st') (A' i) = slot (blk st) (A i)" for i
  proof -
    have "nmeta \<le> unat (A i NDIRECT)" if "A i NDIRECT \<noteq> 0"
      using links_bound [OF L, of NDIRECT i] that by (simp add: NSLOTS_def)
    then have "slot (blk st') (A i) = slot (blk st) (A i)" using blk by (intro ext) (auto simp: slot_def)
    then show ?thesis using slot_cong [of "A' i" "A i"] A by metis
  qed
  then show "slot (blk st') (A' i) = slot (blk st) (A i)" .
  show "img_inv A' st'" using inv st' blk unfolding img_inv_def slot by auto
  show "file_bytes (blk st') (A' i) n = file_bytes (blk st) (A i) n" if al: "allocated (blk st) (A i) n"
  proof (rule file_bytes_cong)
    fix k assume k: "k < n"
    let ?g = "data_slot (k div BSIZE)"
    have "k div BSIZE * BSIZE < n" using k by (metis div_times_less_eq_dividend order.strict_trans1)
    then have "slot (blk st) (A i) ?g \<noteq> 0" "?g < NSLOTS"
      using al k by (auto simp: allocated_def less_mult_imp_div_less intro!: data_slot_less)
    then have "blk st' (slot (blk st) (A i) ?g) = blk st (slot (blk st) (A i) ?g)"
      using links_bound [OF L, of ?g i] blk by simp
    then show "file_byte (blk st') (A' i) k = file_byte (blk st) (A i) k" by (simp add: file_byte_def slot)
  qed
qed

lemma others_contents:
  assumes "others_kept A i st st'" "j \<noteq> i" "allocated (blk st) (A j) n"
  shows "file_bytes (blk st') (A j) n = file_bytes (blk st) (A j) n" "allocated (blk st') (A j) n"
proof -
  show "file_bytes (blk st') (A j) n = file_bytes (blk st) (A j) n"
  proof (rule file_bytes_cong)
    fix k assume "k < n"
    then show "file_byte (blk st') (A j) k = file_byte (blk st) (A j) k"
      using allocated_slot [OF assms(3)] assms(1,2) unfolding file_byte_def others_kept_def by auto
  qed
  show "allocated (blk st') (A j) n"
    using assms(1,2) by (intro allocated_cong [OF assms(3)]) (auto simp: others_kept_def)
qed

lemma iappend_run:
  assumes ok: "image_ok st" and i: "unat i < NINODES"
    and size: "unat (din_size (inode_at st i)) + length p \<le> MAXFILE * BSIZE"
    and room: "unat (freeblock st) + blocks_left (unat (din_size (inode_at st i))) (length p) + 1 \<le> FSSIZE"
  obtains st' where "iappend i p e st = Ok () e st'" "image_ok st'" "contents st' i = contents st i @ p"
    "\<And>j. unat j < NINODES \<Longrightarrow> j \<noteq> i \<Longrightarrow> contents st' j = contents st j \<and> inode_at st' j = inode_at st j"
    "din_type (inode_at st' i) = din_type (inode_at st i)"
proof -
  let ?di = "inode_at st i" and ?A = "addrs_at st"
  define off where "off = unat (din_size ?di)"
  have inv: "img_inv ?A st" and al: "\<And>j. unat j < NINODES \<Longrightarrow> allocated (blk st) (?A j) (unat (din_size (inode_at st j)))"
    using ok by (auto simp: image_ok_def)
  have sec: "nsect st = FSSIZE" "mk_sb st = the_sb" using inv by (auto simp: img_inv_def)
  have Ai: "?A i = din_addrs ?di" using i by (simp add: addrs_at_def)
  have off': "(of_nat off :: u32) = din_size ?di" by (simp add: off_def)
  have room': "unat (freeblock st) + blocks_left off (length p) + (if din_addrs ?di NDIRECT = 0 then 1 else 0) \<le> FSSIZE"
    using room by (simp add: off_def)
  obtain a st1 where l: "iappend_loop (Suc (length p)) p (of_nat off) ?di e st = Ok (of_nat (off + length p), ?di\<lparr>din_addrs := a\<rparr>) e st1"
    "img_inv (?A(i := a)) st1" "others_kept ?A i st st1" "allocated (blk st1) a (off + length p)"
    "file_bytes (blk st1) a (off + length p) = file_bytes (blk st) (?A i) off @ p"
    using iappend_loop_run [OF inv Ai al [OF i, folded off_def] size [folded off_def] room' lessI, of e] by blast
  have sec1: "nsect st1 = FSSIZE" "mk_sb st1 = the_sb" using l(2) by (auto simp: img_inv_def)
  let ?di' = "?di\<lparr>din_addrs := a, din_size := of_nat (off + length p)\<rparr>"
  define st' where "st' = st1\<lparr>img := (img st1)(unat (IBLOCK i the_sb) := store_dinode (dinode_off i) ?di' (blk st1 (IBLOCK i the_sb)))\<rparr>"
  note w = winode_keeps [OF i st'_def]
  have run: "iappend i p e st = Ok () e st'"
    using l(1) rinode_run [OF i sec, of e] winode_run [OF i sec1, of ?di' e] unfolding off' st'_def by (simp add: iappend_def)
  have same: "inode_at st' j = inode_at st j" if "unat j < NINODES" "j \<noteq> i" for j
    using w(2) [OF that] l(3) inode_block(2) [OF that(1)] by (simp add: inode_at_def others_kept_def)
  have A': "addrs_at st' j k = (?A(i := a)) j k" if "k \<le> NDIRECT" for j k
    using same [of j] w(1) i that by (cases "j = i") (auto simp: addrs_at_def)
  have t: "img_inv (addrs_at st') st'" "\<And>j. slot (blk st') (addrs_at st' j) = slot (blk st1) ((?A(i := a)) j)"
    "\<And>j n. allocated (blk st1) ((?A(i := a)) j) n \<Longrightarrow> file_bytes (blk st') (addrs_at st' j) n = file_bytes (blk st1) ((?A(i := a)) j) n"
    using img_inv_transfer [OF l(2) _ _ _ w(3) A'] by (simp_all add: st'_def)
  have "din_size (inode_at st' i) = of_nat (off + length p)" unfolding w(1) by simp
  then have size': "unat (din_size (inode_at st' i)) = off + length p" using size maxfile_word [of "off + length p"] by (simp only: off_def)
  have "contents st' i = contents st i @ p"
    using t(3) [of i] l(4,5) size' by (simp add: contents_def off_def)
  moreover have "contents st' j = contents st j" if j: "unat j < NINODES" "j \<noteq> i" for j
    using t(3) [of j] others_contents [OF l(3) j(2) al [OF j(1)]] j same [OF j] by (simp add: contents_def)
  moreover have "allocated (blk st') (addrs_at st' j) (unat (din_size (inode_at st' j)))" if j: "unat j < NINODES" for j
  proof (cases "j = i")
    case True
    then show ?thesis using t(2) [of i] l(4) size' by (auto intro: allocated_cong)
  next
    case False
    then show ?thesis using t(2) [of j] others_contents(2) [OF l(3) False al [OF j]] same [OF j False] by (auto intro: allocated_cong)
  qed
  ultimately show thesis using run t(1) same w(1) by (intro that [of st']) (auto simp: image_ok_def)
qed

subsection \<open>A new image\<close>

definition blank_image :: mkfs_state where
  "blank_image = \<lparr>img = (\<lambda>b. if b = 1 then store_sb the_sb else (\<lambda>_. 0)), nsect = FSSIZE, mk_sb = the_sb, freeinode = 1,
     freeblock = of_nat nmeta\<rparr>"

lemma wsect_eq: "wsect b v e st = Ok () e (st\<lparr>img := (img st)(sector b := v), nsect := max (nsect st) (Suc (sector b))\<rparr>)"
  by (simp add: wsect_def)

lemma freeblock_blank: "unat (freeblock blank_image) = 46"
  by (simp add: blank_image_def nmeta_val)

lemma zero_sectors:
  assumes "n \<le> FSSIZE"
  shows "for_each [0..<n] (\<lambda>i. wsect (of_nat i) (\<lambda>_. 0)) e st
     = Ok () e (st\<lparr>img := (\<lambda>b. if b < n then (\<lambda>_. 0) else img st b), nsect := max (nsect st) n\<rparr>)"
  using assms
proof (induction n)
  case (Suc n)
  have "unat (of_nat n :: u32) = n" using Suc.prems by (simp add: FSSIZE_def unat_of_nat)
  then have "sector (of_nat n) = n" using Suc.prems by (subst sector_small) (simp_all add: FSSIZE_def)
  then show ?case using Suc by (simp add: for_each_append wsect_eq) (auto simp: fun_eq_iff)
qed simp

lemma mk_format_run:
  "mk_format e \<lparr>img = (\<lambda>_ _. 0), nsect = 0, mk_sb = b, freeinode = 1, freeblock = 0\<rparr> = Ok () e blank_image"
proof -
  have "sector 1 = 1" by (simp add: sector_small)
  then show ?thesis
    by (simp add: mk_format_def zero_sectors [OF order.refl] wsect_eq blank_image_def) (simp add: fun_eq_iff FSSIZE_def)
qed

lemma blank_inodes: "unat i < NINODES \<Longrightarrow> inode_at blank_image i = \<lparr>din_type = 0, din_major = 0, din_minor = 0, din_nlink = 0, din_size = 0, din_addrs = (\<lambda>_. 0)\<rparr>"
  using inode_block(1) [of i] by (simp add: inode_at_def blk_def blank_image_def get_dinode_def get16_def cong: if_cong)

lemma blank_image_ok: "image_ok blank_image"
proof -
  have a: "addrs_at blank_image i = (\<lambda>_. 0)" for i by (simp add: addrs_at_def blank_inodes)
  have s: "slot D (\<lambda>_. 0) k = 0" for D k by (simp add: slot_def)
  have "links (\<lambda>i. slot (blk blank_image) (addrs_at blank_image i)) n" for n by (simp add: links_def a s)
  moreover have "nsect blank_image = FSSIZE" "mk_sb blank_image = the_sb"
    by (simp_all add: blank_image_def)
  moreover have "blk blank_image b = (\<lambda>_. 0)" if "46 \<le> unat b" for b using that by (simp add: blk_def blank_image_def)
  ultimately have "img_inv (addrs_at blank_image) blank_image" by (simp add: img_inv_def nmeta_val FSSIZE_def freeblock_blank)
  then show ?thesis by (simp add: image_ok_def blank_inodes allocated_def)
qed

text \<open>
  C35. \<open>iappend\<close> of \<open>mkfs\<close> appends its bytes to the file of the inode, through the direct and the indirect blocks that
  it allocates, and leaves the contents of every other file as they are. No block is used twice, and this is so after
  every \<open>iappend\<close>. The file has to stay within the largest size, and the image has to have room for the blocks.
\<close>

theorem iappend_appends:
  assumes "image_ok st" "unat i < NINODES" "unat (din_size (inode_at st i)) + length p \<le> MAXFILE * BSIZE"
    "unat (freeblock st) + blocks_left (unat (din_size (inode_at st i))) (length p) + 1 \<le> FSSIZE"
  shows "\<exists>st'. iappend i p e st = Ok () e st' \<and> image_ok st' \<and> contents st' i = contents st i @ p
     \<and> (\<forall>j. unat j < NINODES \<and> j \<noteq> i \<longrightarrow> contents st' j = contents st j)"
  by (rule iappend_run [OF assms, of e]) blast

theorem iappend_appends_witness:
  "\<exists>st'. iappend 1 (replicate 2000 7) [] blank_image = Ok () [] st' \<and> image_ok st' \<and> contents st' 1 = replicate 2000 7"
  using iappend_appends [OF blank_image_ok, of 1 "replicate 2000 7" "[]"]
  by (auto simp: NINODES_def blank_inodes MAXFILE_def NDIRECT_def NINDIRECT_def BSIZE_def FSSIZE_def blocks_left_def
      contents_def file_bytes_def nmeta_val freeblock_blank)

end
