(* ===== verification/Spec2Isabelle.thy ===== *)
theory Spec2Isabelle
  imports Boot Csem Sigret Signal_Default Kthread_Run Console_Run Fs_Alloc Virtio_Run File_Tables Grep Uprogs Umalloc_Run Shell_Roundtrip Mkfs_Run
begin

text \<open>
  \<^bold>\<open>A model of the xv6-riscv kernel of this repository, its user programs and its image builder, and their correctness.\<close>

  The program is a small Unix for RISC-V: a kernel (\<open>kernel/\<close>) with physical and virtual memory, processes with kernel
  threads, signals and binary semaphores, a file system with a buffer cache and a write-ahead log, pipes, a console and a
  disk driver; programs and a library for user space (\<open>user/\<close>); and \<open>mkfs/mkfs.c\<close>, which builds the image of the
  file system on the host. User programs enter the kernel by system calls; the kernel reads the image that \<open>mkfs\<close> made.

  \<^bold>\<open>The form of the model.\<close> A function of the kernel with result type \<open>'a\<close> over a state of type \<open>'s\<close> is a
  value of type \<open>('s, 'a) M\<close> (\<open>Prelude\<close>): it maps the steps that other threads and devices take while the caller
  sleeps, and a state, to an outcome. \<open>Ok\<close> is a return; \<open>Panic\<close> a call of \<open>panic\<close>; \<open>Spin\<close> a wait for a spinlock that
  the only running thread holds itself; \<open>Blocked\<close> a thread that is asleep when the given steps are used up;
  \<open>Fault\<close> an access that C leaves undefined. The statements of the source are written with the combinators of
  \<open>Prelude\<close>, in the order of the source. The state is a chain of extensible records, one for each layer, so that a
  function has the state of its own layer and any extension of it. Integers have the width of the source.
  Structures that the code keeps in raw memory (free pages, page tables, trap frames, blocks on the disk, heap
  headers of user space) are bytes in the model too.

  \<^bold>\<open>Theories of the kernel.\<close>
  \<^item> \<open>Params\<close>, \<open>Memory\<close>: \<open>param.h\<close>, \<open>memlayout.h\<close>, \<open>riscv.h\<close>, \<open>string.c\<close>, loads and stores in byte memory.
  \<^item> \<open>Spinlock\<close>: \<open>spinlock.c\<close> on one hart, and the step relation \<open>spin_step\<close> of any number of harts, in which two harts
    never hold the same lock.
  \<^item> \<open>Kalloc\<close>: \<open>kalloc.c\<close>; the free list, and that pages are owned exclusively.
  \<^item> \<open>Vm\<close>, \<open>Vm_Table\<close>, \<open>Uvm\<close>, \<open>Ucopy\<close>, \<open>Ubyte\<close>: \<open>vm.c\<close>; what a page table means, that \<open>mappages\<close> and \<open>uvmalloc\<close> do
    what is asked or nothing, and that copies to and from user space are exact and stay inside the process.
  \<^item> \<open>Printf\<close>, \<open>Printf_Run\<close>: \<open>printf.c\<close>; numbers are printed so that they read back.
  \<^item> \<open>Proc\<close>, \<open>Process\<close>, \<open>Sched_Run\<close>: \<open>proc.h\<close> and \<open>proc.c\<close>; sleeping and waking up. \<open>Signal\<close>, \<open>Signal_Run\<close>,
    \<open>Signal_Default\<close>, \<open>Sigret\<close>: signals, their delivery, default actions and user handlers. \<open>Kthread\<close>, \<open>Kthread_Run\<close>:
    kernel threads, with three defects of that code. \<open>Bsem\<close>, \<open>Bsem_Run\<close>: binary semaphores.
  \<^item> \<open>Sleeplock\<close>, \<open>Sleeplock_Run\<close>: \<open>sleeplock.c\<close>.
  \<^item> \<open>Bio\<close>, \<open>Lru\<close>, \<open>Bio_Run\<close>: \<open>bio.c\<close>; the list of buffers, and the refinement of an abstract cache, whose rules
    (\<open>bread_rule\<close> and so on) are all that the layers above use.
  \<^item> \<open>Log\<close>, \<open>Log_Run\<close>, \<open>Log_Crash\<close>, \<open>Log_Tx\<close>: \<open>log.c\<close>; a crash at any disk write of a commit or of a recovery leaves the
    old or the new contents; transactions collect and commit.
  \<^item> \<open>Fs\<close>, \<open>Dir\<close>, \<open>Block_Bytes\<close>, \<open>File_Bytes\<close>, \<open>Fs_Read\<close>, \<open>Fs_Alloc\<close>: \<open>fs.c\<close>; reading a file, and allocating and freeing
    blocks inside a transaction.
  \<^item> \<open>Console\<close>, \<open>Console_Run\<close>, \<open>Pipe\<close>, \<open>Pipe_Run\<close>: \<open>console.c\<close>, \<open>uart.c\<close>, \<open>pipe.c\<close>, \<open>file.c\<close>; line editor and FIFO.
  \<^item> \<open>Virtio\<close>, \<open>Virtio_Run\<close>: \<open>virtio_disk.c\<close>; the driver has the effect that the buffer cache assumes of the disk.
  \<^item> \<open>Exec\<close>, \<open>Sysfile\<close>, \<open>Syscall\<close>, \<open>Trap\<close>, \<open>Boot\<close>: \<open>exec.c\<close>, \<open>syscall.c\<close>, \<open>sysfile.c\<close>, \<open>sysproc.c\<close>, \<open>trap.c\<close>,
    \<open>plic.c\<close>, \<open>start.c\<close>, \<open>main.c\<close>. \<open>File_Tables\<close>: the tables of open files.

  \<^bold>\<open>Interfaces.\<close> The locale \<open>slot_table\<close> (\<open>Slots\<close>) is the contract of a first-fit table; semaphores, open files, file
  descriptors and disk descriptors interpret it. The locale \<open>ring\<close> (\<open>Ring\<close>) is that of a ring buffer with free-running
  indices; pipe and console interpret it. \<open>Sample_File\<close> has a concrete state for evaluations.

  \<^bold>\<open>Theories of user space.\<close>
  \<^item> \<open>User\<close>: \<open>ulib.c\<close> and \<open>printf.c\<close>, over a record of system calls that is a parameter of all programs.
  \<^item> \<open>Umalloc\<close>, \<open>Umalloc_Run\<close>: \<open>umalloc.c\<close>; blocks are separate and keep their contents.
  \<^item> \<open>Csem\<close>: \<open>Csemaphore.c\<close>, as a step relation of its threads. \<open>Grep\<close>: \<open>grep.c\<close>; the matcher decides the language of
    the pattern. \<open>Uprogs\<close>: the small programs; \<open>wc\<close> counts. \<open>Shell\<close>, \<open>Shell_Run\<close>, \<open>Shell_Print\<close>, \<open>Shell_Roundtrip\<close>:
    \<open>sh.c\<close>; parsing ends, keeps the words and inverts printing.

  \<^bold>\<open>The image builder.\<close> \<open>Mkfs\<close>, \<open>Mkfs_Run\<close>: \<open>mkfs.c\<close>; files grow by what is appended and share no block. Below, the
  bytes that \<open>mkfs\<close> appends to a file are shown to be the bytes that the kernel reads from it.

  \<^bold>\<open>Bounds and fuel.\<close> Loops over lists and ranges are recursion over them. Where the source follows pointers or counts
  down a number that is not the recursion argument, the function has fuel, and the outcome for too little is a fault; the
  fuel is chosen in the definition as one more than the largest number of rounds (bytes left, buffers, descriptors), or it
  is an argument and the theorems say how much is enough (the parser of the shell, \<open>malloc\<close> and \<open>free\<close>). The loops
  that sleep run once for each step of the environment and once more. The scheduler runs for a given number of passes.

  \<^bold>\<open>Not modelled.\<close> The assembly files save registers and switch modes; their effect is part of the model of the context
  switch and of the trap entry. \<open>ramdisk.c\<close> is not part of the build. \<open>usertests.c\<close>, \<open>grind.c\<close>, \<open>forktest.c\<close>,
  \<open>stressfs.c\<close> and \<open>test.c\<close> are tests of the kernel. The system call stubs are generated by \<open>usys.pl\<close> during the build
  and are a parameter. Threads interleave where they sleep, at the steps of \<open>spin_step\<close> and of \<open>csem_step\<close>; other
  interleavings of harts inside the critical sections of different locks are not modelled.
\<close>

section \<open>The image of mkfs and the file system of the kernel\<close>

lemma file_bytes_addrs: "(\<And>k. k \<le> NDIRECT \<Longrightarrow> a k = b k) \<Longrightarrow> file_bytes D a n = file_bytes D b n"
  using slot_cong [of a b D] by (simp add: file_bytes_def file_byte_def)

lemma allocated_addrs: "(\<And>k. k \<le> NDIRECT \<Longrightarrow> a k = b k) \<Longrightarrow> allocated D a n = allocated D b n"
  using slot_cong [of a b D] by (simp add: allocated_def)

text \<open>The inode that \<open>ilock\<close> loads is the one that \<open>mkfs\<close> has stored.\<close>

lemma load_mkfs_inode:
  "k \<le> NDIRECT \<Longrightarrow> i_addrs (load_inode i (blk st (IBLOCK i the_sb)) x) k = din_addrs (inode_at st i) k"
  "i_size (load_inode i (blk st (IBLOCK i the_sb)) x) = din_size (inode_at st i)"
  "get16 (blk st (IBLOCK i the_sb)) (dinode_off i) = din_type (inode_at st i)"
  by (simp_all add: load_inode_def inode_at_def get_dinode_def)

lemma mkfs_read_back:
  assumes ok: "image_ok st" and i: "unat i < NINODES"
    and c: "cache_at d s c" "quiet c" "bc_view c = blk st" "sb s = the_sb"
    and ip: "i_dev (itable s ip) = d" "i_inum (itable s ip) = i" "1 \<le> i_ref (itable s ip)" "\<not> i_valid (itable s ip)"
      "\<not> sl_locked (sleeplocks s (InodeLock ip))" "din_type (inode_at st i) \<noteq> 0"
    and o: "off + n = unat (din_size (inode_at st i))"
  shows "\<exists>s' b'. seq (ilock (Some ip)) (readi ip (AtLocal b 0) (of_nat off) (of_nat n)) e s = Ok (int n, AtLocal b' n) e s'
     \<and> map b' [0..<n] = drop off (contents st i)"
proof -
  let ?di = "inode_at st i"
  obtain s1 where s1: "ilock (Some ip) e s = Ok () e s1" "cache_at d s1 c"
    "itable s1 ip = (load_inode i (blk st (IBLOCK i the_sb)) (itable s ip))\<lparr>i_valid := True\<rparr>"
    using ilock_loads [of d s c ip e] c ip load_mkfs_inode(3) [of st i] by auto
  have al: "allocated (blk st) (din_addrs ?di) (unat (din_size ?di))" using ok i by (auto simp: image_ok_def addrs_at_def)
  have a: "i_addrs (itable s1 ip) k = din_addrs ?di k" if "k \<le> NDIRECT" for k
    using load_mkfs_inode(1) [OF that] s1(3) by simp
  have z: "i_size (itable s1 ip) = din_size ?di" using load_mkfs_inode(2) s1(3) by simp
  have d: "i_dev (itable s1 ip) = d" using s1(3) ip(1) by (simp add: load_inode_def)
  have "unat (din_size ?di) < 2 ^ 32" using unsigned_less [of "din_size ?di"] by simp
  then have on: "off + n < 2 ^ 32" using o by simp
  then have u: "unat (of_nat off :: u32) = off" "unat (of_nat n :: u32) = n" by (simp_all add: unat_of_nat)
  have al1: "allocated (bc_view c) (i_addrs (itable s1 ip)) (unat (i_size (itable s1 ip)))"
    using al allocated_addrs [OF a, where D = "blk st"] by (simp add: z c(3))
  have "unat (of_nat off + of_nat n :: u32) = off + n" using u on by (simp add: unat_word_ariths)
  then have le: "(of_nat off :: u32) \<le> i_size (itable s1 ip)" "(of_nat off :: u32) \<le> of_nat off + of_nat n"
    using o u by (simp_all add: word_le_nat_alt z)
  have m: "min n (unat (i_size (itable s1 ip)) - off) = n" using o by (simp add: z)
  obtain s2 where s2: "readi ip (AtLocal b 0) (of_nat off) (of_nat n) e s1
      = Ok (int n, AtLocal (local_upd b 0 (\<lambda>j. file_byte (bc_view c) (i_addrs (itable s1 ip)) (off + j)) n) n) e s2"
    using readi_run [OF s1(2) c(2) d al1 le, of b e] unfolding u m by blast
  have "contents st i = file_bytes (bc_view c) (i_addrs (itable s1 ip)) (off + n)"
    using file_bytes_addrs [OF a, where D = "blk st"] i o by (simp add: contents_def addrs_at_def c(3))
  then have "map (local_upd b 0 (\<lambda>j. file_byte (bc_view c) (i_addrs (itable s1 ip)) (off + j)) n) [0..<n] = drop off (contents st i)"
    by (intro nth_equalityI) (simp_all add: local_upd_def file_bytes_def)
  then show ?thesis using s1(1) s2 by auto
qed

text \<open>
  C40. What \<open>mkfs\<close> writes the kernel reads: after \<open>mkfs\<close> has appended bytes to a file, a kernel whose buffer cache
  shows that image gets exactly these bytes when it locks the inode, which loads it from the image, and reads at the
  offset where they were appended.
\<close>

theorem kernel_reads_mkfs:
  assumes "image_ok st" "unat i < NINODES" "unat (din_size (inode_at st i)) + length p \<le> MAXFILE * BSIZE"
    "unat (freeblock st) + blocks_left (unat (din_size (inode_at st i))) (length p) + 1 \<le> FSSIZE" "din_type (inode_at st i) \<noteq> 0"
    "iappend i p e st = Ok () e st'" "cache_at d s c" "quiet c" "bc_view c = blk st'" "sb s = the_sb"
    "i_dev (itable s ip) = d" "i_inum (itable s ip) = i" "1 \<le> i_ref (itable s ip)" "\<not> i_valid (itable s ip)"
    "\<not> sl_locked (sleeplocks s (InodeLock ip))"
  shows "\<exists>s' b'. seq (ilock (Some ip)) (readi ip (AtLocal b 0) (din_size (inode_at st i)) (of_nat (length p))) e' s
      = Ok (int (length p), AtLocal b' (length p)) e' s' \<and> map b' [0..<length p] = p"
proof -
  obtain st1 where st1: "iappend i p e st = Ok () e st1" "image_ok st1" "contents st1 i = contents st i @ p"
    "din_type (inode_at st1 i) = din_type (inode_at st i)"
    using iappend_run [OF assms(1-4), of e] by blast
  have e: "st1 = st'" using st1(1) assms(6) by simp
  let ?off = "unat (din_size (inode_at st i))"
  have l: "length (contents st i) = ?off" "length (contents st' i) = unat (din_size (inode_at st' i))" by (simp_all add: contents_def)
  then have "?off + length p = unat (din_size (inode_at st' i))" using st1(3) e by simp
  then obtain s' b' where "seq (ilock (Some ip)) (readi ip (AtLocal b 0) (of_nat ?off) (of_nat (length p))) e' s
      = Ok (int (length p), AtLocal b' (length p)) e' s'" "map b' [0..<length p] = drop ?off (contents st' i)"
    using mkfs_read_back [of st' i d s c ip ?off "length p" b e'] st1(2,4) assms e by auto
  then show ?thesis using st1(3) l(1) e by auto
qed

text \<open>A file that has been allocated on a new image.\<close>

definition sample_image :: mkfs_state where
  "sample_image = blank_image\<lparr>img := (img blank_image)(32 := store_dinode 64
     \<lparr>din_type = T_FILE, din_major = 0, din_minor = 0, din_nlink = 1, din_size = 0, din_addrs = (\<lambda>_. 0)\<rparr> (\<lambda>_. 0))\<rparr>"

lemma sample_image_ok: "image_ok sample_image" "din_type (inode_at sample_image 1) = T_FILE" "din_size (inode_at sample_image 1) = 0"
  "unat (freeblock sample_image) = 46"
proof -
  have b: "IBLOCK 1 the_sb = 32" "dinode_off 1 = 64" "unat (1 :: u32) < NINODES"
    by (simp_all add: IBLOCK_def the_sb_def mk_nlog_def LOGSIZE_def MAXOPBLOCKS_def IPB_def BSIZE_def sizeof_dinode_def dinode_off_def NINODES_def)
  let ?di = "\<lparr>din_type = T_FILE, din_major = 0, din_minor = 0, din_nlink = 1, din_size = 0, din_addrs = (\<lambda>_. 0 :: u32)\<rparr>"
  have st: "sample_image = blank_image\<lparr>img := (img blank_image)(unat (IBLOCK 1 the_sb) := store_dinode (dinode_off 1) ?di (blk blank_image (IBLOCK 1 the_sb)))\<rparr>"
    by (simp add: sample_image_def b blk_def blank_image_def)
  note w = winode_keeps [OF b(3) st]
  have i: "inode_at sample_image 1 = ?di" using w(1) by (simp cong: if_cong)
  have j: "inode_at sample_image j = inode_at blank_image j" if "unat j < NINODES" "j \<noteq> 1" for j using w(2) that by blast
  have a: "addrs_at sample_image k = addrs_at blank_image k" for k
    using i j [of k] by (cases "k = 1") (simp_all add: addrs_at_def blank_inodes)
  have z: "din_size (inode_at sample_image k) = 0" if "unat k < NINODES" for k
    using i j [OF that] that by (cases "k = 1") (simp_all add: blank_inodes)
  have "img_inv (addrs_at blank_image) blank_image" using blank_image_ok by (simp add: image_ok_def)
  then have "img_inv (addrs_at sample_image) sample_image"
    by (rule img_inv_transfer(1)) (use w(3) a in \<open>simp_all add: sample_image_def\<close>)
  then show "image_ok sample_image" by (simp add: image_ok_def z allocated_def)
  show "din_type (inode_at sample_image 1) = T_FILE" "din_size (inode_at sample_image 1) = 0" using i by simp_all
  show "unat (freeblock sample_image) = 46" by (simp add: sample_image_def freeblock_blank)
qed

definition unread_inode :: inode where
  "unread_inode = sample_file_inode\<lparr>i_inum := 1, i_valid := False\<rparr>"

theorem kernel_reads_mkfs_witness:
  "\<exists>st' s' b'. iappend 1 (replicate 2000 7) [] sample_image = Ok () [] st'
     \<and> seq (ilock (Some 0)) (readi 0 (AtLocal (\<lambda>_. 0) 0) 0 2000) []
         ((sample_bio (blk st'))\<lparr>itable := (\<lambda>_. unread_inode), sb := the_sb\<rparr>)
       = Ok (2000, AtLocal b' 2000) [] s' \<and> map b' [0..<2000] = replicate 2000 7"
proof -
  let ?p = "replicate 2000 (7 :: u8)"
  have r: "unat (1 :: u32) < NINODES" "unat (din_size (inode_at sample_image 1)) + length ?p \<le> MAXFILE * BSIZE"
    "unat (freeblock sample_image) + blocks_left (unat (din_size (inode_at sample_image 1))) (length ?p) + 1 \<le> FSSIZE"
    "din_type (inode_at sample_image 1) \<noteq> 0"
    by (simp_all add: NINODES_def sample_image_ok MAXFILE_def NDIRECT_def NINDIRECT_def BSIZE_def FSSIZE_def blocks_left_def T_FILE_def)
  obtain st' where st': "iappend 1 ?p [] sample_image = Ok () [] st'"
    using iappend_run [OF sample_image_ok(1) r(1-3), of "[]"] by blast
  let ?s = "(sample_bio (blk st'))\<lparr>itable := (\<lambda>_. unread_inode), sb := the_sb\<rparr>"
  have c: "cache_at 1 ?s (fresh_cache (blk st'))" using sample_bio_cache by simp
  have "\<exists>s' b'. seq (ilock (Some 0)) (readi 0 (AtLocal (\<lambda>_. 0) 0) (din_size (inode_at sample_image 1)) (of_nat (length ?p))) [] ?s
      = Ok (int (length ?p), AtLocal b' (length ?p)) [] s' \<and> map b' [0..<length ?p] = ?p"
    by (rule kernel_reads_mkfs [OF sample_image_ok(1) r st' c quiet_fresh])
       (simp_all add: fresh_cache_def unread_inode_def sample_file_inode_def sample_bio_def)
  then show ?thesis using st' by (simp add: sample_image_ok)
qed

end
